(* ===== verification/Penguin_Prelude.thy ===== *)
theory Penguin_Prelude
  imports Main "HOL-Library.Word"
begin

unbundle bit_operations_syntax

text \<open>
  The prelude of the development: the machine types of the Rust sources, the outcome of a Rust
  computation (a value, an \<open>Err\<close> or a panic), the result of polling a future, and the
  big-endian integer accessors of the \<open>bytes\<close> traits \<open>Buf\<close> and \<open>BufMut\<close> that the frame
  codec and the SOCKS parsers share. The laws of these accessors are stated once, as the
  locale \<open>wire_int\<close>, and interpreted for every width the program uses. A second locale,
  \<open>step_system\<close>, carries the argument every state machine of the development needs:
  an invariant of the steps is an invariant of the reachable states. A third, \<open>refinement\<close>, carries labelled runs of
  a model to runs of its specification.
\<close>

section \<open>Machine types\<close>

type_synonym u8 = "8 word"
type_synonym u16 = "16 word"
type_synonym u32 = "32 word"
type_synonym u64 = "64 word"
type_synonym u128 = "128 word"
type_synonym bytes = "u8 list"

named_theorems outcome_simps \<open>evaluation of the outcome combinators\<close>
named_theorems wire_simps \<open>reading back what the big-endian writers wrote\<close>

section \<open>Outcomes of Rust computations\<close>

text \<open>
  \<open>Ok\<close> and \<open>Err\<close> are the two variants of Rust's \<open>Result\<close>; \<open>Panic\<close> is a computation
  that unwinds (a failed \<open>expect\<close>, \<open>assert!\<close>, a slice or \<open>Buf\<close> access out of range).
  \<open>obind\<close> is the \<open>?\<close> operator: it continues with the value of \<open>Ok\<close> only.
\<close>

datatype ('e, 'a) outcome = Ok 'a | Err 'e | Panic

primrec obind :: "('e, 'a) outcome \<Rightarrow> ('a \<Rightarrow> ('e, 'b) outcome) \<Rightarrow> ('e, 'b) outcome" where
  "obind (Ok x) f = f x"
| "obind (Err e) f = Err e"
| "obind Panic f = Panic"

primrec map_err :: "('e \<Rightarrow> 'f) \<Rightarrow> ('e, 'a) outcome \<Rightarrow> ('f, 'a) outcome" where
  "map_err g (Ok x) = Ok x"
| "map_err g (Err e) = Err (g e)"
| "map_err g Panic = Panic"

primrec expect :: "'a option \<Rightarrow> ('e, 'a) outcome" where
  "expect None = Panic"
| "expect (Some x) = Ok x"

primrec ok_or :: "'e \<Rightarrow> 'a option \<Rightarrow> ('e, 'a) outcome" where
  "ok_or e None = Err e"
| "ok_or e (Some x) = Ok x"

primrec outcome_ok :: "('e, 'a) outcome \<Rightarrow> 'a option" where
  "outcome_ok (Ok x) = Some x"
| "outcome_ok (Err e) = None"
| "outcome_ok Panic = None"

lemma obind_Ok_iff [outcome_simps]: "obind m f = Ok y \<longleftrightarrow> (\<exists>x. m = Ok x \<and> f x = Ok y)"
  by (cases m) auto

lemma obind_Err_iff [outcome_simps]:
  "obind m f = Err e \<longleftrightarrow> m = Err e \<or> (\<exists>x. m = Ok x \<and> f x = Err e)"
  by (cases m) auto

lemma obind_Panic_iff [outcome_simps]:
  "obind m f = Panic \<longleftrightarrow> m = Panic \<or> (\<exists>x. m = Ok x \<and> f x = Panic)"
  by (cases m) auto

lemma obind_assoc: "obind (obind m f) g = obind m (\<lambda>x. obind (f x) g)"
  by (cases m) auto

lemma obind_Ok_right [simp]: "obind m Ok = m"
  by (cases m) auto

lemma obind_cong [fundef_cong]:
  "m = m' \<Longrightarrow> (\<And>x. m' = Ok x \<Longrightarrow> f x = f' x) \<Longrightarrow> obind m f = obind m' f'"
  by (cases m') auto

lemma expect_Ok_iff [simp]: "expect x = Ok y \<longleftrightarrow> x = Some y"
  by (cases x) auto

lemma expect_not_Err [simp]: "expect x \<noteq> Err e"
  by (cases x) auto

lemma expect_Panic_iff [simp]: "expect x = Panic \<longleftrightarrow> x = None"
  by (cases x) auto

section \<open>Input and output errors\<close>

text \<open>
  \<open>std::io::ErrorKind\<close>: the kinds the sources name, and \<open>OtherIo\<close> for the others.
\<close>

datatype io_error =
    BrokenPipe
  | AddrNotAvailable
  | ConnectionRefused
  | ConnectionReset
  | HostUnreachable
  | NetworkUnreachable
  | ConnectionAborted
  | NotConnected
  | NetworkDown
  | TimedOut
  | UnexpectedEof
  | WriteZero
  | InvalidInput
  | OtherIo nat

section \<open>Polling\<close>

text \<open>The result of polling a future: \<open>Poll::Pending\<close> or \<open>Poll::Ready\<close>.\<close>

datatype 'a poll = Pending | Ready 'a

section \<open>Big-endian integers\<close>

text \<open>
  \<open>put_be n w\<close> writes the \<open>n\<close> low-order octets of \<open>w\<close>, the most significant first, as
  \<open>BufMut::put_u16\<close> and its kin do; \<open>be_nat\<close> is the number such a run of octets denotes and
  \<open>be_val\<close> the machine integer read back from it.
\<close>

primrec put_be :: "nat \<Rightarrow> 'a::len word \<Rightarrow> bytes" where
  "put_be 0 w = []"
| "put_be (Suc n) w = ucast (drop_bit (8 * n) w) # put_be n w"

definition be_nat :: "bytes \<Rightarrow> nat" where
  "be_nat bs = foldl (\<lambda>acc b. 256 * acc + unat b) 0 bs"

definition be_val :: "bytes \<Rightarrow> 'a::len word" where
  "be_val bs = word_of_nat (be_nat bs)"

definition get_be :: "nat \<Rightarrow> bytes \<Rightarrow> ('a::len word \<times> bytes) option" where
  "get_be n bs = (if length bs < n then None else Some (be_val (take n bs), drop n bs))"

definition put_u8 :: "u8 \<Rightarrow> bytes" where "put_u8 = put_be 1"
definition put_u16 :: "u16 \<Rightarrow> bytes" where "put_u16 = put_be 2"
definition put_u32 :: "u32 \<Rightarrow> bytes" where "put_u32 = put_be 4"
definition put_u128 :: "u128 \<Rightarrow> bytes" where "put_u128 = put_be 16"

definition get_u8 :: "bytes \<Rightarrow> (u8 \<times> bytes) option" where "get_u8 = get_be 1"
definition get_u16 :: "bytes \<Rightarrow> (u16 \<times> bytes) option" where "get_u16 = get_be 2"
definition get_u32 :: "bytes \<Rightarrow> (u32 \<times> bytes) option" where "get_u32 = get_be 4"
definition get_u128 :: "bytes \<Rightarrow> (u128 \<times> bytes) option" where "get_u128 = get_be 16"

text \<open>\<open>Bytes::split_to\<close>: panics when the index is past the end.\<close>

definition split_to :: "nat \<Rightarrow> bytes \<Rightarrow> ('e, bytes \<times> bytes) outcome" where
  "split_to n bs = (if n \<le> length bs then Ok (take n bs, drop n bs) else Panic)"

lemma length_put_be [simp]: "length (put_be n w) = n"
  by (induction n) auto

lemma unat_octet:
  fixes w :: "'a::len word"
  shows "unat (ucast (drop_bit (8 * n) w) :: u8) = unat w div 256 ^ n mod 256"
proof -
  have "unat (drop_bit (8 * n) w) = unat w div 256 ^ n"
    by (simp only: unat_drop_bit_eq) (simp add: drop_bit_eq_div power_mult)
  then show ?thesis by (simp only: unsigned_ucast_eq) (simp add: take_bit_eq_mod)
qed

lemma foldl_be_acc:
  "foldl (\<lambda>acc b. 256 * acc + unat b) a bs = a * 256 ^ length bs + be_nat bs"
proof (induction bs arbitrary: a rule: rev_induct)
  case Nil
  show ?case by (simp add: be_nat_def)
next
  case (snoc b bs)
  show ?case using snoc.IH [of a] by (simp add: be_nat_def)
qed

lemma be_nat_Cons: "be_nat (b # bs) = unat b * 256 ^ length bs + be_nat bs"
  using foldl_be_acc [of "unat b" bs] by (simp add: be_nat_def)

lemma be_nat_less: "be_nat bs < 256 ^ length bs"
proof (induction bs)
  case Nil
  show ?case by (simp add: be_nat_def)
next
  case (Cons b bs)
  have "unat b \<le> 255" using unsigned_less [of b, where ?'a = nat] by simp
  then have "unat b * 256 ^ length bs \<le> 255 * 256 ^ length bs" by (rule mult_le_mono1)
  with Cons.IH have "unat b * 256 ^ length bs + be_nat bs < 255 * 256 ^ length bs + 256 ^ length bs"
    by (rule add_le_less_mono [rotated])
  then show ?case by (simp add: be_nat_Cons)
qed

lemma be_nat_put_be: "be_nat (put_be n w) = unat w mod 256 ^ n"
proof (induction n)
  case 0
  show ?case by (simp add: be_nat_def)
next
  case (Suc n)
  have "unat w mod 256 ^ Suc n = 256 ^ n * (unat w div 256 ^ n mod 256) + unat w mod 256 ^ n"
    by (simp add: mod_mult2_eq mult.commute [of 256])
  then show ?case
    by (simp add: be_nat_Cons unat_octet Suc.IH)
qed

lemma be_val_put_be:
  fixes w :: "'a::len word"
  assumes "LENGTH('a) = 8 * n"
  shows "be_val (put_be n w) = w"
proof -
  have "unat w < 256 ^ n"
    using unsigned_less [of w, where ?'a = nat] assms by (simp add: power_mult)
  then show ?thesis by (simp add: be_val_def be_nat_put_be)
qed

lemma put_be_be_val:
  assumes "LENGTH('a::len) = 8 * n" and "length bs = n"
  shows "put_be n (be_val bs :: 'a word) = bs"
proof -
  have u: "unat (be_val bs :: 'a word) = be_nat bs"
    using be_nat_less [of bs] assms by (simp add: be_val_def unat_of_nat power_mult)
  have "put_be k (w :: 'a word) = bs'"
    if "length bs' = k" and "unat w mod 256 ^ k = be_nat bs'" for k bs' w
    using that
  proof (induction bs' arbitrary: k)
    case Nil
    then show ?case by simp
  next
    case (Cons b bs')
    then obtain m where k: "k = Suc m" and m: "length bs' = m" by (cases k) auto
    have e: "unat w mod (256 ^ m * 256) = unat b * 256 ^ m + be_nat bs'"
      using Cons.prems m by (simp add: k be_nat_Cons mult.commute)
    have lt: "be_nat bs' < 256 ^ m" using be_nat_less [of bs'] m by simp
    have d: "unat w div 256 ^ m mod 256 = unat b"
      using arg_cong [OF e, of "\<lambda>x. x div 256 ^ m"] lt by (simp add: mod_mult2_eq)
    have r: "unat w mod 256 ^ m = be_nat bs'"
      using arg_cong [OF e, of "\<lambda>x. x mod 256 ^ m"] lt by (simp add: mod_mult2_eq)
    from d have "ucast (drop_bit (8 * m) w) = b"
      by (metis unat_octet word_unat_eq_iff)
    then show ?case using Cons.IH [OF m r] by (simp add: k)
  qed
  from this [of bs n "be_val bs"] u assms be_nat_less [of bs] show ?thesis by simp
qed

section \<open>The interface of a fixed-width integer on the wire\<close>

text \<open>
  What a reader and a writer of one integer type promise: the writer emits a fixed number of
  octets, the reader takes exactly these off the front of a buffer, fails on a shorter
  buffer only, and loses nothing of what it read.
\<close>

locale wire_int =
  fixes put :: "'a \<Rightarrow> bytes" and get :: "bytes \<Rightarrow> ('a \<times> bytes) option" and width :: nat
  assumes length_put: "length (put x) = width"
    and get_put: "get (put x @ rest) = Some (x, rest)"
    and get_short: "length bs < width \<Longrightarrow> get bs = None"
    and put_get: "get bs = Some (x, rest) \<Longrightarrow> bs = put x @ rest"
    and get_long: "width \<le> length bs \<Longrightarrow> get bs \<noteq> None"
begin

lemma get_None_iff: "get bs = None \<longleftrightarrow> length bs < width"
  using get_short get_long by (meson not_le)

lemma get_Some_iff: "get bs = Some (x, rest) \<longleftrightarrow> bs = put x @ rest"
  using get_put put_get by blast

lemma get_length: "get bs = Some (x, rest) \<Longrightarrow> length bs = width + length rest"
  by (simp add: get_Some_iff length_put)

lemma get_exists: "width \<le> length bs \<Longrightarrow> \<exists>x rest. get bs = Some (x, rest) \<and> bs = put x @ rest"
  using get_long put_get by fastforce

lemma put_inject: "put x = put y \<longleftrightarrow> x = y"
proof
  assume "put x = put y"
  then have "get (put x @ []) = Some (y, [])" by (simp only: get_put)
  then show "x = y" by (simp only: get_put) simp
qed simp

end

lemma wire_int_be:
  assumes "LENGTH('a::len) = 8 * n"
  shows "wire_int (put_be n :: 'a word \<Rightarrow> bytes) (get_be n) n"
proof unfold_locales
  fix bs rest :: bytes and x :: "'a word"
  show "length (put_be n x) = n" by simp
  show "get_be n (put_be n x @ rest) = Some (x, rest)"
    using assms by (simp add: get_be_def be_val_put_be)
  show "length bs < n \<Longrightarrow> get_be n bs = None"
    by (simp add: get_be_def)
  show "get_be n bs = Some (x, rest) \<Longrightarrow> bs = put_be n x @ rest"
    using assms by (auto simp: get_be_def put_be_be_val split: if_splits)
  show "n \<le> length bs \<Longrightarrow> get_be n bs \<noteq> None"
    by (simp add: get_be_def)
qed

interpretation u8: wire_int put_u8 get_u8 1
  unfolding put_u8_def get_u8_def by (rule wire_int_be) simp

interpretation u16: wire_int put_u16 get_u16 2
  unfolding put_u16_def get_u16_def by (rule wire_int_be) simp

interpretation u32: wire_int put_u32 get_u32 4
  unfolding put_u32_def get_u32_def by (rule wire_int_be) simp

interpretation u128: wire_int put_u128 get_u128 16
  unfolding put_u128_def get_u128_def by (rule wire_int_be) simp

lemmas put_lengths [simp] = u8.length_put u16.length_put u32.length_put u128.length_put
lemmas get_puts [simp] = u8.get_put u16.get_put u32.get_put u128.get_put
lemmas get_Nones = u8.get_None_iff u16.get_None_iff u32.get_None_iff u128.get_None_iff
lemmas get_Somes = u8.get_Some_iff u16.get_Some_iff u32.get_Some_iff u128.get_Some_iff

lemma put_u8_eq [simp]: "put_u8 b = [b]"
  by (simp add: put_u8_def)

lemma get_u8_Cons [simp]: "get_u8 (b # bs) = Some (b, bs)"
  using u8.get_put [of b bs] by simp

lemma get_u8_Nil [simp]: "get_u8 [] = None"
  by (simp add: get_Nones)

text \<open>A \<open>Buf\<close> getter panics where the buffer is too short.\<close>

definition buf_get :: "(bytes \<Rightarrow> ('a \<times> bytes) option) \<Rightarrow> bytes \<Rightarrow> ('e, 'a \<times> bytes) outcome" where
  "buf_get g bs = expect (g bs)"

lemma buf_get_simps [simp]:
  "buf_get get_u8 (b # bs) = Ok (b, bs)"
  "buf_get get_u8 (put_u8 w @ bs) = Ok (w, bs)"
  "buf_get get_u16 (put_u16 x @ bs) = Ok (x, bs)"
  "buf_get get_u32 (put_u32 y @ bs) = Ok (y, bs)"
  "buf_get get_u128 (put_u128 z @ bs) = Ok (z, bs)"
  by (simp_all add: buf_get_def)

lemma buf_get_all_simps [simp]:
  "buf_get get_u16 (put_u16 x) = Ok (x, [])"
  "buf_get get_u32 (put_u32 y) = Ok (y, [])"
  "buf_get get_u128 (put_u128 z) = Ok (z, [])"
  using buf_get_simps(3) [of x "[]"] buf_get_simps(4) [of y "[]"] buf_get_simps(5) [of z "[]"]
  by simp_all

lemma buf_get_iffs [wire_simps]:
  "buf_get get_u8 data = Ok (a, r) \<longleftrightarrow> data = a # r"
  "buf_get get_u16 data = Ok (b, r) \<longleftrightarrow> data = put_u16 b @ r"
  "buf_get get_u32 data = Ok (c, r) \<longleftrightarrow> data = put_u32 c @ r"
  "buf_get get_u128 data = Ok (d, r) \<longleftrightarrow> data = put_u128 d @ r"
  by (simp_all add: buf_get_def get_Somes)

lemma buf_get_Panic_iffs [wire_simps]:
  "buf_get get_u8 data = Panic \<longleftrightarrow> data = []"
  "buf_get get_u16 data = Panic \<longleftrightarrow> length data < 2"
  "buf_get get_u32 data = Panic \<longleftrightarrow> length data < 4"
  "buf_get get_u128 data = Panic \<longleftrightarrow> length data < 16"
  by (simp_all add: buf_get_def get_Nones)

lemma buf_get_not_Err [simp]: "buf_get g data \<noteq> Err e"
  by (simp add: buf_get_def)

lemma split_to_Panic_iff [wire_simps]: "split_to n bs = Panic \<longleftrightarrow> length bs < n"
  by (auto simp: split_to_def)

lemma split_to_Ok_iff [wire_simps]:
  "split_to n bs = Ok (a, b) \<longleftrightarrow> bs = a @ b \<and> length a = n"
  by (auto simp: split_to_def)

lemma split_to_not_Err [simp]: "split_to n bs \<noteq> Err e"
  by (simp add: split_to_def)

lemma unat_u8_less [simp]: "unat (b :: u8) < 256"
  using unsigned_less [of b, where ?'a = nat] by simp

lemma word_split_bits:
  fixes w :: "'a::len word"
  shows "w = take_bit n w OR push_bit n (drop_bit n w)"
proof (rule bit_word_eqI)
  fix k
  assume "k < LENGTH('a)"
  then show "bit w k \<longleftrightarrow> bit (take_bit n w OR push_bit n (drop_bit n w)) k"
    by (cases "k < n") (auto simp: bit_simps)
qed

section \<open>Reachable states of a step system\<close>

text \<open>
  A component with state is an initial predicate and a step relation. \<open>reach\<close> is the set of
  states its runs visit; an invariant that holds initially and that every step keeps holds in
  all of them.
\<close>

inductive reach :: "('s \<Rightarrow> bool) \<Rightarrow> ('s \<Rightarrow> 's \<Rightarrow> bool) \<Rightarrow> 's \<Rightarrow> bool" for init step where
  reach_init: "init s \<Longrightarrow> reach init step s"
| reach_step: "reach init step s \<Longrightarrow> step s t \<Longrightarrow> reach init step t"

locale step_system =
  fixes init :: "'s \<Rightarrow> bool" and step :: "'s \<Rightarrow> 's \<Rightarrow> bool" and inv :: "'s \<Rightarrow> bool"
  assumes inv_init: "init s \<Longrightarrow> inv s"
    and inv_step: "inv s \<Longrightarrow> step s t \<Longrightarrow> inv t"
begin

lemma reach_inv: "reach init step s \<Longrightarrow> inv s"
proof (induction rule: reach.induct)
  case (reach_init s)
  then show ?case by (rule inv_init)
next
  case (reach_step s t)
  then show ?case by (blast intro: inv_step)
qed

lemma steps_inv: "step\<^sup>*\<^sup>* s t \<Longrightarrow> inv s \<Longrightarrow> inv t"
  by (induction rule: rtranclp_induct) (auto intro: inv_step)

end

section \<open>Labelled runs and refinement\<close>

inductive run :: "('l \<Rightarrow> 's \<Rightarrow> 's \<Rightarrow> bool) \<Rightarrow> 's \<Rightarrow> 'l list \<Rightarrow> 's \<Rightarrow> bool" for step where
  run_start: "run step s [] s"
| run_step: "run step s ls t \<Longrightarrow> step l t u \<Longrightarrow> run step s (ls @ [l]) u"

locale refinement =
  fixes cinit :: "'c \<Rightarrow> bool" and cstep :: "'l \<Rightarrow> 'c \<Rightarrow> 'c \<Rightarrow> bool" and inv :: "'c \<Rightarrow> bool"
    and astep :: "'l \<Rightarrow> 'a \<Rightarrow> 'a \<Rightarrow> bool" and abs :: "'c \<Rightarrow> 'a"
  assumes init_inv: "cinit s \<Longrightarrow> inv s"
    and step_inv: "inv s \<Longrightarrow> cstep l s t \<Longrightarrow> inv t"
    and simulates: "inv s \<Longrightarrow> cstep l s t \<Longrightarrow> astep l (abs s) (abs t)"
begin

lemma run_refines: "run cstep s ls t \<Longrightarrow> cinit s \<Longrightarrow> inv t \<and> run astep (abs s) ls (abs t)"
proof (induction rule: run.induct)
  case (run_start s)
  then show ?case by (simp add: init_inv run.run_start)
next
  case (run_step s ls t l u)
  then have "inv t" "run astep (abs s) ls (abs t)" by simp_all
  with run_step.hyps(2) show ?case using step_inv simulates run.run_step by metis
qed

end

end
