(* ===== verification/Frame.thy ===== *)
theory Frame
  imports Penguin_Prelude
begin

unbundle bit_operations_syntax

text \<open>
  The wire format: \<open>src/src/mux/frame.rs\<close> and the version constants of
  \<open>src/src/mux/proto_version.rs\<close>. The theory holds the frame data types, the constructors
  \<open>Frame::new_*\<close>, the encoder \<open>From<&Frame> for Vec<u8>\<close>, the decoder
  \<open>TryFrom<Bytes> for Frame\<close> and \<open>FinalizedFrame\<close>; then the codec's laws: the decoder never
  panics, it inverts the encoder exactly where it can, and it is classified on every input.
  The model is the release build: \<open>debug_assert!\<close> has no effect.
\<close>

section \<open>Data\<close>

definition PROTOCOL_VERSION :: string where
  "PROTOCOL_VERSION = ''penguin-v7''"

definition PROTOCOL_VERSION_NUMBER :: u8 where
  "PROTOCOL_VERSION_NUMBER = 7"

datatype frame_error = FrameTooShort | FrameVersion u8 | InvalidOpCode u8 | InvalidBindType u8

text \<open>\<open>CowBytes\<close>: borrowed or owned octets; Rust's \<open>==\<close> on it compares the octets only.\<close>

datatype cow_bytes = Borrowed bytes | Owned bytes

primrec cow_as_ref :: "cow_bytes \<Rightarrow> bytes" where
  "cow_as_ref (Borrowed data) = data"
| "cow_as_ref (Owned data) = data"

definition cow_eq :: "cow_bytes \<Rightarrow> cow_bytes \<Rightarrow> bool" where
  "cow_eq a b \<longleftrightarrow> cow_as_ref a = cow_as_ref b"

primrec cow_dupe :: "cow_bytes \<Rightarrow> cow_bytes" where
  "cow_dupe (Borrowed data) = Borrowed data"
| "cow_dupe (Owned data) = Owned data"

definition cow_default :: cow_bytes where
  "cow_default = Borrowed []"

primrec cow_into_owned :: "cow_bytes \<Rightarrow> bytes" where
  "cow_into_owned (Borrowed data) = data"
| "cow_into_owned (Owned data) = data"

primrec cow_len :: "cow_bytes \<Rightarrow> nat" where
  "cow_len (Borrowed data) = length data"
| "cow_len (Owned data) = length data"

datatype bind_type = BindStream | BindDatagram

definition bind_type_code :: "bind_type \<Rightarrow> u8" where
  "bind_type_code t = (case t of BindStream \<Rightarrow> 1 | BindDatagram \<Rightarrow> 3)"

definition bind_type_try_from :: "u8 \<Rightarrow> (frame_error, bind_type) outcome" where
  "bind_type_try_from v =
     (if v = 1 then Ok BindStream else if v = 3 then Ok BindDatagram else Err (InvalidBindType v))"

datatype op_code = OpConnect | OpAcknowledge | OpReset | OpFinish | OpPush | OpBind | OpDatagram

definition op_code_byte :: "op_code \<Rightarrow> u8" where
  "op_code_byte c = (case c of OpConnect \<Rightarrow> 0 | OpAcknowledge \<Rightarrow> 1 | OpReset \<Rightarrow> 2 | OpFinish \<Rightarrow> 3
     | OpPush \<Rightarrow> 4 | OpBind \<Rightarrow> 5 | OpDatagram \<Rightarrow> 6)"

definition op_code_try_from :: "u8 \<Rightarrow> (frame_error, op_code) outcome" where
  "op_code_try_from v =
     (if v = 0 then Ok OpConnect else if v = 1 then Ok OpAcknowledge else if v = 2 then Ok OpReset
      else if v = 3 then Ok OpFinish else if v = 4 then Ok OpPush else if v = 5 then Ok OpBind
      else if v = 6 then Ok OpDatagram else Err (InvalidOpCode v))"

record connect_payload =
  cp_rwnd :: u32
  cp_target_port :: u16
  cp_target_host :: cow_bytes

record bind_payload =
  bp_bind_type :: bind_type
  bp_target_port :: u16
  bp_target_host :: cow_bytes

record datagram_payload =
  dp_target_port :: u16
  dp_target_host :: cow_bytes
  dp_data :: cow_bytes

datatype payload =
    Connect connect_payload
  | Acknowledge u32
  | Reset
  | Finish
  | Push cow_bytes
  | Bind bind_payload
  | Datagram datagram_payload

definition payload_len :: "payload \<Rightarrow> nat" where
  "payload_len p = (case p of
       Connect c \<Rightarrow> 4 + 2 + cow_len (cp_target_host c)
     | Acknowledge _ \<Rightarrow> 4
     | Reset \<Rightarrow> 0
     | Finish \<Rightarrow> 0
     | Push data \<Rightarrow> cow_len data
     | Bind b \<Rightarrow> 1 + 2 + cow_len (bp_target_host b)
     | Datagram d \<Rightarrow> 1 + 2 + cow_len (dp_target_host d) + cow_len (dp_data d))"

definition op_code_of :: "payload \<Rightarrow> op_code" where
  "op_code_of p = (case p of Connect _ \<Rightarrow> OpConnect | Acknowledge _ \<Rightarrow> OpAcknowledge
     | Reset \<Rightarrow> OpReset | Finish \<Rightarrow> OpFinish | Push _ \<Rightarrow> OpPush | Bind _ \<Rightarrow> OpBind
     | Datagram _ \<Rightarrow> OpDatagram)"

record frame =
  frame_id :: u32
  frame_payload :: payload

section \<open>Constructors\<close>

definition new_connect :: "bytes \<Rightarrow> u16 \<Rightarrow> u32 \<Rightarrow> u32 \<Rightarrow> frame" where
  "new_connect target_host target_port i rwnd =
     \<lparr>frame_id = i, frame_payload = Connect \<lparr>cp_rwnd = rwnd, cp_target_port = target_port,
        cp_target_host = Borrowed target_host\<rparr>\<rparr>"

definition new_acknowledge :: "u32 \<Rightarrow> u32 \<Rightarrow> frame" where
  "new_acknowledge i psh_recvd_since =
     \<lparr>frame_id = i, frame_payload = Acknowledge psh_recvd_since\<rparr>"

definition new_reset :: "u32 \<Rightarrow> frame" where
  "new_reset i = \<lparr>frame_id = i, frame_payload = Reset\<rparr>"

definition new_finish :: "u32 \<Rightarrow> frame" where
  "new_finish i = \<lparr>frame_id = i, frame_payload = Finish\<rparr>"

definition new_push :: "u32 \<Rightarrow> bytes \<Rightarrow> frame" where
  "new_push i data = \<lparr>frame_id = i, frame_payload = Push (Borrowed data)\<rparr>"

definition new_push_owned :: "u32 \<Rightarrow> bytes \<Rightarrow> frame" where
  "new_push_owned i data = \<lparr>frame_id = i, frame_payload = Push (Owned data)\<rparr>"

definition new_bind :: "u32 \<Rightarrow> bind_type \<Rightarrow> bytes \<Rightarrow> u16 \<Rightarrow> frame" where
  "new_bind i bind_type target_host target_port =
     \<lparr>frame_id = i, frame_payload = Bind \<lparr>bp_bind_type = bind_type, bp_target_port = target_port,
        bp_target_host = Borrowed target_host\<rparr>\<rparr>"

definition new_datagram :: "u32 \<Rightarrow> bytes \<Rightarrow> u16 \<Rightarrow> bytes \<Rightarrow> frame" where
  "new_datagram i target_host target_port data =
     \<lparr>frame_id = i, frame_payload = Datagram \<lparr>dp_target_port = target_port,
        dp_target_host = Borrowed target_host, dp_data = Borrowed data\<rparr>\<rparr>"

definition new_datagram_owned :: "u32 \<Rightarrow> bytes \<Rightarrow> u16 \<Rightarrow> bytes \<Rightarrow> frame" where
  "new_datagram_owned i target_host target_port data =
     \<lparr>frame_id = i, frame_payload = Datagram \<lparr>dp_target_port = target_port,
        dp_target_host = Owned target_host, dp_data = Owned data\<rparr>\<rparr>"

section \<open>Encoding\<close>

text \<open>
  The encoder has no error value: it either returns octets or panics, which is \<open>None\<close> here.
  \<open>u8::try_from(len).expect(..)\<close> panics on a datagram host of more than 255 octets; every other
  step appends octets.
\<close>

definition u8_try_from :: "nat \<Rightarrow> u8 option" where
  "u8_try_from n = (if n < 256 then Some (word_of_nat n) else None)"

definition encode_payload :: "payload \<Rightarrow> bytes option" where
  "encode_payload p = (case p of
       Connect c \<Rightarrow> Some (put_u32 (cp_rwnd c) @ put_u16 (cp_target_port c) @ cow_as_ref (cp_target_host c))
     | Acknowledge psh_recvd_since \<Rightarrow> Some (put_u32 psh_recvd_since)
     | Reset \<Rightarrow> Some []
     | Finish \<Rightarrow> Some []
     | Push data \<Rightarrow> Some (cow_as_ref data)
     | Bind b \<Rightarrow> Some (put_u8 (bind_type_code (bp_bind_type b)) @ put_u16 (bp_target_port b)
          @ cow_as_ref (bp_target_host b))
     | Datagram d \<Rightarrow>
         Option.bind (u8_try_from (cow_len (dp_target_host d))) (\<lambda>len_u8.
         Some (put_u8 len_u8 @ put_u16 (dp_target_port d) @ cow_as_ref (dp_target_host d)
             @ cow_as_ref (dp_data d))))"

definition frame_to_vec :: "frame \<Rightarrow> bytes option" where
  "frame_to_vec f =
     (let opcode = op_code_byte (op_code_of (frame_payload f));
          firstbyte = opcode OR push_bit 4 PROTOCOL_VERSION_NUMBER
      in Option.bind (encode_payload (frame_payload f)) (\<lambda>body.
         Some (put_u8 firstbyte @ put_u32 (frame_id f) @ body)))"

text \<open>\<open>FinalizedFrame\<close>: the encoded octets, ready to be queued.\<close>

datatype finalized_frame = FinalizedFrame (finalized_bytes: bytes)

definition finalize :: "frame \<Rightarrow> finalized_frame option" where
  "finalize f = map_option FinalizedFrame (frame_to_vec f)"

definition finalized_opcode :: "finalized_frame \<Rightarrow> (frame_error, op_code) outcome" where
  "finalized_opcode ff = (case finalized_bytes ff of
       [] \<Rightarrow> Err FrameTooShort
     | firstbyte # _ \<Rightarrow> op_code_try_from (firstbyte AND 15))"

section \<open>Decoding\<close>

definition check_remaining :: "bytes \<Rightarrow> nat \<Rightarrow> (frame_error, unit) outcome" where
  "check_remaining data len = (if length data < len then Err FrameTooShort else Ok ())"

definition decode_payload :: "op_code \<Rightarrow> bytes \<Rightarrow> (frame_error, payload) outcome" where
  "decode_payload opcode data = (case opcode of
       OpConnect \<Rightarrow>
         obind (check_remaining data (4 + 2)) (\<lambda>_.
         obind (buf_get get_u32 data) (\<lambda>(rwnd, data).
         obind (buf_get get_u16 data) (\<lambda>(target_port, target_host).
         Ok (Connect \<lparr>cp_rwnd = rwnd, cp_target_port = target_port,
               cp_target_host = Owned target_host\<rparr>))))
     | OpAcknowledge \<Rightarrow>
         obind (check_remaining data 4) (\<lambda>_.
         obind (buf_get get_u32 data) (\<lambda>(psh_recvd_since, _).
         Ok (Acknowledge psh_recvd_since)))
     | OpReset \<Rightarrow> Ok Reset
     | OpFinish \<Rightarrow> Ok Finish
     | OpPush \<Rightarrow> Ok (Push (Owned data))
     | OpBind \<Rightarrow>
         obind (check_remaining data (1 + 2)) (\<lambda>_.
         obind (buf_get get_u8 data) (\<lambda>(b, data).
         obind (bind_type_try_from b) (\<lambda>bind_type.
         obind (buf_get get_u16 data) (\<lambda>(target_port, target_host).
         Ok (Bind \<lparr>bp_bind_type = bind_type, bp_target_port = target_port,
               bp_target_host = Owned target_host\<rparr>)))))
     | OpDatagram \<Rightarrow>
         obind (check_remaining data (1 + 6)) (\<lambda>_.
         obind (buf_get get_u8 data) (\<lambda>(b, data).
         let host_len = unat b in
         obind (check_remaining data (host_len + 6)) (\<lambda>_.
         obind (buf_get get_u16 data) (\<lambda>(target_port, data).
         obind (split_to host_len data) (\<lambda>(target_host, data).
         Ok (Datagram \<lparr>dp_target_port = target_port, dp_target_host = Owned target_host,
               dp_data = Owned data\<rparr>)))))))"

definition frame_try_from :: "bytes \<Rightarrow> (frame_error, frame) outcome" where
  "frame_try_from data =
     obind (check_remaining data (1 + 4)) (\<lambda>_.
     obind (buf_get get_u8 data) (\<lambda>(firstbyte, data).
     let ver = drop_bit 4 firstbyte in
     if ver \<noteq> PROTOCOL_VERSION_NUMBER then Err (FrameVersion ver)
     else obind (op_code_try_from (firstbyte AND 15)) (\<lambda>opcode.
          obind (buf_get get_u32 data) (\<lambda>(i, data).
          obind (decode_payload opcode data) (\<lambda>payload.
          Ok \<lparr>frame_id = i, frame_payload = payload\<rparr>)))))"

definition frame_try_from_finalized :: "finalized_frame \<Rightarrow> (frame_error, frame) outcome" where
  "frame_try_from_finalized ff = frame_try_from (finalized_bytes ff)"

section \<open>Equality of frames up to ownership\<close>

text \<open>
  The derived \<open>PartialEq\<close> of a frame compares its \<open>CowBytes\<close> by content. \<open>own_frame\<close> is the
  frame with every buffer owned, as the decoder builds it.
\<close>

definition own_payload :: "payload \<Rightarrow> payload" where
  "own_payload p = (case p of
       Connect c \<Rightarrow> Connect (c\<lparr>cp_target_host := Owned (cow_into_owned (cp_target_host c))\<rparr>)
     | Push d \<Rightarrow> Push (Owned (cow_into_owned d))
     | Bind b \<Rightarrow> Bind (b\<lparr>bp_target_host := Owned (cow_into_owned (bp_target_host b))\<rparr>)
     | Datagram d \<Rightarrow> Datagram (d\<lparr>dp_target_host := Owned (cow_into_owned (dp_target_host d)),
                                  dp_data := Owned (cow_into_owned (dp_data d))\<rparr>)
     | _ \<Rightarrow> p)"

definition own_frame :: "frame \<Rightarrow> frame" where
  "own_frame f = f\<lparr>frame_payload := own_payload (frame_payload f)\<rparr>"

definition payload_eq :: "payload \<Rightarrow> payload \<Rightarrow> bool" where
  "payload_eq p q = (case (p, q) of
       (Connect a, Connect b) \<Rightarrow> cp_rwnd a = cp_rwnd b \<and> cp_target_port a = cp_target_port b
          \<and> cow_eq (cp_target_host a) (cp_target_host b)
     | (Acknowledge a, Acknowledge b) \<Rightarrow> a = b
     | (Reset, Reset) \<Rightarrow> True
     | (Finish, Finish) \<Rightarrow> True
     | (Push a, Push b) \<Rightarrow> cow_eq a b
     | (Bind a, Bind b) \<Rightarrow> bp_bind_type a = bp_bind_type b \<and> bp_target_port a = bp_target_port b
          \<and> cow_eq (bp_target_host a) (bp_target_host b)
     | (Datagram a, Datagram b) \<Rightarrow> dp_target_port a = dp_target_port b
          \<and> cow_eq (dp_target_host a) (dp_target_host b) \<and> cow_eq (dp_data a) (dp_data b)
     | _ \<Rightarrow> False)"

definition frame_eq :: "frame \<Rightarrow> frame \<Rightarrow> bool" where
  "frame_eq f g \<longleftrightarrow> frame_id f = frame_id g \<and> payload_eq (frame_payload f) (frame_payload g)"

lemmas frame_constructor_defs = new_connect_def new_acknowledge_def new_reset_def new_finish_def
  new_push_def new_push_owned_def new_bind_def new_datagram_def new_datagram_owned_def

section \<open>Facts about the header octet\<close>

definition first_byte :: "op_code \<Rightarrow> u8" where
  "first_byte c = op_code_byte c OR push_bit 4 PROTOCOL_VERSION_NUMBER"

lemma first_byte_ver [simp]: "drop_bit 4 (first_byte c) = PROTOCOL_VERSION_NUMBER"
  by (cases c) (simp_all add: first_byte_def op_code_byte_def PROTOCOL_VERSION_NUMBER_def)

lemma first_byte_op [simp]: "first_byte c AND 15 = op_code_byte c"
  by (cases c) (simp_all add: first_byte_def op_code_byte_def PROTOCOL_VERSION_NUMBER_def)

lemma op_code_try_from_byte [simp]: "op_code_try_from (op_code_byte c) = Ok c"
  by (cases c) (simp_all add: op_code_try_from_def op_code_byte_def)

lemma op_code_try_from_OkD: "op_code_try_from v = Ok c \<Longrightarrow> v = op_code_byte c"
  by (auto simp: op_code_try_from_def op_code_byte_def split: if_splits)

lemma op_code_try_from_not_Panic [simp]: "op_code_try_from v \<noteq> Panic"
  by (simp add: op_code_try_from_def)

lemma op_code_try_from_Err_iff:
  "op_code_try_from v = Err e \<longleftrightarrow> 6 < v \<and> e = InvalidOpCode v"
proof -
  have "6 < v \<longleftrightarrow> v \<notin> {0, 1, 2, 3, 4, 5, 6}"
  proof
    assume "v \<notin> {0, 1, 2, 3, 4, 5, 6}"
    then have "unat v \<notin> {0, 1, 2, 3, 4, 5, 6}"
      by (auto simp: word_unat_eq_iff)
    then have "6 < unat v" by auto
    then show "6 < v" by (simp add: word_less_nat_alt)
  qed (auto simp: word_less_nat_alt)
  then show ?thesis by (auto simp: op_code_try_from_def)
qed

lemma bind_type_try_from_code [simp]: "bind_type_try_from (bind_type_code t) = Ok t"
  by (cases t) (simp_all add: bind_type_try_from_def bind_type_code_def)

lemma bind_type_try_from_OkD: "bind_type_try_from v = Ok t \<Longrightarrow> v = bind_type_code t"
  by (auto simp: bind_type_try_from_def bind_type_code_def split: if_splits)

lemma bind_type_try_from_not_Panic [simp]: "bind_type_try_from v \<noteq> Panic"
  by (simp add: bind_type_try_from_def)

lemma first_byte_unique:
  assumes "drop_bit 4 b = PROTOCOL_VERSION_NUMBER" and "op_code_try_from (b AND 15) = Ok c"
  shows "b = first_byte c"
proof -
  have "b AND 15 = take_bit 4 b"
    by (simp add: take_bit_eq_mask mask_numeral)
  then have "b = (b AND 15) OR push_bit 4 (drop_bit 4 b)"
    using word_split_bits [of b 4] by simp
  with assms op_code_try_from_OkD [OF assms(2)] show ?thesis
    by (simp add: first_byte_def)
qed

lemma cow_into_owned_as_ref [simp]: "cow_into_owned c = cow_as_ref c"
  by (cases c) simp_all

lemma cow_len_as_ref [simp]: "cow_len c = length (cow_as_ref c)"
  by (cases c) simp_all

lemma frame_to_vec_alt:
  "frame_to_vec f = Option.bind (encode_payload (frame_payload f)) (\<lambda>body.
     Some (first_byte (op_code_of (frame_payload f)) # put_u32 (frame_id f) @ body))"
  by (simp add: frame_to_vec_def first_byte_def Let_def)

lemma frame_try_from_first_byte:
  "frame_try_from (first_byte c # put_u32 i @ body) =
     obind (decode_payload c body) (\<lambda>p. Ok \<lparr>frame_id = i, frame_payload = p\<rparr>)"
  by (simp add: frame_try_from_def check_remaining_def Let_def)

section \<open>The codec's laws\<close>

text \<open>
  Which frames survive a round trip: all but the datagrams with a host of more than 255 octets
  (the encoder panics) or with fewer than four octets of data (the decoder asks for four).
\<close>

definition host_fits :: "payload \<Rightarrow> bool" where
  "host_fits p = (case p of Datagram d \<Rightarrow> length (cow_as_ref (dp_target_host d)) < 256 | _ \<Rightarrow> True)"

definition data_fits :: "payload \<Rightarrow> bool" where
  "data_fits p = (case p of Datagram d \<Rightarrow> 4 \<le> length (cow_as_ref (dp_data d)) | _ \<Rightarrow> True)"

lemma encode_payload_None_iff: "encode_payload p = None \<longleftrightarrow> \<not> host_fits p"
  by (cases p) (auto simp: encode_payload_def host_fits_def u8_try_from_def)

lemma decode_encode_payload:
  assumes "encode_payload p = Some body"
  shows "decode_payload (op_code_of p) body =
    (if data_fits p then Ok (own_payload p) else Err FrameTooShort)"
proof (cases p)
  case (Datagram d)
  let ?h = "cow_as_ref (dp_target_host d)"
  from Datagram assms have h: "length ?h < 256"
    and body: "body = word_of_nat (length ?h) # put_u16 (dp_target_port d) @ ?h @ cow_as_ref (dp_data d)"
    by (auto simp: encode_payload_def u8_try_from_def split: if_splits)
  from h have "unat (word_of_nat (length ?h) :: u8) = length ?h"
    by (simp add: unat_of_nat)
  with Datagram body show ?thesis
    by (cases d) (simp add: decode_payload_def op_code_of_def data_fits_def own_payload_def
      check_remaining_def split_to_def Let_def)
qed (use assms in \<open>auto simp: encode_payload_def decode_payload_def op_code_of_def data_fits_def
  own_payload_def check_remaining_def\<close>)

text \<open>The whole round trip, on every frame: no hypothesis.\<close>

lemma decode_encode:
  "obind (expect (frame_to_vec f)) frame_try_from =
     (if \<not> host_fits (frame_payload f) then Panic
      else if data_fits (frame_payload f) then Ok (own_frame f) else Err FrameTooShort)"
  using encode_payload_None_iff [of "frame_payload f"]
  by (cases "encode_payload (frame_payload f)")
    (auto simp: frame_to_vec_alt frame_try_from_first_byte decode_encode_payload own_frame_def)

lemma check_remaining_iffs [wire_simps]:
  "check_remaining data n = Ok u \<longleftrightarrow> n \<le> length data"
  "check_remaining data n = Err e \<longleftrightarrow> length data < n \<and> e = FrameTooShort"
  "check_remaining data n \<noteq> Panic"
  by (auto simp: check_remaining_def)

lemma decode_payload_not_Panic: "decode_payload c data \<noteq> Panic"
  by (cases c) (auto simp: decode_payload_def outcome_simps wire_simps Let_def)

lemma decode_payload_OkD:
  assumes "decode_payload c data = Ok p"
  shows "\<exists>body rest. encode_payload p = Some body \<and> data = body @ rest \<and> op_code_of p = c
    \<and> (rest \<noteq> [] \<longrightarrow> c \<in> {OpAcknowledge, OpReset, OpFinish})"
  using assms
  by (cases c) (auto simp: decode_payload_def encode_payload_def u8_try_from_def op_code_of_def
    outcome_simps wire_simps Let_def dest!: bind_type_try_from_OkD)

lemma frame_try_from_OkD:
  assumes "frame_try_from data = Ok f"
  shows "\<exists>body. data = first_byte (op_code_of (frame_payload f)) # put_u32 (frame_id f) @ body
    \<and> decode_payload (op_code_of (frame_payload f)) body = Ok (frame_payload f)"
proof -
  from assms obtain b c r p where data: "data = b # put_u32 (frame_id f) @ r"
    and ver: "drop_bit 4 b = PROTOCOL_VERSION_NUMBER" and c: "op_code_try_from (b AND 15) = Ok c"
    and p: "decode_payload c r = Ok (frame_payload f)"
    by (auto simp: frame_try_from_def outcome_simps wire_simps Let_def split: if_splits)
  moreover from decode_payload_OkD [OF p] have "op_code_of (frame_payload f) = c" by blast
  moreover from first_byte_unique [OF ver c] have "b = first_byte c" .
  ultimately show ?thesis by auto
qed

section \<open>The interface of a codec\<close>

text \<open>
  What the multiplexor relies on when it queues a frame on one side and decodes it on the
  other: on the messages both sides use, decoding inverts encoding up to a normal form.
  A queue of such messages is then a queue of encodings, decoded in order.
\<close>

locale codec =
  fixes encode :: "'a \<Rightarrow> 'w" and decode :: "'w \<Rightarrow> ('e, 'a) outcome"
    and ok :: "'a \<Rightarrow> bool" and norm :: "'a \<Rightarrow> 'a"
  assumes decode_encode_ok: "ok x \<Longrightarrow> decode (encode x) = Ok (norm x)"
begin

lemma encode_inject_norm: "ok x \<Longrightarrow> ok y \<Longrightarrow> encode x = encode y \<Longrightarrow> norm x = norm y"
  by (metis decode_encode_ok outcome.inject(1))

lemma decode_queue: "list_all ok xs \<Longrightarrow> map decode (map encode xs) = map (\<lambda>x. Ok (norm x)) xs"
  by (induction xs) (auto simp: decode_encode_ok)

end

text \<open>
  \<open>fin f\<close> is the finalized form of a frame whose encoding cannot panic, that is of every frame
  but a datagram with an overlong host.
\<close>

definition fin :: "frame \<Rightarrow> finalized_frame" where
  "fin f = FinalizedFrame (case frame_to_vec f of Some b \<Rightarrow> b | None \<Rightarrow> [])"

definition wire_ok :: "frame \<Rightarrow> bool" where
  "wire_ok f \<longleftrightarrow> host_fits (frame_payload f) \<and> data_fits (frame_payload f)"

lemma frame_to_vec_None_iff: "frame_to_vec f = None \<longleftrightarrow> \<not> host_fits (frame_payload f)"
  by (simp add: frame_to_vec_alt Option.bind_eq_None_conv flip: encode_payload_None_iff)

lemma frame_to_vec_fin: "host_fits (frame_payload f) \<Longrightarrow> frame_to_vec f = Some (finalized_bytes (fin f))"
  using frame_to_vec_None_iff [of f] by (auto simp: fin_def split: option.splits)

lemma finalize_fin: "host_fits (frame_payload f) \<Longrightarrow> finalize f = Some (fin f)"
  by (simp add: finalize_def frame_to_vec_fin)

interpretation frame_codec: codec fin frame_try_from_finalized wire_ok own_frame
proof unfold_locales
  fix f
  assume "wire_ok f"
  with decode_encode [of f] show "frame_try_from_finalized (fin f) = Ok (own_frame f)"
    by (simp add: wire_ok_def frame_try_from_finalized_def frame_to_vec_fin)
qed

lemma wire_ok_simps [simp]:
  "wire_ok (new_connect h p i r)" "wire_ok (new_acknowledge i n)" "wire_ok (new_reset i)"
  "wire_ok (new_finish i)" "wire_ok (new_push i d)" "wire_ok (new_push_owned i d)"
  "wire_ok (new_bind i t h p)"
  by (simp_all add: wire_ok_def host_fits_def data_fits_def frame_constructor_defs)

section \<open>Properties of the codec\<close>

text \<open>
  C1: Encoding a frame and decoding the octets gives the frame back (with its buffers owned, equal
  under the sources' \<open>==\<close>), for every frame except datagrams whose host exceeds 255 octets
  (encoding panics, as documented) or whose data is shorter than four octets (decoding answers
  \<open>FrameTooShort\<close>).
\<close>

theorem frame_roundtrip:
  "obind (expect (frame_to_vec f)) frame_try_from =
     (if \<not> host_fits (frame_payload f) then Panic
      else if data_fits (frame_payload f) then Ok (own_frame f) else Err FrameTooShort)
   \<and> frame_eq (own_frame f) f"
  by (cases "frame_payload f")
    (auto simp: decode_encode frame_eq_def own_frame_def payload_eq_def own_payload_def cow_eq_def)

text \<open>
  The decoder never panics: no \<open>Buf\<close> getter and no \<open>split_to\<close> runs past the end, whatever
  octets the peer sends.
\<close>

theorem frame_decode_never_panics: "frame_try_from data \<noteq> Panic"
  using decode_payload_not_Panic
  by (fastforce simp: frame_try_from_def outcome_simps wire_simps Let_def split: if_splits)

text \<open>
  Decoding loses nothing but ignored padding: an accepted message is the encoding of the decoded
  frame followed by octets that only \<open>Acknowledge\<close>, \<open>Reset\<close> and \<open>Finish\<close> frames may carry.
\<close>

theorem frame_decode_canonical:
  assumes "frame_try_from data = Ok f"
  shows "\<exists>enc rest. frame_to_vec f = Some enc \<and> data = enc @ rest
    \<and> (rest \<noteq> [] \<longrightarrow> op_code_of (frame_payload f) \<in> {OpAcknowledge, OpReset, OpFinish})"
proof -
  from frame_try_from_OkD [OF assms] obtain body
    where data: "data = first_byte (op_code_of (frame_payload f)) # put_u32 (frame_id f) @ body"
      and p: "decode_payload (op_code_of (frame_payload f)) body = Ok (frame_payload f)" by blast
  from decode_payload_OkD [OF p] data show ?thesis
    by (auto simp: frame_to_vec_alt)
qed

theorem frame_decode_canonical_witness:
  "\<exists>enc rest. frame_to_vec \<lparr>frame_id = 1291, frame_payload = Reset\<rparr> = Some enc
    \<and> [0x72, 0, 0, 5, 0x0b, 9] = enc @ rest
    \<and> (rest \<noteq> [] \<longrightarrow> op_code_of Reset \<in> {OpAcknowledge, OpReset, OpFinish})"
proof -
  have "frame_try_from [0x72, 0, 0, 5, 0x0b, 9] = Ok \<lparr>frame_id = 1291, frame_payload = Reset\<rparr>"
    by code_simp
  from frame_decode_canonical [OF this] show ?thesis by simp
qed

text \<open>The octets a message with opcode \<open>c\<close> must have, read off PROTOCOL.md and the length checks.\<close>

definition required_len :: "op_code \<Rightarrow> bytes \<Rightarrow> nat" where
  "required_len c data = (case c of OpConnect \<Rightarrow> 11 | OpAcknowledge \<Rightarrow> 9 | OpBind \<Rightarrow> 8
     | OpDatagram \<Rightarrow> 12 + (if 6 \<le> length data then unat (data ! 5) else 0) | _ \<Rightarrow> 5)"

lemma decode_payload_Err_iff:
  assumes "length hdr = 5"
  shows "decode_payload c body = Err e \<longleftrightarrow>
    (if length (hdr @ body) < required_len c (hdr @ body) then e = FrameTooShort
     else c = OpBind \<and> (hdr @ body) ! 5 \<notin> {1, 3} \<and> e = InvalidBindType ((hdr @ body) ! 5))"
proof (cases c)
  case OpBind
  show ?thesis
  proof (cases "3 \<le> length body")
    case True
    then obtain b t where body: "body = b # t" and t: "2 \<le> length t"
      by (cases body) auto
    from u16.get_exists [OF t] show ?thesis
      using assms OpBind by (auto simp: decode_payload_def required_len_def body outcome_simps
        wire_simps nth_append bind_type_try_from_def split: if_splits)
  qed (use assms OpBind in \<open>auto simp: decode_payload_def required_len_def outcome_simps wire_simps\<close>)
next
  case OpDatagram
  show ?thesis
  proof (cases body)
    case (Cons b t)
    show ?thesis
    proof (cases "unat b + 6 \<le> length t")
      case True
      then obtain p r where t: "t = put_u16 p @ r"
        using u16.get_exists [of t] by auto
      with True show ?thesis using assms OpDatagram Cons
        by (auto simp: decode_payload_def required_len_def split_to_def check_remaining_def Let_def
          nth_append)
    qed (use assms OpDatagram Cons in \<open>auto simp: decode_payload_def required_len_def outcome_simps
      wire_simps Let_def nth_append split_to_def\<close>)
  qed (use assms OpDatagram in \<open>auto simp: decode_payload_def required_len_def outcome_simps wire_simps\<close>)
qed (use assms in \<open>auto simp: decode_payload_def required_len_def outcome_simps wire_simps Let_def\<close>)

lemma frame_decode_Err_iff:
  "frame_try_from data = Err e \<longleftrightarrow>
     (if length data < 5 then e = FrameTooShort
      else if drop_bit 4 (data ! 0) \<noteq> PROTOCOL_VERSION_NUMBER
      then e = FrameVersion (drop_bit 4 (data ! 0))
      else (case op_code_try_from (data ! 0 AND 15) of
              Ok c \<Rightarrow> if length data < required_len c data then e = FrameTooShort
                else c = OpBind \<and> data ! 5 \<notin> {1, 3} \<and> e = InvalidBindType (data ! 5)
            | _ \<Rightarrow> e = InvalidOpCode (data ! 0 AND 15)))"
proof (cases "length data < 5")
  case False
  then obtain b r where d1: "data = b # r" and "4 \<le> length r"
    by (cases data) auto
  then obtain i body where data: "data = (b # put_u32 i) @ body"
    using u32.get_exists [of r] by auto
  have eq: "frame_try_from data = (let ver = drop_bit 4 b in
      if ver \<noteq> PROTOCOL_VERSION_NUMBER then Err (FrameVersion ver)
      else obind (op_code_try_from (b AND 15)) (\<lambda>c. obind (decode_payload c body)
        (\<lambda>p. Ok \<lparr>frame_id = i, frame_payload = p\<rparr>)))"
    unfolding data by (simp add: frame_try_from_def check_remaining_def Let_def)
  have err: "decode_payload c body = Err e \<longleftrightarrow>
      (if length data < required_len c data then e = FrameTooShort
       else c = OpBind \<and> data ! 5 \<notin> {1, 3} \<and> e = InvalidBindType (data ! 5))" for c
    using decode_payload_Err_iff [of "b # put_u32 i" c body e] by (simp only: data) simp
  have "data ! 0 = b" by (simp add: d1)
  moreover have "v = InvalidOpCode (b AND 15)" if "op_code_try_from (b AND 15) = Err v" for v
    using that by (simp add: op_code_try_from_Err_iff)
  ultimately show ?thesis
    using False unfolding eq Let_def
    by (cases "op_code_try_from (b AND 15)") (auto simp: outcome_simps err)
qed (auto simp: frame_try_from_def outcome_simps wire_simps)

text \<open>
  C28: The decoder never panics, whatever octets the peer sends, and every rejected message is rejected for the
  stated reason: fewer octets than the header or the opcode needs, another protocol version, an unassigned opcode, or an unassigned
  bind type; and the checks are made in that order.
\<close>

theorem frame_decode_errors:
  "frame_try_from data \<noteq> Panic
   \<and> (frame_try_from data = Err e \<longleftrightarrow>
     (if length data < 5 then e = FrameTooShort
      else if drop_bit 4 (data ! 0) \<noteq> PROTOCOL_VERSION_NUMBER
      then e = FrameVersion (drop_bit 4 (data ! 0))
      else (case op_code_try_from (data ! 0 AND 15) of
              Ok c \<Rightarrow> if length data < required_len c data then e = FrameTooShort
                else c = OpBind \<and> data ! 5 \<notin> {1, 3} \<and> e = InvalidBindType (data ! 5)
            | _ \<Rightarrow> e = InvalidOpCode (data ! 0 AND 15))))"
  using frame_decode_never_panics frame_decode_Err_iff by blast

lemma bind_type_code_inject: "bind_type_code s = bind_type_code t \<longleftrightarrow> s = t"
  by (metis bind_type_try_from_code outcome.inject(1))

lemma u8_of_nat_inject: "m < 256 \<Longrightarrow> n < 256 \<Longrightarrow> (word_of_nat m :: u8) = word_of_nat n \<longleftrightarrow> m = n"
  by (simp add: word_of_nat_eq_iff take_bit_nat_eq_self)

lemma encode_payload_inject:
  assumes "encode_payload p = Some b" and "encode_payload q = Some b" and "op_code_of p = op_code_of q"
  shows "payload_eq p q"
  using assms
  by (cases p; cases q)
    (auto simp: payload_eq_def cow_eq_def op_code_of_def encode_payload_def u8_try_from_def
      u16.put_inject u32.put_inject bind_type_code_inject u8_of_nat_inject append_eq_append_conv
      split: if_splits)

text \<open>
  The wire format is unambiguous: two frames with the same encoding are equal under the sources'
  \<open>==\<close>, datagrams that the decoder refuses included.
\<close>

theorem frame_encode_injective:
  assumes "frame_to_vec f = Some enc" and "frame_to_vec g = Some enc"
  shows "frame_eq f g"
proof -
  from assms obtain bf bg where bf: "encode_payload (frame_payload f) = Some bf"
    and bg: "encode_payload (frame_payload g) = Some bg"
    and eq: "first_byte (op_code_of (frame_payload f)) # put_u32 (frame_id f) @ bf
      = first_byte (op_code_of (frame_payload g)) # put_u32 (frame_id g) @ bg"
    by (auto simp: frame_to_vec_alt Option.bind_eq_Some_conv)
  from eq have op: "op_code_of (frame_payload f) = op_code_of (frame_payload g)"
    by (metis first_byte_op list.inject op_code_try_from_byte outcome.inject(1))
  from eq have "frame_id f = frame_id g \<and> bf = bg"
    by (simp add: u32.put_inject)
  with op bf bg encode_payload_inject show ?thesis
    by (simp add: frame_eq_def)
qed

theorem frame_encode_injective_witness:
  "frame_eq (new_datagram 7 [1] 53 [2]) (new_datagram_owned 7 [1] 53 [2])"
proof -
  have "frame_to_vec (new_datagram 7 [1] 53 [2]) = Some [0x76, 0, 0, 0, 7, 1, 0, 53, 1, 2]"
    and "frame_to_vec (new_datagram_owned 7 [1] 53 [2]) = Some [0x76, 0, 0, 0, 7, 1, 0, 53, 1, 2]"
    by code_simp+
  then show ?thesis by (rule frame_encode_injective)
qed

text \<open>
  C29: The encoder panics exactly on datagram hosts of more than 255 octets; otherwise it writes exactly
  the number of octets it reserved (\<open>debug_assert_eq!(size, encoded.len())\<close>), and the opcode read
  back from the finalized octets is the frame's.
\<close>

theorem frame_encode_size:
  "case frame_to_vec f of
     None \<Rightarrow> (\<exists>d. frame_payload f = Datagram d \<and> 255 < cow_len (dp_target_host d))
   | Some enc \<Rightarrow> length enc = 1 + 4 + payload_len (frame_payload f)
       \<and> finalized_opcode (FinalizedFrame enc) = Ok (op_code_of (frame_payload f))"
proof (cases "encode_payload (frame_payload f)")
  case None
  moreover from None have "\<not> host_fits (frame_payload f)"
    by (simp only: encode_payload_None_iff simp_thms)
  ultimately show ?thesis
    by (cases "frame_payload f") (auto simp: frame_to_vec_alt host_fits_def)
next
  case (Some body)
  then have "length body = payload_len (frame_payload f)"
    by (cases "frame_payload f")
      (auto simp: encode_payload_def payload_len_def u8_try_from_def split: if_splits)
  with Some show ?thesis
    by (simp add: frame_to_vec_alt finalized_opcode_def)
qed

end
