(* ===== verification/Channels.thy ===== *)
theory Channels
  imports Penguin_Prelude
begin

text \<open>
  The channels and wakers through which the tasks of a multiplexor talk. They come from tokio and
  futures; a channel is represented by what its two ends can observe: the queued messages,
  the capacity, whether a sender is left and whether the receiver still accepts. The
  operations are those the sources call, with the behaviour their documentation states. What
  clients rely on is collected in the locales \<open>sending\<close> and \<open>fifo\<close>, and both kinds of channel
  are instances.
\<close>

section \<open>mpsc\<close>

record 'a chan =
  ch_queue :: "'a list"
  ch_cap :: "nat option"
  ch_rx_open :: bool
  ch_tx_alive :: bool

definition mpsc_channel :: "nat \<Rightarrow> ('e, 'a chan) outcome" where
  "mpsc_channel cap = (if cap = 0 then Panic
     else Ok \<lparr>ch_queue = [], ch_cap = Some cap, ch_rx_open = True, ch_tx_alive = True\<rparr>)"

definition mpsc_unbounded :: "'a chan" where
  "mpsc_unbounded = \<lparr>ch_queue = [], ch_cap = None, ch_rx_open = True, ch_tx_alive = True\<rparr>"

definition ch_full :: "'a chan \<Rightarrow> bool" where
  "ch_full c = (case ch_cap c of None \<Rightarrow> False | Some k \<Rightarrow> k \<le> length (ch_queue c))"

definition ch_push :: "'a \<Rightarrow> 'a chan \<Rightarrow> 'a chan" where
  "ch_push x c = c\<lparr>ch_queue := ch_queue c @ [x]\<rparr>"

datatype try_send_error = Full | Closed

text \<open>\<open>Sender::try_send\<close>: a closed channel is reported as such even when it is full.\<close>

definition try_send :: "'a \<Rightarrow> 'a chan \<Rightarrow> 'a chan \<times> (try_send_error, unit) outcome" where
  "try_send x c =
     (if \<not> ch_rx_open c then (c, Err Closed)
      else if ch_full c then (c, Err Full)
      else (ch_push x c, Ok ()))"

text \<open>
  One poll of the future \<open>Sender::send\<close> of a bounded channel: it waits for capacity and fails
  when the receiver is gone.
\<close>

definition poll_send :: "'a \<Rightarrow> 'a chan \<Rightarrow> 'a chan \<times> (unit, unit) outcome poll" where
  "poll_send x c =
     (if \<not> ch_rx_open c then (c, Ready (Err ()))
      else if ch_full c then (c, Pending)
      else (ch_push x c, Ready (Ok ())))"

text \<open>\<open>UnboundedSender::send\<close>: the Boolean is \<open>is_ok\<close>.\<close>

definition chan_send :: "'a \<Rightarrow> 'a chan \<Rightarrow> 'a chan \<times> bool" where
  "chan_send x c = (if ch_rx_open c then (ch_push x c, True) else (c, False))"

definition poll_recv :: "'a chan \<Rightarrow> 'a chan \<times> 'a option poll" where
  "poll_recv c = (case ch_queue c of
       x # xs \<Rightarrow> (c\<lparr>ch_queue := xs\<rparr>, Ready (Some x))
     | [] \<Rightarrow> if ch_tx_alive c \<and> ch_rx_open c then (c, Pending) else (c, Ready None))"

text \<open>\<open>Receiver::close\<close>: nothing more is accepted, what is queued can still be received.\<close>

definition chan_close :: "'a chan \<Rightarrow> 'a chan" where
  "chan_close c = c\<lparr>ch_rx_open := False\<rparr>"

text \<open>Dropping the last sender; dropping the receiver also drops what is queued.\<close>

definition drop_tx :: "'a chan \<Rightarrow> 'a chan" where
  "drop_tx c = c\<lparr>ch_tx_alive := False\<rparr>"

definition drop_rx :: "'a chan \<Rightarrow> 'a chan" where
  "drop_rx c = c\<lparr>ch_rx_open := False, ch_queue := []\<rparr>"

section \<open>oneshot\<close>

record 'a oneshot =
  os_value :: "'a option"
  os_tx_alive :: bool
  os_rx_alive :: bool

definition oneshot_new :: "'a oneshot" where
  "oneshot_new = \<lparr>os_value = None, os_tx_alive = True, os_rx_alive = True\<rparr>"

text \<open>\<open>oneshot::Sender::send\<close> consumes the sender; the value comes back when the receiver is gone.\<close>

definition oneshot_send :: "'a \<Rightarrow> 'a oneshot \<Rightarrow> 'a oneshot \<times> bool" where
  "oneshot_send x c =
     (if os_rx_alive c then (c\<lparr>os_value := Some x, os_tx_alive := False\<rparr>, True)
      else (c\<lparr>os_tx_alive := False\<rparr>, False))"

text \<open>One poll of the receiver: the value, or an error when the sender was dropped without sending.\<close>

definition oneshot_poll :: "'a oneshot \<Rightarrow> 'a oneshot \<times> (unit, 'a) outcome poll" where
  "oneshot_poll c = (case os_value c of
       Some x \<Rightarrow> (c\<lparr>os_value := None\<rparr>, Ready (Ok x))
     | None \<Rightarrow> if os_tx_alive c then (c, Pending) else (c, Ready (Err ())))"

definition oneshot_drop_tx :: "'a oneshot \<Rightarrow> 'a oneshot" where
  "oneshot_drop_tx c = c\<lparr>os_tx_alive := False\<rparr>"

section \<open>Interfaces\<close>

text \<open>
  A client that sends relies on this: a message is either appended behind everything queued
  before, or the channel is unchanged; nothing queued is lost or reordered.
\<close>

locale sending =
  fixes send :: "'a \<Rightarrow> 'a chan \<Rightarrow> 'a chan \<times> 'r" and accepted :: "'r \<Rightarrow> bool"
  assumes send_accepted: "accepted (snd (send x c)) \<Longrightarrow> fst (send x c) = ch_push x c"
    and send_refused: "\<not> accepted (snd (send x c)) \<Longrightarrow> fst (send x c) = c"
    and send_closed: "\<not> ch_rx_open c \<Longrightarrow> \<not> accepted (snd (send x c))"
    and send_within_cap: "accepted (snd (send x c)) \<Longrightarrow> ch_cap c = Some k \<Longrightarrow> length (ch_queue c) < k"
begin

lemma queue_after: "ch_queue (fst (send x c)) = ch_queue c @ (if accepted (snd (send x c)) then [x] else [])"
  by (cases "accepted (snd (send x c))") (auto simp: send_accepted send_refused ch_push_def)

lemma flags_after:
  "ch_cap (fst (send x c)) = ch_cap c" "ch_rx_open (fst (send x c)) = ch_rx_open c"
  "ch_tx_alive (fst (send x c)) = ch_tx_alive c"
  by (cases "accepted (snd (send x c))"; simp add: send_accepted send_refused ch_push_def)+

lemma bounded_after:
  "ch_cap c = Some k \<Longrightarrow> length (ch_queue c) \<le> k \<Longrightarrow> length (ch_queue (fst (send x c))) \<le> k"
  using send_within_cap [of x c k] by (auto simp: queue_after)

end

interpretation try_s: sending try_send "\<lambda>r. r = Ok ()"
  by unfold_locales (auto simp: try_send_def ch_full_def split: if_splits option.splits)

interpretation await_s: sending poll_send "\<lambda>r. r = Ready (Ok ())"
  by unfold_locales (auto simp: poll_send_def ch_full_def split: if_splits option.splits)

text \<open>
  The receiving side: what was queued comes out in order, and the end of the stream is reported
  only when nothing is left.
\<close>

locale fifo =
  fixes recv :: "'a chan \<Rightarrow> 'a chan \<times> 'a option poll"
  assumes recv_item: "ch_queue c = x # xs \<Longrightarrow> recv c = (c\<lparr>ch_queue := xs\<rparr>, Ready (Some x))"
    and recv_empty: "ch_queue c = [] \<Longrightarrow>
      recv c = (c, if ch_tx_alive c \<and> ch_rx_open c then Pending else Ready None)"
begin

lemma recv_SomeD: "recv c = (d, Ready (Some x)) \<Longrightarrow> ch_queue c = x # ch_queue d \<and> d = c\<lparr>ch_queue := ch_queue d\<rparr>"
  using recv_item recv_empty by (cases "ch_queue c") (auto split: if_splits)

lemma recv_NoneD: "recv c = (d, Ready None) \<Longrightarrow> d = c \<and> ch_queue c = [] \<and> (ch_tx_alive c \<longrightarrow> \<not> ch_rx_open c)"
  using recv_item recv_empty by (cases "ch_queue c") (auto split: if_splits)

lemma recv_PendingD: "recv c = (d, Pending) \<Longrightarrow> d = c \<and> ch_queue c = [] \<and> ch_tx_alive c \<and> ch_rx_open c"
  using recv_item recv_empty by (cases "ch_queue c") (auto split: if_splits)

text \<open>Receiving until the channel is empty yields the queue, in order.\<close>

primrec drain :: "nat \<Rightarrow> 'a chan \<Rightarrow> 'a list" where
  "drain 0 c = []"
| "drain (Suc n) c = (case recv c of (d, Ready (Some x)) \<Rightarrow> x # drain n d | _ \<Rightarrow> [])"

lemma drain_queue: "drain (length (ch_queue c)) c = ch_queue c"
proof (induction "ch_queue c" arbitrary: c)
  case (Cons x xs)
  from Cons.hyps(2) have "recv c = (c\<lparr>ch_queue := xs\<rparr>, Ready (Some x))"
    by (intro recv_item) simp
  with Cons.hyps(1) [of "c\<lparr>ch_queue := xs\<rparr>"] Cons.hyps(2) [symmetric] show ?case by simp
qed simp

end

interpretation mpsc: fifo poll_recv
  by unfold_locales (auto simp: poll_recv_def)

lemmas chan_op_defs = try_send_def poll_send_def chan_send_def ch_push_def

end
