(* ===== verification/Rust_Strings.thy ===== *)
theory Rust_Strings
  imports Penguin_Prelude
begin

text \<open>
  The string operations of Rust's standard library that the sources use, on strings as lists of
  octets (UTF-8 text; the operations below look for ASCII characters only, which no multi-octet
  sequence contains): \<open>str::parse\<close> for unsigned integers, \<open>Display\<close> for them, \<open>split_once\<close>,
  \<open>rsplit_once\<close>, \<open>starts_with\<close>, \<open>ends_with\<close>, \<open>find\<close> and lower-casing. The round trip between
  printing and parsing a number is proved here.
\<close>

section \<open>Unsigned integers\<close>

datatype parse_int_error = Empty | InvalidDigit | PosOverflow

definition to_digit :: "char \<Rightarrow> nat option" where
  "to_digit c = (let n = of_char c :: nat in if 48 \<le> n \<and> n \<le> 57 then Some (n - 48) else None)"

fun parse_digits :: "nat \<Rightarrow> nat \<Rightarrow> string \<Rightarrow> (parse_int_error, nat) outcome" where
  "parse_digits mx acc [] = Ok acc"
| "parse_digits mx acc (c # cs) =
     (case to_digit c of
        None \<Rightarrow> Err InvalidDigit
      | Some d \<Rightarrow> if mx < acc * 10 + d then Err PosOverflow else parse_digits mx (acc * 10 + d) cs)"

definition parse_uint :: "nat \<Rightarrow> string \<Rightarrow> (parse_int_error, nat) outcome" where
  "parse_uint mx s = (case s of
       [] \<Rightarrow> Err Empty
     | c # cs \<Rightarrow> if cs = [] \<and> (c = CHR ''+'' \<or> c = CHR ''-'') then Err InvalidDigit
         else if c = CHR ''+'' then parse_digits mx 0 cs
         else parse_digits mx 0 (c # cs))"

definition parse_u16 :: "string \<Rightarrow> (parse_int_error, u16) outcome" where
  "parse_u16 s = obind (parse_uint (2 ^ 16 - 1) s) (\<lambda>n. Ok (word_of_nat n))"

definition parse_u64 :: "string \<Rightarrow> (parse_int_error, u64) outcome" where
  "parse_u64 s = obind (parse_uint (2 ^ 64 - 1) s) (\<lambda>n. Ok (word_of_nat n))"

fun show_nat :: "nat \<Rightarrow> string" where
  "show_nat n = (if n < 10 then [char_of (48 + n)] else show_nat (n div 10) @ [char_of (48 + n mod 10)])"

declare show_nat.simps [simp del]

definition show_u16 :: "u16 \<Rightarrow> string" where
  "show_u16 w = show_nat (unat w)"

lemma to_digit_char_of [simp]: "d < 10 \<Longrightarrow> to_digit (char_of (48 + d)) = Some d"
  by (simp add: to_digit_def)

lemma parse_digits_append:
  "parse_digits mx acc (xs @ ys) = obind (parse_digits mx acc xs) (\<lambda>a. parse_digits mx a ys)"
  by (induction mx acc xs rule: parse_digits.induct) (auto split: option.splits)

lemma parse_digits_show_nat: "n \<le> mx \<Longrightarrow> parse_digits mx 0 (show_nat n) = Ok n"
proof (induction n rule: show_nat.induct)
  case (1 n)
  show ?case
  proof (cases "n < 10")
    case True
    with "1.prems" show ?thesis by (simp add: show_nat.simps [of n])
  next
    case False
    from "1.prems" have "n div 10 \<le> mx" by (meson div_le_dividend le_trans)
    with False "1.IH" have "parse_digits mx 0 (show_nat (n div 10)) = Ok (n div 10)" by simp
    with False "1.prems" show ?thesis
      by (simp add: show_nat.simps [of n] parse_digits_append)
  qed
qed

lemma show_nat_digits: "c \<in> set (show_nat n) \<Longrightarrow> to_digit c \<noteq> None"
proof (induction n rule: show_nat.induct)
  case (1 n)
  then show ?case
    by (cases "n < 10") (auto simp: show_nat.simps [of n])
qed

lemma show_nat_nonempty [simp]: "show_nat n \<noteq> []"
  by (simp add: show_nat.simps [of n])

lemma to_digit_simps [simp]:
  "to_digit CHR ''+'' = None" "to_digit CHR ''-'' = None" "to_digit CHR '':'' = None"
  "to_digit CHR ''/'' = None" "to_digit CHR ''['' = None" "to_digit CHR '']'' = None"
  "to_digit CHR ''s'' = None"
  by (simp_all add: to_digit_def)

lemma show_nat_no_special:
  "to_digit c = None \<Longrightarrow> c \<notin> set (show_nat n)"
  using show_nat_digits by blast

lemma parse_uint_show_nat: "n \<le> mx \<Longrightarrow> parse_uint mx (show_nat n) = Ok n"
proof -
  assume n: "n \<le> mx"
  obtain c cs where s: "show_nat n = c # cs" by (meson neq_Nil_conv show_nat_nonempty)
  then have "to_digit c \<noteq> None" using show_nat_digits [of c n] by simp
  then have "c \<noteq> CHR ''+''" "c \<noteq> CHR ''-''" by auto
  with parse_digits_show_nat [OF n] show ?thesis by (simp add: parse_uint_def s)
qed

lemma parse_show_u16 [simp]: "parse_u16 (show_u16 w) = Ok w"
proof -
  have "unat w \<le> 2 ^ 16 - 1" using unsigned_less [of w, where ?'a = nat] by simp
  then show ?thesis by (simp only: parse_u16_def show_u16_def parse_uint_show_nat) simp
qed

lemma parse_digits_bound: "parse_digits mx acc s = Ok n \<Longrightarrow> acc \<le> mx \<Longrightarrow> n \<le> mx"
  by (induction mx acc s rule: parse_digits.induct) (auto split: option.splits if_splits)

lemma parse_uint_bound: "parse_uint mx s = Ok n \<Longrightarrow> n \<le> mx"
  by (auto simp del: parse_digits.simps simp: parse_uint_def dest: parse_digits_bound
    split: list.splits if_splits)

lemma parse_digits_not_Panic [simp]: "parse_digits mx acc s \<noteq> Panic"
  by (induction mx acc s rule: parse_digits.induct) (auto split: option.splits)

lemma parse_uint_not_Panic [simp]: "parse_uint mx s \<noteq> Panic"
  by (simp del: parse_digits.simps add: parse_uint_def split: list.split)

lemma parse_u16_not_Panic [simp]: "parse_u16 s \<noteq> Panic"
  by (simp add: parse_u16_def outcome_simps)

section \<open>Searching and splitting\<close>

definition starts_with :: "char \<Rightarrow> string \<Rightarrow> bool" where
  "starts_with c s = (case s of [] \<Rightarrow> False | d # _ \<Rightarrow> d = c)"

definition ends_with :: "char \<Rightarrow> string \<Rightarrow> bool" where
  "ends_with c s \<longleftrightarrow> s \<noteq> [] \<and> last s = c"

text \<open>\<open>find\<close>: the index of the first occurrence.\<close>

definition find_char :: "char \<Rightarrow> string \<Rightarrow> nat option" where
  "find_char c s = (if c \<in> set s then Some (length (takeWhile (\<lambda>d. d \<noteq> c) s)) else None)"

definition split_once :: "char \<Rightarrow> string \<Rightarrow> (string \<times> string) option" where
  "split_once c s =
     (if c \<in> set s then Some (takeWhile (\<lambda>d. d \<noteq> c) s, tl (dropWhile (\<lambda>d. d \<noteq> c) s)) else None)"

definition rsplit_once :: "char \<Rightarrow> string \<Rightarrow> (string \<times> string) option" where
  "rsplit_once c s = map_option (\<lambda>(a, b). (rev b, rev a)) (split_once c (rev s))"

text \<open>\<open>&s[n..]\<close>: panics past the end of the string (here every index used is a character boundary).\<close>

definition slice_from :: "nat \<Rightarrow> string \<Rightarrow> ('e, string) outcome" where
  "slice_from n s = (if n \<le> length s then Ok (drop n s) else Panic)"

definition to_lower :: "char \<Rightarrow> char" where
  "to_lower c = (let n = of_char c :: nat in if 65 \<le> n \<and> n \<le> 90 then char_of (n + 32) else c)"

definition to_lowercase :: "string \<Rightarrow> string" where
  "to_lowercase s = map to_lower s"

lemma split_once_append [simp]: "c \<notin> set a \<Longrightarrow> split_once c (a @ c # b) = Some (a, b)"
  by (induction a) (auto simp: split_once_def)

lemma split_once_None [simp]: "c \<notin> set a \<Longrightarrow> split_once c a = None"
  by (simp add: split_once_def)

lemma split_once_SomeD: "split_once c s = Some (a, b) \<Longrightarrow> s = a @ c # b \<and> c \<notin> set a"
proof -
  assume h: "split_once c s = Some (a, b)"
  then have "c \<in> set s" by (simp add: split_once_def split: if_splits)
  then obtain u v where s: "s = u @ c # v" and u: "c \<notin> set u" by (meson split_list_first)
  from u have "split_once c s = Some (u, v)" unfolding s by (rule split_once_append)
  with h have "a = u" "b = v" by simp_all
  with s u show ?thesis by simp
qed

lemma split_once_None_iff: "split_once c s = None \<longleftrightarrow> c \<notin> set s"
  by (simp add: split_once_def)

lemma rsplit_once_append [simp]: "c \<notin> set b \<Longrightarrow> rsplit_once c (a @ c # b) = Some (a, b)"
  by (simp add: rsplit_once_def)

lemma rsplit_once_SomeD: "rsplit_once c s = Some (a, b) \<Longrightarrow> s = a @ c # b \<and> c \<notin> set b"
proof -
  assume "rsplit_once c s = Some (a, b)"
  then have "split_once c (rev s) = Some (rev b, rev a)" by (auto simp: rsplit_once_def)
  from split_once_SomeD [OF this] have r: "rev s = rev b @ c # rev a" and "c \<notin> set b" by auto
  from arg_cong [OF r, of rev] have "s = a @ c # b" by simp
  with \<open>c \<notin> set b\<close> show ?thesis by simp
qed

lemma rsplit_once_None_iff: "rsplit_once c s = None \<longleftrightarrow> c \<notin> set s"
  by (simp add: rsplit_once_def split_once_None_iff)

end
