(* ===== verification/Timing.thy ===== *)
theory Timing
  imports Rust_Strings
begin

text \<open>
  \<open>src/src/mux/timing.rs\<close>: the exponential back-off generator and optional durations. A
  \<open>std::time::Duration\<close> is its number of nanoseconds; the type is ordered, and multiplying past
  \<open>Duration::MAX\<close> panics. The main result is the closed form of the sequence of delays that a
  generator hands out.
\<close>

section \<open>Durations\<close>

datatype duration = Duration (as_nanos: nat)

instantiation duration :: linorder
begin

definition less_eq_duration :: "duration \<Rightarrow> duration \<Rightarrow> bool" where
  "less_eq_duration a b \<longleftrightarrow> as_nanos a \<le> as_nanos b"

definition less_duration :: "duration \<Rightarrow> duration \<Rightarrow> bool" where
  "less_duration a b \<longleftrightarrow> as_nanos a < as_nanos b"

instance
  by standard (auto simp: less_eq_duration_def less_duration_def intro: duration.expand)

end

lemma duration_le_iff [simp]: "Duration a \<le> Duration b \<longleftrightarrow> a \<le> b"
  by (simp add: less_eq_duration_def)

lemma min_Duration [simp]: "min (Duration a) (Duration b) = Duration (min a b)"
  by (simp add: min_def)

definition DURATION_MAX :: nat where
  "DURATION_MAX = 2 ^ 64 * 1000000000 - 1"

definition from_secs :: "u64 \<Rightarrow> duration" where
  "from_secs s = Duration (unat s * 1000000000)"

definition from_millis :: "u64 \<Rightarrow> duration" where
  "from_millis s = Duration (unat s * 1000000)"

definition is_zero :: "duration \<Rightarrow> bool" where
  "is_zero d \<longleftrightarrow> as_nanos d = 0"

definition duration_mul :: "duration \<Rightarrow> u32 \<Rightarrow> ('e, duration) outcome" where
  "duration_mul d m =
     (if as_nanos d * unat m \<le> DURATION_MAX then Ok (Duration (as_nanos d * unat m)) else Panic)"

section \<open>Back-off\<close>

record backoff =
  initial :: duration
  bo_max :: duration
  mult :: u32
  max_count :: u32
  current :: duration
  bo_count :: u32

definition backoff_new :: "duration \<Rightarrow> duration \<Rightarrow> u32 \<Rightarrow> u32 \<Rightarrow> backoff" where
  "backoff_new initial_d max_d m mc =
     \<lparr>initial = initial_d, bo_max = max_d, mult = m, max_count = mc, current = initial_d, bo_count = 0\<rparr>"

text \<open>\<open>count += 1\<close> wraps in the release build; \<open>old * mult\<close> panics on overflow. There is no error value.\<close>

definition advance :: "backoff \<Rightarrow> (unit, backoff \<times> duration option) outcome" where
  "advance b =
     (if max_count b \<noteq> 0 \<and> max_count b \<le> bo_count b then Ok (b, None)
      else let b = b\<lparr>bo_count := bo_count b + 1\<rparr>;
               old = min (current b) (bo_max b)
           in obind (duration_mul old (mult b)) (\<lambda>d. Ok (b\<lparr>current := d\<rparr>, Some old)))"

definition backoff_reset :: "backoff \<Rightarrow> backoff" where
  "backoff_reset b = b\<lparr>current := initial b, bo_count := 0\<rparr>"

text \<open>The results of \<open>n\<close> calls in a row.\<close>

primrec advances :: "nat \<Rightarrow> backoff \<Rightarrow> (unit, backoff \<times> duration option list) outcome" where
  "advances 0 b = Ok (b, [])"
| "advances (Suc n) b =
     obind (advances n b) (\<lambda>(b, ds). obind (advance b) (\<lambda>(b, d). Ok (b, ds @ [d])))"

definition delay :: "duration \<Rightarrow> duration \<Rightarrow> u32 \<Rightarrow> nat \<Rightarrow> duration" where
  "delay initial_d max_d m k = min (Duration (as_nanos initial_d * unat m ^ k)) max_d"

definition allowed :: "u32 \<Rightarrow> nat \<Rightarrow> bool" where
  "allowed mc k \<longleftrightarrow> mc = 0 \<or> k < unat mc"

section \<open>Optional durations\<close>

datatype optional_duration = OptionalDuration "duration option"

definition OPTIONAL_NONE :: optional_duration where
  "OPTIONAL_NONE = OptionalDuration None"

definition optional_from_secs :: "u64 \<Rightarrow> optional_duration" where
  "optional_from_secs s = OptionalDuration (Some (from_secs s))"

definition optional_from_str :: "string \<Rightarrow> (parse_int_error, optional_duration) outcome" where
  "optional_from_str s =
     obind (parse_u64 s) (\<lambda>v. if v = 0 then Ok (OptionalDuration None) else Ok (optional_from_secs v))"

definition optional_from_duration :: "duration \<Rightarrow> optional_duration" where
  "optional_from_duration d =
     (if is_zero d then OptionalDuration None else OptionalDuration (Some d))"

text \<open>
  \<open>OptionalDuration::timeout\<close> on a future that needs \<open>t\<close> (\<open>None\<close>: it never finishes): tokio's
  \<open>timeout\<close> polls the future before the timer, so finishing at the deadline counts. The result is
  \<open>None\<close> where the call itself never returns. \<open>sleep\<close> returns after the duration or never, and
  the interval made of an optional duration ticks exactly when there is one.
\<close>

datatype elapsed = Elapsed

primrec optional_timeout ::
  "optional_duration \<Rightarrow> (duration \<times> 'a) option \<Rightarrow> (elapsed, 'a) outcome option" where
  "optional_timeout (OptionalDuration limit) future = (case (limit, future) of
       (Some d, Some (t, x)) \<Rightarrow> Some (if t \<le> d then Ok x else Err Elapsed)
     | (Some d, None) \<Rightarrow> Some (Err Elapsed)
     | (None, Some (t, x)) \<Rightarrow> Some (Ok x)
     | (None, None) \<Rightarrow> None)"

primrec optional_sleep :: "optional_duration \<Rightarrow> duration option" where
  "optional_sleep (OptionalDuration d) = d"

text \<open>\<open>Display\<close>: a duration prints with its own formatter, which is an argument.\<close>

primrec optional_display :: "(duration \<Rightarrow> string) \<Rightarrow> optional_duration \<Rightarrow> string" where
  "optional_display fmt (OptionalDuration d) = (case d of Some d \<Rightarrow> fmt d | None \<Rightarrow> ''indefinite'')"

section \<open>Optional intervals\<close>

text \<open>
  An \<open>OptionalInterval\<close> is made from an optional duration. Tokio's \<open>interval\<close>, its \<open>set_missed_tick_behavior\<close> and a poll of
  its \<open>tick\<close> are the dictionary \<open>interval_ops\<close>; what is relied on is that \<open>interval\<close> panics exactly on a zero period.
\<close>

datatype missed_tick_behavior = Burst | Delay | Skip

record ('iv, 'at) interval_ops =
  iv_interval :: "duration \<Rightarrow> (unit, 'iv) outcome"
  iv_set_missed :: "missed_tick_behavior \<Rightarrow> 'iv \<Rightarrow> 'iv"
  iv_poll_tick :: "'iv \<Rightarrow> 'iv \<times> 'at poll"

definition interval_contract :: "('iv, 'at) interval_ops \<Rightarrow> bool" where
  "interval_contract ops \<longleftrightarrow> (\<forall>d. if is_zero d then iv_interval ops d = Panic else \<exists>iv. iv_interval ops d = Ok iv)"

datatype 'iv optional_interval = OptionalInterval "'iv option"

primrec optional_interval_from :: "('iv, 'at) interval_ops \<Rightarrow> optional_duration \<Rightarrow> (unit, 'iv optional_interval) outcome" where
  "optional_interval_from ops (OptionalDuration d) = (case d of
       None \<Rightarrow> Ok (OptionalInterval None)
     | Some d \<Rightarrow> obind (iv_interval ops d) (\<lambda>iv. Ok (OptionalInterval (Some iv))))"

primrec set_missed_tick_behavior :: "('iv, 'at) interval_ops \<Rightarrow> missed_tick_behavior \<Rightarrow> 'iv optional_interval \<Rightarrow> 'iv optional_interval" where
  "set_missed_tick_behavior ops behavior (OptionalInterval iv) = OptionalInterval (map_option (iv_set_missed ops behavior) iv)"

text \<open>One poll of \<open>tick\<close>: without an interval it never resolves.\<close>

primrec interval_tick :: "('iv, 'at) interval_ops \<Rightarrow> 'iv optional_interval \<Rightarrow> 'iv optional_interval \<times> 'at poll" where
  "interval_tick ops (OptionalInterval iv) = (case iv of
       Some iv \<Rightarrow> apfst (\<lambda>iv. OptionalInterval (Some iv)) (iv_poll_tick ops iv)
     | None \<Rightarrow> (OptionalInterval None, Pending))"

section \<open>Lemmas\<close>

lemma min_mult_step: "min (min x b * m) b = min (x * m) (b :: nat)"
proof (cases "m = 0")
  case False
  then have "b \<le> b * m" by simp
  moreover have "b < x \<Longrightarrow> b * m \<le> x * m" by simp
  ultimately have "b < x \<Longrightarrow> b \<le> x * m" by (meson le_trans)
  with \<open>b \<le> b * m\<close> show ?thesis by (cases "x \<le> b") (auto simp: min_def)
qed simp

text \<open>
  \<open>backoff_at b0 k b\<close>: the generator \<open>b\<close> is what \<open>k\<close> successful calls make of \<open>b0\<close>.
\<close>

definition backoff_at :: "duration \<Rightarrow> duration \<Rightarrow> u32 \<Rightarrow> u32 \<Rightarrow> nat \<Rightarrow> backoff \<Rightarrow> bool" where
  "backoff_at initial_d max_d m mc k b \<longleftrightarrow> initial b = initial_d \<and> bo_max b = max_d \<and> mult b = m
     \<and> max_count b = mc \<and> bo_count b = word_of_nat k \<and> (mc \<noteq> 0 \<longrightarrow> k \<le> unat mc)
     \<and> min (current b) max_d = delay initial_d max_d m k"

lemma backoff_at_new: "backoff_at i mx m mc 0 (backoff_new i mx m mc)"
  by (cases i) (simp add: backoff_at_def backoff_new_def delay_def)

lemma backoff_at_reset: "backoff_at i mx m mc k b \<Longrightarrow> backoff_reset b = backoff_new i mx m mc"
  by (simp add: backoff_at_def backoff_reset_def backoff_new_def)

lemma word_of_nat_less_u32: "k \<le> unat (mc :: u32) \<Longrightarrow> mc \<le> word_of_nat k \<longleftrightarrow> k = unat mc"
  using unsigned_less [of mc, where ?'a = nat]
  by (auto simp: word_le_nat_alt unat_of_nat)

lemma advance_step:
  assumes at: "backoff_at i mx m mc k b" and fits: "as_nanos mx * unat m \<le> DURATION_MAX"
  shows "if allowed mc k then \<exists>b'. advance b = Ok (b', Some (delay i mx m k)) \<and> backoff_at i mx m mc (Suc k) b'
         else advance b = Ok (b, None)"
proof (cases "allowed mc k")
  case True
  let ?old = "min (current b) (bo_max b)"
  have old: "?old = delay i mx m k" using at by (simp add: backoff_at_def)
  have "as_nanos ?old \<le> as_nanos mx"
    unfolding old by (cases i; cases mx) (simp add: delay_def)
  then have "as_nanos ?old * unat m \<le> DURATION_MAX" using fits by (meson le_trans mult_le_mono1)
  moreover have "\<not> (max_count b \<noteq> 0 \<and> max_count b \<le> bo_count b)"
    using True at word_of_nat_less_u32 [of k mc] by (auto simp: allowed_def backoff_at_def)
  ultimately have adv: "advance b = Ok (b\<lparr>bo_count := bo_count b + 1,
      current := Duration (as_nanos ?old * unat m)\<rparr>, Some ?old)"
    using at by (auto simp: advance_def duration_mul_def Let_def backoff_at_def)
  moreover have "min (Duration (as_nanos ?old * unat m)) mx = delay i mx m (Suc k)"
    unfolding old using min_mult_step [of "as_nanos i * unat m ^ k" "as_nanos mx" "unat m"]
    by (cases i; cases mx) (simp add: delay_def ac_simps)
  ultimately show ?thesis
    using True at old by (auto simp: backoff_at_def allowed_def add.commute)
next
  case False
  then have "k = unat mc" "mc \<noteq> 0" using at by (auto simp: allowed_def backoff_at_def)
  with at word_of_nat_less_u32 [of k mc] False show ?thesis
    by (auto simp: advance_def backoff_at_def)
qed

lemma advances_from:
  assumes fits: "as_nanos mx * unat m \<le> DURATION_MAX"
  shows "\<exists>b k. advances n (backoff_new i mx m mc) =
      Ok (b, map (\<lambda>k. if allowed mc k then Some (delay i mx m k) else None) [0..<n])
    \<and> backoff_at i mx m mc k b \<and> k = (if mc = 0 then n else min n (unat mc))"
proof (induction n)
  case 0
  then show ?case using backoff_at_new by auto
next
  case (Suc n)
  then obtain b k where IH: "advances n (backoff_new i mx m mc) =
      Ok (b, map (\<lambda>k. if allowed mc k then Some (delay i mx m k) else None) [0..<n])"
    and at: "backoff_at i mx m mc k b" and k: "k = (if mc = 0 then n else min n (unat mc))" by blast
  have al: "allowed mc k \<longleftrightarrow> allowed mc n" using k by (auto simp: allowed_def)
  show ?case
  proof (cases "allowed mc n")
    case True
    then have "k = n" using k by (auto simp: allowed_def)
    with advance_step [OF at fits] True show ?thesis
      by (auto simp: IH allowed_def min_def)
  next
    case False
    with advance_step [OF at fits] al at k show ?thesis
      by (auto simp: IH allowed_def)
  qed
qed

section \<open>Properties\<close>

text \<open>
  The delays of the back-off generator: as long as the longest delay times the multiplier is a
  valid duration, the \<open>k\<close>-th call returns the smaller of \<open>initial * mult ^ k\<close> and \<open>max\<close>, a
  generator with a positive \<open>max_count\<close> returns \<open>None\<close> from call \<open>max_count\<close> on and never
  before, one with \<open>max_count\<close> zero never does (even after the call counter has wrapped around),
  no call panics, and \<open>reset\<close> starts the same sequence again.
\<close>

theorem backoff_schedule:
  assumes "as_nanos mx * unat m \<le> DURATION_MAX"
  shows "\<exists>b. advances n (backoff_new i mx m mc) =
      Ok (b, map (\<lambda>k. if allowed mc k then Some (delay i mx m k) else None) [0..<n])
    \<and> backoff_reset b = backoff_new i mx m mc"
  using advances_from [OF assms, of n i mc] backoff_at_reset by metis

theorem backoff_schedule_witness:
  "\<exists>b. advances 5 (backoff_new (Duration 200) (Duration 1000) 2 4) =
      Ok (b, [Some (Duration 200), Some (Duration 400), Some (Duration 800), Some (Duration 1000), None])
    \<and> backoff_reset b = backoff_new (Duration 200) (Duration 1000) 2 4"
proof -
  have "as_nanos (Duration 1000) * unat (2 :: u32) \<le> DURATION_MAX" by (simp add: DURATION_MAX_def)
  moreover have "map (\<lambda>k. if allowed 4 k then Some (delay (Duration 200) (Duration 1000) 2 k) else None)
      [0..<5] = [Some (Duration 200), Some (Duration 400), Some (Duration 800), Some (Duration 1000), None]"
    by code_simp
  ultimately show ?thesis using backoff_schedule [of "Duration 1000" 2 5 "Duration 200" 4]
    by (simp only:)
qed

text \<open>
  Without that condition the generator can panic: it does so exactly when the delay it is about to
  return, times the multiplier, is no valid duration.
\<close>

theorem backoff_panic_iff:
  "advance b = Panic \<longleftrightarrow>
     \<not> (max_count b \<noteq> 0 \<and> max_count b \<le> bo_count b)
     \<and> DURATION_MAX < as_nanos (min (current b) (bo_max b)) * unat (mult b)"
  by (auto simp: advance_def duration_mul_def Let_def not_le)

text \<open>An optional duration as its conversions from text and from a duration make it: absent or not zero.\<close>

primrec optional_ok :: "optional_duration \<Rightarrow> bool" where
  "optional_ok (OptionalDuration d) = (case d of None \<Rightarrow> True | Some d \<Rightarrow> \<not> is_zero d)"

lemma from_secs_zero: "is_zero (from_secs s) \<longleftrightarrow> s = 0"
  by (simp add: is_zero_def from_secs_def unat_eq_zero)

lemma optional_from_str_ok: "optional_from_str s = Ok d \<Longrightarrow> optional_ok d"
  by (auto simp: optional_from_str_def optional_from_secs_def from_secs_zero obind_Ok_iff split: if_splits)

lemma interval_from_ok:
  assumes "interval_contract ops"
  shows "(\<exists>iv. optional_interval_from ops d = Ok iv) \<longleftrightarrow> optional_ok d"
proof (cases d)
  case (OptionalDuration od)
  show ?thesis
  proof (cases od)
    case (Some x)
    from assms have "if is_zero x then iv_interval ops x = Panic else \<exists>iv. iv_interval ops x = Ok iv" by (simp add: interval_contract_def)
    then show ?thesis by (auto simp: OptionalDuration Some split: if_splits)
  qed (simp add: OptionalDuration)
qed

text \<open>
  C30: A keep-alive interval given as text or as a duration is one that the timer accepts: an optional duration parsed from the
  command line or converted from a duration is absent or not zero, so making the interval from it does not panic, and it ticks exactly when it
  is not zero; \<open>from_secs(0)\<close> alone, which the command line does not use, is a zero duration on which the
  timer panics.
\<close>

theorem interval_never_panics:
  assumes "interval_contract ops" and "optional_from_str s = Ok d" and "optional_from_duration t = d'"
  shows "(\<exists>iv. optional_interval_from ops d = Ok iv) \<and> (\<exists>iv. optional_interval_from ops d' = Ok iv)
    \<and> (optional_interval_from ops d' = Ok (OptionalInterval None) \<longleftrightarrow> is_zero t)
    \<and> optional_interval_from ops (optional_from_secs 0) = Panic"
proof -
  have t: "if is_zero t then iv_interval ops t = Panic else \<exists>iv. iv_interval ops t = Ok iv"
    and z: "iv_interval ops (from_secs 0) = Panic"
    using assms(1) from_secs_zero [of 0] by (auto simp: interval_contract_def)
  have "optional_ok d'" using assms(3) by (auto simp: optional_from_duration_def)
  moreover have "optional_interval_from ops d' = Ok (OptionalInterval None) \<longleftrightarrow> is_zero t"
    using assms(3) t by (auto simp: optional_from_duration_def split: if_splits)
  ultimately show ?thesis
    using interval_from_ok [OF assms(1)] optional_from_str_ok [OF assms(2)] z by (simp add: optional_from_secs_def)
qed

text \<open>A timer that remembers its period and ticks at once.\<close>

definition plain_timer :: "(duration, unit) interval_ops" where
  "plain_timer = \<lparr>iv_interval = (\<lambda>d. if is_zero d then Panic else Ok d), iv_set_missed = (\<lambda>_ iv. iv), iv_poll_tick = (\<lambda>iv. (iv, Ready ()))\<rparr>"

theorem interval_never_panics_witness:
  "(\<exists>iv. optional_interval_from plain_timer (OptionalDuration None) = Ok iv)
    \<and> optional_interval_from plain_timer (optional_from_secs 0) = Panic"
proof -
  have "interval_contract plain_timer" by (simp add: interval_contract_def plain_timer_def)
  moreover have "show_nat 0 = ''0''" by code_simp
  then have "optional_from_str ''0'' = Ok (OptionalDuration None)"
    using parse_uint_show_nat [of 0 "2 ^ 64 - 1"] by (simp add: optional_from_str_def parse_u64_def)
  ultimately show ?thesis using interval_never_panics [of plain_timer "''0''" "OptionalDuration None" "Duration 5"] by blast
qed

end
