(* ===== verification/Mux_Config.thy ===== *)
theory Mux_Config
  imports Timing
begin

text \<open>
  \<open>src/src/mux/config.rs\<close>: the options of a multiplexor and their builder methods. A failed
  \<open>assert!\<close> is a panic; \<open>usize\<close> is a natural number (on the 64-bit targets a \<open>u32\<close> fits, so
  the first assertion of \<open>rwnd\<close> always holds). The invariant \<open>options_ok\<close> is what the
  multiplexor relies on: a channel of capacity zero cannot be created.
\<close>

record options =
  opt_keepalive_interval :: optional_duration
  opt_datagram_buffer_size :: nat
  opt_stream_buffer_size :: nat
  opt_bind_buffer_size :: nat
  opt_max_flow_id_retries :: nat
  opt_rwnd :: u32
  opt_default_rwnd_threshold :: u32

definition options_new :: options where
  "options_new = \<lparr>opt_keepalive_interval = OPTIONAL_NONE, opt_datagram_buffer_size = 2 ^ 9,
     opt_stream_buffer_size = 2 ^ 4, opt_bind_buffer_size = 0, opt_max_flow_id_retries = 3,
     opt_rwnd = push_bit 9 1, opt_default_rwnd_threshold = push_bit 8 1\<rparr>"

definition options_default :: options where
  "options_default = options_new"

text \<open>\<open>assert!\<close>\<close>

definition assert_that :: "bool \<Rightarrow> ('e, unit) outcome" where
  "assert_that b = (if b then Ok () else Panic)"

definition keepalive_interval :: "optional_duration \<Rightarrow> options \<Rightarrow> (unit, options) outcome" where
  "keepalive_interval interval o1 = Ok (o1\<lparr>opt_keepalive_interval := interval\<rparr>)"

definition datagram_buffer_size :: "nat \<Rightarrow> options \<Rightarrow> (unit, options) outcome" where
  "datagram_buffer_size sz o1 =
     obind (assert_that (0 < sz)) (\<lambda>_. Ok (o1\<lparr>opt_datagram_buffer_size := sz\<rparr>))"

definition stream_buffer_size :: "nat \<Rightarrow> options \<Rightarrow> (unit, options) outcome" where
  "stream_buffer_size sz o1 =
     obind (assert_that (0 < sz)) (\<lambda>_. Ok (o1\<lparr>opt_stream_buffer_size := sz\<rparr>))"

definition bind_buffer_size :: "nat \<Rightarrow> options \<Rightarrow> (unit, options) outcome" where
  "bind_buffer_size sz o1 = Ok (o1\<lparr>opt_bind_buffer_size := sz\<rparr>)"

definition max_flow_id_retries :: "nat \<Rightarrow> options \<Rightarrow> (unit, options) outcome" where
  "max_flow_id_retries retries o1 =
     obind (assert_that (0 < retries)) (\<lambda>_. Ok (o1\<lparr>opt_max_flow_id_retries := retries\<rparr>))"

definition set_rwnd :: "u32 \<Rightarrow> options \<Rightarrow> (unit, options) outcome" where
  "set_rwnd rwnd o1 =
     obind (assert_that (word_of_nat (unat rwnd) = rwnd)) (\<lambda>_.
     obind (assert_that (0 < rwnd)) (\<lambda>_. Ok (o1\<lparr>opt_rwnd := rwnd\<rparr>)))"

definition default_rwnd_threshold :: "u32 \<Rightarrow> options \<Rightarrow> (unit, options) outcome" where
  "default_rwnd_threshold threshold o1 =
     obind (assert_that (0 < threshold)) (\<lambda>_. Ok (o1\<lparr>opt_default_rwnd_threshold := threshold\<rparr>))"

text \<open>A chain of builder calls, as the test \<open>test_options\<close> and the callers write it.\<close>

datatype option_setting =
    KeepaliveInterval optional_duration | DatagramBufferSize nat | StreamBufferSize nat
  | BindBufferSize nat | MaxFlowIdRetries nat | Rwnd u32 | DefaultRwndThreshold u32

primrec apply_setting :: "option_setting \<Rightarrow> options \<Rightarrow> (unit, options) outcome" where
  "apply_setting (KeepaliveInterval i) = keepalive_interval i"
| "apply_setting (DatagramBufferSize k) = datagram_buffer_size k"
| "apply_setting (StreamBufferSize k) = stream_buffer_size k"
| "apply_setting (BindBufferSize k) = bind_buffer_size k"
| "apply_setting (MaxFlowIdRetries k) = max_flow_id_retries k"
| "apply_setting (Rwnd r) = set_rwnd r"
| "apply_setting (DefaultRwndThreshold r) = default_rwnd_threshold r"

primrec build :: "option_setting list \<Rightarrow> options \<Rightarrow> (unit, options) outcome" where
  "build [] o1 = Ok o1"
| "build (s # ss) o1 = obind (apply_setting s o1) (build ss)"

definition setting_ok :: "option_setting \<Rightarrow> bool" where
  "setting_ok s = (case s of DatagramBufferSize k \<Rightarrow> 0 < k | StreamBufferSize k \<Rightarrow> 0 < k
     | MaxFlowIdRetries k \<Rightarrow> 0 < k | Rwnd r \<Rightarrow> 0 < r | DefaultRwndThreshold r \<Rightarrow> 0 < r | _ \<Rightarrow> True)"

definition options_ok :: "options \<Rightarrow> bool" where
  "options_ok o1 \<longleftrightarrow> 0 < opt_datagram_buffer_size o1 \<and> 0 < opt_stream_buffer_size o1
     \<and> 0 < opt_max_flow_id_retries o1 \<and> 0 < opt_rwnd o1 \<and> 0 < opt_default_rwnd_threshold o1"

lemmas builder_defs = keepalive_interval_def datagram_buffer_size_def stream_buffer_size_def
  bind_buffer_size_def max_flow_id_retries_def set_rwnd_def default_rwnd_threshold_def assert_that_def

lemma apply_setting_cases:
  "if setting_ok s then \<exists>o2. apply_setting s o1 = Ok o2 \<and> (options_ok o1 \<longrightarrow> options_ok o2)
   else apply_setting s o1 = Panic"
  by (cases s) (auto simp: setting_ok_def builder_defs options_ok_def)

lemma options_new_ok: "options_ok options_new"
  by code_simp

lemma build_from:
  "options_ok o1 \<Longrightarrow> if list_all setting_ok ss then \<exists>o2. build ss o1 = Ok o2 \<and> options_ok o2
     else build ss o1 = Panic"
proof (induction ss arbitrary: o1)
  case (Cons s ss)
  then show ?case using apply_setting_cases [of s o1] by (cases "setting_ok s") auto
qed simp

text \<open>
  Every set of options that can be built is usable: whatever chain of builder calls is made, it
  either yields options whose buffer sizes, windows, thresholds and retry counts are positive,
  or panics, and it panics exactly when one call passes zero where a positive number is required.
\<close>

theorem options_build_ok:
  "case build ss options_new of
     Ok o2 \<Rightarrow> list_all setting_ok ss \<and> options_ok o2
   | Panic \<Rightarrow> \<not> list_all setting_ok ss
   | Err e \<Rightarrow> False"
  using build_from [OF options_new_ok, of ss] by (auto split: if_splits)

end
