(* ===== verification/Mux_State.thy ===== *)
theory Mux_State
  imports Frame Channels Mux_Config "HOL-Library.AList"
begin

text \<open>
  The state of one end of a multiplexed connection: the data types of \<open>src/src/mux/lib.rs\<close>,
  \<open>src/src/mux/stream.rs\<close> and \<open>src/src/mux/task.rs\<close>, and the operations of \<open>lib.rs\<close> on one
  flow slot. What Rust shares through \<open>Arc\<close> (the atomics, the waker and the data channel of a
  stream) lives in a store of cells; a stream and its entry in the flow map both hold the
  address of their cell, so the aliasing of the code is explicit. The hash map of flows is an
  association list (iteration visits it in list order); an \<open>mpsc\<close> or \<open>oneshot\<close> channel has the
  representation of theory \<open>Channels\<close>.
\<close>

section \<open>Data\<close>

datatype mux_error =
    SendStreamToClient
  | MuxClosed
  | PeerUnsupportedOperation
  | UnsupportedOperation
  | FlowIdRejected
  | WebSocketError string
  | DatagramHostTooLong
  | InvalidFrame frame_error
  | TextMessage
  | ConnAckGone
  | ChannelClosed string

datatype message = Binary bytes | Ping | Pong | CloseMsg

record datagram =
  dg_flow_id :: u32
  dg_target_host :: bytes
  dg_target_port :: u16
  dg_data :: bytes

record bind_request =
  br_flow_id :: u32
  br_payload :: bind_payload

text \<open>
  \<open>MuxStream\<close>: \<open>ms_cell\<close> is the address of \<open>frame_rx\<close>, \<open>finish_sent\<close>, \<open>psh_send_remaining\<close> and
  \<open>writer_waker\<close>; \<open>frame_tx\<close> and \<open>dropped_ports_tx\<close> are the channels of the multiplexor.
\<close>

record mux_stream =
  ms_flow_id :: u32
  ms_dest_host :: bytes
  ms_dest_port :: u16
  ms_cell :: nat
  ms_psh_recvd_since :: u32
  ms_buf :: bytes
  ms_rwnd_threshold :: u32

record stream_cell =
  c_finish_sent :: bool
  c_psh_send_remaining :: u32
  c_writer_waker :: "nat option"
  c_frames :: "bytes chan"

text \<open>
  \<open>EstablishedStreamData\<close>: \<open>sender\<close> is \<open>Some\<close> the address of the data channel until it is taken.
\<close>

record established =
  es_sender :: "nat option"
  es_cell :: nat

datatype flow_slot = Requested nat | Established established | BindRequested nat

text \<open>Where an asynchronous send of the task waits for capacity.\<close>

datatype suspended = SuspStream mux_stream | SuspBind bind_request

record mux =
  flows :: "(u32 \<times> flow_slot) list"
  tx_frame :: "finalized_frame chan"
  dropped_ports :: "u32 chan"
  con_recv :: "mux_stream chan"
  datagram_ch :: "datagram chan"
  bnd_request :: "bind_request chan option"
  cells :: "stream_cell list"
  stream_os :: "mux_stream option oneshot list"
  bind_os :: "bool oneshot list"
  woken :: "nat list"
  susp :: "suspended option"
  mux_rwnd :: u32
  mux_threshold :: u32
  mux_retries :: nat

section \<open>Access to the shared store\<close>

definition slot_of :: "mux \<Rightarrow> u32 \<Rightarrow> flow_slot option" where
  "slot_of m i = map_of (flows m) i"

definition cell :: "mux \<Rightarrow> nat \<Rightarrow> stream_cell" where
  "cell m a = cells m ! a"

definition upd_cell :: "nat \<Rightarrow> (stream_cell \<Rightarrow> stream_cell) \<Rightarrow> mux \<Rightarrow> mux" where
  "upd_cell a f m = m\<lparr>cells := (cells m)[a := f (cells m ! a)]\<rparr>"

definition upd_frames :: "nat \<Rightarrow> (bytes chan \<Rightarrow> bytes chan) \<Rightarrow> mux \<Rightarrow> mux" where
  "upd_frames a f m = upd_cell a (\<lambda>c. c\<lparr>c_frames := f (c_frames c)\<rparr>) m"

definition flow_insert :: "u32 \<Rightarrow> flow_slot \<Rightarrow> mux \<Rightarrow> mux" where
  "flow_insert i s m = m\<lparr>flows := AList.update i s (flows m)\<rparr>"

definition flow_remove :: "u32 \<Rightarrow> mux \<Rightarrow> mux" where
  "flow_remove i m = m\<lparr>flows := AList.delete i (flows m)\<rparr>"

text \<open>
  \<open>tx_frame_tx.send(frame)\<close> and its use with the result ignored (\<open>.ok()\<close>); \<open>dropped_ports_tx.send\<close>.
\<close>

definition tx_send :: "finalized_frame \<Rightarrow> mux \<Rightarrow> mux \<times> bool" where
  "tx_send ff m = (let (c, ok) = chan_send ff (tx_frame m) in (m\<lparr>tx_frame := c\<rparr>, ok))"

definition queue_frame :: "frame \<Rightarrow> mux \<Rightarrow> mux" where
  "queue_frame f m = fst (tx_send (fin f) m)"

definition notify_dropped :: "u32 \<Rightarrow> mux \<Rightarrow> mux" where
  "notify_dropped i m = m\<lparr>dropped_ports := fst (chan_send i (dropped_ports m))\<rparr>"

text \<open>\<open>AtomicWaker::wake\<close> takes the registered waker and wakes its task; \<open>register\<close> replaces it.\<close>

definition wake :: "nat \<Rightarrow> mux \<Rightarrow> mux" where
  "wake a m = (case c_writer_waker (cell m a) of
       None \<Rightarrow> m
     | Some w \<Rightarrow> (upd_cell a (\<lambda>c. c\<lparr>c_writer_waker := None\<rparr>) m)\<lparr>woken := woken m @ [w]\<rparr>)"

definition register_waker :: "nat \<Rightarrow> nat \<Rightarrow> mux \<Rightarrow> mux" where
  "register_waker a w m = upd_cell a (\<lambda>c. c\<lparr>c_writer_waker := Some w\<rparr>) m"

section \<open>Dropping values\<close>

text \<open>
  \<open>Drop for MuxStream\<close> reports the flow to the task; then the receiver of its data channel is
  dropped. A dropped \<open>BindRequest\<close> rejects the request. Dropping the sender of a data channel
  is what a reader sees as end of file.
\<close>

definition drop_stream :: "mux_stream \<Rightarrow> mux \<Rightarrow> mux" where
  "drop_stream s m = upd_frames (ms_cell s) drop_rx (notify_dropped (ms_flow_id s) m)"

definition drop_sender :: "nat option \<Rightarrow> mux \<Rightarrow> mux" where
  "drop_sender t m = (case t of None \<Rightarrow> m | Some a \<Rightarrow> upd_frames a drop_tx m)"

definition drop_stream_os_tx :: "nat \<Rightarrow> mux \<Rightarrow> mux" where
  "drop_stream_os_tx a m = m\<lparr>stream_os := (stream_os m)[a := oneshot_drop_tx (stream_os m ! a)]\<rparr>"

section \<open>\<open>EstablishedStreamData\<close>\<close>

definition disallow_read :: "established \<Rightarrow> established \<times> nat option" where
  "disallow_read d = (d\<lparr>es_sender := None\<rparr>, es_sender d)"

text \<open>\<open>fetch_add\<close> on an \<open>AtomicU32\<close> wraps around.\<close>

definition acknowledge :: "established \<Rightarrow> u32 \<Rightarrow> mux \<Rightarrow> mux" where
  "acknowledge d acknowledged m =
     wake (es_cell d)
       (upd_cell (es_cell d) (\<lambda>c. c\<lparr>c_psh_send_remaining := c_psh_send_remaining c + acknowledged\<rparr>) m)"

definition disallow_write :: "established \<Rightarrow> mux \<Rightarrow> mux \<times> bool" where
  "disallow_write d m =
     (let old = c_finish_sent (cell m (es_cell d));
          m = upd_cell (es_cell d) (\<lambda>c. c\<lparr>c_finish_sent := True\<rparr>) m
      in (wake (es_cell d) m, old))"

section \<open>\<open>FlowSlot\<close>\<close>

definition establish :: "flow_slot \<Rightarrow> established \<Rightarrow> flow_slot \<times> nat option" where
  "establish slot data = (case slot of
       Requested sender \<Rightarrow> (Established data, Some sender)
     | Established _ \<Rightarrow> (slot, None)
     | BindRequested _ \<Rightarrow> (slot, None))"

definition dispatch :: "flow_slot \<Rightarrow> bytes \<Rightarrow> mux \<Rightarrow> mux \<times> (try_send_error, unit) outcome option" where
  "dispatch slot data m = (case slot of
       Established d \<Rightarrow> (case es_sender d of
           None \<Rightarrow> (m, None)
         | Some a \<Rightarrow> (let (ch, r) = try_send data (c_frames (cell m a))
                      in (upd_frames a (\<lambda>_. ch) m, Some r)))
     | _ \<Rightarrow> (m, None))"

section \<open>Flow identifiers\<close>

text \<open>
  \<open>IntKey::next_available_key\<close> on \<open>u32\<close>: draw from the random generator until the key is unused.
  The draws are an argument; \<open>None\<close> means that all of them were taken and the loop still runs.
  The generator's documented range \<open>MIN..MAX\<close> is the hypothesis \<open>draws_ok\<close>.
\<close>

definition KEY_MIN :: u32 where "KEY_MIN = 1"
definition KEY_MAX :: u32 where "KEY_MAX = - 1"

fun next_available_key :: "u32 list \<Rightarrow> (u32 \<times> 'v) list \<Rightarrow> (u32 \<times> u32 list) option" where
  "next_available_key [] mp = None"
| "next_available_key (i # draws) mp =
     (if map_of mp i = None then Some (i, draws) else next_available_key draws mp)"

definition draws_ok :: "u32 list \<Rightarrow> bool" where
  "draws_ok ds \<longleftrightarrow> list_all (\<lambda>i. KEY_MIN \<le> i \<and> i < KEY_MAX) ds"

end
