(* ===== verification/Mux_Task.thy ===== *)
theory Mux_Task
  imports Mux_State
begin

text \<open>
  The multiplexor task, \<open>src/src/mux/task.rs\<close>: one definition per method, on the state of theory
  \<open>Mux_State\<close>. An asynchronous method returns a \<open>poll\<close>: where it waits for capacity in a bounded
  channel the value to be sent is kept in \<open>susp\<close> and \<open>resume_send\<close> polls it again. The WebSocket is
  the dictionary \<open>web_socket\<close> of the trait's methods; loops over received messages take the
  results that \<open>ws.next()\<close> yields before it ends as a list of errors and messages.
\<close>

section \<open>The WebSocket trait\<close>

record 'w web_socket =
  ws_poll_ready :: "'w \<Rightarrow> 'w \<times> (mux_error, unit) outcome poll"
  ws_start_send :: "message \<Rightarrow> 'w \<Rightarrow> 'w \<times> (mux_error, unit) outcome"
  ws_poll_flush :: "'w \<Rightarrow> 'w \<times> (mux_error, unit) outcome poll"
  ws_poll_close :: "'w \<Rightarrow> 'w \<times> (mux_error, unit) outcome poll"
  ws_poll_next :: "'w \<Rightarrow> 'w \<times> (mux_error, message) outcome option poll"

type_synonym inbox = "(mux_error + message) list"

section \<open>Closing a flow\<close>

definition close_port_local :: "flow_slot \<Rightarrow> u32 \<Rightarrow> bool \<Rightarrow> mux \<Rightarrow> mux" where
  "close_port_local removed flow_id inhibit_rst m = (case removed of
       Established d \<Rightarrow>
         let (m, finish_sent) = disallow_write d m;
             m = (if \<not> finish_sent \<and> \<not> inhibit_rst then queue_frame (new_reset flow_id) m else m);
             (_, sender) = disallow_read d
         in drop_sender sender m
     | Requested a \<Rightarrow> m\<lparr>stream_os := (stream_os m)[a := fst (oneshot_send None (stream_os m ! a))]\<rparr>
     | BindRequested a \<Rightarrow> m\<lparr>bind_os := (bind_os m)[a := fst (oneshot_send False (bind_os m ! a))]\<rparr>)"

definition close_port :: "u32 \<Rightarrow> bool \<Rightarrow> mux \<Rightarrow> mux" where
  "close_port flow_id inhibit_rst m = (case slot_of m flow_id of
       Some removed \<Rightarrow> close_port_local removed flow_id inhibit_rst (flow_remove flow_id m)
     | None \<Rightarrow> m)"

section \<open>New streams\<close>

definition new_stream_shared ::
  "u32 \<Rightarrow> u32 \<Rightarrow> bytes \<Rightarrow> u16 \<Rightarrow> mux \<Rightarrow> mux \<times> (mux_error, mux_stream \<times> established) outcome" where
  "new_stream_shared flow_id peer_rwnd dest_host dest_port m =
     (case mpsc_channel (unat (mux_rwnd m)) of
        Ok ch \<Rightarrow>
          let a = length (cells m);
              c = \<lparr>c_finish_sent = False, c_psh_send_remaining = peer_rwnd, c_writer_waker = None,
                   c_frames = ch\<rparr>;
              stream_data = \<lparr>es_sender = Some a, es_cell = a\<rparr>;
              stream = \<lparr>ms_flow_id = flow_id, ms_dest_host = dest_host, ms_dest_port = dest_port,
                        ms_cell = a, ms_psh_recvd_since = 0, ms_buf = [],
                        ms_rwnd_threshold = min (mux_threshold m) peer_rwnd\<rparr>
          in (m\<lparr>cells := cells m @ [c]\<rparr>, Ok (stream, stream_data))
      | Err e \<Rightarrow> (m, Err e)
      | Panic \<Rightarrow> (m, Panic))"

text \<open>\<open>con_recv_stream_tx.send(stream).await\<close> and \<open>sender.send(request).await\<close>.\<close>

definition send_stream_to_user :: "mux_stream \<Rightarrow> mux \<Rightarrow> mux \<times> (mux_error, unit) outcome poll" where
  "send_stream_to_user stream m = (case poll_send stream (con_recv m) of
       (c, Ready (Ok _)) \<Rightarrow> (m\<lparr>con_recv := c\<rparr>, Ready (Ok ()))
     | (c, Ready _) \<Rightarrow> (drop_stream stream m, Ready (Err SendStreamToClient))
     | (c, Pending) \<Rightarrow> (m\<lparr>susp := Some (SuspStream stream)\<rparr>, Pending))"

definition send_bind_to_user :: "bind_request \<Rightarrow> mux \<Rightarrow> mux \<times> (mux_error, unit) outcome poll" where
  "send_bind_to_user request m = (case bnd_request m of
       None \<Rightarrow> (m, Ready (Ok ()))
     | Some ch \<Rightarrow> (case poll_send request ch of
           (c, Ready (Ok _)) \<Rightarrow> (m\<lparr>bnd_request := Some c\<rparr>, Ready (Ok ()))
         | (c, Ready _) \<Rightarrow> (queue_frame (new_reset (br_flow_id request)) m, Ready (Ok ()))
         | (c, Pending) \<Rightarrow> (m\<lparr>susp := Some (SuspBind request)\<rparr>, Pending)))"

definition resume_send :: "mux \<Rightarrow> mux \<times> (mux_error, unit) outcome poll" where
  "resume_send m = (case susp m of
       None \<Rightarrow> (m, Ready (Ok ()))
     | Some (SuspStream s) \<Rightarrow> send_stream_to_user s (m\<lparr>susp := None\<rparr>)
     | Some (SuspBind r) \<Rightarrow> send_bind_to_user r (m\<lparr>susp := None\<rparr>))"

definition con_recv_new_stream ::
  "u32 \<Rightarrow> bytes \<Rightarrow> u16 \<Rightarrow> u32 \<Rightarrow> mux \<Rightarrow> mux \<times> (mux_error, unit) outcome poll" where
  "con_recv_new_stream flow_id dest_host dest_port peer_rwnd m =
     (if slot_of m flow_id \<noteq> None then (queue_frame (new_reset flow_id) m, Ready (Ok ()))
      else case new_stream_shared flow_id peer_rwnd dest_host dest_port m of
        (m, Ok (stream, stream_data)) \<Rightarrow>
          (case tx_send (fin (new_acknowledge flow_id (mux_rwnd m)))
                  (flow_insert flow_id (Established stream_data) m) of
             (m, True) \<Rightarrow> send_stream_to_user stream m
           | (m, False) \<Rightarrow> (drop_stream stream m, Ready (Err MuxClosed)))
      | (m, Err e) \<Rightarrow> (m, Ready (Err e))
      | (m, Panic) \<Rightarrow> (m, Ready Panic))"

definition ack_recv_new_stream :: "u32 \<Rightarrow> u32 \<Rightarrow> mux \<Rightarrow> mux \<times> (mux_error, unit) outcome" where
  "ack_recv_new_stream flow_id peer_rwnd m =
     (case new_stream_shared flow_id peer_rwnd [] 0 m of
        (m, Ok (stream, stream_data)) \<Rightarrow>
          (case slot_of m flow_id of
             None \<Rightarrow> (drop_sender (es_sender stream_data) (drop_stream stream m), Err ConnAckGone)
           | Some slot \<Rightarrow>
               (case establish slot stream_data of
                  (slot', None) \<Rightarrow>
                    (drop_sender (es_sender stream_data) (drop_stream stream m), Err ConnAckGone)
                | (slot', Some a) \<Rightarrow>
                    let m = flow_insert flow_id slot' m;
                        (os, ok) = oneshot_send (Some stream) (stream_os m ! a);
                        m = m\<lparr>stream_os := (stream_os m)[a := os]\<rparr>
                    in if ok then (m, Ok ()) else (drop_stream stream m, Err SendStreamToClient)))
      | (m, Err e) \<Rightarrow> (m, Err e)
      | (m, Panic) \<Rightarrow> (m, Panic))"

section \<open>Processing a frame\<close>

text \<open>
  The branches of \<open>process_frame\<close>. \<open>recv_ack\<close> decides under the read lock whether to create the
  stream or to answer \<open>Reset\<close>.
\<close>

definition recv_ack :: "u32 \<Rightarrow> u32 \<Rightarrow> mux \<Rightarrow> mux \<times> (mux_error, unit) outcome" where
  "recv_ack flow_id n m =
     (let (m, should_new_stream, should_send_rst) = (case slot_of m flow_id of
            Some (Established d) \<Rightarrow> (acknowledge d n m, False, False)
          | Some (Requested _) \<Rightarrow> (m, True, False)
          | Some (BindRequested _) \<Rightarrow> (m, False, True)
          | None \<Rightarrow> (m, False, True))
      in if should_new_stream then ack_recv_new_stream flow_id n m
         else if should_send_rst then (queue_frame (new_reset flow_id) m, Ok ())
         else (m, Ok ()))"

definition recv_finish :: "u32 \<Rightarrow> mux \<Rightarrow> mux" where
  "recv_finish flow_id m = (case slot_of m flow_id of
       None \<Rightarrow> queue_frame (new_reset flow_id) m
     | Some (BindRequested a) \<Rightarrow>
         let m = flow_remove flow_id m
         in m\<lparr>bind_os := (bind_os m)[a := fst (oneshot_send True (bind_os m ! a))]\<rparr>
     | Some (Requested a) \<Rightarrow>
         queue_frame (new_reset flow_id) (drop_stream_os_tx a (flow_remove flow_id m))
     | Some (Established d) \<Rightarrow>
         let (d, sender) = disallow_read d
         in drop_sender sender (flow_insert flow_id (Established d) m))"

definition recv_push :: "u32 \<Rightarrow> bytes \<Rightarrow> mux \<Rightarrow> mux" where
  "recv_push flow_id data m =
     (let (m, result) = (case slot_of m flow_id of
            None \<Rightarrow> (m, None)
          | Some slot \<Rightarrow> dispatch slot data m)
      in case result of
           Some (Ok _) \<Rightarrow> m
         | Some (Err Full) \<Rightarrow> close_port flow_id False m
         | Some _ \<Rightarrow> m
         | None \<Rightarrow> queue_frame (new_reset flow_id) m)"

definition recv_bind ::
  "u32 \<Rightarrow> bind_payload \<Rightarrow> bool \<Rightarrow> mux \<Rightarrow> mux \<times> (mux_error, unit) outcome poll" where
  "recv_bind flow_id payload ignore_bind m = (case bnd_request m of
       Some _ \<Rightarrow>
         if ignore_bind then (m, Ready (Ok ()))
         else send_bind_to_user \<lparr>br_flow_id = flow_id, br_payload = payload\<rparr> m
     | None \<Rightarrow> (queue_frame (new_reset flow_id) m, Ready (Ok ())))"

definition recv_datagram :: "u32 \<Rightarrow> datagram_payload \<Rightarrow> mux \<Rightarrow> mux \<times> (mux_error, unit) outcome" where
  "recv_datagram flow_id payload m =
     (let dg = \<lparr>dg_flow_id = flow_id, dg_target_host = cow_into_owned (dp_target_host payload),
                dg_target_port = dp_target_port payload, dg_data = cow_into_owned (dp_data payload)\<rparr>;
          (c, r) = try_send dg (datagram_ch m);
          m = m\<lparr>datagram_ch := c\<rparr>
      in case r of Err Closed \<Rightarrow> (m, Err MuxClosed) | _ \<Rightarrow> (m, Ok ()))"

definition process_frame :: "frame \<Rightarrow> bool \<Rightarrow> mux \<Rightarrow> mux \<times> (mux_error, unit) outcome poll" where
  "process_frame f ignore_bind m = (case frame_payload f of
       Connect c \<Rightarrow> con_recv_new_stream (frame_id f) (cow_into_owned (cp_target_host c))
          (cp_target_port c) (cp_rwnd c) m
     | Acknowledge n \<Rightarrow> apsnd Ready (recv_ack (frame_id f) n m)
     | Finish \<Rightarrow> (recv_finish (frame_id f) m, Ready (Ok ()))
     | Reset \<Rightarrow> (close_port (frame_id f) True m, Ready (Ok ()))
     | Push data \<Rightarrow> (recv_push (frame_id f) (cow_into_owned data) m, Ready (Ok ()))
     | Bind p \<Rightarrow> recv_bind (frame_id f) p ignore_bind m
     | Datagram p \<Rightarrow> apsnd Ready (recv_datagram (frame_id f) p m))"

text \<open>\<open>process_message\<close>: the result of \<open>Ok(true)\<close> is a received \<open>Close\<close>.\<close>

definition process_message ::
  "message \<Rightarrow> bool \<Rightarrow> mux \<Rightarrow> mux \<times> (mux_error, bool) outcome poll" where
  "process_message msg ignore_bind m = (case msg of
       Binary data \<Rightarrow>
         (case frame_try_from data of
            Ok f \<Rightarrow> (case process_frame f ignore_bind m of
                (m, Ready (Ok _)) \<Rightarrow> (m, Ready (Ok False))
              | (m, Ready (Err e)) \<Rightarrow> (m, Ready (Err e))
              | (m, Ready Panic) \<Rightarrow> (m, Ready Panic)
              | (m, Pending) \<Rightarrow> (m, Pending))
          | Err e \<Rightarrow> (m, Ready (Err (InvalidFrame e)))
          | Panic \<Rightarrow> (m, Ready Panic))
     | Ping \<Rightarrow> (m, Ready (Ok False))
     | Pong \<Rightarrow> (m, Ready (Ok False))
     | CloseMsg \<Rightarrow> (m, Ready (Ok True)))"

section \<open>The three loops of the task\<close>

text \<open>
  \<open>process_ws_next\<close> on the messages still to come. Where a message suspends, the rest of the
  messages is returned with \<open>Pending\<close>; \<open>resume_send\<close> completes that message.
\<close>

fun process_ws_next :: "inbox \<Rightarrow> mux \<Rightarrow> mux \<times> (mux_error, unit) outcome poll \<times> inbox" where
  "process_ws_next [] m = (m, Ready (Ok ()), [])"
| "process_ws_next (r # rest) m = (case r of
       Inl e \<Rightarrow> (m, Ready (Err e), rest)
     | Inr msg \<Rightarrow> (case process_message msg False m of
           (m, Pending) \<Rightarrow> (m, Pending, rest)
         | (m, Ready (Err e)) \<Rightarrow> (m, Ready (Err e), rest)
         | (m, Ready Panic) \<Rightarrow> (m, Ready Panic, rest)
         | (m, Ready (Ok closed)) \<Rightarrow>
             if closed then (m, Ready (Ok ()), rest) else process_ws_next rest m))"

lemma wake_dropped_ports [simp]: "dropped_ports (wake a m) = dropped_ports m"
  by (simp add: wake_def upd_cell_def split: option.split)

lemma close_port_dropped_ports [simp]: "dropped_ports (close_port i inhibit m) = dropped_ports m"
  by (simp add: close_port_def close_port_local_def disallow_write_def disallow_read_def Let_def
    queue_frame_def tx_send_def drop_sender_def upd_frames_def upd_cell_def flow_remove_def
    split: option.split flow_slot.split prod.split)

function process_dropped_ports_task :: "mux \<Rightarrow> mux \<times> (mux_error, unit) outcome poll" where
  "process_dropped_ports_task m = (case poll_recv (dropped_ports m) of
       (c, Pending) \<Rightarrow> (m, Pending)
     | (c, Ready None) \<Rightarrow> (m, Ready (Err (ChannelClosed ''dropped_ports_rx'')))
     | (c, Ready (Some flow_id)) \<Rightarrow>
         if flow_id = 0 then (m\<lparr>dropped_ports := c\<rparr>, Ready (Ok ()))
         else process_dropped_ports_task (close_port flow_id False (m\<lparr>dropped_ports := c\<rparr>)))"
  by pat_completeness auto

termination
  by (relation "measure (\<lambda>m. length (ch_queue (dropped_ports m)))")
    (auto dest!: mpsc.recv_SomeD [OF sym])

declare process_dropped_ports_task.simps [simp del]

definition poll_reserve_space_recv_frame ::
  "'w web_socket \<Rightarrow> 'w \<Rightarrow> mux \<Rightarrow> 'w \<times> mux \<times> (mux_error, unit) outcome poll" where
  "poll_reserve_space_recv_frame ws w m = (case ws_poll_ready ws w of
       (w, Pending) \<Rightarrow> (w, m, Pending)
     | (w, Ready (Err e)) \<Rightarrow> (w, m, Ready (Err e))
     | (w, Ready Panic) \<Rightarrow> (w, m, Ready Panic)
     | (w, Ready (Ok _)) \<Rightarrow> (case poll_recv (tx_frame m) of
           (c, Pending) \<Rightarrow> (w, m, Pending)
         | (c, Ready None) \<Rightarrow> (w, m, Ready (Err (ChannelClosed ''frame_rx'')))
         | (c, Ready (Some ff)) \<Rightarrow>
             let (w, r) = ws_start_send ws (Binary (finalized_bytes ff)) w
             in (w, m\<lparr>tx_frame := c\<rparr>, Ready r)))"

text \<open>
  \<open>process_frame_recv_task\<close> is a loop with three await points; one poll of it runs from the await
  point it is at to the next. \<open>tick\<close> says whether the keep-alive interval has elapsed.
\<close>

datatype frame_recv_point = Selecting | AwaitPing | Flushing

definition process_frame_recv_task ::
  "'w web_socket \<Rightarrow> bool \<Rightarrow> frame_recv_point \<Rightarrow> 'w \<Rightarrow> mux \<Rightarrow>
   frame_recv_point \<times> 'w \<times> mux \<times> (mux_error, unit) outcome poll" where
  "process_frame_recv_task ws tick p w m = (case p of
       Selecting \<Rightarrow> (case poll_reserve_space_recv_frame ws w m of
           (w, m, Ready (Ok _)) \<Rightarrow> (Flushing, w, m, Pending)
         | (w, m, Ready (Err e)) \<Rightarrow> (Selecting, w, m, Ready (Err e))
         | (w, m, Ready Panic) \<Rightarrow> (Selecting, w, m, Ready Panic)
         | (w, m, Pending) \<Rightarrow> (if tick then AwaitPing else Selecting, w, m, Pending))
     | AwaitPing \<Rightarrow> (case ws_poll_ready ws w of
           (w, Pending) \<Rightarrow> (AwaitPing, w, m, Pending)
         | (w, Ready (Err e)) \<Rightarrow> (AwaitPing, w, m, Ready (Err e))
         | (w, Ready Panic) \<Rightarrow> (AwaitPing, w, m, Ready Panic)
         | (w, Ready (Ok _)) \<Rightarrow> (case ws_start_send ws Ping w of
               (w, Ok _) \<Rightarrow> (Flushing, w, m, Pending)
             | (w, Err e) \<Rightarrow> (AwaitPing, w, m, Ready (Err e))
             | (w, Panic) \<Rightarrow> (AwaitPing, w, m, Ready Panic)))
     | Flushing \<Rightarrow> (case ws_poll_flush ws w of
           (w, Pending) \<Rightarrow> (Flushing, w, m, Pending)
         | (w, Ready (Ok _)) \<Rightarrow> (Selecting, w, m, Pending)
         | (w, Ready (Err e)) \<Rightarrow> (Flushing, w, m, Ready (Err e))
         | (w, Ready Panic) \<Rightarrow> (Flushing, w, m, Ready Panic)))"

section \<open>Winding down\<close>

text \<open>
  The parts of \<open>wind_down\<close> between its await points. \<open>ready_send\<close> is the resolved
  \<open>poll_ready().await.and_then(start_send)\<close> on the sink, with its error if there is one.
\<close>

definition stop_writer :: "u32 \<times> flow_slot \<Rightarrow> mux \<Rightarrow> mux" where
  "stop_writer e m = (case snd e of Established d \<Rightarrow> fst (disallow_write d m) | _ \<Rightarrow> m)"

definition wind_down_stop_writers :: "mux \<Rightarrow> mux" where
  "wind_down_stop_writers m = fold stop_writer (flows m) m"

fun wind_down_send ::
  "(message \<Rightarrow> 'w \<Rightarrow> 'w \<times> mux_error option) \<Rightarrow> finalized_frame list \<Rightarrow> 'w
   \<Rightarrow> 'w \<times> finalized_frame list" where
  "wind_down_send ready_send [] w = (w, [])"
| "wind_down_send ready_send (ff # ffs) w =
     (case ready_send (Binary (finalized_bytes ff)) w of
        (w, None) \<Rightarrow> wind_down_send ready_send ffs w
      | (w, Some _) \<Rightarrow> (w, ffs))"

definition wind_down_flush ::
  "(message \<Rightarrow> 'w \<Rightarrow> 'w \<times> mux_error option) \<Rightarrow> ('w \<Rightarrow> 'w) \<Rightarrow> bool \<Rightarrow> 'w \<Rightarrow> mux \<Rightarrow> 'w \<times> mux" where
  "wind_down_flush ready_send close should_drain w m =
     (let m = m\<lparr>tx_frame := chan_close (tx_frame m)\<rparr>;
          (w, rest) = (if should_drain then wind_down_send ready_send (ch_queue (tx_frame m)) w
                       else (w, ch_queue (tx_frame m)));
          m = m\<lparr>tx_frame := (tx_frame m)\<lparr>ch_queue := rest\<rparr>\<rparr>
      in (close w, m))"

definition wind_down_eof :: "mux \<Rightarrow> mux" where
  "wind_down_eof m = fold (\<lambda>(i, slot) m. close_port_local slot i True m) (flows m) (m\<lparr>flows := []\<rparr>)"

fun wind_down_dispatch :: "inbox \<Rightarrow> mux \<Rightarrow> mux \<times> (mux_error, unit) outcome poll \<times> inbox" where
  "wind_down_dispatch [] m = (wind_down_eof m, Ready (Ok ()), [])"
| "wind_down_dispatch (r # rest) m = (case r of
       Inr msg \<Rightarrow> (case process_message msg True m of
           (m, Pending) \<Rightarrow> (m, Pending, rest)
         | (m, Ready (Err e)) \<Rightarrow> (m, Ready (Err e), rest)
         | (m, Ready Panic) \<Rightarrow> (m, Ready Panic, rest)
         | (m, Ready (Ok _)) \<Rightarrow> wind_down_dispatch rest m)
     | Inl _ \<Rightarrow> (wind_down_eof m, Ready (Ok ()), rest))"

text \<open>The whole of it, when no other task runs at \<open>yield_now\<close>.\<close>

definition wind_down ::
  "(message \<Rightarrow> 'w \<Rightarrow> 'w \<times> mux_error option) \<Rightarrow> ('w \<Rightarrow> 'w) \<Rightarrow> bool \<Rightarrow> inbox \<Rightarrow> 'w \<Rightarrow> mux
   \<Rightarrow> 'w \<times> mux \<times> (mux_error, unit) outcome poll \<times> inbox" where
  "wind_down ready_send close should_drain inb w m =
     (let m = wind_down_stop_writers m;
          (w, m) = wind_down_flush ready_send close should_drain w m
      in (w, wind_down_dispatch inb m))"

section \<open>The task as a whole\<close>

text \<open>
  \<open>start\<close> runs the three loops until one of them ends; the others are cancelled where they wait, so
  a value they were about to send is dropped. \<open>task_exit\<close> is the end of the task, which drops
  its ends of all channels.
\<close>

datatype finished = DroppedPortsDone | FrameRecvDone | WsNextDone

definition cancel_suspended :: "mux \<Rightarrow> mux" where
  "cancel_suspended m = (case susp m of
       None \<Rightarrow> m
     | Some (SuspStream s) \<Rightarrow> drop_stream s (m\<lparr>susp := None\<rparr>)
     | Some (SuspBind r) \<Rightarrow> queue_frame (new_reset (br_flow_id r)) (m\<lparr>susp := None\<rparr>))"

definition task_exit :: "mux \<Rightarrow> mux" where
  "task_exit m = m\<lparr>tx_frame := drop_rx (tx_frame m), dropped_ports := drop_rx (dropped_ports m),
     con_recv := drop_tx (con_recv m), datagram_ch := drop_tx (datagram_ch m),
     bnd_request := map_option drop_tx (bnd_request m)\<rparr>"

definition start_finish ::
  "(message \<Rightarrow> 'w \<Rightarrow> 'w \<times> mux_error option) \<Rightarrow> ('w \<Rightarrow> 'w) \<Rightarrow> finished
   \<Rightarrow> (mux_error, unit) outcome \<Rightarrow> inbox \<Rightarrow> 'w \<Rightarrow> mux
   \<Rightarrow> 'w \<times> mux \<times> (mux_error, unit) outcome poll \<times> inbox" where
  "start_finish ready_send close branch res inb w m =
     (case wind_down ready_send close (branch = DroppedPortsDone) inb w (cancel_suspended m) of
        (w, m, Ready (Ok _), rest) \<Rightarrow> (w, task_exit m, Ready res, rest)
      | (w, m, Ready (Err e), rest) \<Rightarrow> (w, task_exit m, Ready (Err e), rest)
      | (w, m, Ready Panic, rest) \<Rightarrow> (w, task_exit m, Ready Panic, rest)
      | (w, m, Pending, rest) \<Rightarrow> (w, m, Pending, rest))"

end
