(* ===== verification/Mux_Stream.thy ===== *)
theory Mux_Stream
  imports Mux_State
begin

text \<open>
  \<open>src/src/mux/stream.rs\<close>: reading from and writing to a \<open>MuxStream\<close>. An operation takes the stream
  and the state of its multiplexor; \<open>w\<close> is the identity of the polling task's waker. The loop
  around \<open>compare_exchange_weak\<close> is one atomic decrement here; the theory \<open>Write_Permission\<close> has
  the loop step by step and shows that each permission takes exactly one credit.
\<close>

section \<open>Reading\<close>

definition increment_psh_recvd_since :: "mux_stream \<Rightarrow> mux \<Rightarrow> mux_stream \<times> mux" where
  "increment_psh_recvd_since s m =
     (let new = ms_psh_recvd_since s + 1;
          s = s\<lparr>ms_psh_recvd_since := new\<rparr>
      in if ms_rwnd_threshold s \<le> new
         then (s\<lparr>ms_psh_recvd_since := 0\<rparr>, queue_frame (new_acknowledge (ms_flow_id s) new) m)
         else (s, m))"

text \<open>\<open>poll_fill_buf\<close> returns a reference to the buffer: here the octets it shows.\<close>

definition poll_fill_buf ::
  "mux_stream \<Rightarrow> mux \<Rightarrow> mux_stream \<times> mux \<times> (io_error, bytes) outcome poll" where
  "poll_fill_buf s m =
     (if ms_buf s = [] then
        (case poll_recv (c_frames (cell m (ms_cell s))) of
           (c, Pending) \<Rightarrow> (s, m, Pending)
         | (c, Ready None) \<Rightarrow> (s, upd_frames (ms_cell s) (\<lambda>_. chan_close c) m, Ready (Ok []))
         | (c, Ready (Some next)) \<Rightarrow>
             let (s, m) = increment_psh_recvd_since (s\<lparr>ms_buf := next\<rparr>)
                            (upd_frames (ms_cell s) (\<lambda>_. c) m)
             in (s, m, Ready (Ok (ms_buf s))))
      else (s, m, Ready (Ok (ms_buf s))))"

text \<open>\<open>consume\<close>: \<open>Bytes::advance\<close> panics past the end.\<close>

definition consume :: "nat \<Rightarrow> mux_stream \<Rightarrow> (io_error, mux_stream) outcome" where
  "consume amt s = (if amt \<le> length (ms_buf s) then Ok (s\<lparr>ms_buf := drop amt (ms_buf s)\<rparr>) else Panic)"

text \<open>\<open>poll_read\<close> into a buffer with room for \<open>remaining\<close> octets: the value is what it puts there.\<close>

definition poll_read ::
  "nat \<Rightarrow> mux_stream \<Rightarrow> mux \<Rightarrow> mux_stream \<times> mux \<times> (io_error, bytes) outcome poll" where
  "poll_read remaining s m = (case poll_fill_buf s m of
       (s, m, Pending) \<Rightarrow> (s, m, Pending)
     | (s, m, Ready (Err e)) \<Rightarrow> (s, m, Ready (Err e))
     | (s, m, Ready Panic) \<Rightarrow> (s, m, Ready Panic)
     | (s, m, Ready (Ok got)) \<Rightarrow>
         let amt = min (length got) remaining
         in case consume amt s of
              Ok s \<Rightarrow> (s, m, Ready (Ok (take amt got)))
            | Err e \<Rightarrow> (s, m, Ready (Err e))
            | Panic \<Rightarrow> (s, m, Ready Panic))"

section \<open>Writing\<close>

definition poll_obtain_write_permission ::
  "nat \<Rightarrow> mux_stream \<Rightarrow> mux \<Rightarrow> mux \<times> (io_error, unit) outcome poll" where
  "poll_obtain_write_permission w s m =
     (if c_finish_sent (cell m (ms_cell s)) then (m, Ready (Err BrokenPipe))
      else let original = c_psh_send_remaining (cell m (ms_cell s))
           in if original = 0 then (register_waker (ms_cell s) w m, Pending)
              else (upd_cell (ms_cell s) (\<lambda>c. c\<lparr>c_psh_send_remaining := original - 1\<rparr>) m, Ready (Ok ())))"

definition poll_write ::
  "nat \<Rightarrow> bytes \<Rightarrow> mux_stream \<Rightarrow> mux \<Rightarrow> mux \<times> (io_error, nat) outcome poll" where
  "poll_write w data s m = (case poll_obtain_write_permission w s m of
       (m, Pending) \<Rightarrow> (m, Pending)
     | (m, Ready (Err e)) \<Rightarrow> (m, Ready (Err e))
     | (m, Ready Panic) \<Rightarrow> (m, Ready Panic)
     | (m, Ready (Ok _)) \<Rightarrow> (case tx_send (fin (new_push (ms_flow_id s) data)) m of
           (m, True) \<Rightarrow> (m, Ready (Ok (length data)))
         | (m, False) \<Rightarrow> (m, Ready (Err BrokenPipe))))"

definition poll_flush :: "mux_stream \<Rightarrow> (io_error, unit) outcome poll" where
  "poll_flush s = Ready (Ok ())"

definition shutdown_inner :: "mux_stream \<Rightarrow> mux \<Rightarrow> mux \<times> (io_error, unit) outcome" where
  "shutdown_inner s m =
     (let old = c_finish_sent (cell m (ms_cell s));
          m = upd_cell (ms_cell s) (\<lambda>c. c\<lparr>c_finish_sent := True\<rparr>) m
      in if old then (m, Ok ())
         else case tx_send (fin (new_finish (ms_flow_id s))) m of
                (m, True) \<Rightarrow> (m, Ok ())
              | (m, False) \<Rightarrow> (m, Err BrokenPipe))"

definition poll_shutdown :: "mux_stream \<Rightarrow> mux \<Rightarrow> mux \<times> (io_error, unit) outcome poll" where
  "poll_shutdown s m = apsnd Ready (shutdown_inner s m)"

end
