(* ===== verification/Multiplexor.thy ===== *)
theory Multiplexor
  imports Mux_Task Mux_Stream
begin

text \<open>
  The user's side of a multiplexor, \<open>src/src/mux/lib.rs\<close>: creation, opening and accepting streams,
  datagrams, bind requests and drop. An asynchronous method is a future that is polled; where
  it waits between polls is a value (\<open>new_stream_future\<close>, \<open>bind_future\<close>).
\<close>

section \<open>Creation\<close>

definition multiplexor_new :: "options option \<Rightarrow> (unit, mux) outcome" where
  "multiplexor_new opts =
     (let o1 = (case opts of Some o1 \<Rightarrow> o1 | None \<Rightarrow> options_default)
      in obind (mpsc_channel (opt_datagram_buffer_size o1)) (\<lambda>dg.
         obind (mpsc_channel (opt_stream_buffer_size o1)) (\<lambda>cr.
         obind (if 0 < opt_bind_buffer_size o1
                then obind (mpsc_channel (opt_bind_buffer_size o1)) (\<lambda>b. Ok (Some b))
                else Ok None) (\<lambda>bnd.
         Ok \<lparr>flows = [], tx_frame = mpsc_unbounded, dropped_ports = mpsc_unbounded, con_recv = cr,
             datagram_ch = dg, bnd_request = bnd, cells = [], stream_os = [], bind_os = [], woken = [],
             susp = None, mux_rwnd = opt_rwnd o1, mux_threshold = opt_default_rwnd_threshold o1,
             mux_retries = opt_max_flow_id_retries o1\<rparr>))))"

section \<open>Opening a stream\<close>

text \<open>
  \<open>new_stream_channel\<close>: \<open>NsLoop r\<close> is the head of the loop with \<open>r\<close> retries left, \<open>NsWait r a\<close> the
  await on the oneshot channel at address \<open>a\<close>. One attempt allocates the channel and a flow
  identifier, enters the request into the map and queues \<open>Connect\<close>. \<open>None\<close>: the loop of
  \<open>next_available_key\<close> is still drawing.
\<close>

datatype new_stream_future = NsLoop nat | NsWait nat nat | NsDone

definition new_stream_attempt ::
  "bytes \<Rightarrow> u16 \<Rightarrow> u32 list \<Rightarrow> mux \<Rightarrow> (mux \<times> u32 list \<times> (mux_error, nat) outcome) option" where
  "new_stream_attempt host port draws m =
     (let a = length (stream_os m); m = m\<lparr>stream_os := stream_os m @ [oneshot_new]\<rparr>
      in case next_available_key draws (flows m) of
           None \<Rightarrow> None
         | Some (flow_id, draws) \<Rightarrow>
             Some (case tx_send (fin (new_connect host port flow_id (mux_rwnd m)))
                          (flow_insert flow_id (Requested a) m) of
                     (m, True) \<Rightarrow> (m, draws, Ok a)
                   | (m, False) \<Rightarrow> (m\<lparr>stream_os := (stream_os m)[a := (stream_os m ! a)\<lparr>os_rx_alive := False\<rparr>]\<rparr>,
                                    draws, Err MuxClosed)))"

definition poll_wait ::
  "nat \<Rightarrow> nat \<Rightarrow> mux \<Rightarrow> mux \<times> new_stream_future \<times> (mux_error, mux_stream) outcome poll" where
  "poll_wait r a m =
     (let (os, res) = oneshot_poll (stream_os m ! a); m = m\<lparr>stream_os := (stream_os m)[a := os]\<rparr>
      in case res of
           Pending \<Rightarrow> (m, NsWait r a, Pending)
         | Ready (Ok (Some s)) \<Rightarrow> (m, NsDone, Ready (Ok s))
         | Ready (Ok None) \<Rightarrow> (m, NsLoop r, Pending)
         | Ready _ \<Rightarrow> (m, NsDone, Ready (Err MuxClosed)))"

definition poll_new_stream_channel ::
  "bytes \<Rightarrow> u16 \<Rightarrow> u32 list \<Rightarrow> new_stream_future \<Rightarrow> mux
   \<Rightarrow> (mux \<times> u32 list \<times> new_stream_future \<times> (mux_error, mux_stream) outcome poll) option" where
  "poll_new_stream_channel host port draws fut m = (case fut of
       NsDone \<Rightarrow> None
     | NsWait r a \<Rightarrow> (case poll_wait r a m of (m, f, res) \<Rightarrow> Some (m, draws, f, res))
     | NsLoop retries_left \<Rightarrow>
         if retries_left = 0 then Some (m, draws, NsDone, Ready (Err FlowIdRejected))
         else (case new_stream_attempt host port draws m of
             None \<Rightarrow> None
           | Some (m, draws, Ok a) \<Rightarrow> Some (m, draws, NsWait (retries_left - 1) a, Pending)
           | Some (m, draws, Err e) \<Rightarrow> Some (m, draws, NsDone, Ready (Err e))
           | Some (m, draws, Panic) \<Rightarrow> Some (m, draws, NsDone, Ready Panic)))"

definition new_stream_channel :: "mux \<Rightarrow> new_stream_future" where
  "new_stream_channel m = NsLoop (mux_retries m)"

section \<open>Accepting, datagrams and bind requests\<close>

text \<open>\<open>poll_recv(..).ok_or(Error::Closed)\<close>, the last step of the accepting methods.\<close>

definition ok_or_closed :: "'a option poll \<Rightarrow> (mux_error, 'a) outcome poll" where
  "ok_or_closed p = (case p of Pending \<Rightarrow> Pending | Ready x \<Rightarrow> Ready (ok_or MuxClosed x))"

definition accept_stream_channel :: "mux \<Rightarrow> mux \<times> (mux_error, mux_stream) outcome poll" where
  "accept_stream_channel m =
     (let (c, r) = poll_recv (con_recv m) in (m\<lparr>con_recv := c\<rparr>, ok_or_closed r))"

definition get_datagram :: "mux \<Rightarrow> mux \<times> (mux_error, datagram) outcome poll" where
  "get_datagram m =
     (let (c, r) = poll_recv (datagram_ch m) in (m\<lparr>datagram_ch := c\<rparr>, ok_or_closed r))"

definition send_datagram :: "datagram \<Rightarrow> mux \<Rightarrow> mux \<times> (mux_error, unit) outcome" where
  "send_datagram dg m =
     (if 255 < length (dg_target_host dg) then (m, Err DatagramHostTooLong)
      else case finalize (new_datagram_owned (dg_flow_id dg) (dg_target_host dg) (dg_target_port dg) (dg_data dg)) of
        None \<Rightarrow> (m, Panic)
      | Some ff \<Rightarrow> (case tx_send ff m of
            (m, True) \<Rightarrow> (m, Ok ())
          | (m, False) \<Rightarrow> (m, Err MuxClosed)))"

datatype bind_future = BindWait nat

definition request_bind ::
  "bytes \<Rightarrow> u16 \<Rightarrow> bind_type \<Rightarrow> u32 list \<Rightarrow> mux
   \<Rightarrow> (mux \<times> u32 list \<times> (mux_error, bind_future) outcome) option" where
  "request_bind host port bind_type draws m =
     (let a = length (bind_os m); m = m\<lparr>bind_os := bind_os m @ [oneshot_new]\<rparr>
      in case next_available_key draws (flows m) of
           None \<Rightarrow> None
         | Some (flow_id, draws) \<Rightarrow>
             Some (case tx_send (fin (new_bind flow_id bind_type host port))
                          (flow_insert flow_id (BindRequested a) m) of
                     (m, True) \<Rightarrow> (m, draws, Ok (BindWait a))
                   | (m, False) \<Rightarrow> (m\<lparr>bind_os := (bind_os m)[a := (bind_os m ! a)\<lparr>os_rx_alive := False\<rparr>]\<rparr>,
                                    draws, Err MuxClosed)))"

primrec poll_bind :: "bind_future \<Rightarrow> mux \<Rightarrow> mux \<times> (mux_error, bool) outcome poll" where
  "poll_bind (BindWait a) m =
     (let (os, res) = oneshot_poll (bind_os m ! a); m = m\<lparr>bind_os := (bind_os m)[a := os]\<rparr>
      in (m, case res of Pending \<Rightarrow> Pending | Ready r \<Rightarrow> Ready (map_err (\<lambda>_. MuxClosed) r)))"

definition next_bind_request :: "mux \<Rightarrow> mux \<times> (mux_error, bind_request) outcome poll" where
  "next_bind_request m = (case bnd_request m of
       Some ch \<Rightarrow> let (c, r) = poll_recv ch in (m\<lparr>bnd_request := Some c\<rparr>, ok_or_closed r)
     | None \<Rightarrow> (m, Ready (Err UnsupportedOperation)))"

definition bind_reply :: "bind_request \<Rightarrow> bool \<Rightarrow> mux \<Rightarrow> mux \<times> (mux_error, unit) outcome" where
  "bind_reply r accepted m =
     (case tx_send (fin (if accepted then new_finish (br_flow_id r) else new_reset (br_flow_id r))) m of
        (m, True) \<Rightarrow> (m, Ok ())
      | (m, False) \<Rightarrow> (m, Err MuxClosed))"

definition drop_bind_request :: "bind_request \<Rightarrow> mux \<Rightarrow> mux" where
  "drop_bind_request r m = fst (bind_reply r False m)"

section \<open>Drop\<close>

text \<open>
  \<open>Drop for Multiplexor\<close> sends the flow identifier zero; then the fields are dropped, which drops
  the receivers and every stream and bind request still queued in them.
\<close>

definition multiplexor_drop :: "mux \<Rightarrow> mux" where
  "multiplexor_drop m =
     (let m = notify_dropped 0 m;
          m = m\<lparr>datagram_ch := drop_rx (datagram_ch m)\<rparr>;
          m = fold drop_stream (ch_queue (con_recv m)) (m\<lparr>con_recv := drop_rx (con_recv m)\<rparr>)
      in case bnd_request m of
           None \<Rightarrow> m
         | Some ch \<Rightarrow> fold drop_bind_request (ch_queue ch) (m\<lparr>bnd_request := Some (drop_rx ch)\<rparr>))"

end
