(* ===== verification/Mux_Invariant.thy ===== *)
theory Mux_Invariant
  imports Multiplexor
begin

text \<open>
  The well-formedness of a multiplexor's state and its preservation. The first part gives the effect
  of the elementary state changes on every field, as simplification rules; the second defines
  \<open>mux_wf\<close> and shows that every operation of \<open>task.rs\<close>, \<open>stream.rs\<close> and \<open>lib.rs\<close> keeps it.
\<close>

section \<open>Elementary state changes\<close>

named_theorems mux_simps \<open>fields after an elementary state change\<close>

lemma upd_cell_sels [simp]:
  "flows (upd_cell a f m) = flows m" "tx_frame (upd_cell a f m) = tx_frame m"
  "dropped_ports (upd_cell a f m) = dropped_ports m" "con_recv (upd_cell a f m) = con_recv m"
  "datagram_ch (upd_cell a f m) = datagram_ch m" "bnd_request (upd_cell a f m) = bnd_request m"
  "stream_os (upd_cell a f m) = stream_os m" "bind_os (upd_cell a f m) = bind_os m"
  "woken (upd_cell a f m) = woken m" "susp (upd_cell a f m) = susp m"
  "mux_rwnd (upd_cell a f m) = mux_rwnd m" "mux_threshold (upd_cell a f m) = mux_threshold m"
  "mux_retries (upd_cell a f m) = mux_retries m"
  "length (cells (upd_cell a f m)) = length (cells m)"
  by (simp_all add: upd_cell_def)

lemma upd_frames_sels [simp]:
  "flows (upd_frames a f m) = flows m" "tx_frame (upd_frames a f m) = tx_frame m"
  "dropped_ports (upd_frames a f m) = dropped_ports m" "con_recv (upd_frames a f m) = con_recv m"
  "datagram_ch (upd_frames a f m) = datagram_ch m" "bnd_request (upd_frames a f m) = bnd_request m"
  "stream_os (upd_frames a f m) = stream_os m" "bind_os (upd_frames a f m) = bind_os m"
  "woken (upd_frames a f m) = woken m" "susp (upd_frames a f m) = susp m"
  "mux_rwnd (upd_frames a f m) = mux_rwnd m" "mux_threshold (upd_frames a f m) = mux_threshold m"
  "mux_retries (upd_frames a f m) = mux_retries m"
  "length (cells (upd_frames a f m)) = length (cells m)"
  by (simp_all add: upd_frames_def)

lemma wake_sels [simp]:
  "flows (wake a m) = flows m" "tx_frame (wake a m) = tx_frame m"
  "con_recv (wake a m) = con_recv m"
  "datagram_ch (wake a m) = datagram_ch m" "bnd_request (wake a m) = bnd_request m"
  "stream_os (wake a m) = stream_os m" "bind_os (wake a m) = bind_os m"
  "susp (wake a m) = susp m"
  "mux_rwnd (wake a m) = mux_rwnd m" "mux_threshold (wake a m) = mux_threshold m"
  "mux_retries (wake a m) = mux_retries m"
  "length (cells (wake a m)) = length (cells m)"
  by (simp_all add: wake_def split: option.split)

lemma queue_frame_sels [simp]:
  "flows (queue_frame f m) = flows m" "cells (queue_frame f m) = cells m"
  "dropped_ports (queue_frame f m) = dropped_ports m" "con_recv (queue_frame f m) = con_recv m"
  "datagram_ch (queue_frame f m) = datagram_ch m" "bnd_request (queue_frame f m) = bnd_request m"
  "stream_os (queue_frame f m) = stream_os m" "bind_os (queue_frame f m) = bind_os m"
  "woken (queue_frame f m) = woken m" "susp (queue_frame f m) = susp m"
  "mux_rwnd (queue_frame f m) = mux_rwnd m" "mux_threshold (queue_frame f m) = mux_threshold m"
  "mux_retries (queue_frame f m) = mux_retries m"
  by (simp_all add: queue_frame_def tx_send_def split: prod.split)

lemma notify_dropped_sels [simp]:
  "flows (notify_dropped i m) = flows m" "cells (notify_dropped i m) = cells m"
  "tx_frame (notify_dropped i m) = tx_frame m" "con_recv (notify_dropped i m) = con_recv m"
  "datagram_ch (notify_dropped i m) = datagram_ch m" "bnd_request (notify_dropped i m) = bnd_request m"
  "stream_os (notify_dropped i m) = stream_os m" "bind_os (notify_dropped i m) = bind_os m"
  "woken (notify_dropped i m) = woken m" "susp (notify_dropped i m) = susp m"
  "mux_rwnd (notify_dropped i m) = mux_rwnd m" "mux_threshold (notify_dropped i m) = mux_threshold m"
  "mux_retries (notify_dropped i m) = mux_retries m"
  by (simp_all add: notify_dropped_def)

lemma flow_insert_sels [simp]:
  "tx_frame (flow_insert i s m) = tx_frame m" "cells (flow_insert i s m) = cells m"
  "dropped_ports (flow_insert i s m) = dropped_ports m" "con_recv (flow_insert i s m) = con_recv m"
  "datagram_ch (flow_insert i s m) = datagram_ch m" "bnd_request (flow_insert i s m) = bnd_request m"
  "stream_os (flow_insert i s m) = stream_os m" "bind_os (flow_insert i s m) = bind_os m"
  "woken (flow_insert i s m) = woken m" "susp (flow_insert i s m) = susp m"
  "mux_rwnd (flow_insert i s m) = mux_rwnd m" "mux_threshold (flow_insert i s m) = mux_threshold m"
  "mux_retries (flow_insert i s m) = mux_retries m"
  by (simp_all add: flow_insert_def)

lemma flow_remove_sels [simp]:
  "tx_frame (flow_remove i m) = tx_frame m" "cells (flow_remove i m) = cells m"
  "dropped_ports (flow_remove i m) = dropped_ports m" "con_recv (flow_remove i m) = con_recv m"
  "datagram_ch (flow_remove i m) = datagram_ch m" "bnd_request (flow_remove i m) = bnd_request m"
  "stream_os (flow_remove i m) = stream_os m" "bind_os (flow_remove i m) = bind_os m"
  "woken (flow_remove i m) = woken m" "susp (flow_remove i m) = susp m"
  "mux_rwnd (flow_remove i m) = mux_rwnd m" "mux_threshold (flow_remove i m) = mux_threshold m"
  "mux_retries (flow_remove i m) = mux_retries m"
  by (simp_all add: flow_remove_def)

lemma slot_of_flow_insert [simp]: "slot_of (flow_insert i s m) j = (if j = i then Some s else slot_of m j)"
  by (simp add: slot_of_def flow_insert_def AList.update_conv')

lemma slot_of_flow_remove [simp]: "slot_of (flow_remove i m) j = (if j = i then None else slot_of m j)"
  by (simp add: slot_of_def flow_remove_def AList.delete_conv')

lemma slot_of_same [simp]:
  "slot_of (upd_cell a f m) = slot_of m" "slot_of (upd_frames a g m) = slot_of m"
  "slot_of (wake a m) = slot_of m" "slot_of (queue_frame q m) = slot_of m"
  "slot_of (notify_dropped i m) = slot_of m"
  by (simp_all add: slot_of_def fun_eq_iff)

lemma slot_of_updates [simp]:
  "slot_of (m\<lparr>tx_frame := t\<rparr>) = slot_of m" "slot_of (m\<lparr>dropped_ports := dp\<rparr>) = slot_of m"
  "slot_of (m\<lparr>con_recv := cr\<rparr>) = slot_of m" "slot_of (m\<lparr>datagram_ch := dg\<rparr>) = slot_of m"
  "slot_of (m\<lparr>bnd_request := b\<rparr>) = slot_of m" "slot_of (m\<lparr>cells := cs\<rparr>) = slot_of m"
  "slot_of (m\<lparr>stream_os := so\<rparr>) = slot_of m" "slot_of (m\<lparr>bind_os := bo\<rparr>) = slot_of m"
  "slot_of (m\<lparr>woken := wk\<rparr>) = slot_of m" "slot_of (m\<lparr>susp := su\<rparr>) = slot_of m"
  by (simp_all add: slot_of_def fun_eq_iff)

text \<open>The data channel at an address, and the elementary changes of it.\<close>

definition frames_at :: "mux \<Rightarrow> nat \<Rightarrow> bytes chan" where
  "frames_at m a = c_frames (cells m ! a)"

lemma c_frames_cell [simp]: "c_frames (cell m a) = frames_at m a"
  by (simp add: cell_def frames_at_def)

lemma cell_upd_cell: "a < length (cells m) \<Longrightarrow> cell (upd_cell a f m) b = (if b = a then f (cell m a) else cell m b)"
  by (simp add: cell_def upd_cell_def nth_list_update)

lemma cell_upd_cell_other [simp]: "b \<noteq> a \<Longrightarrow> cell (upd_cell a f m) b = cell m b"
  by (simp add: cell_def upd_cell_def)

lemma frames_at_upd_cell [simp]:
  "(\<And>c. c_frames (f c) = c_frames c) \<Longrightarrow> frames_at (upd_cell a f m) b = frames_at m b"
  by (cases "a < length (cells m)") (auto simp: frames_at_def upd_cell_def nth_list_update list_update_beyond)

lemma frames_at_upd_frames:
  "a < length (cells m) \<Longrightarrow> frames_at (upd_frames a g m) b = (if b = a then g (frames_at m a) else frames_at m b)"
  by (simp add: frames_at_def upd_frames_def upd_cell_def nth_list_update)

lemma frames_at_upd_frames_other [simp]: "b \<noteq> a \<Longrightarrow> frames_at (upd_frames a g m) b = frames_at m b"
  by (simp add: frames_at_def upd_frames_def upd_cell_def)

lemma upd_frames_beyond: "\<not> a < length (cells m) \<Longrightarrow> upd_frames a g m = m"
  by (simp add: upd_frames_def upd_cell_def list_update_beyond)

lemma frames_at_same [simp]:
  "frames_at (queue_frame q m) = frames_at m" "frames_at (notify_dropped i m) = frames_at m"
  "frames_at (flow_insert i s m) = frames_at m" "frames_at (flow_remove i m) = frames_at m"
  "frames_at (m\<lparr>tx_frame := t\<rparr>) = frames_at m" "frames_at (m\<lparr>dropped_ports := dp\<rparr>) = frames_at m"
  "frames_at (m\<lparr>con_recv := cr\<rparr>) = frames_at m" "frames_at (m\<lparr>datagram_ch := dg\<rparr>) = frames_at m"
  "frames_at (m\<lparr>bnd_request := b\<rparr>) = frames_at m" "frames_at (m\<lparr>flows := fl\<rparr>) = frames_at m"
  "frames_at (m\<lparr>stream_os := so\<rparr>) = frames_at m" "frames_at (m\<lparr>bind_os := bo\<rparr>) = frames_at m"
  "frames_at (m\<lparr>woken := wk\<rparr>) = frames_at m" "frames_at (m\<lparr>susp := su\<rparr>) = frames_at m"
  by (simp_all add: frames_at_def fun_eq_iff)

lemma frames_at_wake [simp]: "frames_at (wake a m) = frames_at m"
  by (simp add: wake_def fun_eq_iff split: option.split)

lemma tx_frame_queue_frame [simp]:
  "tx_frame (queue_frame f m) = (tx_frame m)\<lparr>ch_queue := ch_queue (tx_frame m) @
     (if ch_rx_open (tx_frame m) then [fin f] else [])\<rparr>"
  by (simp add: queue_frame_def tx_send_def chan_send_def ch_push_def)

lemma tx_send_eq: "tx_send ff m = (m\<lparr>tx_frame := (tx_frame m)\<lparr>ch_queue := ch_queue (tx_frame m) @
     (if ch_rx_open (tx_frame m) then [ff] else [])\<rparr>\<rparr>, ch_rx_open (tx_frame m))"
  by (simp add: tx_send_def chan_send_def ch_push_def)

lemma tx_send_fin_eq: "tx_send (fin f) m = (queue_frame f m, ch_rx_open (tx_frame m))"
  by (simp add: queue_frame_def tx_send_def chan_send_def)

section \<open>The invariant\<close>

text \<open>
  \<open>wf_flows\<close>: flow identifiers are unique; two established flows never share a cell, and a sender
  belongs to its own cell. \<open>wf_cells\<close>: every data channel has capacity \<open>rwnd\<close> and respects it,
  and its sender is alive exactly while a flow holds it. \<open>wf_oneshots\<close>: a pending request owns a
  live sender that has sent nothing, and no two requests share one.
\<close>

definition wf_flows :: "mux \<Rightarrow> bool" where
  "wf_flows m \<longleftrightarrow> distinct (map fst (flows m))
     \<and> (\<forall>i d. slot_of m i = Some (Established d) \<longrightarrow> es_cell d < length (cells m)
          \<and> es_sender d \<in> {None, Some (es_cell d)})
     \<and> (\<forall>i j d e. slot_of m i = Some (Established d) \<longrightarrow> slot_of m j = Some (Established e)
          \<longrightarrow> es_cell d = es_cell e \<longrightarrow> i = j)"

definition has_sender :: "mux \<Rightarrow> nat \<Rightarrow> bool" where
  "has_sender m a \<longleftrightarrow> (\<exists>i d. slot_of m i = Some (Established d) \<and> es_sender d = Some a)"

definition wf_cells :: "mux \<Rightarrow> bool" where
  "wf_cells m \<longleftrightarrow> mux_rwnd m \<noteq> 0 \<and> (\<forall>a<length (cells m).
     ch_cap (frames_at m a) = Some (unat (mux_rwnd m))
     \<and> length (ch_queue (frames_at m a)) \<le> unat (mux_rwnd m)
     \<and> (ch_tx_alive (frames_at m a) \<longleftrightarrow> has_sender m a))"

definition os_fresh :: "'a oneshot list \<Rightarrow> nat \<Rightarrow> bool" where
  "os_fresh xs a \<longleftrightarrow> a < length xs \<and> os_tx_alive (xs ! a) \<and> os_value (xs ! a) = None"

definition wf_oneshots :: "mux \<Rightarrow> bool" where
  "wf_oneshots m \<longleftrightarrow>
     (\<forall>i a. slot_of m i = Some (Requested a) \<longrightarrow> os_fresh (stream_os m) a)
     \<and> (\<forall>i j a. slot_of m i = Some (Requested a) \<longrightarrow> slot_of m j = Some (Requested a) \<longrightarrow> i = j)
     \<and> (\<forall>i a. slot_of m i = Some (BindRequested a) \<longrightarrow> os_fresh (bind_os m) a)
     \<and> (\<forall>i j a. slot_of m i = Some (BindRequested a) \<longrightarrow> slot_of m j = Some (BindRequested a) \<longrightarrow> i = j)"

definition chan_ok :: "'a chan \<Rightarrow> bool" where
  "chan_ok c \<longleftrightarrow> (case ch_cap c of None \<Rightarrow> False | Some k \<Rightarrow> 0 < k \<and> length (ch_queue c) \<le> k)"

definition encodes :: "finalized_frame \<Rightarrow> bool" where
  "encodes ff \<longleftrightarrow> (\<exists>f. frame_to_vec f = Some (finalized_bytes ff))"

definition wf_chans :: "mux \<Rightarrow> bool" where
  "wf_chans m \<longleftrightarrow> chan_ok (con_recv m) \<and> chan_ok (datagram_ch m)
     \<and> (case bnd_request m of None \<Rightarrow> True | Some c \<Rightarrow> chan_ok c)
     \<and> list_all encodes (ch_queue (tx_frame m))"

text \<open>Every stream the multiplexor still holds (to be accepted, in a oneshot, suspended) has a cell.\<close>

definition has_cell :: "mux \<Rightarrow> mux_stream \<Rightarrow> bool" where
  "has_cell m s \<longleftrightarrow> ms_cell s < length (cells m)"

definition wf_streams :: "mux \<Rightarrow> bool" where
  "wf_streams m \<longleftrightarrow> (\<forall>s\<in>set (ch_queue (con_recv m)). has_cell m s)
     \<and> (\<forall>a<length (stream_os m). \<forall>s. os_value (stream_os m ! a) = Some (Some s) \<longrightarrow> has_cell m s)
     \<and> (\<forall>s. susp m = Some (SuspStream s) \<longrightarrow> has_cell m s)"

definition mux_wf :: "mux \<Rightarrow> bool" where
  "mux_wf m \<longleftrightarrow> wf_flows m \<and> wf_cells m \<and> wf_oneshots m \<and> wf_chans m \<and> wf_streams m"

lemmas mux_wf_defs = mux_wf_def wf_flows_def wf_cells_def wf_oneshots_def wf_chans_def wf_streams_def
  has_sender_def has_cell_def

section \<open>Preservation by the elementary changes\<close>

lemma encodes_fin: "host_fits (frame_payload f) \<Longrightarrow> encodes (fin f)"
  using frame_to_vec_fin by (auto simp: encodes_def)

lemma mux_wf_wake [simp]: "mux_wf (wake a m) = mux_wf m"
  by (simp add: mux_wf_defs)

lemma mux_wf_upd_cell [simp]: "(\<And>c. c_frames (f c) = c_frames c) \<Longrightarrow> mux_wf (upd_cell a f m) = mux_wf m"
  by (simp add: mux_wf_defs)

lemma mux_wf_notify_dropped [simp]: "mux_wf (notify_dropped i m) = mux_wf m"
  by (simp add: mux_wf_defs)

lemma mux_wf_dropped_ports [simp]: "mux_wf (m\<lparr>dropped_ports := c\<rparr>) = mux_wf m"
  by (simp add: mux_wf_defs)

lemma mux_wf_queue_frame [simp]: "host_fits (frame_payload f) \<Longrightarrow> mux_wf (queue_frame f m) = mux_wf m"
  by (simp add: mux_wf_defs encodes_fin)

lemma host_fits_new [simp]:
  "host_fits (frame_payload (new_reset i))" "host_fits (frame_payload (new_finish i))"
  "host_fits (frame_payload (new_acknowledge i n))" "host_fits (frame_payload (new_push i d))"
  "host_fits (frame_payload (new_connect h p i n))" "host_fits (frame_payload (new_bind i t h p))"
  by (simp_all add: host_fits_def frame_constructor_defs)

lemma mux_wf_upd_frames:
  assumes "mux_wf m"
    and "ch_cap (g (frames_at m a)) = ch_cap (frames_at m a)"
    and "length (ch_queue (g (frames_at m a))) \<le> unat (mux_rwnd m)"
    and "ch_tx_alive (g (frames_at m a)) = ch_tx_alive (frames_at m a)"
  shows "mux_wf (upd_frames a g m)"
proof (cases "a < length (cells m)")
  case True
  with assms show ?thesis
    by (auto simp: mux_wf_defs frames_at_upd_frames)
qed (use assms in \<open>simp add: upd_frames_beyond\<close>)

lemma mux_wf_drop_stream [simp]: "mux_wf m \<Longrightarrow> mux_wf (drop_stream s m)"
  unfolding drop_stream_def by (rule mux_wf_upd_frames) (simp_all add: drop_rx_def)

text \<open>The parts of the invariant after a change of the flow map.\<close>

lemma wf_flows_cong:
  "flows m' = flows m \<Longrightarrow> length (cells m') = length (cells m) \<Longrightarrow> wf_flows m' \<longleftrightarrow> wf_flows m"
  by (simp add: wf_flows_def slot_of_def)

lemma wf_flows_updates [simp]:
  "wf_flows (m\<lparr>stream_os := so\<rparr>) = wf_flows m" "wf_flows (m\<lparr>bind_os := bo\<rparr>) = wf_flows m"
  "wf_flows (m\<lparr>con_recv := cr\<rparr>) = wf_flows m" "wf_flows (m\<lparr>susp := su\<rparr>) = wf_flows m"
  "wf_flows (m\<lparr>tx_frame := tf\<rparr>) = wf_flows m" "wf_flows (m\<lparr>datagram_ch := dg\<rparr>) = wf_flows m"
  "wf_flows (m\<lparr>bnd_request := br\<rparr>) = wf_flows m"
  by (rule wf_flows_cong; simp)+

lemma wf_flows_cell: "wf_flows m \<Longrightarrow> slot_of m i = Some (Established d) \<Longrightarrow> es_cell d < length (cells m)"
  by (simp add: wf_flows_def)

lemma wf_flows_sender:
  "wf_flows m \<Longrightarrow> slot_of m i = Some (Established d) \<Longrightarrow> es_sender d = Some a \<Longrightarrow> a = es_cell d"
  by (fastforce simp: wf_flows_def)

lemma wf_flows_cell_inj:
  "wf_flows m \<Longrightarrow> slot_of m i = Some (Established d) \<Longrightarrow> slot_of m j = Some (Established e)
   \<Longrightarrow> es_cell d = es_cell e \<Longrightarrow> i = j"
  unfolding wf_flows_def by blast

lemma wf_flows_sender_inj:
  "wf_flows m \<Longrightarrow> slot_of m i = Some (Established d) \<Longrightarrow> slot_of m j = Some (Established e)
   \<Longrightarrow> es_sender d = Some a \<Longrightarrow> es_sender e = Some a \<Longrightarrow> i = j"
  by (metis wf_flows_cell_inj wf_flows_sender)

lemma has_sender_remove:
  assumes "wf_flows m" and "slot_of m i = Some (Established d)"
  shows "has_sender (flow_remove i m) b \<longleftrightarrow> has_sender m b \<and> es_sender d \<noteq> Some b"
  using assms wf_flows_sender_inj [OF assms] by (auto simp: has_sender_def) (metis flow_slot.inject(2) option.inject)

lemma has_sender_remove_other:
  assumes "slot_of m i = Some s" and "\<And>d. s \<noteq> Established d"
  shows "has_sender (flow_remove i m) b \<longleftrightarrow> has_sender m b"
  using assms by (auto simp: has_sender_def) (metis option.inject)

lemma wf_flows_remove: "wf_flows m \<Longrightarrow> wf_flows (flow_remove i m)"
  by (auto simp: wf_flows_def distinct_delete flow_remove_def [of i m])
    (auto simp: slot_of_def AList.delete_conv' split: if_splits)

lemma wf_flows_insert:
  assumes "wf_flows m"
    and "\<And>d. s = Established d \<Longrightarrow> es_cell d < length (cells m) \<and> es_sender d \<in> {None, Some (es_cell d)}
      \<and> (\<forall>j e. j \<noteq> i \<longrightarrow> slot_of m j = Some (Established e) \<longrightarrow> es_cell e \<noteq> es_cell d)"
  shows "wf_flows (flow_insert i s m)"
proof -
  have "distinct (map fst (flows (flow_insert i s m)))"
    using assms(1) by (simp add: wf_flows_def flow_insert_def distinct_update)
  moreover have "es_cell d < length (cells m) \<and> es_sender d \<in> {None, Some (es_cell d)}"
    if "slot_of (flow_insert i s m) j = Some (Established d)" for j d
    using that assms by (auto simp: wf_flows_def split: if_splits)
  moreover have "j = k" if "slot_of (flow_insert i s m) j = Some (Established d)"
    "slot_of (flow_insert i s m) k = Some (Established e)" "es_cell d = es_cell e" for j k d e
  proof (cases "j = i \<or> k = i")
    case True
    with that assms(2) show ?thesis by (auto split: if_splits)
  next
    case False
    with that wf_flows_cell_inj [OF assms(1)] show ?thesis by auto
  qed
  ultimately show ?thesis unfolding wf_flows_def flow_insert_sels by blast
qed

lemma wf_cells_drop_sender:
  assumes "wf_cells m'" and "length (cells m') = length (cells m)" and "mux_rwnd m' = mux_rwnd m"
    and "frames_at m = frames_at m'" and "\<And>b. has_sender m b \<longleftrightarrow> has_sender m' b \<and> t \<noteq> Some b"
    and "\<And>a. t = Some a \<Longrightarrow> a < length (cells m)"
  shows "wf_cells (drop_sender t m)"
proof (cases t)
  case None
  with assms show ?thesis by (auto simp: wf_cells_def drop_sender_def)
next
  case (Some a)
  with assms(6) have a: "a < length (cells m)" by simp
  have "has_sender (upd_frames a drop_tx m) b \<longleftrightarrow> has_sender m b" for b
    by (simp add: has_sender_def)
  with assms Some a show ?thesis
    by (auto simp: wf_cells_def drop_sender_def frames_at_upd_frames drop_tx_def)
qed

lemma drop_sender_sels [simp]:
  "flows (drop_sender t m) = flows m" "tx_frame (drop_sender t m) = tx_frame m"
  "dropped_ports (drop_sender t m) = dropped_ports m" "con_recv (drop_sender t m) = con_recv m"
  "datagram_ch (drop_sender t m) = datagram_ch m" "bnd_request (drop_sender t m) = bnd_request m"
  "stream_os (drop_sender t m) = stream_os m" "bind_os (drop_sender t m) = bind_os m"
  "woken (drop_sender t m) = woken m" "susp (drop_sender t m) = susp m"
  "mux_rwnd (drop_sender t m) = mux_rwnd m" "mux_threshold (drop_sender t m) = mux_threshold m"
  "mux_retries (drop_sender t m) = mux_retries m" "slot_of (drop_sender t m) = slot_of m"
  "length (cells (drop_sender t m)) = length (cells m)"
  by (simp_all add: drop_sender_def split: option.split)

lemma drop_sender_wf [simp]:
  "wf_flows (drop_sender t m) = wf_flows m" "wf_oneshots (drop_sender t m) = wf_oneshots m"
  "wf_chans (drop_sender t m) = wf_chans m" "wf_streams (drop_sender t m) = wf_streams m"
  by (simp_all add: wf_flows_def wf_oneshots_def wf_chans_def wf_streams_def has_cell_def)

lemma wf_oneshots_remove: "wf_oneshots m \<Longrightarrow> wf_oneshots (flow_remove i m)"
  by (auto simp: wf_oneshots_def)

lemma wf_oneshots_insert:
  "wf_oneshots m \<Longrightarrow> (\<And>a. s \<noteq> Requested a) \<Longrightarrow> (\<And>a. s \<noteq> BindRequested a) \<Longrightarrow> wf_oneshots (flow_insert i s m)"
  by (simp add: wf_oneshots_def)

lemma flow_change_wf [simp]:
  "wf_chans (flow_remove i m) = wf_chans m" "wf_streams (flow_remove i m) = wf_streams m"
  "wf_chans (flow_insert i s m) = wf_chans m" "wf_streams (flow_insert i s m) = wf_streams m"
  by (simp_all add: wf_chans_def wf_streams_def has_cell_def)

lemma mux_wf_remove_established:
  assumes "mux_wf m" and "slot_of m i = Some (Established d)"
  shows "mux_wf (drop_sender (es_sender d) (flow_remove i m))"
proof -
  from assms(1) have "wf_flows m" and "wf_cells m" by (simp_all add: mux_wf_def)
  then have "wf_cells (drop_sender (es_sender d) (flow_remove i m))"
    using has_sender_remove [OF _ assms(2)] wf_flows_sender [OF _ assms(2)] wf_flows_cell [OF _ assms(2)]
    by (intro wf_cells_drop_sender [of m]) auto
  with assms(1) show ?thesis
    by (simp add: mux_wf_def wf_flows_remove wf_oneshots_remove)
qed

lemma mux_wf_take_sender:
  assumes "mux_wf m" and "slot_of m i = Some (Established d)"
  shows "mux_wf (drop_sender (es_sender d) (flow_insert i (Established (d\<lparr>es_sender := None\<rparr>)) m))"
    (is "mux_wf (drop_sender _ ?m)")
proof -
  from assms(1) have wf: "wf_flows m" and c: "wf_cells m" by (simp_all add: mux_wf_def)
  have "wf_flows ?m"
    using wf wf_flows_cell [OF wf assms(2)] wf_flows_cell_inj [OF wf assms(2)]
    by (intro wf_flows_insert) auto
  moreover have "has_sender ?m b \<longleftrightarrow> has_sender m b \<and> es_sender d \<noteq> Some b" for b
    using wf_flows_sender_inj [OF wf assms(2)] assms(2) by (auto simp: has_sender_def) (metis flow_slot.inject(2) option.inject)
  then have "wf_cells (drop_sender (es_sender d) ?m)"
    using c wf_flows_sender [OF wf assms(2)] wf_flows_cell [OF wf assms(2)]
    by (intro wf_cells_drop_sender [of m]) auto
  ultimately show ?thesis
    using assms(1) by (simp add: mux_wf_def wf_oneshots_insert)
qed

lemma os_fresh_update [simp]: "b \<noteq> a \<Longrightarrow> os_fresh (xs[a := x]) b = os_fresh xs b"
  by (simp add: os_fresh_def)

lemma mux_wf_remove_requested:
  assumes "mux_wf m" and "slot_of m i = Some (Requested a)"
    and "\<And>s. os_value x = Some (Some s) \<Longrightarrow> has_cell m s"
  shows "mux_wf ((flow_remove i m)\<lparr>stream_os := (stream_os m)[a := x]\<rparr>)" (is "mux_wf ?m")
proof -
  have a: "b \<noteq> a" if "j \<noteq> i" "slot_of m j = Some (Requested b)" for j b
    using that assms(1,2) unfolding mux_wf_def wf_oneshots_def by blast
  have "has_sender ?m b \<longleftrightarrow> has_sender m b" for b
    using has_sender_remove_other [OF assms(2), of b] by (simp add: has_sender_def)
  then have "wf_cells ?m" using assms(1) by (simp add: mux_wf_def wf_cells_def)
  moreover have "wf_oneshots ?m"
    using assms(1) a by (auto simp: mux_wf_def wf_oneshots_def split: if_splits)
  moreover have "wf_streams ?m"
  proof -
    have "has_cell m s" if "os_value ((stream_os m)[a := x] ! b) = Some (Some s)" "b < length (stream_os m)" for b s
      using that assms(1,3) by (cases "b = a") (auto simp: mux_wf_def wf_streams_def)
    with assms(1) show ?thesis by (auto simp: mux_wf_def wf_streams_def has_cell_def)
  qed
  moreover have "wf_flows ?m"
    using assms(1) wf_flows_remove [of m i] by (simp add: mux_wf_def)
  ultimately show ?thesis using assms(1) by (simp add: mux_wf_def wf_chans_def)
qed

lemma mux_wf_remove_bind:
  assumes "mux_wf m" and "slot_of m i = Some (BindRequested a)"
  shows "mux_wf ((flow_remove i m)\<lparr>bind_os := (bind_os m)[a := x]\<rparr>)" (is "mux_wf ?m")
proof -
  have a: "b \<noteq> a" if "j \<noteq> i" "slot_of m j = Some (BindRequested b)" for j b
    using that assms(1,2) unfolding mux_wf_def wf_oneshots_def by blast
  have "has_sender ?m b \<longleftrightarrow> has_sender m b" for b
    using has_sender_remove_other [OF assms(2), of b] by (simp add: has_sender_def)
  then have "wf_cells ?m" using assms(1) by (simp add: mux_wf_def wf_cells_def)
  moreover have "wf_oneshots ?m"
    using assms(1) a by (simp add: mux_wf_def wf_oneshots_def)
  moreover have "wf_flows ?m"
    using assms(1) wf_flows_remove [of m i] by (simp add: mux_wf_def)
  ultimately show ?thesis using assms(1) by (simp add: mux_wf_def wf_chans_def wf_streams_def has_cell_def)
qed

lemma flow_remove_commute:
  "upd_cell a f (flow_remove i m) = flow_remove i (upd_cell a f m)"
  "wake a (flow_remove i m) = flow_remove i (wake a m)"
  "queue_frame q (flow_remove i m) = flow_remove i (queue_frame q m)"
  "cell (flow_remove i m) = cell m"
  by (simp_all add: flow_remove_def upd_cell_def wake_def queue_frame_def tx_send_def cell_def fun_eq_iff
    split: option.split prod.split)

text \<open>What \<open>close_port_local\<close> does to an established flow before its sender is dropped.\<close>

definition close_write :: "established \<Rightarrow> u32 \<Rightarrow> bool \<Rightarrow> mux \<Rightarrow> mux" where
  "close_write d i inhibit m =
     (let m' = wake (es_cell d) (upd_cell (es_cell d) (\<lambda>c. c\<lparr>c_finish_sent := True\<rparr>) m)
      in if \<not> c_finish_sent (cell m (es_cell d)) \<and> \<not> inhibit then queue_frame (new_reset i) m' else m')"

lemma close_port_local_Established:
  "close_port_local (Established d) i inhibit m = drop_sender (es_sender d) (close_write d i inhibit m)"
  by (simp add: close_port_local_def disallow_write_def disallow_read_def close_write_def Let_def)

lemma close_port_local_simps:
  "close_port_local (Established d) i inhibit m = drop_sender (es_sender d) (close_write d i inhibit m)"
  "close_port_local (Requested a) i inhibit m =
     m\<lparr>stream_os := (stream_os m)[a := fst (oneshot_send None (stream_os m ! a))]\<rparr>"
  "close_port_local (BindRequested a) i inhibit m =
     m\<lparr>bind_os := (bind_os m)[a := fst (oneshot_send False (bind_os m ! a))]\<rparr>"
  by (simp_all add: close_port_local_Established) (simp_all add: close_port_local_def)

lemma close_write_remove: "close_write d i inhibit (flow_remove j m) = flow_remove j (close_write d i inhibit m)"
  by (simp add: close_write_def Let_def flow_remove_commute)

lemma close_write_wf [simp]: "mux_wf (close_write d i inhibit m) = mux_wf m"
  "slot_of (close_write d i inhibit m) = slot_of m"
  by (simp_all add: close_write_def Let_def)

lemma mux_wf_close_local:
  assumes "mux_wf m" and "slot_of m i = Some slot"
  shows "mux_wf (close_port_local slot i inhibit (flow_remove i m))"
proof (cases slot)
  case (Established d)
  with mux_wf_remove_established [of "close_write d i inhibit m" i d] assms show ?thesis
    by (simp add: close_port_local_Established close_write_remove)
next
  case (Requested a)
  with assms have "os_value (stream_os m ! a) = None"
    by (auto simp: mux_wf_def wf_oneshots_def os_fresh_def)
  with Requested assms mux_wf_remove_requested [of m i a "fst (oneshot_send None (stream_os m ! a))"]
  show ?thesis by (auto simp: close_port_local_def oneshot_send_def)
next
  case (BindRequested a)
  with assms mux_wf_remove_bind [of m i a] show ?thesis
    by (simp add: close_port_local_def)
qed

lemma mux_wf_close_port: "mux_wf m \<Longrightarrow> mux_wf (close_port i inhibit m)"
  by (simp add: close_port_def mux_wf_close_local split: option.split)

lemma new_stream_shared_eq:
  assumes "mux_rwnd m \<noteq> 0"
  shows "new_stream_shared i n h p m =
    (m\<lparr>cells := cells m @ [\<lparr>c_finish_sent = False, c_psh_send_remaining = n, c_writer_waker = None,
       c_frames = \<lparr>ch_queue = [], ch_cap = Some (unat (mux_rwnd m)), ch_rx_open = True, ch_tx_alive = True\<rparr>\<rparr>]\<rparr>,
     Ok (\<lparr>ms_flow_id = i, ms_dest_host = h, ms_dest_port = p, ms_cell = length (cells m),
          ms_psh_recvd_since = 0, ms_buf = [], ms_rwnd_threshold = min (mux_threshold m) n\<rparr>,
         \<lparr>es_sender = Some (length (cells m)), es_cell = length (cells m)\<rparr>))"
  using assms by (simp add: new_stream_shared_def mpsc_channel_def Let_def unat_eq_zero)

text \<open>Entering a new established flow: the cell is appended and the map updated.\<close>

definition add_flow :: "u32 \<Rightarrow> u32 \<Rightarrow> mux \<Rightarrow> mux" where
  "add_flow i n m = flow_insert i (Established \<lparr>es_sender = Some (length (cells m)), es_cell = length (cells m)\<rparr>)
     (m\<lparr>cells := cells m @ [\<lparr>c_finish_sent = False, c_psh_send_remaining = n, c_writer_waker = None,
       c_frames = \<lparr>ch_queue = [], ch_cap = Some (unat (mux_rwnd m)), ch_rx_open = True, ch_tx_alive = True\<rparr>\<rparr>]\<rparr>)"

definition new_stream_of :: "u32 \<Rightarrow> u32 \<Rightarrow> bytes \<Rightarrow> u16 \<Rightarrow> mux \<Rightarrow> mux_stream" where
  "new_stream_of i n h p m = \<lparr>ms_flow_id = i, ms_dest_host = h, ms_dest_port = p, ms_cell = length (cells m),
     ms_psh_recvd_since = 0, ms_buf = [], ms_rwnd_threshold = min (mux_threshold m) n\<rparr>"

lemma add_flow_sels [simp]:
  "tx_frame (add_flow i n m) = tx_frame m" "con_recv (add_flow i n m) = con_recv m"
  "dropped_ports (add_flow i n m) = dropped_ports m"
  "datagram_ch (add_flow i n m) = datagram_ch m" "bnd_request (add_flow i n m) = bnd_request m"
  "stream_os (add_flow i n m) = stream_os m" "bind_os (add_flow i n m) = bind_os m"
  "susp (add_flow i n m) = susp m" "mux_rwnd (add_flow i n m) = mux_rwnd m"
  "mux_threshold (add_flow i n m) = mux_threshold m" "woken (add_flow i n m) = woken m"
  "length (cells (add_flow i n m)) = Suc (length (cells m))"
  by (simp_all add: add_flow_def)

lemma mux_wf_add_flow:
  assumes "mux_wf m" and "\<And>d. slot_of m i \<noteq> Some (Established d)"
  shows "mux_wf (add_flow i n m)"
proof -
  let ?a = "length (cells m)"
  let ?c = "\<lparr>c_finish_sent = False, c_psh_send_remaining = n, c_writer_waker = None,
       c_frames = \<lparr>ch_queue = [], ch_cap = Some (unat (mux_rwnd m)), ch_rx_open = True, ch_tx_alive = True\<rparr>\<rparr>"
  let ?m = "m\<lparr>cells := cells m @ [?c]\<rparr>"
  from assms(1) have wf: "wf_flows m" and wc: "wf_cells m" by (simp_all add: mux_wf_def)
  have old: "es_cell e < ?a" "es_sender e \<noteq> Some ?a" if "slot_of m j = Some (Established e)" for j e
    using that wf_flows_cell [OF wf that] wf_flows_sender [OF wf that] by auto
  have "wf_flows ?m" using wf old(1) by (auto simp: wf_flows_def less_Suc_eq)
  then have "wf_flows (add_flow i n m)"
    unfolding add_flow_def by (rule wf_flows_insert) (use old in fastforce)+
  moreover have "has_sender (add_flow i n m) b \<longleftrightarrow> has_sender m b \<or> b = ?a" for b
    using assms(2) by (auto simp: has_sender_def add_flow_def) (metis flow_slot.distinct(1))
  then have "wf_cells (add_flow i n m)"
    using wc old by (auto simp: wf_cells_def frames_at_def add_flow_def nth_append less_Suc_eq has_sender_def)
  moreover have "wf_oneshots (add_flow i n m)"
    using assms(1) by (auto simp: mux_wf_def wf_oneshots_def add_flow_def)
  moreover have "wf_streams (add_flow i n m)"
    using assms(1) by (auto simp: mux_wf_def wf_streams_def has_cell_def less_Suc_eq)
  ultimately show ?thesis
    using assms(1) by (simp add: mux_wf_def wf_chans_def)
qed

section \<open>Preservation by the operations of the task\<close>

lemma chan_ok_poll_send: "chan_ok c \<Longrightarrow> chan_ok (fst (poll_send x c))"
  by (auto simp: chan_ok_def await_s.flags_after await_s.bounded_after split: option.splits)

lemma chan_ok_try_send: "chan_ok c \<Longrightarrow> chan_ok (fst (try_send x c))"
  by (auto simp: chan_ok_def try_s.flags_after try_s.bounded_after split: option.splits)

lemma chan_ok_push: "chan_ok c \<Longrightarrow> \<not> ch_full c \<Longrightarrow> chan_ok (ch_push x c)"
  by (auto simp: chan_ok_def ch_push_def ch_full_def split: option.splits)

lemma chan_ok_drop [simp]: "chan_ok (drop_tx c) = chan_ok c" "chan_ok c \<Longrightarrow> chan_ok (drop_rx c)"
  by (auto simp: chan_ok_def drop_tx_def drop_rx_def split: option.splits)

lemma has_cell_same [simp]:
  "has_cell (queue_frame f m) = has_cell m" "has_cell (flow_insert i s m) = has_cell m"
  "has_cell (m\<lparr>susp := su\<rparr>) = has_cell m" "has_cell (m\<lparr>con_recv := cr\<rparr>) = has_cell m"
  "has_cell (m\<lparr>stream_os := so\<rparr>) = has_cell m" "has_cell (m\<lparr>tx_frame := tf\<rparr>) = has_cell m"
  by (simp_all add: has_cell_def fun_eq_iff)

lemma wf_cells_updates [simp]:
  "wf_cells (m\<lparr>stream_os := so\<rparr>) = wf_cells m" "wf_cells (m\<lparr>bind_os := bo\<rparr>) = wf_cells m"
  "wf_cells (m\<lparr>con_recv := cr\<rparr>) = wf_cells m" "wf_cells (m\<lparr>susp := su\<rparr>) = wf_cells m"
  "wf_cells (m\<lparr>tx_frame := tf\<rparr>) = wf_cells m" "wf_cells (m\<lparr>datagram_ch := dg\<rparr>) = wf_cells m"
  "wf_cells (m\<lparr>bnd_request := br\<rparr>) = wf_cells m"
  by (simp_all add: wf_cells_def has_sender_def)

lemma wf_oneshots_updates [simp]:
  "wf_oneshots (m\<lparr>con_recv := cr\<rparr>) = wf_oneshots m" "wf_oneshots (m\<lparr>susp := su\<rparr>) = wf_oneshots m"
  "wf_oneshots (m\<lparr>tx_frame := tf\<rparr>) = wf_oneshots m" "wf_oneshots (m\<lparr>datagram_ch := dg\<rparr>) = wf_oneshots m"
  "wf_oneshots (m\<lparr>bnd_request := br\<rparr>) = wf_oneshots m"
  by (simp_all add: wf_oneshots_def)

lemma mux_wf_con_recv:
  "mux_wf m \<Longrightarrow> chan_ok c \<Longrightarrow> set (ch_queue c) \<subseteq> insert s (set (ch_queue (con_recv m))) \<Longrightarrow> has_cell m s
   \<Longrightarrow> mux_wf (m\<lparr>con_recv := c\<rparr>)"
  by (auto simp: mux_wf_def wf_chans_def wf_streams_def)

lemma mux_wf_datagram_ch: "mux_wf m \<Longrightarrow> chan_ok c \<Longrightarrow> mux_wf (m\<lparr>datagram_ch := c\<rparr>)"
  by (simp add: mux_wf_def wf_chans_def wf_streams_def has_cell_def)

lemma mux_wf_bnd_request: "mux_wf m \<Longrightarrow> chan_ok c \<Longrightarrow> mux_wf (m\<lparr>bnd_request := Some c\<rparr>)"
  by (simp add: mux_wf_def wf_chans_def wf_streams_def has_cell_def)

lemma mux_wf_susp:
  "mux_wf m \<Longrightarrow> (\<And>s. su = Some (SuspStream s) \<Longrightarrow> has_cell m s) \<Longrightarrow> mux_wf (m\<lparr>susp := su\<rparr>)"
  by (auto simp: mux_wf_def wf_chans_def wf_streams_def)

lemma mux_wf_chan_ok: "mux_wf m \<Longrightarrow> chan_ok (con_recv m)" "mux_wf m \<Longrightarrow> chan_ok (datagram_ch m)"
  "mux_wf m \<Longrightarrow> bnd_request m = Some c \<Longrightarrow> chan_ok c"
  by (simp_all add: mux_wf_def wf_chans_def)

lemma mux_wf_send_stream: "mux_wf m \<Longrightarrow> has_cell m s \<Longrightarrow> mux_wf (fst (send_stream_to_user s m))"
  using chan_ok_poll_send [of "con_recv m" s] mux_wf_chan_ok(1) [of m]
  by (auto simp: send_stream_to_user_def poll_send_def ch_push_def intro!: mux_wf_con_recv mux_wf_susp
    split: if_splits)

lemma mux_wf_send_bind: "mux_wf m \<Longrightarrow> mux_wf (fst (send_bind_to_user r m))"
  using mux_wf_chan_ok(3) [of m]
  by (auto simp: send_bind_to_user_def poll_send_def intro!: mux_wf_bnd_request mux_wf_susp chan_ok_push
    split: if_splits option.splits)

lemma mux_wf_resume_send:
  assumes "mux_wf m"
  shows "mux_wf (fst (resume_send m))"
proof -
  have "has_cell m s" if "susp m = Some (SuspStream s)" for s
    using assms that by (simp add: mux_wf_def wf_streams_def)
  with assms show ?thesis
    by (auto simp: resume_send_def intro!: mux_wf_send_stream mux_wf_send_bind mux_wf_susp
      split: option.split suspended.split)
qed

lemma mux_wf_rwnd: "mux_wf m \<Longrightarrow> mux_rwnd m \<noteq> 0"
  by (simp add: mux_wf_def wf_cells_def)

text \<open>The two ways a stream is created, in terms of \<open>add_flow\<close>.\<close>

lemma con_recv_new_stream_eq:
  assumes "mux_rwnd m \<noteq> 0"
  shows "con_recv_new_stream i h p n m =
    (if slot_of m i \<noteq> None then (queue_frame (new_reset i) m, Ready (Ok ()))
     else if ch_rx_open (tx_frame m)
     then send_stream_to_user (new_stream_of i n h p m) (queue_frame (new_acknowledge i (mux_rwnd m)) (add_flow i n m))
     else (drop_stream (new_stream_of i n h p m) (add_flow i n m), Ready (Err MuxClosed)))"
  using assms
  by (simp add: con_recv_new_stream_def new_stream_shared_eq tx_send_fin_eq add_flow_def new_stream_of_def
    queue_frame_def tx_send_def chan_send_def flow_insert_def)

lemma mux_wf_con_recv_new_stream:
  assumes "mux_wf m"
  shows "mux_wf (fst (con_recv_new_stream i h p n m))"
proof (cases "slot_of m i")
  case None
  with assms mux_wf_add_flow [of m i n] have "mux_wf (add_flow i n m)" by simp
  with None mux_wf_rwnd [OF assms] show ?thesis
    by (auto simp: con_recv_new_stream_eq has_cell_def new_stream_of_def intro!: mux_wf_send_stream)
qed (use assms mux_wf_rwnd in \<open>simp add: con_recv_new_stream_eq\<close>)

lemma ack_recv_new_stream_Requested:
  assumes "mux_rwnd m \<noteq> 0" and "slot_of m i = Some (Requested a)"
  shows "ack_recv_new_stream i n m =
    (let s = new_stream_of i n [] 0 m;
         m' = (add_flow i n m)\<lparr>stream_os := (stream_os m)[a := fst (oneshot_send (Some s) (stream_os m ! a))]\<rparr>
     in if os_rx_alive (stream_os m ! a) then (m', Ok ()) else (drop_stream s m', Err SendStreamToClient))"
  using assms
  by (auto simp: ack_recv_new_stream_def new_stream_shared_eq establish_def oneshot_send_def Let_def
    add_flow_def new_stream_of_def flow_insert_def)

lemma mux_wf_stream_os_insert:
  assumes "mux_wf m" and "\<And>j. slot_of m j \<noteq> Some (Requested a)"
    and "\<And>s. os_value x = Some (Some s) \<Longrightarrow> has_cell m s"
  shows "mux_wf (m\<lparr>stream_os := (stream_os m)[a := x]\<rparr>)"
proof -
  have "has_cell m s" if "os_value ((stream_os m)[a := x] ! b) = Some (Some s)" "b < length (stream_os m)" for b s
    using that assms(1,3) by (cases "b = a") (auto simp: mux_wf_def wf_streams_def)
  then have "wf_streams (m\<lparr>stream_os := (stream_os m)[a := x]\<rparr>)"
    using assms(1) by (auto simp: mux_wf_def wf_streams_def)
  moreover have "wf_oneshots (m\<lparr>stream_os := (stream_os m)[a := x]\<rparr>)"
    using assms(1,2) unfolding mux_wf_def wf_oneshots_def by (auto simp del: not_None_eq) (metis os_fresh_update)
  ultimately show ?thesis using assms(1) by (simp add: mux_wf_def wf_chans_def)
qed

lemma add_flow_slots [simp]: "slot_of (add_flow i n m) j =
    (if j = i then Some (Established \<lparr>es_sender = Some (length (cells m)), es_cell = length (cells m)\<rparr>)
     else slot_of m j)"
  by (simp add: add_flow_def)

lemma wf_oneshots_inj:
  "mux_wf m \<Longrightarrow> slot_of m i = Some (Requested a) \<Longrightarrow> slot_of m j = Some (Requested a) \<Longrightarrow> j = i"
  unfolding mux_wf_def wf_oneshots_def by blast

lemma mux_wf_fresh: "mux_wf m \<Longrightarrow> slot_of m i = Some (Requested a) \<Longrightarrow> os_fresh (stream_os m) a"
  "mux_wf m \<Longrightarrow> slot_of m i = Some (BindRequested b) \<Longrightarrow> os_fresh (bind_os m) b"
  by (simp_all add: mux_wf_def wf_oneshots_def)

lemma mux_wf_ack_recv_new_stream:
  assumes "mux_wf m" and "slot_of m i = Some (Requested a)"
  shows "mux_wf (fst (ack_recv_new_stream i n m))"
proof -
  let ?s = "new_stream_of i n [] 0 m" and ?m = "add_flow i n m"
  from mux_wf_add_flow [OF assms(1)] assms(2) have wf: "mux_wf ?m" by simp
  moreover have "slot_of ?m j \<noteq> Some (Requested a)" for j
    using wf_oneshots_inj [OF assms] by auto
  moreover have "has_cell ?m ?s" by (simp add: has_cell_def new_stream_of_def)
  moreover have "os_value (stream_os m ! a) = None"
    using mux_wf_fresh(1) [OF assms] by (simp add: os_fresh_def)
  ultimately have "mux_wf (?m\<lparr>stream_os := (stream_os ?m)[a := fst (oneshot_send (Some ?s) (stream_os m ! a))]\<rparr>)"
    by (intro mux_wf_stream_os_insert) (auto simp: oneshot_send_def split: if_splits)
  with assms mux_wf_rwnd show ?thesis
    by (simp add: ack_recv_new_stream_Requested Let_def)
qed

lemma mux_wf_recv_ack: "mux_wf m \<Longrightarrow> mux_wf (fst (recv_ack i n m))"
  by (auto simp: recv_ack_def acknowledge_def mux_wf_ack_recv_new_stream split: option.split flow_slot.split)

lemma mux_wf_recv_finish:
  assumes "mux_wf m"
  shows "mux_wf (recv_finish i m)"
proof (cases "slot_of m i")
  case (Some slot)
  show ?thesis
  proof (cases slot)
    case (Requested a)
    with Some mux_wf_fresh(1) [OF assms, of i a]
      mux_wf_remove_requested [OF assms, of i a "oneshot_drop_tx (stream_os m ! a)"] show ?thesis
      by (simp add: recv_finish_def drop_stream_os_tx_def oneshot_drop_tx_def os_fresh_def)
  next
    case (Established d)
    with Some mux_wf_take_sender [OF assms, of i d] show ?thesis
      by (simp add: recv_finish_def disallow_read_def)
  next
    case (BindRequested a)
    with Some mux_wf_remove_bind [OF assms, of i a] show ?thesis by (simp add: recv_finish_def Let_def)
  qed
qed (use assms in \<open>simp add: recv_finish_def\<close>)

lemma upd_frames_fun: "upd_frames a (\<lambda>_. g (frames_at m a)) m = upd_frames a g m"
  by (simp add: upd_frames_def upd_cell_def frames_at_def)

lemma dispatch_eq:
  "dispatch slot data m = (case slot of
     Established d \<Rightarrow> (case es_sender d of None \<Rightarrow> (m, None)
       | Some a \<Rightarrow> (upd_frames a (\<lambda>c. fst (try_send data c)) m, Some (snd (try_send data (frames_at m a)))))
   | _ \<Rightarrow> (m, None))"
  using upd_frames_fun [of _ "\<lambda>c. fst (try_send data c)" m]
  by (auto simp: dispatch_def Let_def case_prod_beta split: flow_slot.split option.split)

lemma mux_wf_frames_at:
  "mux_wf m \<Longrightarrow> a < length (cells m) \<Longrightarrow> ch_cap (frames_at m a) = Some (unat (mux_rwnd m))
    \<and> length (ch_queue (frames_at m a)) \<le> unat (mux_rwnd m)"
  by (simp add: mux_wf_def wf_cells_def)

lemma mux_wf_dispatch:
  assumes "mux_wf m" and "slot_of m i = Some slot"
  shows "mux_wf (fst (dispatch slot data m))"
proof -
  have "mux_wf (upd_frames a (\<lambda>c. fst (try_send data c)) m)"
    if "slot = Established d" "es_sender d = Some a" for d a
  proof (rule mux_wf_upd_frames [OF assms(1)])
    from that assms have "a < length (cells m)"
      by (metis mux_wf_def wf_flows_cell wf_flows_sender)
    then show "length (ch_queue (fst (try_send data (frames_at m a)))) \<le> unat (mux_rwnd m)"
      using mux_wf_frames_at [OF assms(1)] by (intro try_s.bounded_after) auto
  qed (simp_all add: try_s.flags_after)
  with assms(1) show ?thesis
    by (auto simp: dispatch_eq split: flow_slot.split option.split)
qed

lemma mux_wf_recv_push:
  assumes "mux_wf m"
  shows "mux_wf (recv_push i data m)"
proof (cases "slot_of m i")
  case (Some slot)
  with mux_wf_dispatch [OF assms Some, of data] show ?thesis
    by (auto simp: recv_push_def case_prod_beta Let_def mux_wf_close_port
      split: option.split outcome.split try_send_error.split)
qed (use assms in \<open>simp add: recv_push_def\<close>)

lemma mux_wf_recv_bind: "mux_wf m \<Longrightarrow> mux_wf (fst (recv_bind i p ignore m))"
  by (auto simp: recv_bind_def mux_wf_send_bind split: option.split)

lemma mux_wf_recv_datagram: "mux_wf m \<Longrightarrow> mux_wf (fst (recv_datagram i p m))"
  using chan_ok_try_send mux_wf_chan_ok(2) [of m]
  by (auto simp: recv_datagram_def Let_def case_prod_beta intro!: mux_wf_datagram_ch
    split: outcome.split try_send_error.split)

lemma mux_wf_process_frame: "mux_wf m \<Longrightarrow> mux_wf (fst (process_frame f ignore m))"
  by (auto simp: process_frame_def mux_wf_con_recv_new_stream mux_wf_recv_ack mux_wf_recv_finish
    mux_wf_close_port mux_wf_recv_push mux_wf_recv_bind mux_wf_recv_datagram split: payload.split)

lemma fst_process_message:
  "fst (process_message msg ignore m) = (case msg of
     Binary data \<Rightarrow> (case frame_try_from data of Ok f \<Rightarrow> fst (process_frame f ignore m) | _ \<Rightarrow> m) | _ \<Rightarrow> m)"
  by (auto simp: process_message_def split: message.split outcome.split prod.split poll.split)

lemma mux_wf_process_message: "mux_wf m \<Longrightarrow> mux_wf (fst (process_message msg ignore m))"
  by (auto simp: fst_process_message mux_wf_process_frame split: message.split outcome.split)

lemma mux_wf_process_ws_next: "mux_wf m \<Longrightarrow> mux_wf (fst (process_ws_next inb m))"
proof (induction inb m rule: process_ws_next.induct)
  case (2 r rest m)
  show ?case
  proof (cases r)
    case (Inr msg)
    obtain m' p where pm: "process_message msg False m = (m', p)" by fastforce
    with "2.prems" mux_wf_process_message [of m msg False] have "mux_wf m'" by simp
    with pm Inr "2.IH" show ?thesis by (auto split: poll.split outcome.split)
  qed (use "2.prems" in simp)
qed simp

lemma mux_wf_process_dropped_ports: "mux_wf m \<Longrightarrow> mux_wf (fst (process_dropped_ports_task m))"
proof (induction m rule: process_dropped_ports_task.induct)
  case (1 m)
  obtain c r where pr: "poll_recv (dropped_ports m) = (c, r)" by fastforce
  show ?case
  proof (cases "\<exists>i. r = Ready (Some i) \<and> i \<noteq> 0")
    case True
    then obtain i where r: "r = Ready (Some i)" "i \<noteq> 0" by blast
    with "1.prems" have "mux_wf (close_port i False (m\<lparr>dropped_ports := c\<rparr>))"
      by (simp add: mux_wf_close_port)
    with "1.IH" [OF pr [symmetric] r(1)] r pr show ?thesis
      by (simp add: process_dropped_ports_task.simps [of m])
  next
    case False
    with "1.prems" pr show ?thesis
      by (auto simp: process_dropped_ports_task.simps [of m] split: poll.split option.split)
  qed
qed

lemma mux_wf_tx_frame: "mux_wf m \<Longrightarrow> list_all encodes (ch_queue c) \<Longrightarrow> mux_wf (m\<lparr>tx_frame := c\<rparr>)"
  by (simp add: mux_wf_def wf_chans_def wf_streams_def)

lemma mux_wf_encodes: "mux_wf m \<Longrightarrow> list_all encodes (ch_queue (tx_frame m))"
  by (simp add: mux_wf_def wf_chans_def)

lemma poll_recv_encodes:
  "mux_wf m \<Longrightarrow> poll_recv (tx_frame m) = (c, r) \<Longrightarrow> list_all encodes (ch_queue c)"
  using mux_wf_encodes [of m] by (auto simp: poll_recv_def split: list.splits if_splits)

lemma mux_wf_poll_reserve: "mux_wf m \<Longrightarrow> mux_wf (fst (snd (poll_reserve_space_recv_frame ws w m)))"
  by (auto simp: poll_reserve_space_recv_frame_def Let_def case_prod_beta
    dest: poll_recv_encodes [OF _ prod.collapse [symmetric]]
    intro!: mux_wf_tx_frame split: poll.split outcome.split option.split)

lemma mux_wf_frame_recv:
  "mux_wf m \<Longrightarrow> mux_wf (fst (snd (snd (process_frame_recv_task ws tick p w m))))"
  using mux_wf_poll_reserve [of m ws w]
  by (cases p) (auto simp: process_frame_recv_task_def case_prod_beta split: poll.split outcome.split)

lemma mux_wf_stop_writers:
  assumes "mux_wf m"
  shows "mux_wf (wind_down_stop_writers m)"
proof -
  have "mux_wf (fold stop_writer es m)" if "mux_wf m" for es m
    using that
  proof (induction es arbitrary: m)
    case (Cons e es)
    then show ?case
      by (auto simp: stop_writer_def disallow_write_def Let_def split: flow_slot.split)
  qed simp
  with assms show ?thesis by (simp add: wind_down_stop_writers_def)
qed

lemma wind_down_send_suffix: "\<exists>sent. ffs = sent @ snd (wind_down_send rs ffs w)"
proof (induction ffs arbitrary: w)
  case (Cons ff ffs)
  obtain w' r where rs: "rs (Binary (finalized_bytes ff)) w = (w', r)" by fastforce
  obtain sent where IH: "ffs = sent @ snd (wind_down_send rs ffs w')" using Cons.IH by blast
  show ?case
  proof (cases r)
    case None
    then show ?thesis using arg_cong [OF IH, of "(#) ff"] rs by (auto intro!: exI [of _ "ff # sent"])
  qed (auto simp: rs intro: exI [of _ "[ff]"])
qed simp

lemma mux_wf_flush: "mux_wf m \<Longrightarrow> mux_wf (snd (wind_down_flush rs cl drain w m))"
  using mux_wf_encodes [of m] wind_down_send_suffix [of "ch_queue (tx_frame m)" rs w]
  by (auto simp: wind_down_flush_def Let_def case_prod_beta chan_close_def intro!: mux_wf_tx_frame
    split: if_splits) (metis list_all_append)

lemma flows_commute:
  "upd_cell a f (m\<lparr>flows := fl\<rparr>) = (upd_cell a f m)\<lparr>flows := fl\<rparr>"
  "upd_frames a g (m\<lparr>flows := fl\<rparr>) = (upd_frames a g m)\<lparr>flows := fl\<rparr>"
  "wake a (m\<lparr>flows := fl\<rparr>) = (wake a m)\<lparr>flows := fl\<rparr>"
  "queue_frame q (m\<lparr>flows := fl\<rparr>) = (queue_frame q m)\<lparr>flows := fl\<rparr>"
  "drop_sender t (m\<lparr>flows := fl\<rparr>) = (drop_sender t m)\<lparr>flows := fl\<rparr>"
  "cell (m\<lparr>flows := fl\<rparr>) = cell m"
  by (simp_all add: upd_frames_def upd_cell_def wake_def queue_frame_def tx_send_eq cell_def fun_eq_iff
    drop_sender_def split: option.split)

lemma close_port_local_flows:
  "close_port_local s i inhibit (m\<lparr>flows := fl\<rparr>) = (close_port_local s i inhibit m)\<lparr>flows := fl\<rparr>"
  by (cases s) (simp_all add: close_port_local_simps close_write_def Let_def flows_commute)

lemma fold_close_flows:
  "fold (\<lambda>(i, s) m. close_port_local s i True m) es (m\<lparr>flows := fl\<rparr>) =
   (fold (\<lambda>(i, s) m. close_port_local s i True m) es m)\<lparr>flows := fl\<rparr>"
  by (induction es arbitrary: m) (auto simp: close_port_local_flows)

lemma flows_close_port_local [simp]: "flows (close_port_local s i inhibit m) = flows m"
  by (cases s) (simp_all add: close_port_local_simps close_write_def Let_def)

lemma close_port_Cons:
  assumes "flows m = (i, s) # es" and "distinct (map fst (flows m))"
  shows "close_port i True m = close_port_local s i True (m\<lparr>flows := es\<rparr>)"
proof -
  have "AList.delete i es = es" using assms by (intro AList.delete_id) auto
  then have "flow_remove i m = m\<lparr>flows := es\<rparr>" using assms(1) by (simp add: flow_remove_def)
  moreover have "slot_of m i = Some s" using assms(1) by (simp add: slot_of_def)
  ultimately show ?thesis by (simp add: close_port_def)
qed

lemma mux_wf_eof: "mux_wf m \<Longrightarrow> mux_wf (wind_down_eof m)"
proof (induction "flows m" arbitrary: m)
  case Nil
  then have "m\<lparr>flows := []\<rparr> = m" by (metis mux.surjective mux.update_convs(1))
  moreover have "wind_down_eof m = m\<lparr>flows := []\<rparr>"
    by (simp add: wind_down_eof_def flip: Nil.hyps)
  ultimately show ?case using Nil.prems by (simp only:)
next
  case (Cons e es)
  obtain i s where e: "e = (i, s)" by fastforce
  let ?m = "close_port i True m"
  have d: "distinct (map fst (flows m))" using Cons.prems by (simp add: mux_wf_def wf_flows_def)
  have cp: "?m = close_port_local s i True (m\<lparr>flows := es\<rparr>)"
    using close_port_Cons [OF _ d] Cons.hyps(2) e by simp
  then have fl: "flows ?m = es" by simp
  have "wind_down_eof m = wind_down_eof ?m"
    using Cons.hyps(2) [symmetric] fl
    by (simp add: wind_down_eof_def e fold_close_flows) (simp add: cp close_port_local_flows fold_close_flows)
  moreover have "mux_wf ?m" using Cons.prems by (rule mux_wf_close_port)
  ultimately show ?case using Cons.hyps(1) [of ?m] fl by simp
qed

lemma mux_wf_wind_down_dispatch: "mux_wf m \<Longrightarrow> mux_wf (fst (wind_down_dispatch inb m))"
proof (induction inb m rule: wind_down_dispatch.induct)
  case (2 r rest m)
  show ?case
  proof (cases r)
    case (Inr msg)
    obtain m' p where pm: "process_message msg True m = (m', p)" by fastforce
    with "2.prems" mux_wf_process_message [of m msg True] have "mux_wf m'" by simp
    with pm Inr "2.IH" show ?thesis by (auto split: poll.split outcome.split)
  qed (use "2.prems" in \<open>simp add: mux_wf_eof\<close>)
qed (simp add: mux_wf_eof)

lemma mux_wf_cancel_suspended: "mux_wf m \<Longrightarrow> mux_wf (cancel_suspended m)"
  by (auto simp: cancel_suspended_def intro!: mux_wf_drop_stream mux_wf_susp
    split: option.split suspended.split)

lemma mux_wf_task_exit: "mux_wf m \<Longrightarrow> mux_wf (task_exit m)"
proof -
  assume wf: "mux_wf m"
  let ?m = "m\<lparr>tx_frame := drop_rx (tx_frame m), con_recv := drop_tx (con_recv m),
     datagram_ch := drop_tx (datagram_ch m), bnd_request := map_option drop_tx (bnd_request m)\<rparr>"
  have "task_exit m = ?m\<lparr>dropped_ports := drop_rx (dropped_ports m)\<rparr>" by (simp add: task_exit_def)
  moreover from wf have "mux_wf ?m"
    by (auto simp: mux_wf_def wf_chans_def wf_streams_def has_cell_def drop_rx_def [of "tx_frame m"]
      drop_tx_def [of "con_recv m"] chan_ok_drop(1) [of "con_recv m", unfolded drop_tx_def]
      split: option.splits)
  ultimately show ?thesis by simp
qed

lemma mux_wf_wind_down:
  "mux_wf m \<Longrightarrow> mux_wf (fst (snd (wind_down rs cl drain inb w m)))"
  by (simp add: wind_down_def Let_def case_prod_beta mux_wf_stop_writers mux_wf_flush mux_wf_wind_down_dispatch)

lemma mux_wf_start_finish:
  assumes "mux_wf m"
  shows "mux_wf (fst (snd (start_finish rs cl branch res inb w m)))"
proof -
  obtain w' m' p rest where wd:
    "wind_down rs cl (branch = DroppedPortsDone) inb w (cancel_suspended m) = (w', m', p, rest)"
    by (metis prod_cases4)
  have "mux_wf m'"
    using mux_wf_wind_down [OF mux_wf_cancel_suspended [OF assms], of rs cl "branch = DroppedPortsDone" inb w] wd
    by simp
  with wd show ?thesis
    by (auto simp: start_finish_def mux_wf_task_exit split: poll.split outcome.split)
qed

section \<open>Preservation by the operations of a stream\<close>

lemma increment_wf: "mux_wf m \<Longrightarrow> mux_wf (snd (increment_psh_recvd_since s m))"
  by (simp add: increment_psh_recvd_since_def Let_def)

lemma upd_frames_recv:
  assumes "mux_wf m" and "poll_recv (frames_at m a) = (c, r)"
  shows "mux_wf (upd_frames a (\<lambda>_. c) m)"
proof (cases "a < length (cells m)")
  case True
  have "length (ch_queue c) \<le> length (ch_queue (frames_at m a)) \<and> ch_cap c = ch_cap (frames_at m a)
    \<and> ch_tx_alive c = ch_tx_alive (frames_at m a)"
    using assms(2) by (auto simp: poll_recv_def split: list.splits if_splits)
  with mux_wf_frames_at [OF assms(1) True] assms(1) show ?thesis
    by (intro mux_wf_upd_frames) auto
qed (simp add: assms upd_frames_beyond)

lemma mux_wf_poll_fill_buf:
  assumes "mux_wf m"
  shows "mux_wf (fst (snd (poll_fill_buf s m)))"
proof (cases "ms_buf s = []")
  case True
  obtain c r where pr: "poll_recv (frames_at m (ms_cell s)) = (c, r)" by fastforce
  note wf = upd_frames_recv [OF assms pr]
  have "mux_wf (upd_frames (ms_cell s) (\<lambda>_. chan_close c) m)" if "r = Ready None"
  proof -
    from that pr have "c = frames_at m (ms_cell s)" by (auto dest: mpsc.recv_NoneD)
    then show ?thesis
      using mux_wf_frames_at [OF assms, of "ms_cell s"] assms
      by (cases "ms_cell s < length (cells m)") (auto intro!: mux_wf_upd_frames simp: chan_close_def upd_frames_beyond)
  qed
  with True pr wf assms show ?thesis
    by (auto simp: poll_fill_buf_def Let_def case_prod_beta increment_wf split: poll.split option.split)
qed (simp add: poll_fill_buf_def assms)

lemma mux_wf_poll_read: "mux_wf m \<Longrightarrow> mux_wf (fst (snd (poll_read n s m)))"
  using mux_wf_poll_fill_buf [of m s]
  by (auto simp: poll_read_def Let_def case_prod_beta split: poll.split outcome.split)

lemma mux_wf_permission: "mux_wf m \<Longrightarrow> mux_wf (fst (poll_obtain_write_permission w s m))"
  by (simp add: poll_obtain_write_permission_def Let_def register_waker_def)

lemma mux_wf_poll_write: "mux_wf m \<Longrightarrow> mux_wf (fst (poll_write w data s m))"
  using mux_wf_permission [of m w s]
  by (auto simp: poll_write_def case_prod_beta tx_send_fin_eq split: poll.split outcome.split bool.split)

lemma mux_wf_shutdown: "mux_wf m \<Longrightarrow> mux_wf (fst (shutdown_inner s m))"
  by (simp add: shutdown_inner_def Let_def tx_send_fin_eq split: bool.split)

section \<open>Preservation by the operations of the user\<close>

lemma multiplexor_new_wf:
  assumes "multiplexor_new opts = Ok m" and "\<And>o1. opts = Some o1 \<Longrightarrow> opt_rwnd o1 \<noteq> 0"
  shows "mux_wf m"
proof -
  have "opt_rwnd options_default \<noteq> 0" using options_new_ok by (auto simp: options_default_def options_ok_def)
  with assms show ?thesis
    by (auto simp: multiplexor_new_def outcome_simps mpsc_channel_def Let_def mpsc_unbounded_def mux_wf_defs
      chan_ok_def slot_of_def split: if_splits option.splits)
qed

lemma next_available_key_fresh: "next_available_key ds mp = Some (i, rest) \<Longrightarrow> map_of mp i = None \<and> i \<in> set ds"
  by (induction ds mp rule: next_available_key.induct) (auto split: if_splits)

lemma mux_wf_add_request:
  assumes "mux_wf m" and "slot_of m i = None"
  shows "mux_wf (flow_insert i (Requested (length (stream_os m))) (m\<lparr>stream_os := stream_os m @ [oneshot_new]\<rparr>))"
    (is "mux_wf (flow_insert i ?r ?m)")
proof -
  have lt: "a < length (stream_os m)" if "slot_of m j = Some (Requested a)" for j a
    using mux_wf_fresh(1) [OF assms(1) that] by (simp add: os_fresh_def)
  have "wf_flows (flow_insert i ?r ?m)" using assms(1) by (intro wf_flows_insert) (simp_all add: mux_wf_def)
  moreover have "has_sender (flow_insert i ?r ?m) b \<longleftrightarrow> has_sender m b" for b
    using assms(2) by (auto simp: has_sender_def) (metis option.distinct(1))
  then have "wf_cells (flow_insert i ?r ?m)" using assms(1) by (simp add: mux_wf_def wf_cells_def)
  moreover have "wf_oneshots (flow_insert i ?r ?m)"
    using assms(1) lt unfolding mux_wf_def wf_oneshots_def
    by (auto simp: os_fresh_def nth_append oneshot_new_def dest: lt)
  moreover have "wf_streams (flow_insert i ?r ?m)"
    using assms(1) by (auto simp: mux_wf_def wf_streams_def nth_append oneshot_new_def less_Suc_eq)
  ultimately show ?thesis using assms(1) by (simp add: mux_wf_def wf_chans_def)
qed

lemma wf_oneshots_cong:
  "slot_of m' = slot_of m \<Longrightarrow> os_fresh (stream_os m') = os_fresh (stream_os m) \<Longrightarrow>
   os_fresh (bind_os m') = os_fresh (bind_os m) \<Longrightarrow> wf_oneshots m' \<longleftrightarrow> wf_oneshots m"
  by (simp add: wf_oneshots_def)

lemma os_fresh_rx: "os_fresh (xs[a := (xs ! a)\<lparr>os_rx_alive := r\<rparr>]) = os_fresh xs"
  by (cases "a < length xs") (auto simp: os_fresh_def fun_eq_iff nth_list_update list_update_beyond)

lemma wf_oneshots_rx:
  "wf_oneshots (m\<lparr>stream_os := (stream_os m)[a := (stream_os m ! a)\<lparr>os_rx_alive := r\<rparr>]\<rparr>) = wf_oneshots m"
  "wf_oneshots (m\<lparr>bind_os := (bind_os m)[a := (bind_os m ! a)\<lparr>os_rx_alive := r\<rparr>]\<rparr>) = wf_oneshots m"
  by (rule wf_oneshots_cong; simp add: os_fresh_rx)+

lemma mux_wf_stream_os_rx:
  assumes "mux_wf m"
  shows "mux_wf (m\<lparr>stream_os := (stream_os m)[a := (stream_os m ! a)\<lparr>os_rx_alive := r\<rparr>]\<rparr>)"
proof -
  have "wf_streams (m\<lparr>stream_os := (stream_os m)[a := (stream_os m ! a)\<lparr>os_rx_alive := r\<rparr>]\<rparr>)"
    using assms by (cases "a < length (stream_os m)")
      (auto simp: mux_wf_def wf_streams_def has_cell_def nth_list_update list_update_beyond split: if_splits)
  with assms show ?thesis by (simp add: mux_wf_def wf_oneshots_rx wf_chans_def)
qed

lemma mux_wf_bind_os_rx:
  "mux_wf m \<Longrightarrow> mux_wf (m\<lparr>bind_os := (bind_os m)[a := (bind_os m ! a)\<lparr>os_rx_alive := r\<rparr>]\<rparr>)"
  by (simp add: mux_wf_def wf_oneshots_rx wf_chans_def wf_streams_def has_cell_def)

lemma mux_wf_add_bind:
  assumes "mux_wf m" and "slot_of m i = None"
  shows "mux_wf (flow_insert i (BindRequested (length (bind_os m))) (m\<lparr>bind_os := bind_os m @ [oneshot_new]\<rparr>))"
    (is "mux_wf (flow_insert i ?r ?m)")
proof -
  have lt: "a < length (bind_os m)" if "slot_of m j = Some (BindRequested a)" for j a
    using mux_wf_fresh(2) [OF assms(1) that] by (simp add: os_fresh_def)
  have "wf_flows (flow_insert i ?r ?m)" using assms(1) by (intro wf_flows_insert) (simp_all add: mux_wf_def)
  moreover have "has_sender (flow_insert i ?r ?m) b \<longleftrightarrow> has_sender m b" for b
    using assms(2) by (auto simp: has_sender_def) (metis option.distinct(1))
  then have "wf_cells (flow_insert i ?r ?m)" using assms(1) by (simp add: mux_wf_def wf_cells_def)
  moreover have "wf_oneshots (flow_insert i ?r ?m)"
    using assms(1) lt unfolding mux_wf_def wf_oneshots_def
    by (auto simp: os_fresh_def nth_append oneshot_new_def dest: lt)
  ultimately show ?thesis using assms(1) by (simp add: mux_wf_def wf_chans_def wf_streams_def has_cell_def)
qed

lemma mux_wf_new_stream_attempt:
  assumes "mux_wf m" and "new_stream_attempt h p ds m = Some (m', ds', r)"
  shows "mux_wf m'"
proof -
  let ?a = "length (stream_os m)"
  obtain i rest where k: "next_available_key ds (flows m) = Some (i, rest)"
    using assms(2) by (auto simp: new_stream_attempt_def Let_def split: option.splits)
  then have "slot_of m i = None" by (simp add: slot_of_def next_available_key_fresh)
  let ?m = "queue_frame (new_connect h p i (mux_rwnd m))
    (flow_insert i (Requested ?a) (m\<lparr>stream_os := stream_os m @ [oneshot_new]\<rparr>))"
  have wf: "mux_wf ?m" using mux_wf_add_request [OF assms(1) \<open>slot_of m i = None\<close>] by simp
  from mux_wf_stream_os_rx [OF this, of ?a False] wf k assms(2) show ?thesis
    by (auto simp: new_stream_attempt_def Let_def tx_send_fin_eq split: bool.splits)
qed

lemma mux_wf_stream_os_poll:
  assumes "mux_wf m"
  shows "mux_wf (m\<lparr>stream_os := (stream_os m)[a := fst (oneshot_poll (stream_os m ! a))]\<rparr>)"
proof (cases "a < length (stream_os m) \<and> os_value (stream_os m ! a) \<noteq> None")
  case True
  then have "slot_of m j \<noteq> Some (Requested a)" for j
    using mux_wf_fresh(1) [OF assms] by (auto simp: os_fresh_def)
  with assms show ?thesis
    by (rule mux_wf_stream_os_insert) (auto simp: oneshot_poll_def split: option.splits if_splits)
next
  case False
  then have "(stream_os m)[a := fst (oneshot_poll (stream_os m ! a))] = stream_os m"
    by (cases "a < length (stream_os m)") (auto simp: oneshot_poll_def list_update_beyond)
  with assms show ?thesis by simp
qed

lemma mux_wf_poll_wait: "mux_wf m \<Longrightarrow> mux_wf (fst (poll_wait r a m))"
  using mux_wf_stream_os_poll [of m a]
  by (auto simp: poll_wait_def Let_def case_prod_beta split: poll.split outcome.split option.split)

lemma mux_wf_poll_new_stream:
  assumes "mux_wf m" and "poll_new_stream_channel h p ds fut m = Some (m', ds', fut', r)"
  shows "mux_wf m'"
proof (cases fut)
  case (NsWait q a)
  with assms(2) have "m' = fst (poll_wait q a m)"
    by (auto simp: poll_new_stream_channel_def split: prod.splits)
  with mux_wf_poll_wait [OF assms(1)] show ?thesis by simp
qed (use assms mux_wf_new_stream_attempt [OF assms(1), of h p ds] in
    \<open>auto simp: poll_new_stream_channel_def split: if_splits option.splits prod.splits outcome.splits\<close>)

lemma chan_ok_recv: "chan_ok c \<Longrightarrow> chan_ok (fst (poll_recv c))"
  by (auto simp: chan_ok_def poll_recv_def split: list.split option.splits)

lemma mux_wf_accept:
  assumes "mux_wf m"
  shows "mux_wf (fst (accept_stream_channel m))"
proof -
  have "set (ch_queue (fst (poll_recv (con_recv m)))) \<subseteq> set (ch_queue (con_recv m))"
    by (auto simp: poll_recv_def split: list.splits if_splits)
  with assms chan_ok_recv [OF mux_wf_chan_ok(1) [OF assms]] show ?thesis
    by (auto simp: accept_stream_channel_def Let_def case_prod_beta mux_wf_def wf_chans_def wf_streams_def)
qed

lemma mux_wf_get_datagram: "mux_wf m \<Longrightarrow> mux_wf (fst (get_datagram m))"
  by (simp add: get_datagram_def Let_def case_prod_beta mux_wf_datagram_ch chan_ok_recv mux_wf_chan_ok)

lemma mux_wf_next_bind: "mux_wf m \<Longrightarrow> mux_wf (fst (next_bind_request m))"
  by (auto simp: next_bind_request_def Let_def case_prod_beta mux_wf_bnd_request chan_ok_recv mux_wf_chan_ok
    split: option.split)

lemma mux_wf_tx_send: "mux_wf m \<Longrightarrow> encodes ff \<Longrightarrow> mux_wf (fst (tx_send ff m))"
  by (simp add: tx_send_eq mux_wf_tx_frame mux_wf_encodes)

lemma mux_wf_send_datagram: "mux_wf m \<Longrightarrow> mux_wf (fst (send_datagram dg m))"
  by (auto simp: send_datagram_def finalize_def case_prod_beta encodes_def intro!: mux_wf_tx_send
    split: option.split bool.split)

lemma mux_wf_bind_reply: "mux_wf m \<Longrightarrow> mux_wf (fst (bind_reply r acc m))"
  by (simp add: bind_reply_def tx_send_fin_eq split: bool.split)

lemma mux_wf_drop_bind: "mux_wf m \<Longrightarrow> mux_wf (drop_bind_request r m)"
  by (simp add: drop_bind_request_def mux_wf_bind_reply)

lemma mux_wf_request_bind:
  assumes "mux_wf m" and "request_bind h p t ds m = Some (m', ds', r)"
  shows "mux_wf m'"
proof -
  let ?a = "length (bind_os m)"
  obtain i rest where k: "next_available_key ds (flows m) = Some (i, rest)"
    using assms(2) by (auto simp: request_bind_def Let_def split: option.splits)
  then have "slot_of m i = None" by (simp add: slot_of_def next_available_key_fresh)
  let ?m = "queue_frame (new_bind i t h p)
    (flow_insert i (BindRequested ?a) (m\<lparr>bind_os := bind_os m @ [oneshot_new]\<rparr>))"
  have wf: "mux_wf ?m" using mux_wf_add_bind [OF assms(1) \<open>slot_of m i = None\<close>] by simp
  from mux_wf_bind_os_rx [OF this, of ?a False] wf k assms(2) show ?thesis
    by (auto simp: request_bind_def Let_def tx_send_fin_eq split: bool.splits)
qed

lemma mux_wf_bind_os_poll:
  assumes "mux_wf m"
  shows "mux_wf (m\<lparr>bind_os := (bind_os m)[a := fst (oneshot_poll (bind_os m ! a))]\<rparr>)"
proof (cases "a < length (bind_os m) \<and> os_value (bind_os m ! a) \<noteq> None")
  case True
  then have ne: "b \<noteq> a" if "slot_of m j = Some (BindRequested b)" for j b
    using mux_wf_fresh(2) [OF assms that] by (auto simp: os_fresh_def)
  have "wf_oneshots (m\<lparr>bind_os := (bind_os m)[a := fst (oneshot_poll (bind_os m ! a))]\<rparr>)"
    using assms ne by (simp add: mux_wf_def wf_oneshots_def)
  with assms show ?thesis by (simp add: mux_wf_def wf_chans_def wf_streams_def has_cell_def)
next
  case False
  then have "(bind_os m)[a := fst (oneshot_poll (bind_os m ! a))] = bind_os m"
    by (cases "a < length (bind_os m)") (auto simp: oneshot_poll_def list_update_beyond)
  with assms show ?thesis by simp
qed

lemma mux_wf_poll_bind: "mux_wf m \<Longrightarrow> mux_wf (fst (poll_bind fut m))"
  by (cases fut) (simp add: Let_def case_prod_beta mux_wf_bind_os_poll)

lemma mux_wf_fold_drop_stream: "mux_wf m \<Longrightarrow> mux_wf (fold drop_stream ss m)"
  by (induction ss arbitrary: m) auto

lemma mux_wf_fold_drop_bind: "mux_wf m \<Longrightarrow> mux_wf (fold drop_bind_request rs m)"
  by (induction rs arbitrary: m) (auto simp: mux_wf_drop_bind)

lemma mux_wf_multiplexor_drop:
  assumes "mux_wf m"
  shows "mux_wf (multiplexor_drop m)"
proof -
  let ?m = "(notify_dropped 0 m)\<lparr>datagram_ch := drop_rx (datagram_ch m)\<rparr>"
  have "mux_wf ?m" using assms mux_wf_chan_ok(2) [OF assms] by (intro mux_wf_datagram_ch) simp_all
  then have "mux_wf (?m\<lparr>con_recv := drop_rx (con_recv m)\<rparr>)"
    using mux_wf_chan_ok(1) [OF assms]
    by (auto simp: mux_wf_def wf_chans_def wf_streams_def) (simp_all add: drop_rx_def)
  from mux_wf_fold_drop_stream [OF this, of "ch_queue (con_recv m)"] show ?thesis
    using mux_wf_chan_ok(3)
    by (auto simp: multiplexor_drop_def Let_def intro!: mux_wf_fold_drop_bind mux_wf_bnd_request
      split: option.split)
qed

end
