(* ===== verification/Mux_Properties.thy ===== *)
theory Mux_Properties
  imports Mux_Invariant
begin

text \<open>
  What the multiplexor guarantees. The runs of one end are a step system whose steps are the
  operations of the task, the streams and the user; the invariant holds in every reachable
  state. Then: what a received frame can make an end send, which flows it can touch, and the
  behaviour of every kind of frame.
\<close>

section \<open>Runs of one end\<close>

text \<open>
  One step is any operation, in any interleaving; streams, buffers, draws and wakers are
  arbitrary. The sink of the WebSocket records the messages it was given.
\<close>

inductive mux_step :: "mux \<Rightarrow> mux \<Rightarrow> bool" where
  step_message: "mux_step m (fst (process_message msg ignore m))"
| step_resume: "mux_step m (fst (resume_send m))"
| step_dropped_ports: "mux_step m (fst (process_dropped_ports_task m))"
| step_frame_recv: "mux_step m (fst (snd (snd (process_frame_recv_task ws tick p (w :: message list) m))))"
| step_cancel: "mux_step m (cancel_suspended m)"
| step_stop_writers: "mux_step m (wind_down_stop_writers m)"
| step_flush: "mux_step m (snd (wind_down_flush rs cl drain (w :: message list) m))"
| step_dispatch: "mux_step m (fst (wind_down_dispatch inb m))"
| step_exit: "mux_step m (task_exit m)"
| step_fill_buf: "mux_step m (fst (snd (poll_fill_buf s m)))"
| step_read: "mux_step m (fst (snd (poll_read n s m)))"
| step_write: "mux_step m (fst (poll_write k data s m))"
| step_shutdown: "mux_step m (fst (poll_shutdown s m))"
| step_drop_stream: "mux_step m (drop_stream s m)"
| step_open: "poll_new_stream_channel h prt ds fut m = Some (m', ds', fut', r) \<Longrightarrow> mux_step m m'"
| step_accept: "mux_step m (fst (accept_stream_channel m))"
| step_get_datagram: "mux_step m (fst (get_datagram m))"
| step_send_datagram: "mux_step m (fst (send_datagram dg m))"
| step_request_bind: "request_bind h prt t ds m = Some (m', ds', rb) \<Longrightarrow> mux_step m m'"
| step_poll_bind: "mux_step m (fst (poll_bind bf m))"
| step_next_bind: "mux_step m (fst (next_bind_request m))"
| step_bind_reply: "mux_step m (fst (bind_reply br acc m))"
| step_drop_bind: "mux_step m (drop_bind_request br m)"
| step_drop: "mux_step m (multiplexor_drop m)"

definition mux_init :: "mux \<Rightarrow> bool" where
  "mux_init m \<longleftrightarrow> (\<exists>o1. options_ok o1 \<and> multiplexor_new (Some o1) = Ok m)"

lemma mux_init_wf: "mux_init m \<Longrightarrow> mux_wf m"
  by (auto simp: mux_init_def options_ok_def intro: multiplexor_new_wf)

lemma mux_step_wf:
  assumes "mux_wf m" and "mux_step m m'"
  shows "mux_wf m'"
  using assms(2)
proof (cases rule: mux_step.cases)
  case (step_open h prt ds fut ds' fut' r)
  then show ?thesis using mux_wf_poll_new_stream [OF assms(1)] by blast
next
  case (step_request_bind h prt t ds ds' rb)
  then show ?thesis using mux_wf_request_bind [OF assms(1)] by blast
qed (use assms(1) in \<open>simp_all add: mux_wf_process_message mux_wf_resume_send mux_wf_process_dropped_ports
    mux_wf_frame_recv mux_wf_cancel_suspended mux_wf_stop_writers mux_wf_flush mux_wf_wind_down_dispatch
    mux_wf_task_exit mux_wf_poll_fill_buf mux_wf_poll_read mux_wf_poll_write poll_shutdown_def
    mux_wf_shutdown mux_wf_accept mux_wf_get_datagram mux_wf_send_datagram mux_wf_poll_bind
    mux_wf_next_bind mux_wf_bind_reply mux_wf_drop_bind mux_wf_multiplexor_drop\<close>)

interpretation mux_run: step_system mux_init mux_step mux_wf
  by unfold_locales (simp_all add: mux_init_wf mux_step_wf)

text \<open>
  C2: In every state a multiplexor can reach, from options the builder can produce and under any
  interleaving of the task, the streams and the user: flow identifiers are unique, no two
  streams share a data channel, a data channel never holds more than \<open>rwnd\<close> frames and stays
  open to its reader exactly while a flow feeds it, every pending request still has its
  answer outstanding, the bounded queues respect their capacities, and everything queued for
  the peer is the encoding of a frame.
\<close>

theorem mux_reachable_wf:
  assumes "reach mux_init mux_step m"
  shows "mux_wf m"
  using assms by (rule mux_run.reach_inv)

text \<open>A multiplexor with the default options, for the examples.\<close>

definition mux0 :: mux where
  "mux0 = \<lparr>flows = [], tx_frame = mpsc_unbounded, dropped_ports = mpsc_unbounded,
     con_recv = \<lparr>ch_queue = [], ch_cap = Some 16, ch_rx_open = True, ch_tx_alive = True\<rparr>,
     datagram_ch = \<lparr>ch_queue = [], ch_cap = Some 512, ch_rx_open = True, ch_tx_alive = True\<rparr>,
     bnd_request = None, cells = [], stream_os = [], bind_os = [], woken = [], susp = None,
     mux_rwnd = 512, mux_threshold = 256, mux_retries = 3\<rparr>"

lemma mux0_init: "mux_init mux0"
proof -
  have "multiplexor_new (Some options_new) = Ok mux0"
    by (simp add: multiplexor_new_def options_new_def mpsc_channel_def mux0_def Let_def)
  with options_new_ok show ?thesis unfolding mux_init_def by blast
qed

theorem mux_reachable_wf_witness:
  "mux_wf (fst (process_message (Binary [0x70, 0, 0, 0, 7, 0, 0, 0, 9, 0, 80]) False mux0))"
  by (rule mux_reachable_wf, rule reach_step, rule reach_init, rule mux0_init, rule step_message)

section \<open>What a received frame makes an end send\<close>

definition replies :: "mux \<Rightarrow> mux \<Rightarrow> finalized_frame list \<Rightarrow> bool" where
  "replies m m' rs \<longleftrightarrow> ch_queue (tx_frame m') = ch_queue (tx_frame m) @ rs"

lemma drop_stream_sels [simp]:
  "flows (drop_stream s m) = flows m" "tx_frame (drop_stream s m) = tx_frame m"
  "con_recv (drop_stream s m) = con_recv m" "datagram_ch (drop_stream s m) = datagram_ch m"
  "bnd_request (drop_stream s m) = bnd_request m" "stream_os (drop_stream s m) = stream_os m"
  "bind_os (drop_stream s m) = bind_os m" "mux_rwnd (drop_stream s m) = mux_rwnd m"
  "slot_of (drop_stream s m) = slot_of m"
  by (simp_all add: drop_stream_def)

lemma tx_send_stream: "tx_frame (fst (send_stream_to_user s m)) = tx_frame m"
  by (auto simp: send_stream_to_user_def poll_send_def)

lemma tx_close_port:
  "ch_queue (tx_frame (close_port i inhibit m)) = ch_queue (tx_frame m) @
     (case slot_of m i of
        Some (Established d) \<Rightarrow> if \<not> c_finish_sent (cell m (es_cell d)) \<and> \<not> inhibit \<and> ch_rx_open (tx_frame m)
          then [fin (new_reset i)] else []
      | _ \<Rightarrow> [])"
  by (auto simp: close_port_def close_port_local_simps close_write_def Let_def flow_remove_commute
    split: option.split flow_slot.split)

lemma tx_ack_recv: "mux_rwnd m \<noteq> 0 \<Longrightarrow> slot_of m i = Some (Requested a) \<Longrightarrow>
   tx_frame (fst (ack_recv_new_stream i n m)) = tx_frame m"
  by (simp add: ack_recv_new_stream_Requested Let_def)

lemma recv_push_eq:
  "recv_push i data m = (case slot_of m i of
     Some (Established d) \<Rightarrow> (case es_sender d of
         None \<Rightarrow> queue_frame (new_reset i) m
       | Some a \<Rightarrow> if \<not> ch_rx_open (frames_at m a) then m
           else if ch_full (frames_at m a) then close_port i False m
           else upd_frames a (ch_push data) m)
   | _ \<Rightarrow> queue_frame (new_reset i) m)"
proof -
  have same: "upd_frames a (\<lambda>c. fst (try_send data c)) m =
      (if \<not> ch_rx_open (frames_at m a) \<or> ch_full (frames_at m a) then m else upd_frames a (ch_push data) m)" for a
    by (simp add: try_send_def upd_frames_def upd_cell_def frames_at_def)
  have res: "snd (try_send data c) = (if \<not> ch_rx_open c then Err Closed else if ch_full c then Err Full else Ok ())"
    for c :: "bytes chan" by (simp add: try_send_def)
  show ?thesis
    by (auto simp: recv_push_def dispatch_eq same res Let_def split: option.split flow_slot.split)
qed

lemma process_frame_replies:
  assumes "mux_rwnd m \<noteq> 0"
  shows "\<exists>rs. replies m (fst (process_frame f ignore m)) rs \<and> length rs \<le> 1
    \<and> (rs \<noteq> [] \<longrightarrow> frame_payload f \<noteq> Reset)
    \<and> set rs \<subseteq> insert (fin (new_reset (frame_id f)))
         (if slot_of m (frame_id f) = None \<and> op_code_of (frame_payload f) = OpConnect
          then {fin (new_acknowledge (frame_id f) (mux_rwnd m))} else {})"
proof (cases "frame_payload f")
  case (Connect c)
  with assms show ?thesis
    by (auto simp: replies_def process_frame_def con_recv_new_stream_eq tx_send_stream op_code_of_def)
next
  case (Acknowledge n)
  with assms show ?thesis
    by (auto simp: replies_def process_frame_def recv_ack_def acknowledge_def tx_ack_recv
      split: option.split flow_slot.split)
next
  case (Push data)
  then show ?thesis
    by (auto simp: replies_def process_frame_def recv_push_eq tx_close_port split: option.split flow_slot.split)
next
  case (Bind p)
  then show ?thesis
    by (auto simp: replies_def process_frame_def recv_bind_def send_bind_to_user_def poll_send_def
      split: option.split)
next
  case (Datagram p)
  then show ?thesis
    by (auto simp: replies_def process_frame_def recv_datagram_def Let_def case_prod_beta
      split: outcome.split try_send_error.split)
next
  case Finish
  then show ?thesis
    by (auto simp: replies_def process_frame_def recv_finish_def disallow_read_def drop_stream_os_tx_def
      split: option.split flow_slot.split)
next
  case Reset
  then show ?thesis
    by (auto simp: replies_def process_frame_def tx_close_port split: option.split flow_slot.split)
qed


lemma mux0_wf: "mux_wf mux0"
  using mux0_init by (rule mux_init_wf)


section \<open>Isolation of flows\<close>

text \<open>
  What one flow can observe: its slot with the shared cell, or the pending answer to its request.
\<close>

datatype flow_view = VRequested "mux_stream option oneshot" | VEstablished established stream_cell
  | VBind "bool oneshot"

definition flow_view :: "mux \<Rightarrow> u32 \<Rightarrow> flow_view option" where
  "flow_view m i = (case slot_of m i of
       None \<Rightarrow> None
     | Some (Requested a) \<Rightarrow> Some (VRequested (stream_os m ! a))
     | Some (Established d) \<Rightarrow> Some (VEstablished d (cell m (es_cell d)))
     | Some (BindRequested a) \<Rightarrow> Some (VBind (bind_os m ! a)))"

lemma cell_same [simp]:
  "cell (queue_frame q m) = cell m" "cell (notify_dropped i m) = cell m"
  "cell (flow_insert i s m) = cell m" "cell (flow_remove i m) = cell m"
  "cell (m\<lparr>con_recv := cr\<rparr>) = cell m" "cell (m\<lparr>datagram_ch := dg\<rparr>) = cell m"
  "cell (m\<lparr>bnd_request := b\<rparr>) = cell m" "cell (m\<lparr>susp := su\<rparr>) = cell m"
  "cell (m\<lparr>stream_os := so\<rparr>) = cell m" "cell (m\<lparr>bind_os := bo\<rparr>) = cell m"
  "cell (m\<lparr>tx_frame := tf\<rparr>) = cell m" "cell (m\<lparr>dropped_ports := dp\<rparr>) = cell m"
  by (simp_all add: cell_def fun_eq_iff)

lemma flow_view_same [simp]:
  "flow_view (queue_frame q m) = flow_view m" "flow_view (notify_dropped i m) = flow_view m"
  "flow_view (m\<lparr>con_recv := cr\<rparr>) = flow_view m" "flow_view (m\<lparr>datagram_ch := dg\<rparr>) = flow_view m"
  "flow_view (m\<lparr>bnd_request := b\<rparr>) = flow_view m" "flow_view (m\<lparr>susp := su\<rparr>) = flow_view m"
  by (simp_all add: flow_view_def fun_eq_iff split: option.split flow_slot.split)

lemma flow_view_insert [simp]: "j \<noteq> i \<Longrightarrow> flow_view (flow_insert i s m) j = flow_view m j"
  by (simp add: flow_view_def split: option.split flow_slot.split)

lemma flow_view_remove [simp]: "j \<noteq> i \<Longrightarrow> flow_view (flow_remove i m) j = flow_view m j"
  by (simp add: flow_view_def split: option.split flow_slot.split)

lemma cell_wake_other: "b \<noteq> a \<Longrightarrow> cell (wake a m) b = cell m b"
  by (simp add: wake_def cell_def upd_cell_def split: option.split)

text \<open>A cell that belongs to no other flow can change freely.\<close>

definition foreign :: "mux \<Rightarrow> u32 \<Rightarrow> nat \<Rightarrow> bool" where
  "foreign m j a \<longleftrightarrow> (\<forall>d. slot_of m j = Some (Established d) \<longrightarrow> es_cell d \<noteq> a)"

lemma flow_view_cell [simp]:
  "foreign m j a \<Longrightarrow> flow_view (upd_cell a f m) j = flow_view m j"
  "foreign m j a \<Longrightarrow> flow_view (upd_frames a g m) j = flow_view m j"
  "foreign m j a \<Longrightarrow> flow_view (wake a m) j = flow_view m j"
  by (auto simp: flow_view_def foreign_def upd_frames_def cell_wake_other split: option.split flow_slot.split)

lemma foreign_same [simp]:
  "foreign (upd_cell b f m) = foreign m" "foreign (upd_frames b g m) = foreign m"
  "foreign (wake b m) = foreign m" "foreign (queue_frame q m) = foreign m"
  "foreign (notify_dropped i m) = foreign m" "foreign (m\<lparr>stream_os := so\<rparr>) = foreign m"
  by (simp_all add: foreign_def fun_eq_iff)

lemma foreign_flows [simp]:
  "j \<noteq> i \<Longrightarrow> foreign (flow_insert i s m) j = foreign m j"
  "j \<noteq> i \<Longrightarrow> foreign (flow_remove i m) j = foreign m j"
  by (simp_all add: foreign_def fun_eq_iff)

lemma wf_foreign:
  "mux_wf m \<Longrightarrow> slot_of m i = Some (Established d) \<Longrightarrow> j \<noteq> i \<Longrightarrow> foreign m j (es_cell d)"
  using wf_flows_cell_inj [of m] by (fastforce simp: foreign_def mux_wf_def)

lemma wf_foreign_sender:
  "mux_wf m \<Longrightarrow> slot_of m i = Some (Established d) \<Longrightarrow> es_sender d = Some a \<Longrightarrow> j \<noteq> i \<Longrightarrow> foreign m j a"
  using wf_foreign wf_flows_sender by (metis mux_wf_def)

lemma wf_foreign_new: "mux_wf m \<Longrightarrow> foreign m j (length (cells m))"
  using wf_flows_cell by (fastforce simp: foreign_def mux_wf_def)

lemma flow_view_drop_sender:
  "(\<And>a. t = Some a \<Longrightarrow> foreign m j a) \<Longrightarrow> flow_view (drop_sender t m) j = flow_view m j"
  by (simp add: drop_sender_def split: option.split)

lemma flow_view_drop_stream:
  "foreign m j (ms_cell s) \<Longrightarrow> flow_view (drop_stream s m) j = flow_view m j"
  by (simp add: drop_stream_def)

lemma flow_view_stream_os:
  "(\<And>b. slot_of m j = Some (Requested b) \<Longrightarrow> b \<noteq> a)
   \<Longrightarrow> flow_view (m\<lparr>stream_os := (stream_os m)[a := x]\<rparr>) j = flow_view m j"
  by (auto simp: flow_view_def split: option.split flow_slot.split)

lemma flow_view_bind_os:
  "(\<And>b. slot_of m j = Some (BindRequested b) \<Longrightarrow> b \<noteq> a)
   \<Longrightarrow> flow_view (m\<lparr>bind_os := (bind_os m)[a := x]\<rparr>) j = flow_view m j"
  by (auto simp: flow_view_def split: option.split flow_slot.split)

lemma wf_oneshots_bind_inj:
  "mux_wf m \<Longrightarrow> slot_of m i = Some (BindRequested a) \<Longrightarrow> slot_of m j = Some (BindRequested a) \<Longrightarrow> j = i"
  unfolding mux_wf_def wf_oneshots_def by blast

lemma flow_view_close_port:
  assumes "mux_wf m" and "j \<noteq> i"
  shows "flow_view (close_port i inhibit m) j = flow_view m j"
proof (cases "slot_of m i")
  case (Some s)
  show ?thesis
  proof (cases s)
    case (Established d)
    with Some have "slot_of m i = Some (Established d)" by simp
    from wf_foreign [OF assms(1) this assms(2)] wf_foreign_sender [OF assms(1) this _ assms(2)]
    show ?thesis using assms(2) Some Established
      by (simp add: close_port_def close_port_local_simps close_write_def Let_def flow_view_drop_sender)
  next
    case (Requested a)
    with Some assms wf_oneshots_inj [OF assms(1), of i a j] show ?thesis
      by (simp add: close_port_def close_port_local_simps)
        (subst flow_view_stream_os [where m = "flow_remove i m", simplified], auto)
  next
    case (BindRequested a)
    with Some assms wf_oneshots_bind_inj [OF assms(1), of i a j] show ?thesis
      by (simp add: close_port_def close_port_local_simps)
        (subst flow_view_bind_os [where m = "flow_remove i m", simplified], auto)
  qed
qed (simp add: close_port_def)

lemma flow_view_add_flow:
  assumes "mux_wf m" and "j \<noteq> i"
  shows "flow_view (add_flow i n m) j = flow_view m j"
  using assms(2) wf_flows_cell [of m j] assms(1)
  by (auto simp: flow_view_def add_flow_def cell_def nth_append mux_wf_def split: option.split flow_slot.split)

lemma flow_view_send_stream:
  "foreign m j (ms_cell s) \<Longrightarrow> flow_view (fst (send_stream_to_user s m)) j = flow_view m j"
  by (auto simp: send_stream_to_user_def poll_send_def flow_view_drop_stream)

lemma foreign_add_flow: "mux_wf m \<Longrightarrow> j \<noteq> i \<Longrightarrow> foreign (add_flow i n m) j (length (cells m))"
  using wf_foreign_new [of m j] by (simp add: foreign_def)

lemma flow_view_connect:
  assumes "mux_wf m" and "j \<noteq> i"
  shows "flow_view (fst (con_recv_new_stream i h p n m)) j = flow_view m j"
  using assms foreign_add_flow [OF assms, of n] flow_view_add_flow [OF assms, of n]
  by (auto simp: con_recv_new_stream_eq mux_wf_rwnd flow_view_send_stream flow_view_drop_stream new_stream_of_def)

lemma flow_view_ack:
  assumes "mux_wf m" and "j \<noteq> i"
  shows "flow_view (fst (recv_ack i n m)) j = flow_view m j"
proof (cases "slot_of m i")
  case (Some s)
  show ?thesis
  proof (cases s)
    case (Established d)
    with Some wf_foreign [OF assms(1), of i d j] assms(2) show ?thesis
      by (simp add: recv_ack_def acknowledge_def)
  next
    case (Requested a)
    let ?m = "add_flow i n m"
    have "flow_view (?m\<lparr>stream_os := (stream_os m)[a := x]\<rparr>) j = flow_view m j" for x
      using flow_view_stream_os [of ?m j a x] flow_view_add_flow [OF assms, of n]
        wf_oneshots_inj [OF assms(1), of i a j] assms(2) Some Requested by auto
    with Requested Some assms foreign_add_flow [OF assms, of n] show ?thesis
      by (auto simp: recv_ack_def ack_recv_new_stream_Requested mux_wf_rwnd Let_def flow_view_drop_stream
        new_stream_of_def)
  qed (use Some in \<open>simp add: recv_ack_def\<close>)
qed (simp add: recv_ack_def)

lemma flow_view_finish:
  assumes "mux_wf m" and "j \<noteq> i"
  shows "flow_view (recv_finish i m) j = flow_view m j"
proof (cases "slot_of m i")
  case (Some s)
  show ?thesis
  proof (cases s)
    case (Established d)
    with Some wf_foreign_sender [OF assms(1), of i d _ j] assms(2) show ?thesis
      by (simp add: recv_finish_def disallow_read_def flow_view_drop_sender)
  next
    case (Requested a)
    with Some assms wf_oneshots_inj [OF assms(1), of i a j] show ?thesis
      by (simp add: recv_finish_def drop_stream_os_tx_def)
        (subst flow_view_stream_os [where m = "flow_remove i m", simplified], auto)
  next
    case (BindRequested a)
    with Some assms wf_oneshots_bind_inj [OF assms(1), of i a j] show ?thesis
      by (simp add: recv_finish_def Let_def)
        (subst flow_view_bind_os [where m = "flow_remove i m", simplified], auto)
  qed
qed (simp add: recv_finish_def)

lemma flow_view_push:
  assumes "mux_wf m" and "j \<noteq> i"
  shows "flow_view (recv_push i data m) j = flow_view m j"
  using assms flow_view_close_port [OF assms] wf_foreign_sender [OF assms(1), of i _ _ j]
  by (auto simp: recv_push_eq split: option.split flow_slot.split)

lemma process_frame_flow_view:
  assumes "mux_wf m" and "j \<noteq> frame_id f"
  shows "flow_view (fst (process_frame f ignore m)) j = flow_view m j"
  using assms
  by (auto simp: process_frame_def flow_view_connect flow_view_ack flow_view_finish flow_view_close_port
    flow_view_push recv_bind_def send_bind_to_user_def poll_send_def recv_datagram_def Let_def case_prod_beta
    split: payload.split option.split outcome.split try_send_error.split)

text \<open>
  C17: Flows are isolated: a frame for one flow identifier leaves every other flow exactly as it was:
  its slot, its credits, its shutdown flag, its waker, the data queued for its reader, and the
  pending answer to its request.
\<close>

theorem frame_isolation:
  assumes "mux_wf m" and "j \<noteq> frame_id f"
  shows "flow_view (fst (process_frame f ignore m)) j = flow_view m j"
  using assms by (rule process_frame_flow_view)

theorem frame_isolation_witness:
  "flow_view (fst (process_frame (new_reset 5) False mux0)) 6 = flow_view mux0 6"
  by (rule frame_isolation) (simp_all add: mux0_wf new_reset_def)

end
