(* ===== verification/Mux_Lifecycle.thy ===== *)
theory Mux_Lifecycle
  imports Mux_Properties
begin

text \<open>
  The life of a stream and of the whole connection: what reading, writing and shutting down return
  and send; the handshake between two ends; datagrams from one end to the other; closing a
  flow; winding down.
\<close>

section \<open>Reading\<close>

text \<open>The octets a stream still has to deliver, and whether more can come.\<close>

definition unread :: "mux_stream \<Rightarrow> mux \<Rightarrow> bytes" where
  "unread s m = ms_buf s @ concat (ch_queue (frames_at m (ms_cell s)))"

definition at_eof :: "mux_stream \<Rightarrow> mux \<Rightarrow> bool" where
  "at_eof s m \<longleftrightarrow> unread s m = [] \<and> ch_queue (frames_at m (ms_cell s)) = []
     \<and> \<not> (ch_tx_alive (frames_at m (ms_cell s)) \<and> ch_rx_open (frames_at m (ms_cell s)))"

definition empty_push_next :: "mux_stream \<Rightarrow> mux \<Rightarrow> bool" where
  "empty_push_next s m \<longleftrightarrow> ms_buf s = [] \<and> (\<exists>rest. ch_queue (frames_at m (ms_cell s)) = [] # rest)"

lemma increment_fst [simp]:
  "ms_buf (fst (increment_psh_recvd_since s m)) = ms_buf s"
  "ms_cell (fst (increment_psh_recvd_since s m)) = ms_cell s"
  "frames_at (snd (increment_psh_recvd_since s m)) = frames_at m"
  by (simp_all add: increment_psh_recvd_since_def Let_def)

lemma poll_fill_buf_cases:
  assumes "has_cell m s"
  shows "case poll_fill_buf s m of
      (s', m', Ready (Ok got)) \<Rightarrow> got = ms_buf s' \<and> ms_cell s' = ms_cell s \<and> unread s' m' = unread s m
        \<and> (got = [] \<longrightarrow> at_eof s m \<or> empty_push_next s m)
    | (s', m', Ready _) \<Rightarrow> False
    | (s', m', Pending) \<Rightarrow> s' = s \<and> m' = m \<and> unread s m = [] \<and> ch_queue (frames_at m (ms_cell s)) = []
        \<and> ch_tx_alive (frames_at m (ms_cell s)) \<and> ch_rx_open (frames_at m (ms_cell s))"
proof (cases "ms_buf s")
  case Nil
  obtain c r where pr: "poll_recv (frames_at m (ms_cell s)) = (c, r)" by fastforce
  have a: "ms_cell s < length (cells m)" using assms by (simp add: has_cell_def)
  consider (pend) "r = Pending" | (eof) "r = Ready None" | (item) x where "r = Ready (Some x)"
    by (metis not_None_eq poll.exhaust)
  then show ?thesis
  proof cases
    case pend
    with pr mpsc.recv_PendingD show ?thesis by (fastforce simp: poll_fill_buf_def Nil unread_def)
  next
    case eof
    with pr mpsc.recv_NoneD [of "frames_at m (ms_cell s)" c] a show ?thesis
      by (auto simp: poll_fill_buf_def Nil unread_def at_eof_def frames_at_upd_frames chan_close_def)
  next
    case item
    with pr mpsc.recv_SomeD [of "frames_at m (ms_cell s)" c x] a show ?thesis
      by (auto simp: poll_fill_buf_def Nil unread_def at_eof_def empty_push_next_def frames_at_upd_frames
        Let_def case_prod_beta)
  qed
qed (simp add: poll_fill_buf_def unread_def)

lemma poll_read_exact:
  assumes "has_cell m s"
  shows "case poll_read n s m of
      (s', m', Ready (Ok out)) \<Rightarrow> unread s m = out @ unread s' m' \<and> length out \<le> n
        \<and> (out = [] \<and> 0 < n \<longrightarrow> at_eof s m \<or> empty_push_next s m)
    | (s', m', Ready _) \<Rightarrow> False
    | (s', m', Pending) \<Rightarrow> s' = s \<and> m' = m \<and> unread s m = []
        \<and> ch_tx_alive (frames_at m (ms_cell s)) \<and> ch_rx_open (frames_at m (ms_cell s))"
proof -
  obtain s' m' r where fb: "poll_fill_buf s m = (s', m', r)" by (metis prod_cases3)
  have "r \<noteq> Ready Panic \<and> (\<forall>e. r \<noteq> Ready (Err e))"
    using poll_fill_buf_cases [OF assms] fb by auto
  then consider (pend) "r = Pending" | (ok) got where "r = Ready (Ok got)"
    by (metis outcome.exhaust poll.exhaust)
  then show ?thesis
  proof cases
    case pend
    with fb poll_fill_buf_cases [OF assms] show ?thesis by (simp add: poll_read_def)
  next
    case ok
    let ?k = "min (length got) n"
    from ok fb poll_fill_buf_cases [OF assms] have got: "got = ms_buf s'" and u: "unread s' m' = unread s m"
      and e: "got = [] \<longrightarrow> at_eof s m \<or> empty_push_next s m" by simp_all
    have "unread s m = take ?k got @ unread (s'\<lparr>ms_buf := drop ?k got\<rparr>) m'"
      unfolding u [symmetric] got by (simp add: unread_def flip: append_assoc)
    moreover have "take ?k got = [] \<and> 0 < n \<longrightarrow> got = []" by (cases got) (auto simp: min_def split: if_splits)
    moreover have "poll_read n s m = (s'\<lparr>ms_buf := drop ?k got\<rparr>, m', Ready (Ok (take ?k got)))"
      by (simp add: poll_read_def fb ok consume_def Let_def got)
    ultimately show ?thesis using e by auto
  qed
qed


text \<open>A stream with one frame of three octets queued, for the examples.\<close>

definition conn_frame :: frame where
  "conn_frame = new_connect [104] 80 7 9"

definition mux1 :: mux where
  "mux1 = fst (process_frame conn_frame False mux0)"

definition mux2 :: mux where
  "mux2 = fst (process_frame (new_push 7 [1, 2, 3]) False mux1)"

definition stream7 :: mux_stream where
  "stream7 = \<lparr>ms_flow_id = 7, ms_dest_host = [104], ms_dest_port = 80, ms_cell = 0,
     ms_psh_recvd_since = 0, ms_buf = [], ms_rwnd_threshold = 9\<rparr>"

lemma mux1_wf: "mux_wf mux1" and mux2_wf: "mux_wf mux2"
  using mux0_wf by (simp_all add: mux1_def mux2_def mux_wf_process_frame)


section \<open>Writing and shutting down\<close>

lemma permission_cases:
  "poll_obtain_write_permission w s m =
     (if c_finish_sent (cell m (ms_cell s)) then (m, Ready (Err BrokenPipe))
      else if c_psh_send_remaining (cell m (ms_cell s)) = 0 then (register_waker (ms_cell s) w m, Pending)
      else (upd_cell (ms_cell s) (\<lambda>c. c\<lparr>c_psh_send_remaining := c_psh_send_remaining c - 1\<rparr>) m, Ready (Ok ())))"
  by (simp add: poll_obtain_write_permission_def Let_def upd_cell_def cell_def)

text \<open>
  A write is refused with \<open>BrokenPipe\<close>, sending nothing and spending no credit, exactly when the
  stream is shut down or closed; it waits with its waker registered exactly when it has no
  credit left; otherwise it spends one credit and queues one \<open>Push\<close> frame.
\<close>

lemma poll_write_cases:
  "poll_write w data s m =
    (let c = cell m (ms_cell s) in
     if c_finish_sent c then (m, Ready (Err BrokenPipe))
     else if c_psh_send_remaining c = 0 then (register_waker (ms_cell s) w m, Pending)
     else (queue_frame (new_push (ms_flow_id s) data)
             (upd_cell (ms_cell s) (\<lambda>c. c\<lparr>c_psh_send_remaining := c_psh_send_remaining c - 1\<rparr>) m),
           Ready (if ch_rx_open (tx_frame m) then Ok (length data) else Err BrokenPipe)))"
  by (simp add: poll_write_def permission_cases tx_send_fin_eq Let_def split: bool.split)

lemma cell_finish:
  "has_cell m s \<Longrightarrow> cell (upd_cell (ms_cell s) (\<lambda>c. c\<lparr>c_finish_sent := True\<rparr>) m) (ms_cell s) =
     (cell m (ms_cell s))\<lparr>c_finish_sent := True\<rparr>"
  by (simp add: has_cell_def cell_upd_cell)

text \<open>
  Shutting down: the first shutdown queues exactly one \<open>Finish\<close>; every later one succeeds and
  queues nothing; and from then on every write fails with \<open>BrokenPipe\<close> and queues nothing, so
  no \<open>Push\<close> ever follows the \<open>Finish\<close>.
\<close>

theorem stream_shutdown_once:
  assumes "has_cell m s"
  shows "let (m1, r1) = poll_shutdown s m; (m2, r2) = poll_shutdown s m1; (m3, r3) = poll_write w data s m1 in
    (if c_finish_sent (cell m (ms_cell s))
     then r1 = Ready (Ok ()) \<and> tx_frame m1 = tx_frame m
     else tx_frame m1 = tx_frame (queue_frame (new_finish (ms_flow_id s)) m)
       \<and> r1 = Ready (if ch_rx_open (tx_frame m) then Ok () else Err BrokenPipe))
    \<and> r2 = Ready (Ok ()) \<and> tx_frame m2 = tx_frame m1
    \<and> r3 = Ready (Err BrokenPipe) \<and> m3 = m1"
proof -
  obtain m1 r1 where p1: "poll_shutdown s m = (m1, r1)" by fastforce
  have 1: "has_cell m1 s" "c_finish_sent (cell m1 (ms_cell s))"
    "if c_finish_sent (cell m (ms_cell s)) then r1 = Ready (Ok ()) \<and> tx_frame m1 = tx_frame m
     else tx_frame m1 = tx_frame (queue_frame (new_finish (ms_flow_id s)) m)
       \<and> r1 = Ready (if ch_rx_open (tx_frame m) then Ok () else Err BrokenPipe)"
    using p1 assms cell_finish [OF assms]
    by (auto simp: poll_shutdown_def shutdown_inner_def Let_def tx_send_fin_eq has_cell_def split: if_splits bool.splits)
  have "snd (poll_shutdown s m1) = Ready (Ok ())" "tx_frame (fst (poll_shutdown s m1)) = tx_frame m1"
    using 1(2) by (simp_all add: poll_shutdown_def shutdown_inner_def Let_def)
  moreover have "poll_write w data s m1 = (m1, Ready (Err BrokenPipe))"
    using 1(2) by (simp add: poll_write_def permission_cases)
  ultimately show ?thesis using 1 p1 by (simp add: case_prod_beta Let_def)
qed

theorem stream_shutdown_once_witness:
  "poll_write 0 [5, 6] stream7 (fst (poll_shutdown stream7 mux1)) =
    (fst (poll_shutdown stream7 mux1), Ready (Err BrokenPipe))"
proof -
  have "has_cell mux1 stream7" by code_simp
  from stream_shutdown_once [OF this, of 0 "[5, 6]"] show ?thesis by (simp add: case_prod_beta Let_def prod_eq_iff)
qed

section \<open>The handshake between two ends\<close>

lemma decode_fin: "wire_ok f \<Longrightarrow> frame_try_from (finalized_bytes (fin f)) = Ok (own_frame f)"
  using frame_codec.decode_encode_ok by (simp add: frame_try_from_finalized_def)

lemma own_frame_new [simp]:
  "own_frame (new_connect h p i n) = \<lparr>frame_id = i, frame_payload =
     Connect \<lparr>cp_rwnd = n, cp_target_port = p, cp_target_host = Owned h\<rparr>\<rparr>"
  "own_frame (new_acknowledge i n) = \<lparr>frame_id = i, frame_payload = Acknowledge n\<rparr>"
  "own_frame (new_push i d) = \<lparr>frame_id = i, frame_payload = Push (Owned d)\<rparr>"
  "own_frame (new_reset i) = \<lparr>frame_id = i, frame_payload = Reset\<rparr>"
  "own_frame (new_finish i) = \<lparr>frame_id = i, frame_payload = Finish\<rparr>"
  "own_frame (new_datagram_owned i h p d) = \<lparr>frame_id = i, frame_payload =
     Datagram \<lparr>dp_target_port = p, dp_target_host = Owned h, dp_data = Owned d\<rparr>\<rparr>"
  by (simp_all add: own_frame_def own_payload_def frame_constructor_defs)

definition deliver :: "frame \<Rightarrow> mux \<Rightarrow> mux \<times> (mux_error, bool) outcome poll" where
  "deliver f m = process_message (Binary (finalized_bytes (fin f))) False m"

lemma deliver_eq:
  "wire_ok f \<Longrightarrow> process_frame (own_frame f) False m = (m', Ready (Ok ())) \<Longrightarrow> deliver f m = (m', Ready (Ok False))"
  by (simp add: deliver_def process_message_def decode_fin)

lemma deliver_connect:
  assumes "mux_rwnd b \<noteq> 0" and "slot_of b i = None" and "ch_rx_open (tx_frame b)"
    and "ch_rx_open (con_recv b)" and "\<not> ch_full (con_recv b)"
  shows "deliver (new_connect h p i n) b =
    ((queue_frame (new_acknowledge i (mux_rwnd b)) (add_flow i n b))
       \<lparr>con_recv := ch_push (new_stream_of i n h p b) (con_recv b)\<rparr>, Ready (Ok False))"
  using assms
  by (intro deliver_eq) (simp_all add: process_frame_def con_recv_new_stream_eq send_stream_to_user_def poll_send_def)

lemma deliver_ack_Requested:
  assumes "mux_rwnd a \<noteq> 0" and "slot_of a i = Some (Requested k)" and "os_rx_alive (stream_os a ! k)"
  shows "deliver (new_acknowledge i n) a =
    ((add_flow i n a)\<lparr>stream_os := (stream_os a)[k := fst (oneshot_send (Some (new_stream_of i n [] 0 a)) (stream_os a ! k))]\<rparr>,
     Ready (Ok False))"
  using assms
  by (intro deliver_eq) (simp_all add: process_frame_def recv_ack_def ack_recv_new_stream_Requested Let_def)

lemma new_stream_attempt_eq:
  assumes "next_available_key ds (flows m) = Some (i, ds')" and "ch_rx_open (tx_frame m)"
  shows "new_stream_attempt h p ds m =
    Some (queue_frame (new_connect h p i (mux_rwnd m)) (flow_insert i (Requested (length (stream_os m)))
       (m\<lparr>stream_os := stream_os m @ [oneshot_new]\<rparr>)), ds', Ok (length (stream_os m)))"
  using assms by (simp add: new_stream_attempt_def tx_send_fin_eq Let_def)

lemma cell_add_flow: "cell (add_flow i n m) (length (cells m)) =
    \<lparr>c_finish_sent = False, c_psh_send_remaining = n, c_writer_waker = None,
     c_frames = \<lparr>ch_queue = [], ch_cap = Some (unat (mux_rwnd m)), ch_rx_open = True, ch_tx_alive = True\<rparr>\<rparr>"
  by (simp add: cell_def add_flow_def)

text \<open>What both ends hold after the handshake: an open, empty stream with the other end's window as credit.\<close>

definition fresh_end :: "mux \<Rightarrow> mux_stream \<Rightarrow> u32 \<Rightarrow> u32 \<Rightarrow> u32 \<Rightarrow> bool" where
  "fresh_end m s i credit window \<longleftrightarrow> ms_flow_id s = i \<and> has_cell m s \<and> unread s m = []
     \<and> slot_of m i = Some (Established \<lparr>es_sender = Some (ms_cell s), es_cell = ms_cell s\<rparr>)
     \<and> \<not> c_finish_sent (cell m (ms_cell s)) \<and> c_psh_send_remaining (cell m (ms_cell s)) = credit
     \<and> ch_cap (frames_at m (ms_cell s)) = Some (unat window)
     \<and> ch_rx_open (frames_at m (ms_cell s)) \<and> ch_tx_alive (frames_at m (ms_cell s))"

lemma fresh_end_add_flow:
  "fresh_end (add_flow i n m) (new_stream_of i n h p m) i n (mux_rwnd m)"
  by (simp add: fresh_end_def new_stream_of_def has_cell_def unread_def cell_add_flow flip: c_frames_cell)

lemma fresh_end_same [simp]:
  "fresh_end (queue_frame q m) = fresh_end m" "fresh_end (m\<lparr>con_recv := c\<rparr>) = fresh_end m"
  "fresh_end (m\<lparr>stream_os := so\<rparr>) = fresh_end m"
  by (simp_all add: fresh_end_def unread_def fun_eq_iff)

text \<open>
  Opening a stream: an attempt draws an unused identifier and queues a \<open>Connect\<close>; delivered to an
  end where that identifier is unused and whose accept queue has room, it creates a stream for
  the requested host and port there and is answered with an \<open>Acknowledge\<close>; delivered back, that
  completes the request. Both ends then hold an open, empty stream, each with the other's
  window as its credit.
\<close>

theorem stream_handshake:
  assumes "mux_wf a" and "mux_wf b" and "next_available_key ds (flows a) = Some (i, ds')"
    and "slot_of b i = None" and "ch_rx_open (tx_frame a)" and "ch_rx_open (tx_frame b)"
    and "ch_rx_open (con_recv b)" and "\<not> ch_full (con_recv b)"
  shows "\<exists>a1 k b1 a2 a3 sa sb. new_stream_attempt h p ds a = Some (a1, ds', Ok k)
    \<and> replies a a1 [fin (new_connect h p i (mux_rwnd a))]
    \<and> deliver (new_connect h p i (mux_rwnd a)) b = (b1, Ready (Ok False))
    \<and> replies b b1 [fin (new_acknowledge i (mux_rwnd b))]
    \<and> ch_queue (con_recv b1) = ch_queue (con_recv b) @ [sb] \<and> ms_dest_host sb = h \<and> ms_dest_port sb = p
    \<and> deliver (new_acknowledge i (mux_rwnd b)) a1 = (a2, Ready (Ok False))
    \<and> poll_wait r k a2 = (a3, NsDone, Ready (Ok sa))
    \<and> fresh_end a3 sa i (mux_rwnd b) (mux_rwnd a) \<and> fresh_end b1 sb i (mux_rwnd a) (mux_rwnd b)"
proof -
  let ?k = "length (stream_os a)"
  let ?a1 = "queue_frame (new_connect h p i (mux_rwnd a)) (flow_insert i (Requested ?k)
       (a\<lparr>stream_os := stream_os a @ [oneshot_new]\<rparr>))"
  let ?sa = "new_stream_of i (mux_rwnd b) [] 0 ?a1"
  let ?x = "fst (oneshot_send (Some ?sa) oneshot_new)"
  let ?a2 = "(add_flow i (mux_rwnd b) ?a1)\<lparr>stream_os := (stream_os ?a1)[?k := ?x]\<rparr>"
  let ?b1 = "(queue_frame (new_acknowledge i (mux_rwnd b)) (add_flow i (mux_rwnd a) b))
       \<lparr>con_recv := ch_push (new_stream_of i (mux_rwnd a) h p b) (con_recv b)\<rparr>"
  have w: "mux_rwnd a \<noteq> 0" "mux_rwnd b \<noteq> 0" using assms(1,2) by (simp_all add: mux_wf_rwnd)
  have "deliver (new_acknowledge i (mux_rwnd b)) ?a1 = (?a2, Ready (Ok False))"
    using w by (subst deliver_ack_Requested [where k = ?k]) (simp_all add: oneshot_new_def)
  moreover have "deliver (new_connect h p i (mux_rwnd a)) b = (?b1, Ready (Ok False))"
    using deliver_connect w assms by blast
  moreover have "poll_wait r ?k ?a2 = (?a2\<lparr>stream_os := (stream_os ?a2)[?k := ?x\<lparr>os_value := None\<rparr>]\<rparr>,
      NsDone, Ready (Ok ?sa))"
    by (simp add: poll_wait_def oneshot_poll_def oneshot_send_def oneshot_new_def Let_def)
  moreover have "fresh_end ?a2 ?sa i (mux_rwnd b) (mux_rwnd a)"
    using fresh_end_add_flow [of i "mux_rwnd b" ?a1 "[]" 0] by simp
  moreover have "fresh_end ?b1 (new_stream_of i (mux_rwnd a) h p b) i (mux_rwnd a) (mux_rwnd b)"
    using fresh_end_add_flow [of i "mux_rwnd a" b h p] by simp
  ultimately show ?thesis
    using new_stream_attempt_eq [OF assms(3,5), of h p] assms(5,6)
    by (intro exI [of _ ?a1] exI [of _ ?k] exI [of _ ?b1] exI [of _ ?a2]
        exI [of _ "?a2\<lparr>stream_os := (stream_os ?a2)[?k := ?x\<lparr>os_value := None\<rparr>]\<rparr>"]
        exI [of _ ?sa] exI [of _ "new_stream_of i (mux_rwnd a) h p b"])
      (simp add: replies_def ch_push_def new_stream_of_def)
qed

theorem stream_handshake_witness:
  "\<exists>a1 k b1 a2 a3 sa sb. new_stream_attempt [104] 80 [7, 8] mux0 = Some (a1, [8], Ok k)
    \<and> replies mux0 a1 [fin (new_connect [104] 80 7 512)]
    \<and> deliver (new_connect [104] 80 7 512) mux0 = (b1, Ready (Ok False))
    \<and> replies mux0 b1 [fin (new_acknowledge 7 512)]
    \<and> ch_queue (con_recv b1) = [sb] \<and> ms_dest_host sb = [104] \<and> ms_dest_port sb = 80
    \<and> deliver (new_acknowledge 7 512) a1 = (a2, Ready (Ok False))
    \<and> poll_wait 2 k a2 = (a3, NsDone, Ready (Ok sa))
    \<and> fresh_end a3 sa 7 512 512 \<and> fresh_end b1 sb 7 512 512"
  using stream_handshake [of mux0 mux0 "[7, 8]" 7 "[8]" "[104]" 80 2] mux0_wf
  by (simp add: mux0_def mpsc_unbounded_def slot_of_def ch_full_def)

section \<open>Datagrams\<close>

lemma finalize_datagram:
  "length h \<le> 255 \<Longrightarrow> finalize (new_datagram_owned i h p d) = Some (fin (new_datagram_owned i h p d))"
  by (rule finalize_fin) (simp add: new_datagram_owned_def host_fits_def)

lemma decode_datagram:
  "length h \<le> 255 \<Longrightarrow> frame_try_from (finalized_bytes (fin (new_datagram_owned i h p d))) =
     (if 4 \<le> length d then Ok (own_frame (new_datagram_owned i h p d)) else Err FrameTooShort)"
  using decode_encode [of "new_datagram_owned i h p d"]
  by (simp add: frame_to_vec_fin host_fits_def data_fits_def new_datagram_owned_def split: if_splits)

lemma send_datagram_open:
  "length (dg_target_host dg) \<le> 255 \<Longrightarrow>
    send_datagram dg a =
      (queue_frame (new_datagram_owned (dg_flow_id dg) (dg_target_host dg) (dg_target_port dg) (dg_data dg)) a,
       if ch_rx_open (tx_frame a) then Ok () else Err MuxClosed)"
  by (simp add: send_datagram_def finalize_datagram tx_send_fin_eq split: bool.split)

lemma process_datagram:
  assumes "length (dg_target_host dg) \<le> 255" and "4 \<le> length (dg_data dg)"
  shows "process_message (Binary (finalized_bytes (fin (new_datagram_owned (dg_flow_id dg) (dg_target_host dg)
      (dg_target_port dg) (dg_data dg))))) ib b =
    (if \<not> ch_rx_open (datagram_ch b) then (b, Ready (Err MuxClosed))
     else if ch_full (datagram_ch b) then (b, Ready (Ok False))
     else (b\<lparr>datagram_ch := ch_push dg (datagram_ch b)\<rparr>, Ready (Ok False)))"
proof -
  have dg: "\<lparr>dg_flow_id = dg_flow_id dg, dg_target_host = dg_target_host dg,
      dg_target_port = dg_target_port dg, dg_data = dg_data dg\<rparr> = dg" by simp
  show ?thesis using assms
    by (simp add: process_message_def decode_datagram process_frame_def recv_datagram_def try_send_def dg)
qed

text \<open>
  C27: Datagrams: sending is refused exactly when the host is longer than 255 octets or the task has
  stopped; otherwise one frame is queued, and the other end, receiving it, hands the same
  datagram to its user, or drops it when the user's queue is full, and goes on. But when the
  payload has fewer than four octets the other end rejects the frame, and its receive loop
  ends with that error: the whole connection goes down.
\<close>

theorem datagram_delivery:
  "case send_datagram dg a of
     (a', Ok _) \<Rightarrow> length (dg_target_host dg) \<le> 255 \<and> ch_rx_open (tx_frame a)
       \<and> (\<exists>ff. replies a a' [ff] \<and>
          (if 4 \<le> length (dg_data dg)
           then process_message (Binary (finalized_bytes ff)) ib b =
             (if \<not> ch_rx_open (datagram_ch b) then (b, Ready (Err MuxClosed))
              else if ch_full (datagram_ch b) then (b, Ready (Ok False))
              else (b\<lparr>datagram_ch := ch_push dg (datagram_ch b)\<rparr>, Ready (Ok False)))
           else process_ws_next (Inr (Binary (finalized_bytes ff)) # inb) b =
             (b, Ready (Err (InvalidFrame FrameTooShort)), inb)))
   | (a', Err e) \<Rightarrow> a' = a \<and> (if 255 < length (dg_target_host dg) then e = DatagramHostTooLong
        else e = MuxClosed \<and> \<not> ch_rx_open (tx_frame a))
   | (a', Panic) \<Rightarrow> False"
proof (cases "255 < length (dg_target_host dg)")
  case False
  then have len: "length (dg_target_host dg) \<le> 255" by simp
  let ?f = "new_datagram_owned (dg_flow_id dg) (dg_target_host dg) (dg_target_port dg) (dg_data dg)"
  have "process_ws_next (Inr (Binary (finalized_bytes (fin ?f))) # inb) b =
      (b, Ready (Err (InvalidFrame FrameTooShort)), inb)" if "\<not> 4 \<le> length (dg_data dg)"
    using that len by (simp add: process_message_def decode_datagram)
  moreover have "queue_frame ?f a = a" if "\<not> ch_rx_open (tx_frame a)"
    using that by (simp add: queue_frame_def tx_send_eq)
  ultimately show ?thesis
    using len by (cases "ch_rx_open (tx_frame a)"; cases "4 \<le> length (dg_data dg)")
      (auto simp: replies_def send_datagram_open process_datagram intro!: exI [of _ "fin ?f"])
qed (simp add: send_datagram_def)

end
