(* ===== verification/Mux_Shutdown.thy ===== *)
theory Mux_Shutdown
  imports Mux_Lifecycle
begin

text \<open>
  The end of a connection: \<open>close_port\<close> and \<open>wind_down\<close>. The lemmas follow the final drain of the flow
  map one flow at a time; the properties say what readers, writers and requesters see.
\<close>

section \<open>Closing one flow\<close>

lemma finish_mono:
  "c_finish_sent (cell m b) \<Longrightarrow> c_finish_sent (cell (upd_cell a (\<lambda>c. c\<lparr>c_finish_sent := True\<rparr>) m) b)"
  by (cases "b = a"; cases "a < length (cells m)") (auto simp: cell_upd_cell, auto simp: upd_cell_def cell_def list_update_beyond)

lemma finish_wake [simp]: "c_finish_sent (cell (wake a m) b) = c_finish_sent (cell m b)"
  by (cases "a < length (cells m)")
    (auto simp: wake_def cell_upd_cell cell_def upd_cell_def list_update_beyond nth_list_update split: option.split)

lemma finish_upd_frames [simp]: "c_finish_sent (cell (upd_frames a g m) b) = c_finish_sent (cell m b)"
  by (cases "a < length (cells m)")
    (auto simp: upd_frames_def cell_upd_cell upd_cell_def cell_def list_update_beyond nth_list_update)

lemma finish_drop_sender [simp]: "c_finish_sent (cell (drop_sender t m) b) = c_finish_sent (cell m b)"
  by (simp add: drop_sender_def split: option.split)

lemma finish_close_write:
  "c_finish_sent (cell m b) \<Longrightarrow> c_finish_sent (cell (close_write d i inhibit m) b)"
  "es_cell d < length (cells m) \<Longrightarrow> c_finish_sent (cell (close_write d i inhibit m) (es_cell d))"
  by (simp_all add: close_write_def Let_def finish_mono) (simp_all add: cell_upd_cell)

lemma frames_close_write [simp]: "frames_at (close_write d i inhibit m) = frames_at m"
  by (simp add: close_write_def Let_def fun_eq_iff)

lemma frames_drop_sender:
  "ch_queue (frames_at (drop_sender t m) b) = ch_queue (frames_at m b)"
  "ch_rx_open (frames_at (drop_sender t m) b) = ch_rx_open (frames_at m b)"
proof -
  have "ch_queue (frames_at (upd_frames a drop_tx m) b) = ch_queue (frames_at m b)
    \<and> ch_rx_open (frames_at (upd_frames a drop_tx m) b) = ch_rx_open (frames_at m b)" for a
    by (cases "a < length (cells m)") (auto simp: frames_at_upd_frames drop_tx_def upd_frames_beyond)
  then show "ch_queue (frames_at (drop_sender t m) b) = ch_queue (frames_at m b)"
    "ch_rx_open (frames_at (drop_sender t m) b) = ch_rx_open (frames_at m b)"
    by (simp_all add: drop_sender_def split: option.split)
qed

text \<open>
  What closing a set of flows without a \<open>Reset\<close> leaves unchanged, and what it does to the flows in it.
\<close>

definition only_closes :: "mux \<Rightarrow> mux \<Rightarrow> bool" where
  "only_closes m m' \<longleftrightarrow> tx_frame m' = tx_frame m \<and> length (cells m') = length (cells m)
     \<and> (\<forall>b. ch_queue (frames_at m' b) = ch_queue (frames_at m b) \<and> ch_rx_open (frames_at m' b) = ch_rx_open (frames_at m b)
          \<and> (c_finish_sent (cell m b) \<longrightarrow> c_finish_sent (cell m' b)))
     \<and> (\<forall>a. \<not> os_fresh (stream_os m) a \<longrightarrow> stream_os m' ! a = stream_os m ! a)
     \<and> (\<forall>a. \<not> os_fresh (bind_os m) a \<longrightarrow> bind_os m' ! a = bind_os m ! a)
     \<and> (\<forall>a. os_fresh (stream_os m') a \<longrightarrow> os_fresh (stream_os m) a)
     \<and> (\<forall>a. os_fresh (bind_os m') a \<longrightarrow> os_fresh (bind_os m) a)"

definition closed_in :: "mux \<Rightarrow> mux \<Rightarrow> flow_slot \<Rightarrow> bool" where
  "closed_in m m' s = (case s of
       Established d \<Rightarrow> c_finish_sent (cell m' (es_cell d))
     | Requested a \<Rightarrow> stream_os m' ! a = fst (oneshot_send None (stream_os m ! a))
     | BindRequested a \<Rightarrow> bind_os m' ! a = fst (oneshot_send False (bind_os m ! a)))"

lemma not_fresh_after_send: "\<not> os_fresh (xs[a := fst (oneshot_send v (xs ! a))]) a"
  by (cases "a < length xs") (auto simp: os_fresh_def oneshot_send_def)

lemma close_port_closes:
  assumes "mux_wf m" and "slot_of m i = Some s"
  shows "only_closes m (close_port i True m) \<and> closed_in m (close_port i True m) s"
proof (cases s)
  case (Established d)
  with assms have c: "es_cell d < length (cells m)" by (auto simp: mux_wf_def dest: wf_flows_cell)
  have "close_port i True m = drop_sender (es_sender d) (flow_remove i (close_write d i True m))"
    using assms(2) Established by (simp add: close_port_def close_port_local_simps close_write_remove)
  then show ?thesis
    using c Established
    by (simp add: only_closes_def closed_in_def frames_drop_sender finish_close_write)
      (simp add: close_write_def Let_def)
next
  case (Requested a)
  with assms have f: "os_fresh (stream_os m) a" by (auto intro: mux_wf_fresh)
  have "os_fresh (stream_os m) b" if "os_fresh ((stream_os m)[a := fst (oneshot_send None (stream_os m ! a))]) b" for b
    using that f by (cases "b = a") auto
  moreover have "(stream_os m)[a := x] ! b = stream_os m ! b" if "\<not> os_fresh (stream_os m) b" for b x
    using that f by (cases "b = a") auto
  moreover have "a < length (stream_os m)" using f by (simp add: os_fresh_def)
  ultimately show ?thesis
    using assms(2) Requested by (simp add: close_port_def close_port_local_simps only_closes_def closed_in_def)
next
  case (BindRequested a)
  with assms have f: "os_fresh (bind_os m) a" by (auto intro: mux_wf_fresh)
  have "os_fresh (bind_os m) b" if "os_fresh ((bind_os m)[a := fst (oneshot_send False (bind_os m ! a))]) b" for b
    using that f by (cases "b = a") auto
  moreover have "(bind_os m)[a := x] ! b = bind_os m ! b" if "\<not> os_fresh (bind_os m) b" for b x
    using that f by (cases "b = a") auto
  moreover have "a < length (bind_os m)" using f by (simp add: os_fresh_def)
  ultimately show ?thesis
    using assms(2) BindRequested by (simp add: close_port_def close_port_local_simps only_closes_def closed_in_def)
qed

lemma close_port_slots: "slot_of (close_port i inhibit m) j = (if j = i then None else slot_of m j)"
proof (cases "slot_of m i")
  case (Some s)
  then show ?thesis
    by (cases s) (simp_all add: close_port_def close_port_local_simps)
qed (simp add: close_port_def)

section \<open>The final drain\<close>

lemma only_closes_trans:
  assumes "only_closes m m1" and "only_closes m1 m2"
  shows "only_closes m m2"
  using assms unfolding only_closes_def by auto

lemma closed_in_later:
  assumes "mux_wf m" and "slot_of m i = Some s" and "closed_in m m1 s" and "only_closes m m1" and "only_closes m1 m2"
  shows "closed_in m m2 s"
proof (cases s)
  case (Established d)
  with assms(3,5) show ?thesis by (simp add: closed_in_def only_closes_def)
next
  case (Requested a)
  with assms(3) have v: "stream_os m1 ! a = fst (oneshot_send None (stream_os m ! a))" by (simp add: closed_in_def)
  then have "\<not> os_fresh (stream_os m1) a" by (auto simp: os_fresh_def oneshot_send_def)
  with assms(5) v Requested show ?thesis by (simp add: closed_in_def only_closes_def)
next
  case (BindRequested a)
  with assms(3) have v: "bind_os m1 ! a = fst (oneshot_send False (bind_os m ! a))" by (simp add: closed_in_def)
  then have "\<not> os_fresh (bind_os m1) a" by (auto simp: os_fresh_def oneshot_send_def)
  with assms(5) v BindRequested show ?thesis by (simp add: closed_in_def only_closes_def)
qed

lemma closed_in_view:
  "closed_in m1 m2 s \<Longrightarrow> flow_view m1 j = flow_view m j \<Longrightarrow> slot_of m1 j = Some s \<Longrightarrow> slot_of m j = Some s
   \<Longrightarrow> closed_in m m2 s"
  by (cases s) (auto simp: closed_in_def flow_view_def)

lemma wind_down_eof_Cons:
  assumes "flows m = (i, s) # es" and "distinct (map fst (flows m))"
  shows "wind_down_eof m = wind_down_eof (close_port i True m) \<and> flows (close_port i True m) = es"
proof -
  have cp: "close_port i True m = close_port_local s i True (m\<lparr>flows := es\<rparr>)"
    using close_port_Cons [OF assms] .
  moreover from cp have "flows (close_port i True m) = es" by simp
  ultimately show ?thesis
    using assms(1) by (simp add: wind_down_eof_def fold_close_flows)
      (simp add: close_port_local_flows fold_close_flows)
qed

lemma wind_down_eof_closes:
  "mux_wf m \<Longrightarrow> flows (wind_down_eof m) = [] \<and> only_closes m (wind_down_eof m)
   \<and> (\<forall>i s. slot_of m i = Some s \<longrightarrow> closed_in m (wind_down_eof m) s)"
proof (induction "flows m" arbitrary: m)
  case Nil
  have "m\<lparr>flows := []\<rparr> = m" using Nil.hyps by (metis mux.surjective mux.update_convs(1))
  then have "wind_down_eof m = m" using Nil.hyps [symmetric] by (simp add: wind_down_eof_def)
  moreover have "slot_of m i = None" for i using Nil.hyps [symmetric] by (simp add: slot_of_def)
  ultimately show ?case using Nil.hyps by (simp add: only_closes_def)
next
  case (Cons e es)
  obtain i s where e: "e = (i, s)" by fastforce
  let ?m = "close_port i True m"
  have d: "distinct (map fst (flows m))" using Cons.prems by (simp add: mux_wf_def wf_flows_def)
  have si: "slot_of m i = Some s" using Cons.hyps(2) [symmetric] by (simp add: slot_of_def e)
  have eq: "wind_down_eof m = wind_down_eof ?m" "flows ?m = es"
    using wind_down_eof_Cons [OF _ d, of i s es] Cons.hyps(2) e by simp_all
  note cp = close_port_closes [OF Cons.prems si]
  have IH: "flows (wind_down_eof ?m) = []" "only_closes ?m (wind_down_eof ?m)"
    "\<And>j t. slot_of ?m j = Some t \<Longrightarrow> closed_in ?m (wind_down_eof ?m) t"
    using Cons.hyps(1) [of ?m] eq(2) mux_wf_close_port [OF Cons.prems] by auto
  have "closed_in m (wind_down_eof m) t" if t: "slot_of m j = Some t" for j t
  proof (cases "j = i")
    case True
    with t si closed_in_later [OF Cons.prems si _ _ IH(2)] cp eq(1) show ?thesis by simp
  next
    case False
    with t have "slot_of ?m j = Some t" by (simp add: close_port_slots)
    with IH(3) closed_in_view flow_view_close_port [OF Cons.prems False] t eq(1) show ?thesis by metis
  qed
  with IH eq(1) cp only_closes_trans show ?case by metis
qed

lemma eof_no_sender:
  assumes "mux_wf m" and "flows m = []" and "a < length (cells m)"
  shows "\<not> ch_tx_alive (frames_at m a)"
  using assms by (simp add: mux_wf_def wf_cells_def has_sender_def slot_of_def)

text \<open>
  C18: The end of file reaches everyone: the last step of winding down empties the flow map without
  sending anything; every stream keeps the data already queued for its reader and then reads
  end of file; every open stream's writer is told the stream is closed; every pending
  \<open>Connect\<close> is answered with a rejection and every pending \<open>Bind\<close> with \<open>false\<close>.
\<close>

theorem wind_down_eof_everyone:
  assumes "mux_wf m"
  shows "let m' = wind_down_eof m in
    flows m' = [] \<and> tx_frame m' = tx_frame m
    \<and> (\<forall>a<length (cells m). \<not> ch_tx_alive (frames_at m' a) \<and> ch_queue (frames_at m' a) = ch_queue (frames_at m a))
    \<and> (\<forall>i s. slot_of m i = Some s \<longrightarrow> closed_in m m' s)"
  using wind_down_eof_closes [OF assms] eof_no_sender [OF mux_wf_eof [OF assms]]
  by (auto simp: only_closes_def Let_def)

theorem wind_down_eof_everyone_witness:
  "flows (wind_down_eof mux2) = [] \<and> \<not> ch_tx_alive (frames_at (wind_down_eof mux2) 0)
    \<and> ch_queue (frames_at (wind_down_eof mux2) 0) = [[1, 2, 3]]"
proof -
  have "length (cells mux2) = 1" "ch_queue (frames_at mux2 0) = [[1, 2, 3]]" by code_simp+
  with wind_down_eof_everyone [OF mux2_wf] show ?thesis by (simp add: Let_def)
qed

section \<open>Winding down as a whole\<close>

lemma process_frame_tx_open:
  assumes "mux_rwnd m \<noteq> 0"
  shows "ch_rx_open (tx_frame (fst (process_frame f ignore m))) = ch_rx_open (tx_frame m)"
proof -
  have "ch_rx_open (tx_frame (close_port_local s i inhibit m)) = ch_rx_open (tx_frame m)" for s i inhibit m
    by (cases s) (simp_all add: close_port_local_simps close_write_def Let_def)
  then have cp: "ch_rx_open (tx_frame (close_port i inhibit m)) = ch_rx_open (tx_frame m)" for i inhibit
    by (simp add: close_port_def split: option.split)
  show ?thesis
  proof (cases "frame_payload f")
    case (Connect c)
    with assms show ?thesis by (auto simp: process_frame_def con_recv_new_stream_eq tx_send_stream)
  next
    case (Acknowledge n)
    with assms show ?thesis
      by (auto simp: process_frame_def recv_ack_def acknowledge_def tx_ack_recv split: option.split flow_slot.split)
  next
    case (Push data)
    then show ?thesis by (auto simp: process_frame_def recv_push_eq cp split: option.split flow_slot.split)
  next
    case (Bind p)
    then show ?thesis
      by (auto simp: process_frame_def recv_bind_def send_bind_to_user_def poll_send_def split: option.split)
  next
    case (Datagram p)
    then show ?thesis
      by (auto simp: process_frame_def recv_datagram_def Let_def case_prod_beta split: outcome.split try_send_error.split)
  next
    case Finish
    then show ?thesis
      by (auto simp: process_frame_def recv_finish_def disallow_read_def drop_stream_os_tx_def
        split: option.split flow_slot.split)
  qed (simp add: process_frame_def cp)
qed

lemma process_message_tx_open:
  "mux_rwnd m \<noteq> 0 \<Longrightarrow> ch_rx_open (tx_frame (fst (process_message msg ignore m))) = ch_rx_open (tx_frame m)"
  by (auto simp: fst_process_message process_frame_tx_open split: message.split outcome.split)

lemma wind_down_dispatch_done:
  assumes "wind_down_dispatch inb m = (m', Ready (Ok ()), rest)" and "mux_wf m"
  shows "\<exists>m''. mux_wf m'' \<and> m' = wind_down_eof m'' \<and> ch_rx_open (tx_frame m'') = ch_rx_open (tx_frame m)"
  using assms
proof (induction inb arbitrary: m)
  case (Cons r inb)
  show ?case
  proof (cases r)
    case (Inr msg)
    obtain m1 p where pm: "process_message msg True m = (m1, p)" by fastforce
    have 1: "mux_wf m1" "ch_rx_open (tx_frame m1) = ch_rx_open (tx_frame m)"
      using mux_wf_process_message [OF Cons.prems(2), of msg True] pm
        process_message_tx_open [OF mux_wf_rwnd [OF Cons.prems(2)], of msg True] by simp_all
    have "wind_down_dispatch inb m1 = (m', Ready (Ok ()), rest)"
      using Cons.prems(1) pm Inr by (auto split: poll.splits outcome.splits)
    from Cons.IH [OF this 1(1)] 1(2) show ?thesis by metis
  qed (use Cons.prems in auto)
qed auto

lemma eof_tx: "mux_wf m \<Longrightarrow> tx_frame (wind_down_eof m) = tx_frame m"
  using wind_down_eof_closes by (simp add: only_closes_def)

lemma stop_writers_tx: "tx_frame (wind_down_stop_writers m) = tx_frame m"
proof -
  have "tx_frame (fold stop_writer es m) = tx_frame m" for es m
    by (induction es arbitrary: m) (auto simp: stop_writer_def disallow_write_def Let_def split: flow_slot.split)
  then show ?thesis by (simp add: wind_down_stop_writers_def)
qed

text \<open>
  When winding down completes, the map of flows is empty, no frame can be queued any more (so
  writes fail with \<open>BrokenPipe\<close> and opening a stream with \<open>Closed\<close>), and no data channel has a
  sender left, so every reader gets what was queued and then end of file.
\<close>

theorem wind_down_complete:
  assumes "mux_wf m" and "wind_down rs cl drain inb w m = (w', m', Ready (Ok ()), rest)"
  shows "flows m' = [] \<and> \<not> ch_rx_open (tx_frame m') \<and> mux_wf m'
    \<and> (\<forall>a<length (cells m'). \<not> ch_tx_alive (frames_at m' a))"
proof -
  let ?m1 = "wind_down_stop_writers m"
  let ?m2 = "snd (wind_down_flush rs cl drain w ?m1)"
  have wf: "mux_wf ?m2" by (rule mux_wf_flush [OF mux_wf_stop_writers [OF assms(1)]])
  have closed: "\<not> ch_rx_open (tx_frame ?m2)"
    by (simp add: wind_down_flush_def Let_def case_prod_beta chan_close_def)
  have "wind_down_dispatch inb ?m2 = (m', Ready (Ok ()), rest)"
    using assms(2) by (simp add: wind_down_def Let_def case_prod_beta)
  from wind_down_dispatch_done [OF this wf] obtain m'' where "mux_wf m''" "m' = wind_down_eof m''"
    "ch_rx_open (tx_frame m'') = ch_rx_open (tx_frame ?m2)" by blast
  moreover from this have "flows m' = []" "mux_wf m'" "\<not> ch_rx_open (tx_frame m')"
    using wind_down_eof_closes mux_wf_eof closed by (simp_all add: eof_tx)
  ultimately show ?thesis using eof_no_sender [of m'] by blast
qed

theorem wind_down_complete_witness:
  "flows (fst (snd (wind_down (\<lambda>msg w. (w @ [msg], None)) id True [] [] mux2))) = []"
proof -
  let ?r = "wind_down (\<lambda>msg w. (w @ [msg], None)) id True [] [] mux2"
  have "fst (snd (snd ?r)) = Ready (Ok ())" by (simp add: wind_down_def Let_def case_prod_beta)
  then have "?r = (fst ?r, fst (snd ?r), Ready (Ok ()), snd (snd (snd ?r)))" by (metis prod.collapse)
  from wind_down_complete [OF mux2_wf this] show ?thesis by simp
qed

text \<open>
  Winding down can fail half-way: a \<open>Connect\<close> on an unused identifier among the messages still to
  be dispatched cannot be acknowledged any more, and the error leaves the flow map as it is:
  every other flow is untouched, so its reader gets no end of file and its pending request no
  answer from the task.
\<close>

theorem wind_down_connect_leaks:
  assumes "mux_wf m" and "\<not> ch_rx_open (tx_frame m)" and "slot_of m i = None"
  shows "\<exists>m'. wind_down_dispatch (Inr (Binary (finalized_bytes (fin (new_connect h p i n)))) # inb) m =
      (m', Ready (Err MuxClosed), inb) \<and> (\<forall>j. j \<noteq> i \<longrightarrow> flow_view m' j = flow_view m j)"
proof -
  let ?f = "own_frame (new_connect h p i n)"
  have pf: "snd (process_frame ?f True m) = Ready (Err MuxClosed)"
    using assms mux_wf_rwnd [OF assms(1)] by (simp add: process_frame_def con_recv_new_stream_eq)
  then obtain m' where m': "process_frame ?f True m = (m', Ready (Err MuxClosed))" by (metis prod.collapse)
  moreover have "flow_view m' j = flow_view m j" if "j \<noteq> i" for j
    using m' that flow_view_connect [OF assms(1) that, of h p n] by (simp add: process_frame_def)
  ultimately show ?thesis
    by (intro exI [of _ m']) (simp add: process_message_def decode_fin)
qed

definition mux2_closed :: mux where
  "mux2_closed = snd (wind_down_flush (\<lambda>msg w. (w @ [msg], None)) id False [] mux2)"

theorem wind_down_connect_leaks_witness:
  "\<exists>m'. wind_down_dispatch (Inr (Binary (finalized_bytes (fin (new_connect [104] 80 9 9)))) # []) mux2_closed =
      (m', Ready (Err MuxClosed), []) \<and> (\<forall>j. j \<noteq> 9 \<longrightarrow> flow_view m' j = flow_view mux2_closed j)"
proof (rule wind_down_connect_leaks)
  show "mux_wf mux2_closed" unfolding mux2_closed_def by (rule mux_wf_flush [OF mux2_wf])
  show "\<not> ch_rx_open (tx_frame mux2_closed)" by code_simp
  show "slot_of mux2_closed 9 = None" by code_simp
qed

section \<open>Flow identifiers\<close>

text \<open>
  A new flow identifier is never zero (which is reserved), never the maximum, and never in use: the
  search returns the first draw that is unused, and it does return as soon as one draw is.
\<close>

theorem next_available_key_ok:
  assumes "draws_ok ds"
  shows "case next_available_key ds mp of
      Some (i, rest) \<Rightarrow> i \<noteq> 0 \<and> i \<noteq> KEY_MAX \<and> map_of mp i = None
        \<and> (\<exists>taken. ds = taken @ i # rest \<and> (\<forall>k\<in>set taken. map_of mp k \<noteq> None))
    | None \<Rightarrow> \<forall>k\<in>set ds. map_of mp k \<noteq> None"
  using assms
proof (induction ds mp rule: next_available_key.induct)
  case (2 d ds mp)
  then have d: "KEY_MIN \<le> d" "d < KEY_MAX" and ds: "draws_ok ds" by (simp_all add: draws_ok_def)
  show ?case
  proof (cases "map_of mp d")
    case None
    with d show ?thesis by (auto simp: KEY_MIN_def)
  next
    case (Some v)
    with "2.IH" ds show ?thesis
      by (auto split: option.splits)
  qed
qed simp

theorem next_available_key_ok_witness:
  "next_available_key [7, 8] [(7, ())] = Some (8, []) \<and> (8 :: u32) \<noteq> 0 \<and> (8 :: u32) \<noteq> KEY_MAX"
proof -
  have "draws_ok [7, 8]" by code_simp
  moreover have "next_available_key [7, 8] [(7, ())] = Some (8, [])" by code_simp
  ultimately show ?thesis using next_available_key_ok [of "[7, 8]" "[(7, ())]"] by simp
qed

section \<open>Dropped streams\<close>

text \<open>A dropped stream makes the task of its multiplexor remove the flow and queue a \<open>Reset\<close>.\<close>

definition notified :: "mux \<Rightarrow> bool" where
  "notified m \<longleftrightarrow> ch_queue (dropped_ports m) = [] \<and> ch_rx_open (dropped_ports m) \<and> ch_tx_alive (dropped_ports m)"

lemma slot_of_close_port: "slot_of (close_port i inhibit m) i = None"
proof (cases "slot_of m i")
  case (Some d)
  have "slot_of (close_port_local d i inhibit (flow_remove i m)) i = slot_of (flow_remove i m) i"
    unfolding slot_of_def flows_close_port_local ..
  with Some show ?thesis by (simp add: close_port_def)
qed (simp add: close_port_def)

lemma close_port_resets:
  assumes slot: "slot_of m i = Some (Established \<lparr>es_sender = Some a, es_cell = a\<rparr>)"
    and "\<not> c_finish_sent (cell m a)" and "ch_rx_open (tx_frame m)"
  shows "replies m (close_port i False m) [fin (new_reset i)]"
proof -
  have "\<not> c_finish_sent (cell (flow_remove i m) a)" using assms(2) by (simp add: flow_remove_def cell_def)
  then have "close_port i False m = drop_sender (Some a) (queue_frame (new_reset i)
      (fst (disallow_write \<lparr>es_sender = Some a, es_cell = a\<rparr> (flow_remove i m))))"
    by (simp add: close_port_def close_port_local_def slot disallow_read_def disallow_write_def Let_def)
  with assms(3) show ?thesis by (simp add: replies_def disallow_write_def Let_def drop_sender_def)
qed

text \<open>The notification names the flow by its identifier, and the task closes whatever flow has that identifier now.\<close>

lemma notification_closes:
  assumes "dropped_ports m = ch_push i c" and "ch_queue c = []" and "ch_tx_alive c" and "i \<noteq> 0" and "ch_rx_open c"
  shows "process_dropped_ports_task m = (close_port i False (m\<lparr>dropped_ports := c\<rparr>), Pending)"
proof -
  have "ch_queue (dropped_ports m) = i # []" using assms(1,2) by (simp add: ch_push_def)
  from mpsc.recv_item [OF this] have "poll_recv (dropped_ports m) = (c, Ready (Some i))"
    using assms(1,2) by (simp add: ch_push_def)
  then have "process_dropped_ports_task m = process_dropped_ports_task (close_port i False (m\<lparr>dropped_ports := c\<rparr>))"
    using assms(4) by (subst process_dropped_ports_task.simps) simp
  also have "\<dots> = (close_port i False (m\<lparr>dropped_ports := c\<rparr>), Pending)"
    using assms(2,3,5) by (subst process_dropped_ports_task.simps) (simp add: poll_recv_def)
  finally show ?thesis .
qed

lemma drop_stream_notifies:
  assumes "notified m"
  shows "dropped_ports (drop_stream s m) = ch_push (ms_flow_id s) (dropped_ports m)"
    "(drop_stream s m)\<lparr>dropped_ports := dropped_ports m\<rparr> = upd_frames (ms_cell s) drop_rx m"
  using assms by (simp_all add: drop_stream_def notify_dropped_def notified_def chan_send_def upd_frames_def upd_cell_def)

lemma dropped_stream_reset:
  assumes "fresh_end m s i credit window" and "ch_rx_open (tx_frame m)" and "notified m" and "i \<noteq> 0"
  obtains m' where "process_dropped_ports_task (drop_stream s m) = (m', Pending)" "slot_of m' i = None"
    "replies m m' [fin (new_reset i)]"
proof -
  let ?m = "upd_frames (ms_cell s) drop_rx m"
  have i: "ms_flow_id s = i" using assms(1) by (simp add: fresh_end_def)
  have "process_dropped_ports_task (drop_stream s m) = (close_port i False ?m, Pending)"
    using notification_closes [OF drop_stream_notifies(1) [OF assms(3)], of s] assms(3,4) drop_stream_notifies(2) [OF assms(3), of s] i
    by (simp add: notified_def)
  moreover have "c_finish_sent (cell ?m (ms_cell s)) = c_finish_sent (cell m (ms_cell s))"
    using assms(1) by (simp add: fresh_end_def has_cell_def upd_frames_def cell_upd_cell)
  then have "replies ?m (close_port i False ?m) [fin (new_reset i)]"
    using assms(1,2) by (intro close_port_resets [of _ _ "ms_cell s"]) (simp_all add: fresh_end_def)
  then have "replies m (close_port i False ?m) [fin (new_reset i)]" by (simp add: replies_def)
  ultimately show thesis using that slot_of_close_port by blast
qed

text \<open>
  So a late notification hits the wrong stream: the peer resets a stream and then opens another one with the same identifier; the first
  stream has been dropped by then, but the task reads the notification only after the new request. The new stream is accepted, and
  the notification of the old one resets it.
\<close>

theorem stale_drop_resets_new_stream:
  assumes "fresh_end b s i n window" and "i \<noteq> 0" and "mux_rwnd b \<noteq> 0" and "ch_rx_open (tx_frame b)" and "notified b"
    and "ch_rx_open (con_recv b)" and "\<not> ch_full (con_recv b)"
  shows "\<exists>b1 b2 b3. deliver (new_reset i) b = (b1, Ready (Ok False))
    \<and> deliver (new_connect h pt i n') (drop_stream s b1) = (b2, Ready (Ok False))
    \<and> process_dropped_ports_task b2 = (b3, Pending) \<and> slot_of b3 i = None
    \<and> replies b b3 [fin (new_acknowledge i (mux_rwnd b)), fin (new_reset i)]"
proof -
  let ?k = "ms_cell s" and ?b1 = "close_port i True b"
  let ?c = "drop_stream s ?b1"
  let ?b2 = "(queue_frame (new_acknowledge i (mux_rwnd b)) (add_flow i n' ?c))\<lparr>con_recv := ch_push (new_stream_of i n' h pt ?c) (con_recv b)\<rparr>"
  let ?m = "?b2\<lparr>dropped_ports := dropped_ports b\<rparr>"
  from assms(1) have f: "slot_of b i = Some (Established \<lparr>es_sender = Some ?k, es_cell = ?k\<rparr>)" "ms_flow_id s = i" by (simp_all add: fresh_end_def)
  have eq: "?b1 = upd_frames ?k drop_tx (fst (disallow_write \<lparr>es_sender = Some ?k, es_cell = ?k\<rparr> (flow_remove i b)))"
    by (simp add: close_port_def close_port_local_def f(1) disallow_read_def disallow_write_def Let_def drop_sender_def)
  have c: "tx_frame ?c = tx_frame b" "con_recv ?c = con_recv b" "mux_rwnd ?c = mux_rwnd b" "slot_of ?c i = None"
    "dropped_ports ?c = ch_push i (dropped_ports b)"
    using slot_of_close_port [of i True b] drop_stream_notifies(1) [of ?b1 s] assms(5) f(2)
    by (simp_all add: notified_def) (simp_all add: eq drop_stream_def disallow_write_def Let_def notify_dropped_def)
  have 1: "deliver (new_reset i) b = (?b1, Ready (Ok False))" by (rule deliver_eq) (simp_all add: process_frame_def)
  have 2: "deliver (new_connect h pt i n') ?c = (?b2, Ready (Ok False))"
    using deliver_connect [of ?c i h pt n'] c assms(3,4,6,7) by simp
  have 3: "process_dropped_ports_task ?b2 = (close_port i False ?m, Pending)"
    using assms(2,5) c(5) by (intro notification_closes) (simp_all add: notified_def)
  have "replies ?m (close_port i False ?m) [fin (new_reset i)]"
    using assms(4) c by (intro close_port_resets [of _ _ "length (cells ?c)"]) (simp_all add: cell_add_flow)
  then have "replies b (close_port i False ?m) [fin (new_acknowledge i (mux_rwnd b)), fin (new_reset i)]"
    using assms(4) c by (simp add: replies_def)
  with 1 2 3 slot_of_close_port show ?thesis by blast
qed

theorem stale_drop_resets_new_stream_witness:
  "\<exists>b s b1 b2 b3. fresh_end b s 7 512 512 \<and> deliver (new_reset 7) b = (b1, Ready (Ok False))
    \<and> deliver (new_connect [104] 80 7 512) (drop_stream s b1) = (b2, Ready (Ok False))
    \<and> process_dropped_ports_task b2 = (b3, Pending) \<and> slot_of b3 7 = None
    \<and> replies b b3 [fin (new_acknowledge 7 512), fin (new_reset 7)]"
proof -
  let ?b = "add_flow 7 512 mux0" and ?s = "new_stream_of 7 512 [104] 80 mux0"
  have fe: "fresh_end ?b ?s 7 512 512" using fresh_end_add_flow [of 7 512 mux0 "[104]" 80] by (simp add: mux0_def)
  have m: "mux_rwnd ?b = 512" "ch_rx_open (tx_frame ?b)" "notified ?b" "ch_rx_open (con_recv ?b)" "\<not> ch_full (con_recv ?b)"
    by (simp_all add: mux0_def notified_def ch_full_def mpsc_unbounded_def)
  from stale_drop_resets_new_stream [OF fe _ _ m(2-5), of "[104]" 80 512] m(1) fe show ?thesis by (intro exI [of _ ?b], intro exI [of _ ?s]) auto
qed

end
