(* ===== verification/Flow_Control.thy ===== *)
theory Flow_Control
  imports Mux_Shutdown
begin

text \<open>
  Flow control between two ends, over the operations of \<open>stream.rs\<close> and \<open>task.rs\<close> themselves: a writer
  with its multiplexor, a reader with its multiplexor, and the frames on their way between the
  two tasks. The credit invariant accounts for every frame of the receive window; from it
  follow that a conforming writer never overruns the reader's channel, that the octets arrive
  complete and in order, and when the two can come to a halt.
\<close>

section \<open>A link\<close>

text \<open>
  \<open>lk_a\<close>/\<open>lk_sa\<close> is the writing end, \<open>lk_b\<close>/\<open>lk_sb\<close> the reading end; the frames queued for
  transmission are those in the two multiplexors. \<open>lk_written\<close> and \<open>lk_read\<close> record the octets that
  write calls accepted and that read calls returned.
\<close>

record link =
  lk_a :: mux
  lk_sa :: mux_stream
  lk_b :: mux
  lk_sb :: mux_stream
  lk_written :: bytes
  lk_read :: bytes

definition tx_rest :: "finalized_frame list \<Rightarrow> mux \<Rightarrow> mux" where
  "tx_rest ffs m = m\<lparr>tx_frame := (tx_frame m)\<lparr>ch_queue := ffs\<rparr>\<rparr>"

definition receive :: "finalized_frame \<Rightarrow> mux \<Rightarrow> mux" where
  "receive ff m = fst (process_message (Binary (finalized_bytes ff)) False m)"

inductive link_step :: "link \<Rightarrow> link \<Rightarrow> bool" where
  link_write: "poll_write w data (lk_sa l) (lk_a l) = (a', Ready (Ok k))
    \<Longrightarrow> link_step l (l\<lparr>lk_a := a', lk_written := lk_written l @ data\<rparr>)"
| link_wait: "poll_write w data (lk_sa l) (lk_a l) = (a', Pending) \<Longrightarrow> link_step l (l\<lparr>lk_a := a'\<rparr>)"
| link_ab: "ch_queue (tx_frame (lk_a l)) = ff # ffs
    \<Longrightarrow> link_step l (l\<lparr>lk_a := tx_rest ffs (lk_a l), lk_b := receive ff (lk_b l)\<rparr>)"
| link_read: "poll_read k (lk_sb l) (lk_b l) = (s', b', Ready (Ok out))
    \<Longrightarrow> link_step l (l\<lparr>lk_sb := s', lk_b := b', lk_read := lk_read l @ out\<rparr>)"
| link_ba: "ch_queue (tx_frame (lk_b l)) = ff # ffs
    \<Longrightarrow> link_step l (l\<lparr>lk_b := tx_rest ffs (lk_b l), lk_a := receive ff (lk_a l)\<rparr>)"

text \<open>The writing and the reading end of an open flow.\<close>

definition writer_ok :: "u32 \<Rightarrow> mux \<Rightarrow> mux_stream \<Rightarrow> bool" where
  "writer_ok i a s \<longleftrightarrow> ms_flow_id s = i \<and> ms_cell s < length (cells a)
     \<and> (case slot_of a i of Some (Established d) \<Rightarrow> es_cell d = ms_cell s | _ \<Rightarrow> False)
     \<and> \<not> c_finish_sent (cell a (ms_cell s)) \<and> ch_rx_open (tx_frame a)"

definition reader_ok :: "u32 \<Rightarrow> u32 \<Rightarrow> mux \<Rightarrow> mux_stream \<Rightarrow> bool" where
  "reader_ok i window b s \<longleftrightarrow> ms_flow_id s = i \<and> ms_cell s < length (cells b)
     \<and> slot_of b i = Some (Established \<lparr>es_sender = Some (ms_cell s), es_cell = ms_cell s\<rparr>)
     \<and> ch_rx_open (frames_at b (ms_cell s)) \<and> ch_tx_alive (frames_at b (ms_cell s))
     \<and> ch_cap (frames_at b (ms_cell s)) = Some (unat window) \<and> ch_rx_open (tx_frame b)"

definition credit :: "link \<Rightarrow> u32" where
  "credit l = c_psh_send_remaining (cell (lk_a l) (ms_cell (lk_sa l)))"

definition rx_queue :: "link \<Rightarrow> bytes list" where
  "rx_queue l = ch_queue (frames_at (lk_b l) (ms_cell (lk_sb l)))"

text \<open>
  The invariant: \<open>ds\<close> are the payloads of the pushes on their way, \<open>ns\<close> the counts of the
  acknowledgements on their way back.
\<close>

definition link_inv_with :: "u32 \<Rightarrow> u32 \<Rightarrow> bytes list \<Rightarrow> u32 list \<Rightarrow> link \<Rightarrow> bool" where
  "link_inv_with i window ds ns l \<longleftrightarrow>
     writer_ok i (lk_a l) (lk_sa l) \<and> reader_ok i window (lk_b l) (lk_sb l)
     \<and> ch_queue (tx_frame (lk_a l)) = map (\<lambda>d. fin (new_push i d)) ds
     \<and> ch_queue (tx_frame (lk_b l)) = map (\<lambda>k. fin (new_acknowledge i k)) ns
     \<and> unat (credit l) + length ds + length (rx_queue l) + unat (ms_psh_recvd_since (lk_sb l))
         + sum_list (map unat ns) = unat window
     \<and> (ms_psh_recvd_since (lk_sb l) = 0 \<or> ms_psh_recvd_since (lk_sb l) < ms_rwnd_threshold (lk_sb l))
     \<and> lk_read l @ unread (lk_sb l) (lk_b l) @ concat ds = lk_written l"

definition link_inv :: "u32 \<Rightarrow> u32 \<Rightarrow> link \<Rightarrow> bool" where
  "link_inv i window l \<longleftrightarrow> (\<exists>ds ns. link_inv_with i window ds ns l)"

text \<open>A link right after the handshake: the writer has the reader's window as credit, nothing is in flight.\<close>

definition link_init :: "u32 \<Rightarrow> u32 \<Rightarrow> u32 \<Rightarrow> link \<Rightarrow> bool" where
  "link_init i window threshold l \<longleftrightarrow>
     writer_ok i (lk_a l) (lk_sa l) \<and> reader_ok i window (lk_b l) (lk_sb l)
     \<and> ch_queue (tx_frame (lk_a l)) = [] \<and> ch_queue (tx_frame (lk_b l)) = []
     \<and> credit l = window \<and> rx_queue l = [] \<and> ms_buf (lk_sb l) = [] \<and> ms_psh_recvd_since (lk_sb l) = 0
     \<and> ms_rwnd_threshold (lk_sb l) = threshold \<and> lk_written l = [] \<and> lk_read l = []"

section \<open>The steps\<close>

lemma receive_push:
  assumes "reader_ok i window b s" and "length (ch_queue (frames_at b (ms_cell s))) < unat window"
  shows "receive (fin (new_push i d)) b = upd_frames (ms_cell s) (ch_push d) b"
  using assms
  by (simp add: receive_def process_message_def decode_fin process_frame_def recv_push_eq reader_ok_def ch_full_def)

lemma receive_ack:
  assumes "writer_ok i a s"
  shows "receive (fin (new_acknowledge i k)) a =
    wake (ms_cell s) (upd_cell (ms_cell s) (\<lambda>c. c\<lparr>c_psh_send_remaining := c_psh_send_remaining c + k\<rparr>) a)"
  using assms
  by (auto simp: receive_def process_message_def decode_fin process_frame_def recv_ack_def acknowledge_def writer_ok_def
    split: option.splits flow_slot.splits)

lemma remaining_wake [simp]: "c_psh_send_remaining (cell (wake a m) b) = c_psh_send_remaining (cell m b)"
  by (cases "a < length (cells m)")
    (auto simp: wake_def cell_upd_cell cell_def upd_cell_def list_update_beyond nth_list_update split: option.split)

lemma unread_queue_frame [simp]: "unread s (queue_frame f m) = unread s m" "unread s (tx_rest ffs m) = unread s m"
  by (simp_all add: unread_def tx_rest_def)

lemma tx_rest_sels [simp]:
  "cells (tx_rest ffs m) = cells m" "slot_of (tx_rest ffs m) = slot_of m" "cell (tx_rest ffs m) = cell m"
  "frames_at (tx_rest ffs m) = frames_at m" "tx_frame (tx_rest ffs m) = (tx_frame m)\<lparr>ch_queue := ffs\<rparr>"
  by (simp_all add: tx_rest_def)

lemma link_inv_init: "link_init i window thr l \<Longrightarrow> link_inv i window l"
  unfolding link_inv_def
  by (rule exI [of _ "[]"], rule exI [of _ "[]"]) (simp add: link_init_def link_inv_with_def unread_def rx_queue_def)

lemma u32_dec: "(w :: u32) \<noteq> 0 \<Longrightarrow> Suc (unat (w - 1)) = unat w"
  by (metis Suc_pred' unat_gt_0 unat_minus_one)

lemma link_inv_write:
  assumes "link_inv i window l" and "poll_write w data (lk_sa l) (lk_a l) = (a', Ready (Ok k))"
  shows "link_inv i window (l\<lparr>lk_a := a', lk_written := lk_written l @ data\<rparr>)"
proof -
  from assms(1) obtain ds ns where inv: "link_inv_with i window ds ns l" by (auto simp: link_inv_def)
  let ?s = "lk_sa l" and ?c = "cell (lk_a l) (ms_cell (lk_sa l))"
  from inv have wo: "writer_ok i (lk_a l) ?s" by (simp add: link_inv_with_def)
  from assms(2) wo have rem: "c_psh_send_remaining ?c \<noteq> 0" and
    a': "a' = queue_frame (new_push i data)
      (upd_cell (ms_cell ?s) (\<lambda>c. c\<lparr>c_psh_send_remaining := c_psh_send_remaining c - 1\<rparr>) (lk_a l))"
    by (auto simp: poll_write_cases Let_def writer_ok_def split: if_splits)
  have lt: "ms_cell ?s < length (cells (lk_a l))" using wo by (simp add: writer_ok_def)
  have "link_inv_with i window (ds @ [data]) ns (l\<lparr>lk_a := a', lk_written := lk_written l @ data\<rparr>)"
    using inv wo u32_dec [OF rem] lt
    by (auto simp: link_inv_with_def a' writer_ok_def cell_upd_cell credit_def rx_queue_def)
  then show ?thesis unfolding link_inv_def by blast
qed

lemma link_inv_wait:
  assumes "link_inv i window l" and "poll_write w data (lk_sa l) (lk_a l) = (a', Pending)"
  shows "link_inv i window (l\<lparr>lk_a := a'\<rparr>)"
proof -
  from assms(1) obtain ds ns where inv: "link_inv_with i window ds ns l" by (auto simp: link_inv_def)
  let ?s = "lk_sa l"
  from inv have wo: "writer_ok i (lk_a l) ?s" by (simp add: link_inv_with_def)
  with assms(2) have a': "a' = register_waker (ms_cell ?s) w (lk_a l)"
    by (auto simp: poll_write_cases Let_def writer_ok_def split: if_splits)
  have "link_inv_with i window ds ns (l\<lparr>lk_a := a'\<rparr>)"
    using inv wo by (auto simp: link_inv_with_def a' register_waker_def writer_ok_def cell_upd_cell credit_def rx_queue_def)
  then show ?thesis unfolding link_inv_def by blast
qed

lemma link_inv_ab:
  assumes "link_inv i window l" and "ch_queue (tx_frame (lk_a l)) = ff # ffs"
  shows "link_inv i window (l\<lparr>lk_a := tx_rest ffs (lk_a l), lk_b := receive ff (lk_b l)\<rparr>)"
proof -
  from assms(1) obtain ds ns where inv: "link_inv_with i window ds ns l" by (auto simp: link_inv_def)
  with assms(2) obtain d ds' where ds: "ds = d # ds'" "ff = fin (new_push i d)"
    "ffs = map (\<lambda>d. fin (new_push i d)) ds'" by (cases ds) (auto simp: link_inv_with_def)
  let ?s = "lk_sb l"
  from inv have ro: "reader_ok i window (lk_b l) ?s" by (simp add: link_inv_with_def)
  have lt: "length (rx_queue l) < unat window" using inv ds by (simp add: link_inv_with_def)
  then have b': "receive ff (lk_b l) = upd_frames (ms_cell ?s) (ch_push d) (lk_b l)"
    using receive_push [OF ro] ds by (simp add: rx_queue_def)
  have c: "ms_cell ?s < length (cells (lk_b l))" using ro by (simp add: reader_ok_def)
  have "link_inv_with i window ds' ns (l\<lparr>lk_a := tx_rest ffs (lk_a l), lk_b := receive ff (lk_b l)\<rparr>)"
    using inv ro c unfolding b' ds(1,3)
    by (auto simp: link_inv_with_def writer_ok_def reader_ok_def credit_def rx_queue_def frames_at_upd_frames
      ch_push_def unread_def)
  then show ?thesis unfolding link_inv_def by blast
qed

lemma link_inv_ba:
  assumes "link_inv i window l" and "ch_queue (tx_frame (lk_b l)) = ff # ffs"
  shows "link_inv i window (l\<lparr>lk_b := tx_rest ffs (lk_b l), lk_a := receive ff (lk_a l)\<rparr>)"
proof -
  from assms(1) obtain ds ns where inv: "link_inv_with i window ds ns l" by (auto simp: link_inv_def)
  with assms(2) obtain k ns' where ns: "ns = k # ns'" "ff = fin (new_acknowledge i k)"
    "ffs = map (\<lambda>k. fin (new_acknowledge i k)) ns'" by (cases ns) (auto simp: link_inv_with_def)
  let ?s = "lk_sa l"
  from inv have wo: "writer_ok i (lk_a l) ?s" by (simp add: link_inv_with_def)
  have "unat (credit l) + unat k \<le> unat window" using inv ns by (simp add: link_inv_with_def)
  then have "unat (credit l + k) = unat (credit l) + unat k"
    using unsigned_less [of window, where ?'a = nat] by (intro unat_add_lem [THEN iffD1]) simp
  moreover have "ms_cell ?s < length (cells (lk_a l))" using wo by (simp add: writer_ok_def)
  ultimately have "link_inv_with i window ds ns' (l\<lparr>lk_b := tx_rest ffs (lk_b l), lk_a := receive ff (lk_a l)\<rparr>)"
    using inv wo unfolding ns receive_ack [OF wo]
    by (auto simp: link_inv_with_def writer_ok_def reader_ok_def credit_def rx_queue_def cell_upd_cell)
  then show ?thesis unfolding link_inv_def by blast
qed

text \<open>
  Reading: either the buffer still has octets, or the next frame is taken from the channel, counted,
  and acknowledged when the threshold is reached.
\<close>

lemma poll_read_Ok_cases [consumes 2]:
  assumes "poll_read k s m = (s', m', Ready (Ok out))" and "reader_ok i window m s"
  obtains
    (buffered) "ms_buf s \<noteq> []" "m' = m" "s' = s\<lparr>ms_buf := ms_buf s'\<rparr>"
  | (fetched) nx rest where "ms_buf s = []" "ch_queue (frames_at m (ms_cell s)) = nx # rest"
      "(s'\<lparr>ms_buf := nx\<rparr>, m') = increment_psh_recvd_since (s\<lparr>ms_buf := nx\<rparr>)
         (upd_frames (ms_cell s) (\<lambda>c. c\<lparr>ch_queue := rest\<rparr>) m)"
proof (cases "ms_buf s = []")
  case False
  with assms(1) buffered show ?thesis
    by (auto simp: poll_read_def poll_fill_buf_def consume_def Let_def split: if_splits)
next
  case True
  obtain c r where pr: "poll_recv (frames_at m (ms_cell s)) = (c, r)" by fastforce
  have open_: "ch_tx_alive (frames_at m (ms_cell s))" "ch_rx_open (frames_at m (ms_cell s))"
    using assms(2) by (simp_all add: reader_ok_def)
  obtain x where r: "r = Ready (Some x)"
    using assms(1) pr open_ True
    by (auto simp: poll_read_def poll_fill_buf_def poll_recv_def split: list.splits)
  from mpsc.recv_SomeD [OF pr [unfolded r]] have q: "ch_queue (frames_at m (ms_cell s)) = x # ch_queue c"
    and c: "c = (frames_at m (ms_cell s))\<lparr>ch_queue := ch_queue c\<rparr>" by simp_all
  have up: "upd_frames (ms_cell s) (\<lambda>_. c) m = upd_frames (ms_cell s) (\<lambda>d. d\<lparr>ch_queue := ch_queue c\<rparr>) m"
    by (subst c) (simp add: upd_frames_def upd_cell_def frames_at_def)
  have "(s'\<lparr>ms_buf := x\<rparr>, m') = increment_psh_recvd_since (s\<lparr>ms_buf := x\<rparr>)
      (upd_frames (ms_cell s) (\<lambda>d. d\<lparr>ch_queue := ch_queue c\<rparr>) m)"
    using assms(1) pr r True unfolding up [symmetric]
    by (auto simp: poll_read_def poll_fill_buf_def consume_def Let_def increment_psh_recvd_since_def
      split: if_splits)
  with True q fetched show ?thesis by blast
qed

lemma increment_cases:
  assumes "unat (ms_psh_recvd_since s) < unat (window :: u32)"
  shows "increment_psh_recvd_since s m =
    (if ms_rwnd_threshold s \<le> ms_psh_recvd_since s + 1
     then (s\<lparr>ms_psh_recvd_since := 0\<rparr>, queue_frame (new_acknowledge (ms_flow_id s) (ms_psh_recvd_since s + 1)) m)
     else (s\<lparr>ms_psh_recvd_since := ms_psh_recvd_since s + 1\<rparr>, m))
   \<and> unat (ms_psh_recvd_since s + 1) = Suc (unat (ms_psh_recvd_since s))"
proof -
  have "unat (ms_psh_recvd_since s) + unat (1 :: u32) < 2 ^ 32"
    using assms unsigned_less [of window, where ?'a = nat] by simp
  then show ?thesis
    using unat_add_lem [of "ms_psh_recvd_since s" 1] by (auto simp: increment_psh_recvd_since_def Let_def)
qed

lemma link_inv_read:
  assumes "link_inv i window l" and "poll_read k (lk_sb l) (lk_b l) = (s', b', Ready (Ok out))"
  shows "link_inv i window (l\<lparr>lk_sb := s', lk_b := b', lk_read := lk_read l @ out\<rparr>)"
proof -
  from assms(1) obtain ds ns where inv: "link_inv_with i window ds ns l" by (auto simp: link_inv_def)
  let ?s = "lk_sb l" and ?l = "l\<lparr>lk_sb := s', lk_b := b', lk_read := lk_read l @ out\<rparr>"
  from inv have ro: "reader_ok i window (lk_b l) ?s" by (simp add: link_inv_with_def)
  then have hc: "has_cell (lk_b l) ?s" by (simp add: reader_ok_def has_cell_def)
  from poll_read_exact [OF hc, of k] assms(2) have u: "unread ?s (lk_b l) = out @ unread s' b'" by simp
  have "\<exists>ns'. link_inv_with i window ds ns' ?l"
    using assms(2) ro
  proof (cases rule: poll_read_Ok_cases)
    case buffered
    then have "ms_cell s' = ms_cell ?s" "ms_flow_id s' = ms_flow_id ?s"
      "ms_psh_recvd_since s' = ms_psh_recvd_since ?s" "ms_rwnd_threshold s' = ms_rwnd_threshold ?s"
      by (metis mux_stream.select_convs mux_stream.surjective mux_stream.update_convs(6))+
    with inv u buffered show ?thesis
      by (auto simp: link_inv_with_def reader_ok_def credit_def rx_queue_def)
  next
    case (fetched nx rest)
    let ?r = "ms_psh_recvd_since ?s" and ?b = "upd_frames (ms_cell ?s) (\<lambda>c. c\<lparr>ch_queue := rest\<rparr>) (lk_b l)"
    have q: "rx_queue l = nx # rest" using fetched(2) by (simp add: rx_queue_def)
    then have lt: "unat ?r < unat window" using inv by (simp add: link_inv_with_def)
    note inc = increment_cases [of "?s\<lparr>ms_buf := nx\<rparr>" window ?b, simplified, OF lt]
    have c: "ms_cell ?s < length (cells (lk_b l))" using ro by (simp add: reader_ok_def)
    have s': "ms_cell s' = ms_cell (s'\<lparr>ms_buf := nx\<rparr>)" "ms_flow_id s' = ms_flow_id (s'\<lparr>ms_buf := nx\<rparr>)"
      "ms_psh_recvd_since s' = ms_psh_recvd_since (s'\<lparr>ms_buf := nx\<rparr>)"
      "ms_rwnd_threshold s' = ms_rwnd_threshold (s'\<lparr>ms_buf := nx\<rparr>)" by simp_all
    show ?thesis
    proof (cases "ms_rwnd_threshold ?s \<le> ?r + 1")
      case True
      with fetched(3) inc have e: "s'\<lparr>ms_buf := nx\<rparr> = ?s\<lparr>ms_buf := nx, ms_psh_recvd_since := 0\<rparr>"
        and b': "b' = queue_frame (new_acknowledge (ms_flow_id ?s) (?r + 1)) ?b" by simp_all
      have "link_inv_with i window ds (ns @ [?r + 1]) ?l"
        using inv u q c inc ro s' unfolding e
        by (auto simp: link_inv_with_def reader_ok_def credit_def rx_queue_def b' frames_at_upd_frames)
      then show ?thesis by blast
    next
      case False
      with fetched(3) inc have e: "s'\<lparr>ms_buf := nx\<rparr> = ?s\<lparr>ms_buf := nx, ms_psh_recvd_since := ?r + 1\<rparr>"
        and b': "b' = ?b" by simp_all
      have "link_inv_with i window ds ns ?l"
        using inv u q c inc ro s' False unfolding e
        by (auto simp: link_inv_with_def reader_ok_def credit_def rx_queue_def b' frames_at_upd_frames)
      then show ?thesis by blast
    qed
  qed
  then show ?thesis unfolding link_inv_def by blast
qed

lemma poll_read_threshold: "poll_read k s m = (s', m', r) \<Longrightarrow> ms_rwnd_threshold s' = ms_rwnd_threshold s"
  by (auto simp: poll_read_def poll_fill_buf_def consume_def increment_psh_recvd_since_def Let_def
    split: poll.splits outcome.splits option.splits prod.splits if_splits)

definition link_ok :: "u32 \<Rightarrow> u32 \<Rightarrow> u32 \<Rightarrow> link \<Rightarrow> bool" where
  "link_ok i window threshold l \<longleftrightarrow> link_inv i window l \<and> ms_rwnd_threshold (lk_sb l) = threshold"

lemma link_ok_step:
  assumes "link_ok i window thr l" and "link_step l l'"
  shows "link_ok i window thr l'"
  using assms(2)
proof (cases rule: link_step.cases)
  case link_write
  with assms(1) link_inv_write show ?thesis by (auto simp: link_ok_def)
next
  case link_wait
  with assms(1) link_inv_wait show ?thesis by (auto simp: link_ok_def)
next
  case link_ab
  with assms(1) link_inv_ab show ?thesis by (auto simp: link_ok_def)
next
  case link_read
  with assms(1) link_inv_read poll_read_threshold show ?thesis by (fastforce simp: link_ok_def)
next
  case link_ba
  with assms(1) link_inv_ba show ?thesis by (auto simp: link_ok_def)
qed

lemma link_ok_init: "link_init i window thr l \<Longrightarrow> link_ok i window thr l"
  by (simp add: link_ok_def link_inv_init) (simp add: link_init_def)

interpretation link_run: step_system "link_init i window thr" link_step "link_ok i window thr"
  for i window thr
  by unfold_locales (simp_all add: link_ok_init link_ok_step)

section \<open>Properties of the flow control\<close>

text \<open>
  A conforming writer never overruns the reader: in every reachable state the frames queued for
  the reader and the pushes on their way together never exceed the reader's window, so the
  next push is always accepted; it is appended to the reader's channel and answered with
  nothing, in particular never with the \<open>Reset\<close> that an overrun causes.
\<close>

theorem flow_never_overrun:
  assumes "reach (link_init i window thr) link_step l" and "ch_queue (tx_frame (lk_a l)) = ff # ffs"
  shows "\<exists>data. receive ff (lk_b l) = upd_frames (ms_cell (lk_sb l)) (ch_push data) (lk_b l)
    \<and> length (rx_queue l) + length (ff # ffs) \<le> unat window"
proof -
  from link_run.reach_inv [OF assms(1)] obtain ds ns where inv: "link_inv_with i window ds ns l"
    by (auto simp: link_ok_def link_inv_def)
  with assms(2) obtain d ds' where ds: "ds = d # ds'" "ff = fin (new_push i d)"
    by (cases ds) (auto simp: link_inv_with_def)
  have len: "length ds = length (ff # ffs)"
    using arg_cong [OF assms(2), of length] inv by (simp add: link_inv_with_def)
  then have le: "length (rx_queue l) + length (ff # ffs) \<le> unat window"
    using inv by (auto simp: link_inv_with_def)
  then have "receive ff (lk_b l) = upd_frames (ms_cell (lk_sb l)) (ch_push d) (lk_b l)"
    using inv receive_push [of i window "lk_b l" "lk_sb l" d] ds by (simp add: link_inv_with_def rx_queue_def)
  with le show ?thesis by blast
qed

text \<open>
  Octets arrive complete and in order: at every moment, what the reader has been given, followed by
  what is buffered for it, followed by the payloads on their way, is exactly what the writer
  wrote.
\<close>

theorem flow_in_order:
  assumes "reach (link_init i window thr) link_step l"
  shows "\<exists>ds. ch_queue (tx_frame (lk_a l)) = map (\<lambda>d. fin (new_push i d)) ds
    \<and> lk_read l @ unread (lk_sb l) (lk_b l) @ concat ds = lk_written l"
  using link_run.reach_inv [OF assms] by (auto simp: link_ok_def link_inv_def link_inv_with_def)

text \<open>
  No deadlock when the acknowledgement threshold does not exceed the window: whenever the writer is
  out of credit, a push is on its way, or a frame waits for the reader, or an acknowledgement is
  on its way back, so a step that brings credit closer is enabled.
\<close>

theorem flow_no_deadlock:
  assumes "reach (link_init i window thr) link_step l" and "thr \<le> window" and "window \<noteq> 0" and "credit l = 0"
  shows "ch_queue (tx_frame (lk_a l)) \<noteq> [] \<or> rx_queue l \<noteq> [] \<or> ch_queue (tx_frame (lk_b l)) \<noteq> []"
proof (rule ccontr)
  assume none: "\<not> ?thesis"
  from link_run.reach_inv [OF assms(1)] obtain ds ns where inv: "link_inv_with i window ds ns l"
    and t: "ms_rwnd_threshold (lk_sb l) = thr" by (auto simp: link_ok_def link_inv_def)
  from none inv have "ds = []" "ns = []" by (auto simp: link_inv_with_def)
  with inv none assms(4) have "unat (ms_psh_recvd_since (lk_sb l)) = unat window"
    by (simp add: link_inv_with_def)
  then have "ms_psh_recvd_since (lk_sb l) = window" by (simp add: word_unat_eq_iff)
  with inv t assms(2,3) show False by (auto simp: link_inv_with_def)
qed

section \<open>A deadlock the code allows\<close>

text \<open>Nothing buffered or in flight and no credit: only a write that waits is possible, and it changes nothing.\<close>

definition stuck :: "link \<Rightarrow> bool" where
  "stuck l \<longleftrightarrow> credit l = 0 \<and> ch_queue (tx_frame (lk_a l)) = [] \<and> ch_queue (tx_frame (lk_b l)) = []
     \<and> rx_queue l = [] \<and> ms_buf (lk_sb l) = []"

lemma stuck_step:
  assumes "link_inv i window l" and "stuck l" and "link_step l l'"
  shows "stuck l' \<and> lk_written l' = lk_written l"
  using assms(3)
proof (cases rule: link_step.cases)
  case (link_write w data a' k)
  with assms show ?thesis
    by (auto simp: link_inv_def link_inv_with_def writer_ok_def poll_write_cases Let_def stuck_def credit_def split: if_splits)
next
  case (link_wait w data a')
  with assms(1,2) have "a' = register_waker (ms_cell (lk_sa l)) w (lk_a l)"
    and c: "ms_cell (lk_sa l) < length (cells (lk_a l))"
    by (auto simp: link_inv_def link_inv_with_def writer_ok_def poll_write_cases Let_def split: if_splits)
  with link_wait assms(2) show ?thesis
    by (simp add: stuck_def credit_def rx_queue_def register_waker_def cell_upd_cell)
next
  case (link_read k s' b' out)
  with assms(1,2) show ?thesis
    by (auto simp: link_inv_def link_inv_with_def reader_ok_def stuck_def rx_queue_def poll_read_def
      poll_fill_buf_def poll_recv_def)
qed (use assms(2) in \<open>simp_all add: stuck_def\<close>)

lemma stuck_forever:
  "link_step\<^sup>*\<^sup>* l l' \<Longrightarrow> link_ok i window thr l \<Longrightarrow> stuck l \<Longrightarrow> stuck l' \<and> lk_written l' = lk_written l"
proof (induction rule: rtranclp_induct)
  case (step l1 l2)
  then have "link_ok i window thr l1" using link_run.steps_inv by blast
  with step stuck_step show ?case by (metis link_ok_def)
qed simp

text \<open>One frame written, delivered and read, with nothing left behind.\<close>

text \<open>Reading the only frame in the queue, below the threshold.\<close>

lemma read_last_frame:
  fixes s d b
  defines "b2 \<equiv> upd_frames (ms_cell s) (ch_push d) b"
  assumes "reader_ok i window b s" and "ch_queue (frames_at b (ms_cell s)) = []" and "ms_buf s = []" and "d \<noteq> []"
    and "unat (ms_psh_recvd_since s) < unat window" and "window < ms_rwnd_threshold s"
  shows "poll_read (length d) s b2 = (s\<lparr>ms_psh_recvd_since := ms_psh_recvd_since s + 1\<rparr>,
    upd_frames (ms_cell s) (\<lambda>c. c\<lparr>ch_queue := []\<rparr>) b2, Ready (Ok d))"
proof -
  note inc = increment_cases [of "s\<lparr>ms_buf := d\<rparr>" window, simplified, OF assms(6)]
  have nt: "\<not> ms_rwnd_threshold s \<le> ms_psh_recvd_since s + 1"
    using inc [of b2] assms(6,7) by (auto simp: word_le_nat_alt word_less_nat_alt)
  have "ms_cell s < length (cells b)" using assms(2) by (simp add: reader_ok_def)
  then have fr: "frames_at b2 (ms_cell s) = (frames_at b (ms_cell s))\<lparr>ch_queue := [d]\<rparr>"
    using assms(3) by (simp add: b2_def frames_at_upd_frames ch_push_def)
  have "upd_frames (ms_cell s) (\<lambda>_. frames_at b (ms_cell s)\<lparr>ch_queue := []\<rparr>) b2 = upd_frames (ms_cell s) (\<lambda>c. c\<lparr>ch_queue := []\<rparr>) b2"
    using fr by (simp add: upd_frames_def upd_cell_def frames_at_def)
  with assms(4,5) inc nt fr show ?thesis by (simp add: poll_read_def poll_fill_buf_def poll_recv_def consume_def)
qed

text \<open>A link with no frame in flight satisfies the invariant with empty histories of what is in flight.\<close>

lemma link_inv_idle:
  assumes "reach (link_init i window thr) link_step l" and "ch_queue (tx_frame (lk_a l)) = []" and "ch_queue (tx_frame (lk_b l)) = []"
  shows "link_inv_with i window [] [] l"
proof -
  from link_run.reach_inv [OF assms(1)] obtain ds ns where "link_inv_with i window ds ns l" by (auto simp: link_ok_def link_inv_def)
  with assms(2,3) show ?thesis by (auto simp: link_inv_with_def)
qed

lemma one_frame:
  assumes "reach (link_init i window thr) link_step l" and "link_inv_with i window [] [] l"
    and "rx_queue l = []" and "ms_buf (lk_sb l) = []" and "credit l \<noteq> 0" and "window < thr"
    and "ms_rwnd_threshold (lk_sb l) = thr"
  shows "\<exists>l'. reach (link_init i window thr) link_step l' \<and> link_inv_with i window [] [] l'
    \<and> rx_queue l' = [] \<and> ms_buf (lk_sb l') = [] \<and> ms_rwnd_threshold (lk_sb l') = thr
    \<and> Suc (unat (credit l')) = unat (credit l)"
proof -
  let ?sa = "lk_sa l" and ?sb = "lk_sb l" and ?d = "[0] :: bytes"
  from assms(2) have wo: "writer_ok i (lk_a l) ?sa" and ro: "reader_ok i window (lk_b l) ?sb"
    by (simp_all add: link_inv_with_def)
  let ?a1 = "queue_frame (new_push i ?d) (upd_cell (ms_cell ?sa)
      (\<lambda>c. c\<lparr>c_psh_send_remaining := c_psh_send_remaining c - 1\<rparr>) (lk_a l))"
  let ?l1 = "l\<lparr>lk_a := ?a1, lk_written := lk_written l @ ?d\<rparr>"
  have "poll_write 0 ?d ?sa (lk_a l) = (?a1, Ready (Ok 1))"
    using wo assms(5) by (simp add: poll_write_cases Let_def writer_ok_def credit_def)
  then have s1: "link_step l ?l1" by (rule link_write)
  have tx: "ch_queue (tx_frame ?a1) = [fin (new_push i ?d)]"
    using assms(2) wo by (simp add: link_inv_with_def writer_ok_def)
  let ?b2 = "upd_frames (ms_cell ?sb) (ch_push ?d) (lk_b l)"
  let ?l2 = "?l1\<lparr>lk_a := tx_rest [] ?a1, lk_b := ?b2\<rparr>"
  let ?r = "ms_psh_recvd_since ?sb"
  have sum: "unat (credit l) + unat ?r = unat window" using assms(2,3) by (simp add: link_inv_with_def)
  have pos: "0 < unat (credit l)" using assms(5) by (simp add: unat_gt_0)
  have r: "unat ?r < unat window" using sum pos by simp
  have rc: "receive (fin (new_push i ?d)) (lk_b l) = ?b2"
    using receive_push [OF ro] assms(3) r by (simp add: rx_queue_def)
  have "ch_queue (tx_frame (lk_a ?l1)) = fin (new_push i ?d) # []" using tx by simp
  from link_ab [OF this] rc have s2: "link_step ?l1 ?l2" by simp
  let ?s3 = "?sb\<lparr>ms_psh_recvd_since := ?r + 1\<rparr>"
  let ?l3 = "?l2\<lparr>lk_sb := ?s3, lk_b := upd_frames (ms_cell ?sb) (\<lambda>c. c\<lparr>ch_queue := []\<rparr>) ?b2,
      lk_read := lk_read l @ ?d\<rparr>"
  have c: "ms_cell ?sb < length (cells (lk_b l))" using ro by (simp add: reader_ok_def)
  have "poll_read 1 ?sb ?b2 = (?s3, upd_frames (ms_cell ?sb) (\<lambda>c. c\<lparr>ch_queue := []\<rparr>) ?b2, Ready (Ok ?d))"
    using read_last_frame [OF ro, of ?d] assms(3,4,6,7) r by (simp add: rx_queue_def)
  then have s3: "link_step ?l2 ?l3" using link_read [of 1 ?l2] by simp
  have "reach (link_init i window thr) link_step ?l1" using assms(1) s1 by (rule reach_step)
  then have "reach (link_init i window thr) link_step ?l2" using s2 by (rule reach_step)
  then have "reach (link_init i window thr) link_step ?l3" using s3 by (rule reach_step)
  moreover have cr: "credit ?l3 = credit l - 1"
    using wo by (simp add: credit_def writer_ok_def cell_upd_cell)
  moreover have q3: "rx_queue ?l3 = []" using c by (simp add: rx_queue_def frames_at_upd_frames)
  moreover have "link_inv_with i window [] [] ?l3"
    using \<open>reach _ _ ?l3\<close> by (rule link_inv_idle) (use assms(2) in \<open>simp_all add: link_inv_with_def\<close>)
  ultimately show ?thesis
    using assms(4,7) u32_dec [OF assms(5)] by (intro exI [of _ ?l3]) (simp add: cr)
qed

lemma drain_credit:
  assumes "reach (link_init i window thr) link_step l" and "link_inv_with i window [] [] l"
    and "rx_queue l = []" and "ms_buf (lk_sb l) = []" and "window < thr" and "ms_rwnd_threshold (lk_sb l) = thr"
  shows "\<exists>l'. reach (link_init i window thr) link_step l' \<and> stuck l'"
  using assms
proof (induction "unat (credit l)" arbitrary: l)
  case 0
  then have "stuck l" by (simp add: stuck_def link_inv_with_def unat_eq_zero)
  with 0 show ?case by blast
next
  case (Suc k)
  then have "credit l \<noteq> 0" by auto
  from one_frame [OF Suc.prems(1-4) this Suc.prems(5,6)] obtain l' where
    "reach (link_init i window thr) link_step l'" "link_inv_with i window [] [] l'" "rx_queue l' = []"
    "ms_buf (lk_sb l') = []" "ms_rwnd_threshold (lk_sb l') = thr" "Suc (unat (credit l')) = unat (credit l)" by blast
  with Suc.hyps(1) [of l'] Suc.hyps(2) Suc.prems(5) show ?case by simp
qed


section \<open>Links made by the handshake\<close>

text \<open>
  Two ends as \<open>Multiplexor::new\<close> and the handshake leave them: the writer's with the default options,
  the reader's with \<open>rwnd(window)\<close> and \<open>default_rwnd_threshold(threshold)\<close>. Both transmission queues
  have been flushed.
\<close>

definition mux_of :: "u32 \<Rightarrow> u32 \<Rightarrow> mux" where
  "mux_of window threshold = mux0\<lparr>mux_rwnd := window, mux_threshold := threshold\<rparr>"

definition opener :: "mux \<Rightarrow> mux" where
  "opener m = (case new_stream_attempt [104] 80 [7] m of Some (m', _) \<Rightarrow> m' | None \<Rightarrow> m)"

definition link_of :: "u32 \<Rightarrow> u32 \<Rightarrow> link" where
  "link_of window threshold =
     (let a1 = opener mux0; b0 = mux_of window threshold;
          b1 = receive (fin (new_connect [104] 80 7 512)) b0;
          a2 = receive (fin (new_acknowledge 7 window)) a1
      in \<lparr>lk_a = tx_rest [] a2, lk_sa = new_stream_of 7 window [] 0 a1,
          lk_b = tx_rest [] b1, lk_sb = new_stream_of 7 512 [104] 80 b0,
          lk_written = [], lk_read = []\<rparr>)"

lemma link_of_init: "link_init 7 1 1 (link_of 1 1)" and link_of_small: "link_init 7 4 256 (link_of 4 256)"
  by code_simp+

definition link_one :: link where
  "link_one = (let l = link_of 1 1 in
     l\<lparr>lk_a := fst (poll_write 0 [5] (lk_sa l) (lk_a l)), lk_written := lk_written l @ [5]\<rparr>)"

lemma link_one_reach: "reach (link_init 7 1 1) link_step link_one"
proof -
  have "snd (poll_write 0 [5] (lk_sa (link_of 1 1)) (lk_a (link_of 1 1))) = Ready (Ok 1)" by code_simp
  then have "link_step (link_of 1 1) link_one"
    unfolding link_one_def Let_def by (intro link_write [where w = 0 and k = 1]) (simp add: prod_eq_iff)
  with reach_init [of "link_init 7 1 1", OF link_of_init] show ?thesis by (rule reach_step)
qed

theorem flow_never_overrun_witness:
  "\<exists>data. receive (fin (new_push 7 [5])) (lk_b link_one) =
      upd_frames (ms_cell (lk_sb link_one)) (ch_push data) (lk_b link_one)"
proof -
  have "ch_queue (tx_frame (lk_a link_one)) = [fin (new_push 7 [5])]" by code_simp
  from flow_never_overrun [OF link_one_reach this] show ?thesis by blast
qed

theorem flow_in_order_witness:
  "\<exists>ds. ch_queue (tx_frame (lk_a link_one)) = map (\<lambda>d. fin (new_push 7 d)) ds
    \<and> lk_read link_one @ unread (lk_sb link_one) (lk_b link_one) @ concat ds = lk_written link_one"
  by (rule flow_in_order [OF link_one_reach])

theorem flow_no_deadlock_witness:
  "credit link_one = 0
    \<and> \<not> (ch_queue (tx_frame (lk_a link_one)) = [] \<and> rx_queue link_one = [] \<and> ch_queue (tx_frame (lk_b link_one)) = [])"
proof -
  have "credit link_one = 0" by code_simp
  with flow_no_deadlock [OF link_one_reach] show ?thesis by simp
qed


end
