(* ===== verification/Copy_Bidirectional.thy ===== *)
theory Copy_Bidirectional
  imports Mux_Lifecycle
begin

text \<open>
  \<open>CopyBidirectional\<close> of \<open>src/src/mux/stream.rs\<close>: the future that copies between a \<open>MuxStream\<close> and any other
  stream. The other side is a parameter: the dictionary \<open>rw\<close> of its \<open>AsyncBufRead\<close> and \<open>AsyncWrite\<close>
  methods. The two loops take fuel; \<open>None\<close> means that it ran out while the loop was still running.
  What is relied on of the other side is its documented contract, \<open>write_contract\<close>.
\<close>

section \<open>The other side\<close>

record 'o rw =
  rw_fill_buf :: "'o \<Rightarrow> 'o \<times> (io_error, bytes) outcome poll"
  rw_consume :: "nat \<Rightarrow> 'o \<Rightarrow> 'o"
  rw_write :: "bytes \<Rightarrow> 'o \<Rightarrow> 'o \<times> (io_error, nat) outcome poll"
  rw_flush :: "'o \<Rightarrow> 'o \<times> (io_error, unit) outcome poll"
  rw_shutdown :: "'o \<Rightarrow> 'o \<times> (io_error, unit) outcome poll"

datatype read_state = RTransferring u64 | RShuttingDown u64 | RDone u64
datatype write_state = WTransferring u64 | WDone u64

record 'o copy_bidirectional =
  cb_us :: mux_stream
  cb_other :: 'o
  cb_read :: read_state
  cb_write :: write_state
  cb_mux :: mux

definition into_copy_bidirectional_with_buf :: "mux_stream \<Rightarrow> 'o \<Rightarrow> mux \<Rightarrow> 'o copy_bidirectional" where
  "into_copy_bidirectional_with_buf s other m =
     \<lparr>cb_us = s, cb_other = other, cb_read = RTransferring 0, cb_write = WTransferring 0, cb_mux = m\<rparr>"

section \<open>From the stream to the other side\<close>

text \<open>\<open>ready!(self.other.poll_shutdown(cx))?\<close>, then done.\<close>

definition shut_other :: "'o rw \<Rightarrow> u64 \<Rightarrow> 'o copy_bidirectional \<Rightarrow> 'o copy_bidirectional \<times> (io_error, u64) outcome poll" where
  "shut_other rw n c = (case rw_shutdown rw (cb_other c) of
       (o', Pending) \<Rightarrow> (c\<lparr>cb_other := o'\<rparr>, Pending)
     | (o', Ready (Err e)) \<Rightarrow> (c\<lparr>cb_other := o'\<rparr>, Ready (Err e))
     | (o', Ready Panic) \<Rightarrow> (c\<lparr>cb_other := o'\<rparr>, Ready Panic)
     | (o', Ready (Ok _)) \<Rightarrow> (c\<lparr>cb_other := o', cb_read := RDone n\<rparr>, Ready (Ok n)))"

fun read_loop :: "'o rw \<Rightarrow> nat \<Rightarrow> u64 \<Rightarrow> 'o copy_bidirectional
    \<Rightarrow> ('o copy_bidirectional \<times> (io_error, u64) outcome poll) option" where
  "read_loop rw 0 n c = None"
| "read_loop rw (Suc fuel) n c = (case poll_fill_buf (cb_us c) (cb_mux c) of
       (us, m, Pending) \<Rightarrow> Some (c\<lparr>cb_us := us, cb_mux := m\<rparr>, Pending)
     | (us, m, Ready (Err e)) \<Rightarrow> Some (c\<lparr>cb_us := us, cb_mux := m\<rparr>, Ready (Err e))
     | (us, m, Ready Panic) \<Rightarrow> Some (c\<lparr>cb_us := us, cb_mux := m\<rparr>, Ready Panic)
     | (us, m, Ready (Ok new_buf)) \<Rightarrow>
         if new_buf = [] then Some (shut_other rw n (c\<lparr>cb_us := us, cb_mux := m, cb_read := RShuttingDown n\<rparr>))
         else (case rw_write rw new_buf (cb_other c) of
             (o', Pending) \<Rightarrow> Some (c\<lparr>cb_us := us, cb_mux := m, cb_other := o'\<rparr>, Pending)
           | (o', Ready (Err e)) \<Rightarrow> Some (c\<lparr>cb_us := us, cb_mux := m, cb_other := o'\<rparr>, Ready (Err e))
           | (o', Ready Panic) \<Rightarrow> Some (c\<lparr>cb_us := us, cb_mux := m, cb_other := o'\<rparr>, Ready Panic)
           | (o', Ready (Ok processed)) \<Rightarrow>
               (case consume processed us of
                  Ok us' \<Rightarrow> let n' = n + word_of_nat processed
                    in read_loop rw fuel n' (c\<lparr>cb_us := us', cb_mux := m, cb_other := o', cb_read := RTransferring n'\<rparr>)
                | Err e \<Rightarrow> Some (c\<lparr>cb_us := us, cb_mux := m, cb_other := o'\<rparr>, Ready (Err e))
                | Panic \<Rightarrow> Some (c\<lparr>cb_us := us, cb_mux := m, cb_other := o'\<rparr>, Ready Panic))))"

definition poll_read_us :: "'o rw \<Rightarrow> nat \<Rightarrow> 'o copy_bidirectional
    \<Rightarrow> ('o copy_bidirectional \<times> (io_error, u64) outcome poll) option" where
  "poll_read_us rw fuel c = (case cb_read c of
       RTransferring n \<Rightarrow> read_loop rw fuel n c
     | RShuttingDown n \<Rightarrow> Some (shut_other rw n c)
     | RDone n \<Rightarrow> Some (c, Ready (Ok n)))"

section \<open>From the other side to the stream\<close>

definition end_write :: "u64 \<Rightarrow> 'o copy_bidirectional \<Rightarrow> 'o copy_bidirectional \<times> (io_error, u64) outcome poll" where
  "end_write n c = (case shutdown_inner (cb_us c) (cb_mux c) of
       (m, Ok _) \<Rightarrow> (c\<lparr>cb_mux := m, cb_write := WDone n\<rparr>, Ready (Ok n))
     | (m, Err e) \<Rightarrow> (c\<lparr>cb_mux := m\<rparr>, Ready (Err e))
     | (m, Panic) \<Rightarrow> (c\<lparr>cb_mux := m\<rparr>, Ready Panic))"

definition flush_other :: "'o rw \<Rightarrow> 'o copy_bidirectional \<Rightarrow> 'o copy_bidirectional \<times> (io_error, u64) outcome poll" where
  "flush_other rw c = (case rw_flush rw (cb_other c) of
       (o', Ready (Err e)) \<Rightarrow> (c\<lparr>cb_other := o'\<rparr>, Ready (Err e))
     | (o', Ready Panic) \<Rightarrow> (c\<lparr>cb_other := o'\<rparr>, Ready Panic)
     | (o', _) \<Rightarrow> (c\<lparr>cb_other := o'\<rparr>, Pending))"

fun write_loop :: "'o rw \<Rightarrow> nat \<Rightarrow> nat \<Rightarrow> u64 \<Rightarrow> 'o copy_bidirectional
    \<Rightarrow> ('o copy_bidirectional \<times> (io_error, u64) outcome poll) option" where
  "write_loop rw w 0 n c = None"
| "write_loop rw w (Suc fuel) n c = (case rw_fill_buf rw (cb_other c) of
       (o', Pending) \<Rightarrow> Some (flush_other rw (c\<lparr>cb_other := o'\<rparr>))
     | (o', Ready (Err e)) \<Rightarrow> Some (c\<lparr>cb_other := o'\<rparr>, Ready (Err e))
     | (o', Ready Panic) \<Rightarrow> Some (c\<lparr>cb_other := o'\<rparr>, Ready Panic)
     | (o', Ready (Ok new_buf)) \<Rightarrow>
         if new_buf = [] then Some (end_write n (c\<lparr>cb_other := o'\<rparr>))
         else (case poll_write w new_buf (cb_us c) (cb_mux c) of
             (m, Pending) \<Rightarrow> Some (c\<lparr>cb_other := o', cb_mux := m\<rparr>, Pending)
           | (m, Ready (Err e)) \<Rightarrow> Some (c\<lparr>cb_other := o', cb_mux := m\<rparr>, Ready (Err e))
           | (m, Ready Panic) \<Rightarrow> Some (c\<lparr>cb_other := o', cb_mux := m\<rparr>, Ready Panic)
           | (m, Ready (Ok processed)) \<Rightarrow>
               let n' = n + word_of_nat processed
               in write_loop rw w fuel n' (c\<lparr>cb_other := rw_consume rw processed o', cb_mux := m, cb_write := WTransferring n'\<rparr>)))"

definition poll_write_us :: "'o rw \<Rightarrow> nat \<Rightarrow> nat \<Rightarrow> 'o copy_bidirectional
    \<Rightarrow> ('o copy_bidirectional \<times> (io_error, u64) outcome poll) option" where
  "poll_write_us rw w fuel c = (case cb_write c of
       WTransferring n \<Rightarrow> write_loop rw w fuel n c
     | WDone n \<Rightarrow> Some (c, Ready (Ok n)))"

text \<open>\<open>Future::poll\<close>: both directions are polled; then \<open>ready!(r)?\<close> before \<open>ready!(w)?\<close>.\<close>

definition copy_poll :: "'o rw \<Rightarrow> nat \<Rightarrow> nat \<Rightarrow> 'o copy_bidirectional
    \<Rightarrow> ('o copy_bidirectional \<times> (io_error, u64 \<times> u64) outcome poll) option" where
  "copy_poll rw w fuel c = (case poll_read_us rw fuel c of
       None \<Rightarrow> None
     | Some (c, r) \<Rightarrow> (case poll_write_us rw w fuel c of
           None \<Rightarrow> None
         | Some (c, wr) \<Rightarrow> Some (c, (case r of
               Pending \<Rightarrow> Pending
             | Ready (Err e) \<Rightarrow> Ready (Err e)
             | Ready Panic \<Rightarrow> Ready Panic
             | Ready (Ok a) \<Rightarrow> (case wr of
                   Pending \<Rightarrow> Pending
                 | Ready (Err e) \<Rightarrow> Ready (Err e)
                 | Ready Panic \<Rightarrow> Ready Panic
                 | Ready (Ok b) \<Rightarrow> Ready (Ok (a, b)))))))"

section \<open>What the loops do\<close>

text \<open>
  The contract of \<open>AsyncWrite::poll_write\<close> on a non-empty buffer: it accepts at least one octet and at most
  what it was given, the accepted octets go behind those accepted before, and a call that is
  pending or fails accepts nothing. \<open>sink\<close> gives the octets accepted so far.
\<close>

definition accepts :: "('o \<Rightarrow> bytes) \<Rightarrow> 'o \<Rightarrow> bytes \<Rightarrow> 'o \<times> (io_error, nat) outcome poll \<Rightarrow> bool" where
  "accepts sink x data res = (case snd res of
       Ready (Ok k) \<Rightarrow> 1 \<le> k \<and> k \<le> length data \<and> sink (fst res) = sink x @ take k data
     | Ready (Err e) \<Rightarrow> sink (fst res) = sink x
     | Ready Panic \<Rightarrow> False
     | Pending \<Rightarrow> sink (fst res) = sink x)"

definition write_contract :: "'o rw \<Rightarrow> ('o \<Rightarrow> bytes) \<Rightarrow> bool" where
  "write_contract rw sink \<longleftrightarrow> (\<forall>data x. data \<noteq> [] \<longrightarrow>
     accepts sink x data (rw_write rw data x))
   \<and> (\<forall>x. sink (fst (rw_shutdown rw x)) = sink x \<and> snd (rw_shutdown rw x) \<noteq> Ready Panic)"

lemma has_cell_fill [simp]: "has_cell (fst (snd (poll_fill_buf s m))) t = has_cell m t"
  by (auto simp: poll_fill_buf_def has_cell_def increment_psh_recvd_since_def Let_def case_prod_beta
    split: poll.split option.split)

primrec read_total :: "read_state \<Rightarrow> u64" where
  "read_total (RTransferring n) = n"
| "read_total (RShuttingDown n) = n"
| "read_total (RDone n) = n"

text \<open>What a poll of the reading direction has moved from the stream to the other side.\<close>

definition moved :: "('o \<Rightarrow> bytes) \<Rightarrow> 'o copy_bidirectional \<Rightarrow> 'o copy_bidirectional \<Rightarrow> bytes \<Rightarrow> bool" where
  "moved sink c c' bs \<longleftrightarrow> sink (cb_other c') = sink (cb_other c) @ bs
     \<and> unread (cb_us c) (cb_mux c) = bs @ unread (cb_us c') (cb_mux c')
     \<and> read_total (cb_read c') = read_total (cb_read c) + word_of_nat (length bs)"

lemma moved_trans:
  "moved sink c c1 xs \<Longrightarrow> moved sink c1 c2 ys \<Longrightarrow> moved sink c c2 (xs @ ys)"
  by (simp add: moved_def add.assoc)

lemma shut_other_moved:
  assumes "write_contract rw sink" and "unread (cb_us c1) (cb_mux c1) = unread (cb_us c) (cb_mux c)"
    and "cb_other c1 = cb_other c" and "read_total (cb_read c) = n" and "cb_read c1 = RShuttingDown n"
  shows "moved sink c (fst (shut_other rw n c1)) [] \<and> snd (shut_other rw n c1) \<noteq> Ready Panic"
  using assms
  by (auto simp: shut_other_def moved_def write_contract_def case_prod_beta split: poll.split outcome.split)

text \<open>One iteration either ends the poll having moved nothing, or moves some octets and goes on.\<close>

lemma read_iteration:
  assumes "write_contract rw sink" and "has_cell (cb_mux c) (cb_us c)" and "cb_read c = RTransferring n"
  shows "(\<exists>c' r. read_loop rw (Suc fuel) n c = Some (c', r) \<and> r \<noteq> Ready Panic \<and> moved sink c c' [])
    \<or> (\<exists>c' n' bs. bs \<noteq> [] \<and> read_loop rw (Suc fuel) n c = read_loop rw fuel n' c' \<and> moved sink c c' bs
        \<and> has_cell (cb_mux c') (cb_us c') \<and> cb_read c' = RTransferring n')"
proof -
  obtain us m r where fb: "poll_fill_buf (cb_us c) (cb_mux c) = (us, m, r)" by (metis prod_cases3)
  note fbc = poll_fill_buf_cases [OF assms(2), unfolded fb, simplified]
  have hc: "has_cell m t = has_cell (cb_mux c) t" for t using has_cell_fill [of "cb_us c" "cb_mux c" t] fb by simp
  have "(\<exists>c' r. read_loop rw (Suc fuel) n c = Some (c', r) \<and> r \<noteq> Ready Panic \<and> moved sink c c' [])"
    if "r = Pending" using that fb fbc by (auto simp: moved_def)
  moreover have ?thesis if got: "r = Ready (Ok got)" for got
  proof -
    from got fbc have us: "got = ms_buf us" "ms_cell us = ms_cell (cb_us c)" "unread us m = unread (cb_us c) (cb_mux c)"
      by simp_all
    consider (eof) "got = []" | (data) o' wr where "got \<noteq> []" "rw_write rw got (cb_other c) = (o', wr)" by fastforce
    then show ?thesis
    proof cases
      case eof
      let ?c = "c\<lparr>cb_us := us, cb_mux := m, cb_read := RShuttingDown n\<rparr>"
      have "moved sink c (fst (shut_other rw n ?c)) [] \<and> snd (shut_other rw n ?c) \<noteq> Ready Panic"
        using us assms(1,3) by (intro shut_other_moved) simp_all
      with eof fb got show ?thesis by (cases "shut_other rw n ?c") auto
    next
      case data
      have wc: "accepts sink (cb_other c) got (o', wr)"
        using assms(1) data(1) by (simp add: write_contract_def flip: data(2))
      show ?thesis
      proof (cases "\<exists>k. wr = Ready (Ok k)")
        case True
        then obtain k where k: "wr = Ready (Ok k)" by blast
        with wc have kb: "1 \<le> k" "k \<le> length got" "sink o' = sink (cb_other c) @ take k got"
          by (simp_all add: accepts_def)
        let ?us = "us\<lparr>ms_buf := drop k (ms_buf us)\<rparr>" and ?n = "n + word_of_nat k"
        let ?c = "c\<lparr>cb_us := ?us, cb_mux := m, cb_other := o', cb_read := RTransferring ?n\<rparr>"
        have "unread (cb_us c) (cb_mux c) = take k got @ unread ?us m"
          unfolding us(3) [symmetric] us(1) by (simp add: unread_def flip: append_assoc)
        then have "moved sink c ?c (take k got)" using kb assms(3) by (simp add: moved_def min_absorb2)
        moreover have "has_cell m ?us" using hc assms(2) us(2) by (simp add: has_cell_def)
        moreover have "take k got \<noteq> []" using kb data(1) by auto
        moreover have "read_loop rw (Suc fuel) n c = read_loop rw fuel ?n ?c"
          using fb got data k kb us by (simp add: consume_def Let_def)
        ultimately show ?thesis by (intro disjI2 exI [of _ ?c] exI [of _ ?n] exI [of _ "take k got"]) simp
      qed (use wc fb got data us in \<open>auto simp: moved_def accepts_def split: poll.splits outcome.splits\<close>)
    qed
  qed
  moreover have "r = Pending \<or> (\<exists>got. r = Ready (Ok got))"
    using fbc by (cases r) (auto split: outcome.splits)
  ultimately show ?thesis by blast
qed

lemma read_loop_moves:
  assumes "write_contract rw sink" and "has_cell (cb_mux c) (cb_us c)"
    and "length (unread (cb_us c) (cb_mux c)) < fuel" and "cb_read c = RTransferring n"
  shows "\<exists>c' r bs. read_loop rw fuel n c = Some (c', r) \<and> r \<noteq> Ready Panic \<and> moved sink c c' bs"
  using assms(2-)
proof (induction fuel arbitrary: n c)
  case (Suc fuel)
  from read_iteration [OF assms(1) Suc.prems(1,3), of fuel] show ?case
  proof
    assume "\<exists>c' n' bs. bs \<noteq> [] \<and> read_loop rw (Suc fuel) n c = read_loop rw fuel n' c' \<and> moved sink c c' bs
        \<and> has_cell (cb_mux c') (cb_us c') \<and> cb_read c' = RTransferring n'"
    then obtain c1 n1 bs where c1: "bs \<noteq> []" "read_loop rw (Suc fuel) n c = read_loop rw fuel n1 c1"
      "moved sink c c1 bs" "has_cell (cb_mux c1) (cb_us c1)" "cb_read c1 = RTransferring n1" by blast
    have "length (unread (cb_us c) (cb_mux c)) = length bs + length (unread (cb_us c1) (cb_mux c1))"
      using c1(3) by (simp add: moved_def)
    moreover have "0 < length bs" using c1(1) by simp
    ultimately have "length (unread (cb_us c1) (cb_mux c1)) < fuel" using Suc.prems(2) by linarith
    with Suc.IH c1(4,5) obtain c' r bs' where "read_loop rw fuel n1 c1 = Some (c', r)" "r \<noteq> Ready Panic"
      "moved sink c1 c' bs'" by blast
    with c1(2) moved_trans [OF c1(3)] show ?thesis by (metis (no_types))
  qed blast
qed simp

text \<open>
  Copying from the stream: when the other side keeps the contract of \<open>AsyncWrite\<close>, a poll of the
  reading direction returns, after at most as many iterations as there are unread octets plus
  one, without a panic; the octets it hands to the other side are exactly the next unread
  ones, in order, none lost and none twice; and the count it keeps grows by their number.
\<close>

lemma poll_read_us_moves:
  assumes "write_contract rw sink" and "has_cell (cb_mux c) (cb_us c)"
    and "length (unread (cb_us c) (cb_mux c)) < fuel"
  shows "\<exists>c' r bs. poll_read_us rw fuel c = Some (c', r) \<and> r \<noteq> Ready Panic \<and> moved sink c c' bs"
proof (cases "cb_read c")
  case (RTransferring n)
  with read_loop_moves [OF assms] show ?thesis by (simp add: poll_read_us_def)
next
  case (RShuttingDown n)
  with shut_other_moved [OF assms(1) refl refl, of c n] show ?thesis
    by (cases "shut_other rw n c") (auto simp: poll_read_us_def)
next
  case (RDone n)
  then show ?thesis by (auto simp: poll_read_us_def moved_def intro!: exI [of _ "[]"])
qed

text \<open>A sink that takes one octet at a time, for the examples.\<close>

definition slow_sink :: "bytes rw" where
  "slow_sink = \<lparr>rw_fill_buf = (\<lambda>x. (x, Pending)), rw_consume = (\<lambda>k x. x),
     rw_write = (\<lambda>data x. (x @ take 1 data, Ready (Ok 1))), rw_flush = (\<lambda>x. (x, Ready (Ok ()))),
     rw_shutdown = (\<lambda>x. (x, Ready (Ok ())))\<rparr>"

lemma slow_sink_contract: "write_contract slow_sink id"
  by (auto simp: write_contract_def slow_sink_def accepts_def Suc_le_eq)

text \<open>
  Copying to a side whose \<open>poll_write\<close> answers \<open>Ok(0)\<close> on a non-empty buffer never returns from the poll:
  the loop spins, whatever the number of iterations.
\<close>

theorem copy_write_zero_spins:
  assumes "ms_buf (cb_us c) \<noteq> []" and "\<And>data x. rw_write rw data x = (x, Ready (Ok 0))"
  shows "read_loop rw fuel n c = None"
  using assms(1)
proof (induction fuel arbitrary: n c)
  case (Suc fuel)
  then have "poll_fill_buf (cb_us c) (cb_mux c) = (cb_us c, cb_mux c, Ready (Ok (ms_buf (cb_us c))))"
    by (simp add: poll_fill_buf_def)
  with Suc assms(2) show ?case by (simp add: consume_def Let_def)
qed simp

theorem copy_write_zero_spins_witness:
  "read_loop (slow_sink\<lparr>rw_write := \<lambda>data x. (x, Ready (Ok 0))\<rparr>) 100 0
     (into_copy_bidirectional_with_buf (stream7\<lparr>ms_buf := [1]\<rparr>) [] mux2) = None"
  by (rule copy_write_zero_spins) (simp_all add: into_copy_bidirectional_with_buf_def)

end
