(* ===== verification/Copy_Properties.thy ===== *)
theory Copy_Properties
  imports Copy_Bidirectional
begin

text \<open>
  Copying in both directions: what one poll of the copying future takes from each side is what it gives to the other, in order, and
  the poll returns. The other side is any stream that keeps the contracts of \<open>AsyncWrite\<close> and \<open>AsyncBufRead\<close>.
\<close>

section \<open>The contract of the other side\<close>

text \<open>
  \<open>source\<close> gives the octets the other side has still to deliver: \<open>poll_fill_buf\<close> shows the next of them, and none only at the end;
  \<open>consume\<close> drops octets that were shown; nothing else changes them. Nothing but \<open>poll_write\<close> changes what was accepted.
\<close>

definition shows_next :: "'o rw \<Rightarrow> ('o \<Rightarrow> bytes) \<Rightarrow> 'o \<Rightarrow> (io_error, bytes) outcome poll \<Rightarrow> bool" where
  "shows_next rw source x res \<longleftrightarrow> (case res of
       Ready (Ok shown) \<Rightarrow> (\<exists>rest. source x = shown @ rest) \<and> (shown = [] \<longrightarrow> source x = [])
         \<and> source (rw_consume rw (length shown) x) = drop (length shown) (source x)
     | Ready Panic \<Rightarrow> False
     | _ \<Rightarrow> True)"

definition read_contract :: "'o rw \<Rightarrow> ('o \<Rightarrow> bytes) \<Rightarrow> ('o \<Rightarrow> bytes) \<Rightarrow> bool" where
  "read_contract rw sink source \<longleftrightarrow>
     (\<forall>x. source (fst (rw_fill_buf rw x)) = source x \<and> sink (fst (rw_fill_buf rw x)) = sink x
        \<and> shows_next rw source (fst (rw_fill_buf rw x)) (snd (rw_fill_buf rw x)))
   \<and> (\<forall>k x. sink (rw_consume rw k x) = sink x)
   \<and> (\<forall>x. source (fst (rw_flush rw x)) = source x \<and> sink (fst (rw_flush rw x)) = sink x \<and> snd (rw_flush rw x) \<noteq> Ready Panic)
   \<and> (\<forall>data x. source (fst (rw_write rw data x)) = source x)
   \<and> (\<forall>x. source (fst (rw_shutdown rw x)) = source x)"

lemma read_contract_fill:
  assumes "read_contract rw sink source" and "rw_fill_buf rw x = (x', res)"
  shows "source x' = source x" "sink x' = sink x" "shows_next rw source x' res"
proof -
  have "source (fst (rw_fill_buf rw x)) = source x \<and> sink (fst (rw_fill_buf rw x)) = sink x
        \<and> shows_next rw source (fst (rw_fill_buf rw x)) (snd (rw_fill_buf rw x))"
    using assms(1) unfolding read_contract_def by blast
  then show "source x' = source x" "sink x' = sink x" "shows_next rw source x' res" by (simp_all add: assms(2))
qed

lemma read_contract_flush:
  assumes "read_contract rw sink source" and "rw_flush rw x = (x', res)"
  shows "source x' = source x" "sink x' = sink x" "res \<noteq> Ready Panic"
proof -
  have "source (fst (rw_flush rw x)) = source x \<and> sink (fst (rw_flush rw x)) = sink x \<and> snd (rw_flush rw x) \<noteq> Ready Panic"
    using assms(1) unfolding read_contract_def by blast
  then show "source x' = source x" "sink x' = sink x" "res \<noteq> Ready Panic" by (simp_all add: assms(2))
qed

section \<open>The reading direction leaves the writing direction alone\<close>

definition credit_of :: "'o copy_bidirectional \<Rightarrow> u32" where
  "credit_of c = c_psh_send_remaining (cell (cb_mux c) (ms_cell (cb_us c)))"

text \<open>Only acknowledgements of flow \<open>i\<close> have been queued.\<close>

definition acked :: "u32 \<Rightarrow> mux \<Rightarrow> mux \<Rightarrow> bool" where
  "acked i m m' \<longleftrightarrow> (\<exists>ns. replies m m' (map (\<lambda>n. fin (new_acknowledge i n)) ns))"

lemma acked_same: "tx_frame m' = tx_frame m \<Longrightarrow> acked i m m'"
  unfolding acked_def by (rule exI [of _ "[]"]) (simp add: replies_def)

lemma acked_ack: "acked i m (queue_frame (new_acknowledge i n) m)"
proof (cases "ch_rx_open (tx_frame m)")
  case True
  then show ?thesis unfolding acked_def by (intro exI [of _ "[n]"]) (simp add: replies_def)
qed (simp add: acked_same)

lemma acked_trans: "acked i m m1 \<Longrightarrow> acked i m1 m2 \<Longrightarrow> acked i m m2"
proof -
  assume "acked i m m1" "acked i m1 m2"
  then obtain ns1 ns2 where "replies m m1 (map (\<lambda>n. fin (new_acknowledge i n)) ns1)"
    "replies m1 m2 (map (\<lambda>n. fin (new_acknowledge i n)) ns2)" unfolding acked_def by blast
  then show ?thesis unfolding acked_def by (intro exI [of _ "ns1 @ ns2"]) (simp add: replies_def)
qed

definition keeps_writing :: "('o \<Rightarrow> bytes) \<Rightarrow> 'o copy_bidirectional \<Rightarrow> 'o copy_bidirectional \<Rightarrow> bool" where
  "keeps_writing source c c' \<longleftrightarrow>
     ms_flow_id (cb_us c') = ms_flow_id (cb_us c) \<and> ms_cell (cb_us c') = ms_cell (cb_us c)
   \<and> has_cell (cb_mux c') (cb_us c') = has_cell (cb_mux c) (cb_us c)
   \<and> cb_write c' = cb_write c \<and> credit_of c' = credit_of c \<and> source (cb_other c') = source (cb_other c)
   \<and> ch_rx_open (tx_frame (cb_mux c')) = ch_rx_open (tx_frame (cb_mux c))
   \<and> acked (ms_flow_id (cb_us c)) (cb_mux c) (cb_mux c')"

lemma keeps_writing_refl [simp]: "keeps_writing source c c"
  by (simp add: keeps_writing_def acked_same)

lemma keeps_writing_trans: "keeps_writing source c c1 \<Longrightarrow> keeps_writing source c1 c2 \<Longrightarrow> keeps_writing source c c2"
  unfolding keeps_writing_def using acked_trans by metis

lemma credit_upd_frames [simp]: "c_psh_send_remaining (cell (upd_frames a f m) b) = c_psh_send_remaining (cell m b)"
  by (cases "a < length (cells m)") (auto simp: cell_def upd_frames_def upd_cell_def nth_list_update list_update_beyond)

lemma cell_queue_frame [simp]: "cell (queue_frame f m) b = cell m b"
  by (simp add: cell_def)

lemma increment_keeps:
  assumes "increment_psh_recvd_since s m = (s', m')"
  shows "ms_flow_id s' = ms_flow_id s \<and> length (cells m') = length (cells m)
    \<and> c_psh_send_remaining (cell m' a) = c_psh_send_remaining (cell m a)
    \<and> ch_rx_open (tx_frame m') = ch_rx_open (tx_frame m)
    \<and> acked (ms_flow_id s) m m'"
  using assms
  by (auto simp: increment_psh_recvd_since_def Let_def acked_ack acked_same split: if_splits)

lemma fill_keeps:
  assumes "poll_fill_buf s m = (s', m', r)"
  shows "ms_flow_id s' = ms_flow_id s \<and> ms_cell s' = ms_cell s \<and> length (cells m') = length (cells m)
    \<and> c_psh_send_remaining (cell m' a) = c_psh_send_remaining (cell m a)
    \<and> ch_rx_open (tx_frame m') = ch_rx_open (tx_frame m)
    \<and> acked (ms_flow_id s) m m'"
proof (cases "ms_buf s = [] \<and> (\<exists>ch next. poll_recv (c_frames (cell m (ms_cell s))) = (ch, Ready (Some next)))")
  case True
  then obtain ch "next" where recv: "ms_buf s = []" "poll_recv (c_frames (cell m (ms_cell s))) = (ch, Ready (Some next))" by blast
  obtain s1 m1 where inc: "increment_psh_recvd_since (s\<lparr>ms_buf := next\<rparr>) (upd_frames (ms_cell s) (\<lambda>_. ch) m) = (s1, m1)"
    by fastforce
  have "ms_cell s1 = ms_cell s"
    using increment_fst(2) [of "s\<lparr>ms_buf := next\<rparr>" "upd_frames (ms_cell s) (\<lambda>_. ch) m"] inc by simp
  moreover have "acked (ms_flow_id s) m m1"
    using increment_keeps [OF inc] acked_trans [OF acked_same, of "upd_frames (ms_cell s) (\<lambda>_. ch) m" m _ m1] by simp
  ultimately show ?thesis
    using increment_keeps [OF inc, of a] recv inc assms by (simp add: poll_fill_buf_def)
next
  case False
  with assms show ?thesis
    by (auto simp: poll_fill_buf_def acked_same split: if_splits poll.splits option.splits prod.splits)
qed

lemma fill_keeps_writing:
  assumes "poll_fill_buf (cb_us c) (cb_mux c) = (us, m, r)"
    and "ms_flow_id (cb_us c') = ms_flow_id us" "ms_cell (cb_us c') = ms_cell us" "cb_mux c' = m" "cb_write c' = cb_write c"
      "source (cb_other c') = source (cb_other c)"
  shows "keeps_writing source c c'"
  using fill_keeps [OF assms(1)] assms(2-) by (simp add: keeps_writing_def credit_of_def has_cell_def)

lemma shut_other_keeps:
  assumes "read_contract rw sink source"
  shows "keeps_writing source c (fst (shut_other rw n c))"
  using assms
  by (auto simp: shut_other_def keeps_writing_def credit_of_def acked_same read_contract_def case_prod_beta
      split: poll.split outcome.split)

lemma read_loop_keeps:
  assumes "read_contract rw sink source" and "read_loop rw fuel n c = Some (c', r)"
  shows "keeps_writing source c c'"
  using assms(2)
proof (induction fuel arbitrary: n c)
  case (Suc fuel)
  obtain us m res where fill: "poll_fill_buf (cb_us c) (cb_mux c) = (us, m, res)" by (metis prod_cases3)
  note keeps = fill_keeps_writing [OF fill, of _ source]
  show ?case
  proof (cases "\<exists>got. res = Ready (Ok got)")
    case True
    then obtain got where got: "res = Ready (Ok got)" by blast
    show ?thesis
    proof (cases "got = []")
      case True
      let ?c = "c\<lparr>cb_us := us, cb_mux := m, cb_read := RShuttingDown n\<rparr>"
      have "c' = fst (shut_other rw n ?c)" using Suc.prems fill got True by simp
      with keeps_writing_trans [OF keeps shut_other_keeps [OF assms(1)], of ?c n] show ?thesis by simp
    next
      case False
      obtain o' wr where wrote: "rw_write rw got (cb_other c) = (o', wr)" by fastforce
      have src: "source o' = source (cb_other c)" using assms(1) wrote by (metis fst_conv read_contract_def)
      show ?thesis
      proof (cases "\<exists>k us'. wr = Ready (Ok k) \<and> consume k us = Ok us'")
        case True
        then obtain k us' where k: "wr = Ready (Ok k)" "consume k us = Ok us'" by blast
        let ?c = "c\<lparr>cb_us := us', cb_mux := m, cb_other := o', cb_read := RTransferring (n + word_of_nat k)\<rparr>"
        have "keeps_writing source c ?c" using k(2) src by (intro keeps) (auto simp: consume_def split: if_splits)
        moreover have "keeps_writing source ?c c'" using Suc.prems fill got False wrote k by (intro Suc.IH [of "n + word_of_nat k"]) (simp add: Let_def)
        ultimately show ?thesis by (rule keeps_writing_trans)
      next
        case stop: False
        with Suc.prems fill got False wrote have "c' = c\<lparr>cb_us := us, cb_mux := m, cb_other := o'\<rparr>"
          by (auto split: poll.splits outcome.splits)
        then show ?thesis using src by (intro keeps) simp_all
      qed
    qed
  next
    case False
    with Suc.prems fill have "c' = c\<lparr>cb_us := us, cb_mux := m\<rparr>" by (auto split: poll.splits outcome.splits)
    then show ?thesis by (intro keeps) simp_all
  qed
qed simp

lemma poll_read_us_keeps:
  assumes "read_contract rw sink source" and "poll_read_us rw fuel c = Some (c', r)"
  shows "keeps_writing source c c'"
  using assms(2) read_loop_keeps [OF assms(1)] shut_other_keeps [OF assms(1), of c]
  by (auto simp: poll_read_us_def split: read_state.splits) (metis fst_conv)

section \<open>The writing direction\<close>

primrec write_total :: "write_state \<Rightarrow> u64" where
  "write_total (WTransferring n) = n"
| "write_total (WDone n) = n"

text \<open>
  From \<open>c\<close> to \<open>c'\<close> the octets of \<open>chunks\<close> were taken from the other side and queued as one Push frame each, in this order, followed
  by the frames of \<open>tail\<close>; the reading direction is as it was.
\<close>

definition sent :: "('o \<Rightarrow> bytes) \<Rightarrow> ('o \<Rightarrow> bytes) \<Rightarrow> 'o copy_bidirectional \<Rightarrow> 'o copy_bidirectional \<Rightarrow> bytes list \<Rightarrow> frame list \<Rightarrow> bool" where
  "sent sink source c c' chunks tail \<longleftrightarrow>
     source (cb_other c) = concat chunks @ source (cb_other c')
   \<and> replies (cb_mux c) (cb_mux c') (map (\<lambda>d. fin (new_push (ms_flow_id (cb_us c)) d)) chunks @ map fin tail) \<and> [] \<notin> set chunks
   \<and> write_total (cb_write c') = write_total (cb_write c) + word_of_nat (length (concat chunks))
   \<and> cb_us c' = cb_us c \<and> cb_read c' = cb_read c \<and> sink (cb_other c') = sink (cb_other c)
   \<and> unread (cb_us c') (cb_mux c') = unread (cb_us c) (cb_mux c)"

lemma sent_trans:
  assumes "sent sink source c c1 chunks []" and "sent sink source c1 c2 chunks' tail"
  shows "sent sink source c c2 (chunks @ chunks') tail"
  using assms by (auto simp: sent_def replies_def add.assoc)

text \<open>A Finish is sent only behind everything the other side had.\<close>

definition tail_ok :: "('o \<Rightarrow> bytes) \<Rightarrow> 'o copy_bidirectional \<Rightarrow> frame list \<Rightarrow> bool" where
  "tail_ok source c tail \<longleftrightarrow> tail = [] \<or> tail = [new_finish (ms_flow_id (cb_us c))] \<and> source (cb_other c) = []"

lemma end_write_sent:
  assumes "has_cell (cb_mux c) (cb_us c)" and "cb_write c = WTransferring n" and "source (cb_other c) = []"
  shows "\<exists>c' r tail. end_write n c = (c', r) \<and> r \<noteq> Ready Panic \<and> sent sink source c c' [] tail \<and> tail_ok source c' tail"
proof (cases "c_finish_sent (cell (cb_mux c) (ms_cell (cb_us c))) \<or> \<not> ch_rx_open (tx_frame (cb_mux c))")
  case True
  with assms show ?thesis
    by (auto simp: end_write_def shutdown_inner_def Let_def tx_send_fin_eq sent_def replies_def unread_def tail_ok_def
        intro!: exI [of _ "[]"])
next
  case False
  with assms show ?thesis
    by (auto simp: end_write_def shutdown_inner_def Let_def tx_send_fin_eq sent_def replies_def unread_def tail_ok_def
        intro!: exI [of _ "[new_finish (ms_flow_id (cb_us c))]"])
qed

text \<open>With credit, an open stream and something to send, an iteration sends one frame.\<close>

lemma write_push:
  assumes contract: "read_contract rw sink source" and "has_cell (cb_mux c) (cb_us c)" and "cb_write c = WTransferring n"
    and fill: "rw_fill_buf rw (cb_other c) = (o', Ready (Ok d))" and "d \<noteq> []"
    and open_cell: "\<not> c_finish_sent (cell (cb_mux c) (ms_cell (cb_us c)))"
      "c_psh_send_remaining (cell (cb_mux c) (ms_cell (cb_us c))) \<noteq> 0" and tx: "ch_rx_open (tx_frame (cb_mux c))"
  shows "\<exists>c' n' d. write_loop rw w (Suc fuel) n c = write_loop rw w fuel n' c' \<and> sent sink source c c' [d] []
    \<and> has_cell (cb_mux c') (cb_us c') \<and> cb_write c' = WTransferring n' \<and> Suc (unat (credit_of c')) = unat (credit_of c)"
proof -
  let ?m = "queue_frame (new_push (ms_flow_id (cb_us c)) d)
    (upd_cell (ms_cell (cb_us c)) (\<lambda>x. x\<lparr>c_psh_send_remaining := c_psh_send_remaining x - 1\<rparr>) (cb_mux c))"
  let ?n = "n + word_of_nat (length d)"
  let ?c = "c\<lparr>cb_other := rw_consume rw (length d) o', cb_mux := ?m, cb_write := WTransferring ?n\<rparr>"
  note src = read_contract_fill [OF contract fill]
  obtain rest where rest: "source o' = d @ rest" "source (rw_consume rw (length d) o') = rest"
    using src(3) by (auto simp: shows_next_def)
  have "write_loop rw w (Suc fuel) n c = write_loop rw w fuel ?n ?c"
    using fill assms(5) open_cell tx by (simp add: poll_write_cases Let_def)
  moreover have "sent sink source c ?c [d] []"
    using rest src(1,2) assms(3,5) tx contract by (simp add: sent_def replies_def unread_def read_contract_def)
  moreover have "has_cell ?m (cb_us c)" using assms(2) by (simp add: has_cell_def)
  moreover have "Suc (unat (credit_of ?c)) = unat (credit_of c)"
    using open_cell(2) assms(2) unat_gt_0 [of "c_psh_send_remaining (cell (cb_mux c) (ms_cell (cb_us c)))"]
    by (simp add: credit_of_def cell_upd_cell has_cell_def unat_minus_one)
  ultimately show ?thesis by (intro exI [of _ ?c] exI [of _ ?n] exI [of _ d]) simp
qed

lemma write_iteration:
  assumes "read_contract rw sink source" and "has_cell (cb_mux c) (cb_us c)" and "cb_write c = WTransferring n"
  shows "(\<exists>c' r tail. write_loop rw w (Suc fuel) n c = Some (c', r) \<and> r \<noteq> Ready Panic
        \<and> sent sink source c c' [] tail \<and> tail_ok source c' tail)
    \<or> (\<exists>c' n' d. write_loop rw w (Suc fuel) n c = write_loop rw w fuel n' c' \<and> sent sink source c c' [d] []
        \<and> has_cell (cb_mux c') (cb_us c') \<and> cb_write c' = WTransferring n' \<and> Suc (unat (credit_of c')) = unat (credit_of c))"
proof -
  obtain o' res where fill: "rw_fill_buf rw (cb_other c) = (o', res)" by fastforce
  note src = read_contract_fill [OF assms(1) fill]
  let ?c = "c\<lparr>cb_other := o'\<rparr>" and ?a = "ms_cell (cb_us c)"
  have fwd: "sent sink source c c' chunks tail" if "sent sink source ?c c' chunks tail" for c' chunks tail
    using that src(1,2) by (auto simp: sent_def)
  consider (stop) "res = Pending \<or> (\<exists>e. res = Ready (Err e))" | (shown) d where "res = Ready (Ok d)"
    using src(3) by (cases res) (auto simp: shows_next_def split: outcome.splits)
  then show ?thesis
  proof cases
    case stop
    obtain o2 fr where "rw_flush rw o' = (o2, fr)" by fastforce
    with read_contract_flush [OF assms(1) this] fill src(1,2) assms(3) stop show ?thesis
      by (intro disjI1)
        (auto simp: sent_def replies_def tail_ok_def flush_other_def split: poll.split outcome.split intro!: exI [of _ "[]"])
  next
    case shown
    show ?thesis
    proof (cases "d = []")
      case True
      have "source o' = []" using src(3) shown True by (simp add: shows_next_def)
      with end_write_sent [of ?c n source sink] assms(2,3) fill shown True fwd show ?thesis by fastforce
    next
      case nonempty: False
      let ?cell = "cell (cb_mux c) ?a"
      consider (shut) "c_finish_sent ?cell" | (wait) "\<not> c_finish_sent ?cell" "c_psh_send_remaining ?cell = 0"
        | (closed) "\<not> c_finish_sent ?cell" "c_psh_send_remaining ?cell \<noteq> 0" "\<not> ch_rx_open (tx_frame (cb_mux c))"
        | (push) "\<not> c_finish_sent ?cell" "c_psh_send_remaining ?cell \<noteq> 0" "ch_rx_open (tx_frame (cb_mux c))" by blast
      then show ?thesis
      proof cases
        case push
        with write_push [OF assms, of o' d w fuel] fill shown nonempty show ?thesis by blast
      qed (use fill shown nonempty src(1,2) assms(3) in
          \<open>auto simp: poll_write_cases Let_def sent_def replies_def tail_ok_def unread_def register_waker_def intro!: exI [of _ "[]"]\<close>)
    qed
  qed
qed

lemma write_loop_sends:
  assumes "read_contract rw sink source" and "has_cell (cb_mux c) (cb_us c)"
    and "unat (credit_of c) < fuel" and "cb_write c = WTransferring n"
  shows "\<exists>c' r chunks tail. write_loop rw w fuel n c = Some (c', r) \<and> r \<noteq> Ready Panic
    \<and> sent sink source c c' chunks tail \<and> tail_ok source c' tail"
  using assms(2-)
proof (induction fuel arbitrary: n c)
  case (Suc fuel)
  from write_iteration [OF assms(1) Suc.prems(1,3), of w fuel] show ?case
  proof
    assume "\<exists>c' n' d. write_loop rw w (Suc fuel) n c = write_loop rw w fuel n' c' \<and> sent sink source c c' [d] []
        \<and> has_cell (cb_mux c') (cb_us c') \<and> cb_write c' = WTransferring n' \<and> Suc (unat (credit_of c')) = unat (credit_of c)"
    then obtain c1 n1 d where c1: "write_loop rw w (Suc fuel) n c = write_loop rw w fuel n1 c1" "sent sink source c c1 [d] []"
      "has_cell (cb_mux c1) (cb_us c1)" "cb_write c1 = WTransferring n1" "Suc (unat (credit_of c1)) = unat (credit_of c)" by blast
    with Suc.prems(2) Suc.IH [of c1 n1] obtain c' r chunks tail where "write_loop rw w fuel n1 c1 = Some (c', r)" "r \<noteq> Ready Panic"
      "sent sink source c1 c' chunks tail" "tail_ok source c' tail" by auto
    with c1(1) sent_trans [OF c1(2)] show ?thesis by (metis (no_types))
  qed (metis (no_types))
qed simp

lemma poll_write_us_sends:
  assumes "read_contract rw sink source" and "has_cell (cb_mux c) (cb_us c)" and "unat (credit_of c) < fuel"
  shows "\<exists>c' r chunks tail. poll_write_us rw w fuel c = Some (c', r) \<and> r \<noteq> Ready Panic
    \<and> sent sink source c c' chunks tail \<and> tail_ok source c' tail"
proof (cases "cb_write c")
  case (WTransferring n)
  with write_loop_sends [OF assms] show ?thesis by (simp add: poll_write_us_def)
next
  case (WDone n)
  then show ?thesis by (auto simp: poll_write_us_def sent_def replies_def tail_ok_def intro!: exI [of _ "[]"])
qed

section \<open>Properties\<close>

text \<open>
  C11: One poll of the copying future, with another side that keeps the contracts of \<open>AsyncWrite\<close> and \<open>AsyncBufRead\<close>, returns
  without a panic: the reading direction loops at most once more than there are unread octets, the writing direction at most once
  more than there is credit. The octets it writes to the other side are exactly the next unread ones of the stream. The octets it takes
  from the other side are exactly those of the Push frames it queues, in order, none of them empty, behind nothing but
  acknowledgements; a Finish is queued only behind all the octets the other side had. Both counts grow by what was moved.
\<close>

theorem copy_poll_exact:
  assumes "write_contract rw sink" and "read_contract rw sink source" and "has_cell (cb_mux c) (cb_us c)"
    and "length (unread (cb_us c) (cb_mux c)) < fuel" and "unat (credit_of c) < fuel"
  shows "\<exists>c' r bs ns chunks tail. copy_poll rw w fuel c = Some (c', r) \<and> r \<noteq> Ready Panic
    \<and> sink (cb_other c') = sink (cb_other c) @ bs
    \<and> unread (cb_us c) (cb_mux c) = bs @ unread (cb_us c') (cb_mux c')
    \<and> source (cb_other c) = concat chunks @ source (cb_other c') \<and> [] \<notin> set chunks
    \<and> replies (cb_mux c) (cb_mux c') (map (\<lambda>n. fin (new_acknowledge (ms_flow_id (cb_us c)) n)) ns
        @ map (\<lambda>d. fin (new_push (ms_flow_id (cb_us c)) d)) chunks @ map fin tail)
    \<and> (tail = [] \<or> tail = [new_finish (ms_flow_id (cb_us c))] \<and> source (cb_other c') = [])
    \<and> read_total (cb_read c') = read_total (cb_read c) + word_of_nat (length bs)
    \<and> write_total (cb_write c') = write_total (cb_write c) + word_of_nat (length (concat chunks))"
proof -
  obtain c1 r1 bs where read: "poll_read_us rw fuel c = Some (c1, r1)" "r1 \<noteq> Ready Panic" and moved: "moved sink c c1 bs"
    using poll_read_us_moves [OF assms(1,3)] assms(4) by blast
  have keeps: "keeps_writing source c c1" by (rule poll_read_us_keeps [OF assms(2) read(1)])
  then have "has_cell (cb_mux c1) (cb_us c1)" "unat (credit_of c1) < fuel"
    using assms(3,5) by (simp_all add: keeps_writing_def)
  from poll_write_us_sends [OF assms(2) this, of w] obtain c' r2 chunks tail where
    wrote: "poll_write_us rw w fuel c1 = Some (c', r2)" "r2 \<noteq> Ready Panic" and sent: "sent sink source c1 c' chunks tail"
      "tail_ok source c' tail" by blast
  obtain ns where "replies (cb_mux c) (cb_mux c1) (map (\<lambda>n. fin (new_acknowledge (ms_flow_id (cb_us c)) n)) ns)"
    using keeps by (auto simp: keeps_writing_def acked_def)
  moreover obtain r where "copy_poll rw w fuel c = Some (c', r)" "r \<noteq> Ready Panic"
    using read wrote by (auto simp: copy_poll_def split: poll.split outcome.split)
  ultimately show ?thesis
    using keeps moved sent
    by (intro exI [of _ c'] exI [of _ r] exI [of _ bs] exI [of _ ns] exI [of _ chunks] exI [of _ tail])
      (auto simp: keeps_writing_def moved_def sent_def tail_ok_def replies_def)
qed

text \<open>A peer that has its first component to deliver and collects what it is given in the second.\<close>

definition pipe :: "(bytes \<times> bytes) rw" where
  "pipe = \<lparr>rw_fill_buf = (\<lambda>x. (x, Ready (Ok (fst x)))), rw_consume = (\<lambda>k x. apfst (drop k) x),
     rw_write = (\<lambda>data x. (apsnd (\<lambda>s. s @ data) x, Ready (Ok (length data)))), rw_flush = (\<lambda>x. (x, Ready (Ok ()))),
     rw_shutdown = (\<lambda>x. (x, Ready (Ok ())))\<rparr>"

lemma pipe_contract: "write_contract pipe snd" "read_contract pipe snd fst"
  by (auto simp: write_contract_def read_contract_def accepts_def shows_next_def pipe_def Suc_le_eq)

theorem copy_poll_exact_witness:
  "\<exists>c' r. copy_poll pipe 0 20 (into_copy_bidirectional_with_buf stream7 ([1, 2, 3], []) mux2) = Some (c', r) \<and> r \<noteq> Ready Panic
    \<and> snd (cb_other c') @ unread (cb_us c') (cb_mux c') = unread stream7 mux2"
proof -
  let ?c = "into_copy_bidirectional_with_buf stream7 ([1, 2, 3] :: bytes, [] :: bytes) mux2"
  have "has_cell (cb_mux ?c) (cb_us ?c)" by code_simp
  moreover have "length (unread (cb_us ?c) (cb_mux ?c)) < 20" by code_simp
  moreover have "unat (credit_of ?c) < 20" by code_simp
  ultimately obtain c' r bs where "copy_poll pipe 0 20 ?c = Some (c', r)" "r \<noteq> Ready Panic" "snd (cb_other c') = snd (cb_other ?c) @ bs"
    "unread (cb_us ?c) (cb_mux ?c) = bs @ unread (cb_us c') (cb_mux c')"
    using copy_poll_exact [OF pipe_contract, of ?c 20 0] by blast
  then show ?thesis by (simp add: into_copy_bidirectional_with_buf_def)
qed

text \<open>
  An error of the writing direction is lost while the reading direction waits: \<open>ready!(r)?\<close> returns before the other result is
  looked at. The poll is pending although the other side has failed; the state of the writing direction, which would read from
  the failed side again, is kept, and no Finish is queued.
\<close>

theorem copy_error_dropped:
  assumes "poll_read_us rw fuel c = Some (c, Pending)" and "cb_write c = WTransferring n" and "0 < fuel"
    and "rw_fill_buf rw (cb_other c) = (o', Ready (Err e))"
  shows "copy_poll rw w fuel c = Some (c\<lparr>cb_other := o'\<rparr>, Pending)"
  using assms by (cases fuel) (simp_all add: copy_poll_def poll_write_us_def)

end
