(* ===== verification/Copy_Steps.thy ===== *)
theory Copy_Steps
  imports Copy_Properties
begin

text \<open>
  The copying future of \<open>Copy_Bidirectional\<close> in small steps. One poll of the future runs two loops; here each
  poll is shown to be a sequence of the operations the loops are made of: fetching a frame from the
  stream, giving octets to the other side, sending octets of the other side as a frame, and ending
  either direction. An invariant of a larger system that every one of these keeps is then kept by the
  future. \<open>sink\<close> and \<open>source\<close> are, as in the contracts, what the other side has accepted and what it still has to deliver.
\<close>

section \<open>The operations\<close>

inductive copy_step :: "('o \<Rightarrow> bytes) \<Rightarrow> ('o \<Rightarrow> bytes) \<Rightarrow> 'o copy_bidirectional \<Rightarrow> 'o copy_bidirectional \<Rightarrow> bool"
  for sink source where
  copy_fetch: "poll_fill_buf (cb_us c) (cb_mux c) = (us, m, r) \<Longrightarrow> copy_step sink source c (c\<lparr>cb_us := us, cb_mux := m\<rparr>)"
| copy_eof: "poll_fill_buf (cb_us c) (cb_mux c) = (us, m, Ready (Ok [])) \<Longrightarrow> cb_read c = RTransferring n
    \<Longrightarrow> copy_step sink source c (c\<lparr>cb_us := us, cb_mux := m, cb_read := RShuttingDown n\<rparr>)"
| copy_idle: "sink x = sink (cb_other c) \<Longrightarrow> source x = source (cb_other c) \<Longrightarrow> copy_step sink source c (c\<lparr>cb_other := x\<rparr>)"
| copy_read_done: "cb_read c = RShuttingDown n \<Longrightarrow> copy_step sink source c (c\<lparr>cb_read := RDone n\<rparr>)"
| copy_give: "1 \<le> k \<Longrightarrow> k \<le> length (ms_buf (cb_us c)) \<Longrightarrow> sink x = sink (cb_other c) @ take k (ms_buf (cb_us c))
    \<Longrightarrow> source x = source (cb_other c) \<Longrightarrow> cb_read c = RTransferring n
    \<Longrightarrow> copy_step sink source c (c\<lparr>cb_us := (cb_us c)\<lparr>ms_buf := drop k (ms_buf (cb_us c))\<rparr>, cb_other := x,
          cb_read := RTransferring (n + word_of_nat k)\<rparr>)"
| copy_push: "poll_write w d (cb_us c) (cb_mux c) = (m, Ready (Ok k)) \<Longrightarrow> d \<noteq> []
    \<Longrightarrow> source (cb_other c) = d @ source x \<Longrightarrow> sink x = sink (cb_other c) \<Longrightarrow> cb_write c = WTransferring n
    \<Longrightarrow> copy_step sink source c (c\<lparr>cb_other := x, cb_mux := m, cb_write := WTransferring (n + word_of_nat (length d))\<rparr>)"
| copy_blocked: "poll_write w d (cb_us c) (cb_mux c) = (m, r) \<Longrightarrow> \<not> (\<exists>k. r = Ready (Ok k))
    \<Longrightarrow> copy_step sink source c (c\<lparr>cb_mux := m\<rparr>)"
| copy_finish: "shutdown_inner (cb_us c) (cb_mux c) = (m, Ok ()) \<Longrightarrow> source (cb_other c) = [] \<Longrightarrow> cb_write c = WTransferring n
    \<Longrightarrow> copy_step sink source c (c\<lparr>cb_mux := m, cb_write := WDone n\<rparr>)"
| copy_unfinished: "shutdown_inner (cb_us c) (cb_mux c) = (m, r) \<Longrightarrow> source (cb_other c) = [] \<Longrightarrow> r \<noteq> Ok ()
    \<Longrightarrow> copy_step sink source c (c\<lparr>cb_mux := m\<rparr>)"

section \<open>A poll is a sequence of them\<close>

lemma step_star: "copy_step sink source c c' \<Longrightarrow> (copy_step sink source)\<^sup>*\<^sup>* c c'"
  by (rule r_into_rtranclp)

lemma shut_other_steps:
  assumes "write_contract rw sink" and "read_contract rw sink source" and "cb_read c = RShuttingDown n"
    and "shut_other rw n c = (c', r)"
  shows "(copy_step sink source)\<^sup>*\<^sup>* c c' \<and> (\<forall>k. r = Ready (Ok k) \<longrightarrow> cb_read c' = RDone k)"
proof -
  obtain x res where sh: "rw_shutdown rw (cb_other c) = (x, res)" by fastforce
  have same: "sink x = sink (cb_other c)" "source x = source (cb_other c)"
    using assms(1,2) sh by (auto simp: write_contract_def read_contract_def dest: spec [of _ "cb_other c"])
  have idle: "copy_step sink source c (c\<lparr>cb_other := x\<rparr>)" using same by (rule copy_idle)
  have "copy_step sink source (c\<lparr>cb_other := x\<rparr>) (c\<lparr>cb_other := x\<rparr>\<lparr>cb_read := RDone n\<rparr>)"
    using assms(3) by (intro copy_read_done) simp
  with idle have "(copy_step sink source)\<^sup>*\<^sup>* c (c\<lparr>cb_other := x, cb_read := RDone n\<rparr>)" by simp
  with assms(4) sh step_star [OF idle] show ?thesis
    by (auto simp: shut_other_def split: poll.splits outcome.splits)
qed

lemma read_loop_steps:
  assumes contract: "write_contract rw sink" "read_contract rw sink source"
  shows "read_loop rw fuel n c = Some (c', r) \<Longrightarrow> cb_read c = RTransferring n
    \<Longrightarrow> (copy_step sink source)\<^sup>*\<^sup>* c c' \<and> (\<forall>k. r = Ready (Ok k) \<longrightarrow> cb_read c' = RDone k)"
proof (induction fuel arbitrary: n c)
  case (Suc fuel)
  obtain us m res where fb: "poll_fill_buf (cb_us c) (cb_mux c) = (us, m, res)" by (metis prod_cases3)
  let ?c = "c\<lparr>cb_us := us, cb_mux := m\<rparr>"
  have fetch: "(copy_step sink source)\<^sup>*\<^sup>* c ?c" using copy_fetch [OF fb] by (rule step_star)
  consider (stop) "\<not> (\<exists>b. res = Ready (Ok b))" | (eof) "res = Ready (Ok [])"
    | (data) b x wr where "res = Ready (Ok b)" "b \<noteq> []" "rw_write rw b (cb_other c) = (x, wr)" by (metis surj_pair)
  then show ?case
  proof cases
    case stop
    with Suc.prems(1) fb fetch show ?thesis by (auto split: poll.splits outcome.splits)
  next
    case eof
    let ?d = "c\<lparr>cb_us := us, cb_mux := m, cb_read := RShuttingDown n\<rparr>"
    have "copy_step sink source c ?d" using fb eof Suc.prems(2) by (auto intro: copy_eof)
    moreover have "shut_other rw n ?d = (c', r)" using Suc.prems(1) fb eof by simp
    ultimately show ?thesis using shut_other_steps [OF contract, of ?d n c' r]
      by (auto intro: converse_rtranclp_into_rtranclp)
  next
    case data
    have b: "b = ms_buf us" using fb data(1) by (auto simp: poll_fill_buf_def Let_def split: if_splits poll.splits option.splits prod.splits)
    have acc: "accepts sink (cb_other c) b (x, wr)"
      using contract(1) data(2) by (simp add: write_contract_def flip: data(3))
    have src: "source x = source (cb_other c)"
      using contract(2) unfolding read_contract_def by (metis data(3) fst_conv)
    show ?thesis
    proof (cases "\<exists>k. wr = Ready (Ok k)")
      case True
      then obtain k where k: "wr = Ready (Ok k)" by blast
      let ?n = "n + word_of_nat k"
      let ?d = "c\<lparr>cb_us := us\<lparr>ms_buf := drop k (ms_buf us)\<rparr>, cb_mux := m, cb_other := x, cb_read := RTransferring ?n\<rparr>"
      have d: "?d = ?c\<lparr>cb_us := (cb_us ?c)\<lparr>ms_buf := drop k (ms_buf (cb_us ?c))\<rparr>, cb_other := x, cb_read := RTransferring ?n\<rparr>"
        by (rule copy_bidirectional.equality) simp_all
      have "copy_step sink source ?c ?d"
        unfolding d using acc k b src Suc.prems(2) by (intro copy_give) (simp_all add: accepts_def)
      moreover have "read_loop rw fuel ?n ?d = Some (c', r)"
        using Suc.prems(1) fb data k acc b by (simp add: accepts_def consume_def Let_def)
      ultimately show ?thesis using Suc.IH [of ?n ?d] fetch
        by (simp del: rtranclp.rtrancl_refl) (meson converse_rtranclp_into_rtranclp rtranclp_trans)
    next
      case False
      then have "sink x = sink (cb_other c)" using acc by (auto simp: accepts_def split: poll.splits outcome.splits)
      with src have "copy_step sink source ?c (?c\<lparr>cb_other := x\<rparr>)" by (intro copy_idle) simp_all
      with fetch have "(copy_step sink source)\<^sup>*\<^sup>* c (?c\<lparr>cb_other := x\<rparr>)" by (rule rtranclp.rtrancl_into_rtrancl)
      with Suc.prems(1) fb data False show ?thesis by (auto split: poll.splits outcome.splits)
    qed
  qed
qed simp

lemma poll_read_us_steps:
  assumes "write_contract rw sink" and "read_contract rw sink source" and "poll_read_us rw fuel c = Some (c', r)"
  shows "(copy_step sink source)\<^sup>*\<^sup>* c c' \<and> (\<forall>k. r = Ready (Ok k) \<longrightarrow> cb_read c' = RDone k)"
proof (cases "cb_read c")
  case (RTransferring n)
  with assms(3) have "read_loop rw fuel n c = Some (c', r)" by (simp add: poll_read_us_def)
  then show ?thesis using RTransferring by (rule read_loop_steps [OF assms(1,2)])
next
  case (RShuttingDown n)
  with assms(3) have "shut_other rw n c = (c', r)" by (simp add: poll_read_us_def)
  with RShuttingDown show ?thesis by (rule shut_other_steps [OF assms(1,2)])
qed (use assms(3) in \<open>auto simp: poll_read_us_def\<close>)

lemma shows_next_cases: "shows_next rw source x res \<Longrightarrow> res = Pending \<or> (\<exists>e. res = Ready (Err e)) \<or> (\<exists>d. res = Ready (Ok d))"
  by (auto simp: shows_next_def split: poll.splits outcome.splits)

lemma flush_other_step:
  assumes "read_contract rw sink source" and "flush_other rw c = (c', r)"
  shows "copy_step sink source c c' \<and> cb_read c' = cb_read c \<and> \<not> (\<exists>k. r = Ready (Ok k))"
proof -
  obtain x fr where fl: "rw_flush rw (cb_other c) = (x, fr)" by fastforce
  have "copy_step sink source c (c\<lparr>cb_other := x\<rparr>)" using read_contract_flush [OF assms(1) fl] by (intro copy_idle) simp_all
  with assms(2) fl show ?thesis by (auto simp: flush_other_def split: poll.splits outcome.splits)
qed

lemma end_write_step:
  assumes "end_write n c = (c', r)" and "source (cb_other c) = []" and "cb_write c = WTransferring n"
  shows "copy_step sink source c c' \<and> cb_read c' = cb_read c \<and> (\<forall>k. r = Ready (Ok k) \<longrightarrow> cb_write c' = WDone k)"
proof -
  obtain m sr where sh: "shutdown_inner (cb_us c) (cb_mux c) = (m, sr)" by fastforce
  then have "copy_step sink source c (if sr = Ok () then c\<lparr>cb_mux := m, cb_write := WDone n\<rparr> else c\<lparr>cb_mux := m\<rparr>)"
    using assms(2,3) by (auto intro: copy_finish copy_unfinished)
  with assms(1) sh show ?thesis by (auto simp: end_write_def split: outcome.splits if_splits)
qed

lemma write_loop_steps:
  assumes contract: "read_contract rw sink source"
  shows "write_loop rw w fuel n c = Some (c', r) \<Longrightarrow> cb_write c = WTransferring n
    \<Longrightarrow> (copy_step sink source)\<^sup>*\<^sup>* c c' \<and> cb_read c' = cb_read c \<and> (\<forall>k. r = Ready (Ok k) \<longrightarrow> cb_write c' = WDone k)"
proof (induction fuel arbitrary: n c)
  case (Suc fuel)
  obtain x res where fill: "rw_fill_buf rw (cb_other c) = (x, res)" by fastforce
  note src = read_contract_fill [OF contract fill]
  let ?c = "c\<lparr>cb_other := x\<rparr>"
  have fetch: "(copy_step sink source)\<^sup>*\<^sup>* c ?c" using src(2,1) by (intro step_star copy_idle)
  consider (pend) "res = Pending" | (err) "\<exists>e. res = Ready (Err e)" | (eof) "res = Ready (Ok [])"
    | (data) d m wr where "res = Ready (Ok d)" "d \<noteq> []" "poll_write w d (cb_us c) (cb_mux c) = (m, wr)"
    using shows_next_cases [OF src(3)] by (metis surj_pair)
  then show ?case
  proof cases
    case pend
    with Suc.prems(1) fill have "flush_other rw ?c = (c', r)" by simp
    from flush_other_step [OF contract this] fetch show ?thesis by (auto intro: rtranclp.rtrancl_into_rtrancl)
  next
    case err
    with Suc.prems(1) fill fetch show ?thesis by auto
  next
    case eof
    with Suc.prems(1) fill have "end_write n ?c = (c', r)" by simp
    moreover have "source (cb_other ?c) = []" using src(3) eof by (simp add: shows_next_def)
    ultimately show ?thesis using end_write_step [of n ?c c' r source sink] Suc.prems(2) fetch by (auto intro: rtranclp.rtrancl_into_rtrancl)
  next
    case data
    show ?thesis
    proof (cases "\<exists>k. wr = Ready (Ok k)")
      case True
      then obtain k where k: "wr = Ready (Ok k)" by blast
      then have len: "k = length d"
        using data(3) by (auto simp: poll_write_cases Let_def split: if_splits)
      let ?n = "n + word_of_nat (length d)"
      let ?d = "?c\<lparr>cb_other := rw_consume rw (length d) x, cb_mux := m, cb_write := WTransferring ?n\<rparr>"
      have "copy_step sink source ?c ?d"
        using data k src Suc.prems(2) contract
        by (intro copy_push [where k = k]) (auto simp: shows_next_def read_contract_def)
      moreover have "write_loop rw w fuel ?n ?d = Some (c', r)"
        using Suc.prems(1) fill data k len by (simp add: Let_def)
      ultimately show ?thesis using Suc.IH [of ?n ?d] fetch
        by (simp del: rtranclp.rtrancl_refl) (meson converse_rtranclp_into_rtranclp rtranclp_trans)
    next
      case False
      with data have "copy_step sink source ?c (?c\<lparr>cb_mux := m\<rparr>)" by (intro copy_blocked) auto
      with fetch have "(copy_step sink source)\<^sup>*\<^sup>* c (?c\<lparr>cb_mux := m\<rparr>)" by (rule rtranclp.rtrancl_into_rtrancl)
      with Suc.prems(1) fill data False show ?thesis by (auto split: poll.splits outcome.splits)
    qed
  qed
qed simp

lemma poll_write_us_steps:
  assumes "read_contract rw sink source" and "poll_write_us rw w fuel c = Some (c', r)"
  shows "(copy_step sink source)\<^sup>*\<^sup>* c c' \<and> cb_read c' = cb_read c \<and> (\<forall>k. r = Ready (Ok k) \<longrightarrow> cb_write c' = WDone k)"
proof (cases "cb_write c")
  case (WTransferring n)
  with assms(2) have "write_loop rw w fuel n c = Some (c', r)" by (simp add: poll_write_us_def)
  then show ?thesis using WTransferring by (rule write_loop_steps [OF assms(1)])
qed (use assms(2) in \<open>auto simp: poll_write_us_def\<close>)

lemma copy_poll_steps:
  assumes "write_contract rw sink" and "read_contract rw sink source" and "copy_poll rw w fuel c = Some (c', r)"
  shows "(copy_step sink source)\<^sup>*\<^sup>* c c' \<and> (\<forall>a b. r = Ready (Ok (a, b)) \<longrightarrow> cb_read c' = RDone a \<and> cb_write c' = WDone b)"
proof -
  from assms(3) obtain c1 r1 r2 where p: "poll_read_us rw fuel c = Some (c1, r1)" "poll_write_us rw w fuel c1 = Some (c', r2)"
    and r: "\<And>a b. r = Ready (Ok (a, b)) \<Longrightarrow> r1 = Ready (Ok a) \<and> r2 = Ready (Ok b)"
    by (auto simp: copy_poll_def split: option.splits prod.splits poll.splits outcome.splits)
  from poll_read_us_steps [OF assms(1,2) p(1)] poll_write_us_steps [OF assms(2) p(2)] r show ?thesis
    by (metis rtranclp_trans)
qed

end
