(* ===== verification/Relay.thy ===== *)
theory Relay
  imports Flow_Control Copy_Steps
begin

text \<open>
  A relayed connection from end to end: two multiplexors, one flow between them, and at each end the copying future between
  the flow's stream and another party (a local TCP connection at the client, the target at the server). Every step is an
  operation of the code: a poll of a future, the return of a future with the drop of its stream, the processing of a
  received frame, the closing of a dropped flow. Between them the parties and the other flows of
  both multiplexors do what they like. The invariant relates, in both directions, what one party sends and what the other is given.
\<close>

section \<open>The frames of one flow\<close>

text \<open>What an established flow has on the wire: \<open>Push\<close>, \<open>Acknowledge\<close>, \<open>Finish\<close> and \<open>Reset\<close>.\<close>

datatype signal = Data bytes | Credit u32 | Eof | Abort

primrec frame_of :: "u32 \<Rightarrow> signal \<Rightarrow> frame" where
  "frame_of i (Data d) = new_push i d"
| "frame_of i (Credit n) = new_acknowledge i n"
| "frame_of i Eof = new_finish i"
| "frame_of i Abort = new_reset i"

definition wire :: "u32 \<Rightarrow> signal \<Rightarrow> finalized_frame" where
  "wire i s = fin (frame_of i s)"

definition concerns :: "u32 \<Rightarrow> finalized_frame \<Rightarrow> bool" where
  "concerns i ff = (case frame_try_from (finalized_bytes ff) of Ok f \<Rightarrow> frame_id f = i | _ \<Rightarrow> False)"

definition flow_queue :: "u32 \<Rightarrow> mux \<Rightarrow> finalized_frame list" where
  "flow_queue i m = filter (concerns i) (ch_queue (tx_frame m))"

primrec datas :: "signal list \<Rightarrow> bytes list" where
  "datas [] = []"
| "datas (s # ss) = (case s of Data d \<Rightarrow> d # datas ss | _ \<Rightarrow> datas ss)"

primrec credits :: "signal list \<Rightarrow> u32 list" where
  "credits [] = []"
| "credits (s # ss) = (case s of Credit n \<Rightarrow> n # credits ss | _ \<Rightarrow> credits ss)"

text \<open>
  The order of the signals towards a reader: data before the end of file, none of it empty, and a \<open>Reset\<close> only behind
  the end of file and followed by nothing else. \<open>closed\<close>: the reader has already seen the end of file.
\<close>

primrec tidy :: "bool \<Rightarrow> signal list \<Rightarrow> bool" where
  "tidy closed [] = True"
| "tidy closed (s # ss) = (case s of
       Data d \<Rightarrow> \<not> closed \<and> d \<noteq> [] \<and> tidy closed ss
     | Credit n \<Rightarrow> tidy closed ss
     | Eof \<Rightarrow> \<not> closed \<and> tidy True ss
     | Abort \<Rightarrow> closed \<and> set ss \<subseteq> {Abort})"

lemma datas_append [simp]: "datas (ss @ ts) = datas ss @ datas ts"
  by (induction ss) (auto split: signal.split)

lemma credits_append [simp]: "credits (ss @ ts) = credits ss @ credits ts"
  by (induction ss) (auto split: signal.split)

lemma tidy_Data: "tidy b ss \<Longrightarrow> \<not> b \<Longrightarrow> Eof \<notin> set ss \<Longrightarrow> d \<noteq> [] \<Longrightarrow> tidy b (ss @ [Data d])"
  by (induction ss arbitrary: b) (auto split: signal.splits)

lemma tidy_Eof: "tidy b ss \<Longrightarrow> \<not> b \<Longrightarrow> Eof \<notin> set ss \<Longrightarrow> tidy b (ss @ [Eof])"
  by (induction ss arbitrary: b) (auto split: signal.splits)

lemma tidy_Credit: "tidy b ss \<Longrightarrow> Abort \<notin> set ss \<Longrightarrow> tidy b (ss @ [Credit n])"
  by (induction ss arbitrary: b) (auto split: signal.splits)

lemma tidy_Abort: "tidy b ss \<Longrightarrow> b \<or> Eof \<in> set ss \<Longrightarrow> tidy b (ss @ [Abort])"
  by (induction ss arbitrary: b) (auto split: signal.splits)

lemma tidy_closed: "tidy True ss \<Longrightarrow> datas ss = [] \<and> Eof \<notin> set ss"
proof (induction ss)
  case (Cons s ss)
  moreover have "set ss \<subseteq> {Abort} \<Longrightarrow> datas ss = []" by (induction ss) auto
  ultimately show ?case by (auto split: signal.splits)
qed simp

lemma decode_wire [simp]: "frame_try_from (finalized_bytes (wire i s)) = Ok (own_frame (frame_of i s))"
  unfolding wire_def by (rule decode_fin) (cases s; simp)

lemma concerns_wire [simp]: "concerns i (wire j s) \<longleftrightarrow> j = i"
  by (cases s) (simp_all add: concerns_def)

lemma receive_wire:
  "receive (wire i (Data d)) m = recv_push i d m" "receive (wire i (Credit n)) m = fst (recv_ack i n m)"
  "receive (wire i Eof) m = recv_finish i m" "receive (wire i Abort) m = close_port i True m"
  by (simp_all add: receive_def process_message_def process_frame_def case_prod_beta apsnd_def split: outcome.split)

section \<open>The system\<close>

text \<open>A party with its contracts, everything it will ever send, and the receive window of its end of the flow.\<close>

record 'o party =
  py_rw :: "'o rw"
  py_sink :: "'o \<Rightarrow> bytes"
  py_source :: "'o \<Rightarrow> bytes"
  py_sends :: bytes
  py_window :: u32

definition party_ok :: "'o party \<Rightarrow> bool" where
  "party_ok p \<longleftrightarrow> write_contract (py_rw p) (py_sink p) \<and> read_contract (py_rw p) (py_sink p) (py_source p)"

text \<open>\<open>ep_result\<close> is what the future of this end returned; its stream has been dropped then.\<close>

record 'o endpoint =
  ep_copy :: "'o copy_bidirectional"
  ep_result :: "(u64 \<times> u64) option"

definition ep_mux :: "'o endpoint \<Rightarrow> mux" where
  "ep_mux x = cb_mux (ep_copy x)"

definition with_mux :: "mux \<Rightarrow> 'o endpoint \<Rightarrow> 'o endpoint" where
  "with_mux m x = x\<lparr>ep_copy := (ep_copy x)\<lparr>cb_mux := m\<rparr>\<rparr>"

text \<open>
  What the rest of a multiplexor may do to it while flow \<open>i\<close> (with its cell \<open>a\<close>) is open: anything that leaves this flow's slot,
  cell and queued frames alone and keeps the task running.
\<close>

definition others :: "u32 \<Rightarrow> nat \<Rightarrow> mux \<Rightarrow> mux \<Rightarrow> bool" where
  "others i a m m' \<longleftrightarrow> slot_of m' i = slot_of m i \<and> cell m' a = cell m a \<and> length (cells m) \<le> length (cells m')
     \<and> ch_rx_open (tx_frame m') = ch_rx_open (tx_frame m) \<and> flow_queue i m' = flow_queue i m
     \<and> (i \<in> set (ch_queue (dropped_ports m')) \<longrightarrow> i \<in> set (ch_queue (dropped_ports m)))"

inductive side_step :: "u32 \<Rightarrow> 'o party \<Rightarrow> 'o endpoint \<Rightarrow> 'o endpoint \<Rightarrow> bool" for i p where
  side_poll: "ep_result x = None \<Longrightarrow> copy_poll (py_rw p) w fuel (ep_copy x) = Some (c, Pending)
    \<Longrightarrow> side_step i p x (x\<lparr>ep_copy := c\<rparr>)"
| side_return: "ep_result x = None \<Longrightarrow> copy_poll (py_rw p) w fuel (ep_copy x) = Some (c, Ready (Ok t))
    \<Longrightarrow> side_step i p x (with_mux (drop_stream (cb_us c) (cb_mux c)) \<lparr>ep_copy = c, ep_result = Some t\<rparr>)"
| side_world: "py_sink p s = py_sink p (cb_other (ep_copy x)) \<Longrightarrow> py_source p s = py_source p (cb_other (ep_copy x))
    \<Longrightarrow> side_step i p x (x\<lparr>ep_copy := (ep_copy x)\<lparr>cb_other := s\<rparr>\<rparr>)"
| side_others: "others i (ms_cell (cb_us (ep_copy x))) (ep_mux x) m \<Longrightarrow> side_step i p x (with_mux m x)"
| side_close: "ch_queue (dropped_ports (ep_mux x)) = i # rest
    \<Longrightarrow> side_step i p x (with_mux (close_port i False
          ((ep_mux x)\<lparr>dropped_ports := (dropped_ports (ep_mux x))\<lparr>ch_queue := rest\<rparr>\<rparr>)) x)"

inductive transfer :: "u32 \<Rightarrow> 'o endpoint \<Rightarrow> 'q endpoint \<Rightarrow> 'o endpoint \<Rightarrow> 'q endpoint \<Rightarrow> bool" for i where
  transfer_frame: "ch_queue (tx_frame (ep_mux x)) = ff # ffs \<Longrightarrow> concerns i ff
    \<Longrightarrow> transfer i x y (with_mux (tx_rest ffs (ep_mux x)) x) (with_mux (receive ff (ep_mux y)) y)"

inductive relay_step :: "u32 \<Rightarrow> 'o party \<Rightarrow> 'q party \<Rightarrow> 'o endpoint \<times> 'q endpoint \<Rightarrow> 'o endpoint \<times> 'q endpoint \<Rightarrow> bool"
  for i p q where
  relay_left: "side_step i p x x' \<Longrightarrow> relay_step i p q (x, y) (x', y)"
| relay_right: "side_step i q y y' \<Longrightarrow> relay_step i p q (x, y) (x, y')"
| relay_to_right: "transfer i x y x' y' \<Longrightarrow> relay_step i p q (x, y) (x', y')"
| relay_to_left: "transfer i y x y' x' \<Longrightarrow> relay_step i p q (x, y) (x', y')"

section \<open>What the invariant speaks of\<close>

text \<open>An end as far as the flow is concerned.\<close>

record side_view =
  v_present :: bool
  v_closed :: bool
  v_shut :: bool
  v_credit :: u32
  v_queue :: "bytes list"
  v_buf :: bytes
  v_since :: u32
  v_threshold :: u32
  v_sink :: bytes
  v_source :: bytes
  v_read :: read_state
  v_write :: write_state
  v_result :: "(u64 \<times> u64) option"

definition view :: "'o party \<Rightarrow> 'o endpoint \<Rightarrow> side_view" where
  "view p x = (let c = ep_copy x; m = cb_mux c; s = cb_us c; ch = frames_at m (ms_cell s) in
     \<lparr>v_present = (slot_of m (ms_flow_id s) \<noteq> None), v_closed = (\<not> ch_tx_alive ch), v_shut = c_finish_sent (cell m (ms_cell s)),
      v_credit = c_psh_send_remaining (cell m (ms_cell s)), v_queue = ch_queue ch, v_buf = ms_buf s,
      v_since = ms_psh_recvd_since s, v_threshold = ms_rwnd_threshold s, v_sink = py_sink p (cb_other c), v_source = py_source p (cb_other c),
      v_read = cb_read c, v_write = cb_write c, v_result = ep_result x\<rparr>)"

definition side_ok :: "u32 \<Rightarrow> 'o party \<Rightarrow> 'o endpoint \<Rightarrow> bool" where
  "side_ok i p x \<longleftrightarrow> (let m = ep_mux x; s = cb_us (ep_copy x); a = ms_cell s; ch = frames_at m a in
     ms_flow_id s = i \<and> has_cell m s \<and> ch_cap ch = Some (unat (py_window p)) \<and> ch_rx_open (tx_frame m)
     \<and> (slot_of m i = None \<or> slot_of m i = Some (Established \<lparr>es_sender = (if ch_tx_alive ch then Some a else None), es_cell = a\<rparr>))
     \<and> (ch_tx_alive ch \<longrightarrow> ch_rx_open ch) \<and> (i \<in> set (ch_queue (dropped_ports m)) \<longrightarrow> ep_result x \<noteq> None))"

lemmas view_simps = view_def side_ok_def ep_mux_def with_mux_def Let_def has_cell_def

lemma flow_queue_simps [simp]:
  "ch_rx_open (tx_frame m) \<Longrightarrow> flow_queue i (queue_frame (new_push i d) m) = flow_queue i m @ [wire i (Data d)]"
  "ch_rx_open (tx_frame m) \<Longrightarrow> flow_queue i (queue_frame (new_acknowledge i n) m) = flow_queue i m @ [wire i (Credit n)]"
  "ch_rx_open (tx_frame m) \<Longrightarrow> flow_queue i (queue_frame (new_finish i) m) = flow_queue i m @ [wire i Eof]"
  "ch_rx_open (tx_frame m) \<Longrightarrow> flow_queue i (queue_frame (new_reset i) m) = flow_queue i m @ [wire i Abort]"
  "flow_queue i (upd_cell a f m) = flow_queue i m" "flow_queue i (upd_frames a g m) = flow_queue i m"
  "flow_queue i (wake a m) = flow_queue i m" "flow_queue i (flow_remove j m) = flow_queue i m"
  "flow_queue i (flow_insert j z m) = flow_queue i m" "flow_queue i (drop_stream s m) = flow_queue i m"
  "flow_queue i (m\<lparr>dropped_ports := dp\<rparr>) = flow_queue i m" "flow_queue i (tx_rest ffs m) = filter (concerns i) ffs"
  using concerns_wire [of i i "Data d"] concerns_wire [of i i "Credit n"] concerns_wire [of i i Eof] concerns_wire [of i i Abort]
  by (simp_all add: flow_queue_def wire_def del: concerns_wire)

lemma cell_upd_frames [simp]:
  "c_finish_sent (cell (upd_frames a g m) b) = c_finish_sent (cell m b)"
  "c_psh_send_remaining (cell (upd_frames a g m) b) = c_psh_send_remaining (cell m b)"
  by (cases "a < length (cells m)"; simp add: upd_frames_def upd_cell_def cell_def nth_list_update list_update_beyond)+

lemma finish_sent_wake [simp]: "c_finish_sent (cell (wake a m) b) = c_finish_sent (cell m b)"
  by (cases "a < length (cells m)")
    (auto simp: wake_def cell_upd_cell cell_def upd_cell_def list_update_beyond nth_list_update split: option.split)

section \<open>What the operations do to an end\<close>

lemma fill_effect:
  assumes "side_ok i p x" and "poll_fill_buf (cb_us (ep_copy x)) (ep_mux x) = (us, m, r)"
  defines "x' \<equiv> x\<lparr>ep_copy := (ep_copy x)\<lparr>cb_us := us, cb_mux := m\<rparr>\<rparr>" and "v \<equiv> view p x"
  shows "side_ok i p x' \<and> (view p x' = v \<and> flow_queue i m = flow_queue i (ep_mux x)
        \<and> (r = Ready (Ok []) \<longrightarrow> v_closed v \<and> v_buf v = [] \<and> v_queue v = [])
    \<or> (\<exists>d rest n. v_buf v = [] \<and> v_queue v = d # rest \<and> r = Ready (Ok d) \<and> n = v_since v + 1
        \<and> (if v_threshold v \<le> n
           then view p x' = v\<lparr>v_buf := d, v_queue := rest, v_since := 0\<rparr> \<and> flow_queue i m = flow_queue i (ep_mux x) @ [wire i (Credit n)]
           else view p x' = v\<lparr>v_buf := d, v_queue := rest, v_since := n\<rparr> \<and> flow_queue i m = flow_queue i (ep_mux x))))"
proof -
  let ?s = "cb_us (ep_copy x)" and ?m = "ep_mux x"
  let ?a = "ms_cell ?s"
  have cl: "?a < length (cells ?m)" using assms(1) by (simp add: side_ok_def Let_def has_cell_def)
  consider (full) "ms_buf ?s \<noteq> []" | (none) "ms_buf ?s = []" "ch_queue (frames_at ?m ?a) = []"
    | (item) d rest where "ms_buf ?s = []" "ch_queue (frames_at ?m ?a) = d # rest" by (cases "ch_queue (frames_at ?m ?a)") blast+
  then show ?thesis
  proof cases
    case full
    with assms(1,2) show ?thesis by (auto simp: x'_def v_def poll_fill_buf_def view_simps)
  next
    case none
    with assms(1,2) cl show ?thesis
      by (cases "ch_tx_alive (frames_at ?m ?a)")
        (auto simp: x'_def v_def poll_fill_buf_def poll_recv_def chan_close_def view_simps frames_at_upd_frames)
  next
    case item
    let ?n = "ms_psh_recvd_since ?s + 1" and ?ch = "(frames_at ?m ?a)\<lparr>ch_queue := rest\<rparr>"
    have eq: "(us, m, r) = (if ms_rwnd_threshold ?s \<le> ?n
        then (?s\<lparr>ms_buf := d, ms_psh_recvd_since := 0\<rparr>, queue_frame (new_acknowledge (ms_flow_id ?s) ?n) (upd_frames ?a (\<lambda>_. ?ch) ?m), Ready (Ok d))
        else (?s\<lparr>ms_buf := d, ms_psh_recvd_since := ?n\<rparr>, upd_frames ?a (\<lambda>_. ?ch) ?m, Ready (Ok d)))"
      using assms(2) item by (simp add: poll_fill_buf_def poll_recv_def increment_psh_recvd_since_def Let_def split: if_splits)
    have "side_ok i p x'"
      using assms(1) eq cl item by (simp add: x'_def view_simps frames_at_upd_frames split: if_splits)
    moreover have "v_buf v = []" "v_queue v = d # rest" using item by (simp_all add: v_def view_simps)
    moreover have "r = Ready (Ok d)" using eq by (simp split: if_splits)
    moreover have "if v_threshold v \<le> v_since v + 1
        then view p x' = v\<lparr>v_buf := d, v_queue := rest, v_since := 0\<rparr> \<and> flow_queue i m = flow_queue i (ep_mux x) @ [wire i (Credit (v_since v + 1))]
        else view p x' = v\<lparr>v_buf := d, v_queue := rest, v_since := v_since v + 1\<rparr> \<and> flow_queue i m = flow_queue i (ep_mux x)"
      using assms(1) eq cl by (simp add: x'_def v_def view_simps frames_at_upd_frames split: if_splits)
    ultimately show ?thesis by blast
  qed
qed

lemma write_effect:
  assumes "side_ok i p x" and "poll_write w d (cb_us (ep_copy x)) (ep_mux x) = (m, r)"
  defines "v \<equiv> view p x"
  shows "side_ok i p (with_mux m x) \<and>
    (if \<exists>k. r = Ready (Ok k)
     then \<not> v_shut v \<and> v_credit v \<noteq> 0 \<and> view p (with_mux m x) = v\<lparr>v_credit := v_credit v - 1\<rparr>
        \<and> flow_queue i m = flow_queue i (ep_mux x) @ [wire i (Data d)]
     else view p (with_mux m x) = v \<and> flow_queue i m = flow_queue i (ep_mux x))"
proof -
  let ?s = "cb_us (ep_copy x)" and ?m = "ep_mux x"
  let ?c = "cell ?m (ms_cell ?s)"
  have ok: "ch_rx_open (tx_frame ?m)" "ms_cell ?s < length (cells ?m)" using assms(1) by (simp_all add: view_simps)
  consider (shut) "c_finish_sent ?c" | (wait) "\<not> c_finish_sent ?c" "c_psh_send_remaining ?c = 0"
    | (push) "\<not> c_finish_sent ?c" "c_psh_send_remaining ?c \<noteq> 0" by blast
  then show ?thesis
  proof cases
    case shut
    with assms(1,2) ok show ?thesis by (auto simp: v_def poll_write_cases view_simps)
  next
    case wait
    with assms(1,2) ok show ?thesis by (auto simp: v_def poll_write_cases view_simps register_waker_def cell_upd_cell)
  next
    case push
    with assms(1,2) ok have e: "m = queue_frame (new_push i d)
        (upd_cell (ms_cell ?s) (\<lambda>c. c\<lparr>c_psh_send_remaining := c_psh_send_remaining c - 1\<rparr>) ?m)" "r = Ready (Ok (length d))"
      by (auto simp: poll_write_cases view_simps)
    show ?thesis using assms(1) push ok unfolding e by (simp add: v_def view_simps cell_upd_cell)
  qed
qed

lemma shutdown_effect:
  assumes "side_ok i p x" and "shutdown_inner (cb_us (ep_copy x)) (ep_mux x) = (m, r)"
  defines "v \<equiv> view p x"
  shows "side_ok i p (with_mux m x) \<and> r = Ok () \<and> view p (with_mux m x) = v\<lparr>v_shut := True\<rparr>
    \<and> flow_queue i m = flow_queue i (ep_mux x) @ (if v_shut v then [] else [wire i Eof])"
proof -
  let ?s = "cb_us (ep_copy x)"
  let ?m = "upd_cell (ms_cell ?s) (\<lambda>c. c\<lparr>c_finish_sent := True\<rparr>) (ep_mux x)"
  have ok: "ch_rx_open (tx_frame (ep_mux x))" "ms_cell ?s < length (cells (ep_mux x))" "ms_flow_id ?s = i"
    using assms(1) by (simp_all add: view_simps)
  have e: "m = (if v_shut v then ?m else queue_frame (new_finish i) ?m)" and r: "r = Ok ()"
    using assms(2) ok by (auto simp: shutdown_inner_def tx_send_fin_eq v_def view_simps split: if_splits)
  have "side_ok i p (with_mux m x)" using assms(1) ok by (simp add: e view_simps)
  moreover have "view p (with_mux m x) = v\<lparr>v_shut := True\<rparr>" using ok by (simp add: e v_def view_simps cell_upd_cell)
  moreover have "flow_queue i m = flow_queue i (ep_mux x) @ (if v_shut v then [] else [wire i Eof])"
    using ok by (simp add: e)
  ultimately show ?thesis using r by blast
qed

lemma drop_effect:
  assumes "side_ok i p x" and "v_closed (view p x)"
  defines "m \<equiv> drop_stream (cb_us (ep_copy x)) (ep_mux x)"
  shows "side_ok i p (with_mux m (x\<lparr>ep_result := Some t\<rparr>))
    \<and> view p (with_mux m (x\<lparr>ep_result := Some t\<rparr>)) = (view p x)\<lparr>v_queue := [], v_result := Some t\<rparr>"
  using assms(1,2) by (simp add: m_def drop_stream_def drop_rx_def view_simps frames_at_upd_frames)

lemma close_effect:
  fixes x :: "'o endpoint" and inhibit :: bool
  assumes "side_ok i p x" and "v_closed (view p x)" and "v_shut (view p x)"
    and "set (ch_queue dp) \<subseteq> set (ch_queue (dropped_ports (ep_mux x)))"
  defines "m \<equiv> close_port i inhibit ((ep_mux x)\<lparr>dropped_ports := dp\<rparr>)"
  shows "side_ok i p (with_mux m x) \<and> view p (with_mux m x) = (view p x)\<lparr>v_present := False\<rparr>
    \<and> flow_queue i m = flow_queue i (ep_mux x)"
proof -
  let ?m = "(ep_mux x)\<lparr>dropped_ports := dp\<rparr>" and ?a = "ms_cell (cb_us (ep_copy x))"
  have cl: "?a < length (cells ?m)" "ms_flow_id (cb_us (ep_copy x)) = i" using assms(1) by (simp_all add: view_simps)
  consider (none) "slot_of (ep_mux x) i = None" | (some) "slot_of (ep_mux x) i = Some (Established \<lparr>es_sender = None, es_cell = ?a\<rparr>)"
    using assms(1,2) by (auto simp: view_simps)
  then show ?thesis
  proof cases
    case none
    then have m: "m = ?m" by (simp add: m_def close_port_def)
    show ?thesis using assms(1-4) cl none unfolding m by (auto simp: view_simps)
  next
    case some
    then have m: "m = wake ?a (upd_cell ?a (\<lambda>c. c\<lparr>c_finish_sent := True\<rparr>) (flow_remove i ?m))"
      using assms(3) by (simp add: m_def close_port_def close_port_local_simps close_write_def Let_def drop_sender_def view_simps)
    show ?thesis using assms(1-4) cl unfolding m by (auto simp: view_simps cell_upd_cell)
  qed
qed

lemma others_effect:
  assumes "side_ok i p x" and "others i (ms_cell (cb_us (ep_copy x))) (ep_mux x) m"
  shows "side_ok i p (with_mux m x) \<and> view p (with_mux m x) = view p x \<and> flow_queue i m = flow_queue i (ep_mux x)"
proof -
  have "frames_at m (ms_cell (cb_us (ep_copy x))) = frames_at (ep_mux x) (ms_cell (cb_us (ep_copy x)))"
    using assms(2) by (simp add: others_def flip: c_frames_cell)
  with assms show ?thesis by (auto simp: others_def view_simps)
qed

subsection \<open>Receiving\<close>

lemma receive_data_effect:
  fixes d :: bytes
  assumes "side_ok i p x" and "v_present (view p x)" and "\<not> v_closed (view p x)" and "length (v_queue (view p x)) < unat (py_window p)"
  defines "m \<equiv> receive (wire i (Data d)) (ep_mux x)"
  shows "side_ok i p (with_mux m x) \<and> view p (with_mux m x) = (view p x)\<lparr>v_queue := v_queue (view p x) @ [d]\<rparr>
    \<and> flow_queue i m = flow_queue i (ep_mux x)"
proof -
  let ?a = "ms_cell (cb_us (ep_copy x))"
  have "m = upd_frames ?a (ch_push d) (ep_mux x)"
    using assms(1-4) by (auto simp: m_def receive_wire recv_push_eq ch_full_def view_simps)
  with assms(1) show ?thesis by (simp add: view_simps frames_at_upd_frames ch_push_def)
qed

lemma receive_eof_effect:
  assumes "side_ok i p x" and "v_present (view p x)" and "\<not> v_closed (view p x)"
  defines "m \<equiv> receive (wire i Eof) (ep_mux x)"
  shows "side_ok i p (with_mux m x) \<and> view p (with_mux m x) = (view p x)\<lparr>v_closed := True\<rparr>
    \<and> flow_queue i m = flow_queue i (ep_mux x)"
proof -
  let ?a = "ms_cell (cb_us (ep_copy x))"
  have "m = upd_frames ?a drop_tx (flow_insert i (Established \<lparr>es_sender = None, es_cell = ?a\<rparr>) (ep_mux x))"
    using assms(1-3) by (auto simp: m_def receive_wire recv_finish_def disallow_read_def drop_sender_def view_simps)
  with assms(1,2) show ?thesis by (simp add: view_simps frames_at_upd_frames drop_tx_def)
qed

lemma receive_credit_effect:
  fixes n :: u32
  assumes "side_ok i p x"
  defines "m \<equiv> receive (wire i (Credit n)) (ep_mux x)" and "v \<equiv> view p x"
  shows "side_ok i p (with_mux m x) \<and>
    (if v_present v then view p (with_mux m x) = v\<lparr>v_credit := v_credit v + n\<rparr> \<and> flow_queue i m = flow_queue i (ep_mux x)
     else view p (with_mux m x) = v \<and> flow_queue i m = flow_queue i (ep_mux x) @ [wire i Abort])"
proof -
  let ?a = "ms_cell (cb_us (ep_copy x))"
  have m: "m = (if v_present v
      then wake ?a (upd_cell ?a (\<lambda>c. c\<lparr>c_psh_send_remaining := c_psh_send_remaining c + n\<rparr>) (ep_mux x))
      else queue_frame (new_reset i) (ep_mux x))"
    using assms(1) by (auto simp: m_def v_def receive_wire recv_ack_def acknowledge_def view_simps)
  have ok: "?a < length (cells (ep_mux x))" "ch_rx_open (tx_frame (ep_mux x))" using assms(1) by (simp_all add: view_simps)
  have "side_ok i p (with_mux m x)" using assms(1) by (simp add: m view_simps)
  then show ?thesis using ok by (simp add: m v_def) (simp add: view_simps cell_upd_cell)
qed

lemma receive_abort_effect:
  assumes "side_ok i p x" and "v_closed (view p x)" and "v_shut (view p x)"
  defines "m \<equiv> receive (wire i Abort) (ep_mux x)"
  shows "side_ok i p (with_mux m x) \<and> view p (with_mux m x) = (view p x)\<lparr>v_present := False\<rparr>
    \<and> flow_queue i m = flow_queue i (ep_mux x)"
  using close_effect [OF assms(1-3), of "dropped_ports (ep_mux x)" True] by (simp add: m_def receive_wire)

end
