(* ===== verification/Relay_Invariant.thy ===== *)
theory Relay_Invariant
  imports Relay
begin

text \<open>
  The invariant of a relayed connection, on the views of the two ends and the signals on their way between them. It is
  stated once for each direction; its parts take the components they speak of, so that an operation leaves the others alone. One
  lemma for every operation on views shows that the invariant is kept.
\<close>

section \<open>The invariant\<close>

text \<open>
  From the end \<open>w\<close>, whose party sends \<open>content\<close>, to the end \<open>r\<close> with receive window \<open>window\<close>: \<open>ss\<close> are the signals on their way to \<open>r\<close>, \<open>tt\<close> those
  on their way back. Nothing is lost or reordered; every frame of the window is accounted for while both futures run;
  the end of file follows all data; a flow is forgotten only when there is nothing left to say on it.
\<close>

definition delivered :: "bytes \<Rightarrow> bytes \<Rightarrow> bytes \<Rightarrow> bytes list \<Rightarrow> signal list \<Rightarrow> bytes \<Rightarrow> bool" where
  "delivered content sink buf queue ss source \<longleftrightarrow> sink @ buf @ concat queue @ concat (datas ss) @ source = content"

definition accounted :: "u32 \<Rightarrow> bool \<Rightarrow> u32 \<Rightarrow> signal list \<Rightarrow> bytes list \<Rightarrow> u32 \<Rightarrow> u32 \<Rightarrow> signal list \<Rightarrow> bool" where
  "accounted window running granted ss queue since threshold tt \<longleftrightarrow> length (datas ss) + length queue \<le> unat window
   \<and> (running \<longrightarrow> unat granted + length (datas ss) + length queue + unat since + sum_list (map unat (credits tt)) = unat window
        \<and> (since = 0 \<or> since < threshold))"

definition in_sequence :: "bool \<Rightarrow> bytes \<Rightarrow> write_state \<Rightarrow> signal list \<Rightarrow> bool \<Rightarrow> bytes list \<Rightarrow> bytes \<Rightarrow> read_state \<Rightarrow> bool" where
  "in_sequence shut source ws ss closed queue buf rs \<longleftrightarrow> tidy closed ss \<and> [] \<notin> set queue
   \<and> (shut \<longleftrightarrow> closed \<or> Eof \<in> set ss) \<and> (shut \<longrightarrow> source = []) \<and> ((\<exists>n. ws = WDone n) \<longleftrightarrow> shut)
   \<and> ((\<nexists>n. rs = RTransferring n) \<longrightarrow> closed \<and> buf = [] \<and> queue = [])"

definition counted :: "bytes \<Rightarrow> bytes \<Rightarrow> write_state \<Rightarrow> bytes \<Rightarrow> read_state \<Rightarrow> bool" where
  "counted content source ws sink rs \<longleftrightarrow> read_total rs = word_of_nat (length sink)
   \<and> write_total ws = word_of_nat (length content - length source)"

definition released :: "bool \<Rightarrow> signal list \<Rightarrow> side_view \<Rightarrow> bool" where
  "released running ss r \<longleftrightarrow> (Abort \<in> set ss \<longrightarrow> \<not> running)
   \<and> (\<not> v_present r \<longrightarrow> v_shut r \<and> v_closed r \<and> (v_result r \<noteq> None \<or> \<not> running \<and> set ss \<subseteq> {Abort}))
   \<and> (v_result r \<noteq> None \<longrightarrow> v_closed r \<and> v_shut r \<and> v_buf r = [] \<and> v_queue r = []
        \<and> v_result r = Some (read_total (v_read r), write_total (v_write r)))"

definition flow_dir :: "bytes \<Rightarrow> u32 \<Rightarrow> side_view \<Rightarrow> side_view \<Rightarrow> signal list \<Rightarrow> signal list \<Rightarrow> bool" where
  "flow_dir content window w r ss tt \<longleftrightarrow>
     delivered content (v_sink r) (v_buf r) (v_queue r) ss (v_source w)
   \<and> accounted window (v_result w = None \<and> v_result r = None) (v_credit w) ss (v_queue r) (v_since r) (v_threshold r) tt
   \<and> in_sequence (v_shut w) (v_source w) (v_write w) ss (v_closed r) (v_queue r) (v_buf r) (v_read r)
   \<and> counted content (v_source w) (v_write w) (v_sink r) (v_read r)
   \<and> released (v_result w = None) ss r"

definition both_dirs :: "bytes \<Rightarrow> bytes \<Rightarrow> u32 \<Rightarrow> u32 \<Rightarrow> side_view \<Rightarrow> side_view \<Rightarrow> signal list \<Rightarrow> signal list \<Rightarrow> bool" where
  "both_dirs A B wv ww v w ss tt \<longleftrightarrow> flow_dir A ww v w ss tt \<and> flow_dir B wv w v tt ss"

lemma both_dirs_sym: "both_dirs A B wv ww v w ss tt \<longleftrightarrow> both_dirs B A ww wv w v tt ss"
  by (auto simp: both_dirs_def)

lemma both_dirsD:
  assumes "both_dirs A B wv ww v w ss tt"
  shows "delivered A (v_sink w) (v_buf w) (v_queue w) ss (v_source v)"
    "accounted ww (v_result v = None \<and> v_result w = None) (v_credit v) ss (v_queue w) (v_since w) (v_threshold w) tt"
    "in_sequence (v_shut v) (v_source v) (v_write v) ss (v_closed w) (v_queue w) (v_buf w) (v_read w)"
    "counted A (v_source v) (v_write v) (v_sink w) (v_read w)" "released (v_result v = None) ss w"
    "delivered B (v_sink v) (v_buf v) (v_queue v) tt (v_source w)"
    "accounted wv (v_result w = None \<and> v_result v = None) (v_credit w) tt (v_queue v) (v_since v) (v_threshold v) ss"
    "in_sequence (v_shut w) (v_source w) (v_write w) tt (v_closed v) (v_queue v) (v_buf v) (v_read v)"
    "counted B (v_source w) (v_write w) (v_sink v) (v_read v)" "released (v_result w = None) tt v"
  using assms by (simp_all add: both_dirs_def flow_dir_def)

lemma both_dirsI:
  assumes "delivered A (v_sink w) (v_buf w) (v_queue w) ss (v_source v)"
    "accounted ww (v_result v = None \<and> v_result w = None) (v_credit v) ss (v_queue w) (v_since w) (v_threshold w) tt"
    "in_sequence (v_shut v) (v_source v) (v_write v) ss (v_closed w) (v_queue w) (v_buf w) (v_read w)"
    "counted A (v_source v) (v_write v) (v_sink w) (v_read w)" "released (v_result v = None) ss w"
    "delivered B (v_sink v) (v_buf v) (v_queue v) tt (v_source w)"
    "accounted wv (v_result w = None \<and> v_result v = None) (v_credit w) tt (v_queue v) (v_since v) (v_threshold v) ss"
    "in_sequence (v_shut w) (v_source w) (v_write w) tt (v_closed v) (v_queue v) (v_buf v) (v_read v)"
    "counted B (v_source w) (v_write w) (v_sink v) (v_read v)" "released (v_result w = None) tt v"
  shows "both_dirs A B wv ww v w ss tt"
  using assms by (simp add: both_dirs_def flow_dir_def)

section \<open>The operations on views\<close>

lemma dirs_eof:
  assumes "both_dirs A B wv ww v w ss tt" and v: "v_closed v" "v_buf v = []" "v_queue v = []" "v_read v = RTransferring n" "v_result v = None"
  shows "both_dirs A B wv ww (v\<lparr>v_read := RShuttingDown n\<rparr>) w ss tt"
proof -
  note D = both_dirsD [OF assms(1)]
  have "in_sequence (v_shut w) (v_source w) (v_write w) tt (v_closed v) (v_queue v) (v_buf v) (RShuttingDown n)"
    using D(8) v by (simp add: in_sequence_def)
  moreover have "counted B (v_source w) (v_write w) (v_sink v) (RShuttingDown n)" using D(9) v by (simp add: counted_def)
  moreover have "released (v_result w = None) tt (v\<lparr>v_read := RShuttingDown n\<rparr>)" using D(10) v by (simp add: released_def)
  ultimately show ?thesis by (intro both_dirsI) (simp_all add: D)
qed

lemma dirs_read_done:
  assumes "both_dirs A B wv ww v w ss tt" and v: "v_read v = RShuttingDown n" "v_result v = None"
  shows "both_dirs A B wv ww (v\<lparr>v_read := RDone n\<rparr>) w ss tt"
proof -
  note D = both_dirsD [OF assms(1)]
  have "in_sequence (v_shut w) (v_source w) (v_write w) tt (v_closed v) (v_queue v) (v_buf v) (RDone n)"
    using D(8) v by (auto simp: in_sequence_def)
  moreover have "counted B (v_source w) (v_write w) (v_sink v) (RDone n)" using D(9) v by (simp add: counted_def)
  moreover have "released (v_result w = None) tt (v\<lparr>v_read := RDone n\<rparr>)" using D(10) v by (simp add: released_def)
  ultimately show ?thesis by (intro both_dirsI) (simp_all add: D)
qed

lemma dirs_give:
  assumes "both_dirs A B wv ww v w ss tt" and k: "k \<le> length (v_buf v)" and v: "v_read v = RTransferring n" "v_result v = None"
  shows "both_dirs A B wv ww (v\<lparr>v_buf := drop k (v_buf v), v_sink := v_sink v @ take k (v_buf v), v_read := RTransferring (n + word_of_nat k)\<rparr>) w ss tt"
  (is "both_dirs A B wv ww ?v w ss tt")
proof -
  note D = both_dirsD [OF assms(1)]
  have td: "take k (v_buf v) @ drop k (v_buf v) @ z = v_buf v @ z" for z by (metis append_assoc append_take_drop_id)
  have "delivered B (v_sink ?v) (v_buf ?v) (v_queue v) tt (v_source w)" using D(6) by (simp add: delivered_def td)
  moreover have "in_sequence (v_shut w) (v_source w) (v_write w) tt (v_closed v) (v_queue v) (v_buf ?v) (v_read ?v)"
    using D(8) v by (auto simp: in_sequence_def)
  moreover have "counted B (v_source w) (v_write w) (v_sink ?v) (v_read ?v)" using D(9) v k by (simp add: counted_def min_absorb2)
  moreover have "released (v_result w = None) tt ?v" using D(10) v by (simp add: released_def)
  ultimately show ?thesis by (intro both_dirsI) (simp_all add: D)
qed

lemma dirs_fetch:
  assumes "both_dirs A B wv ww v w ss tt" and v: "v_result v = None" "v_buf v = []" "v_queue v = d # rest" and n: "n = v_since v + 1"
  shows "if v_threshold v \<le> n then both_dirs A B wv ww (v\<lparr>v_buf := d, v_queue := rest, v_since := 0\<rparr>) w (ss @ [Credit n]) tt
    else both_dirs A B wv ww (v\<lparr>v_buf := d, v_queue := rest, v_since := n\<rparr>) w ss tt"
proof -
  note D = both_dirsD [OF assms(1)]
  let ?run = "v_result w = None"
  have less: "unat (v_since v) < unat wv" if ?run using D(7) v that by (simp add: accounted_def)
  have unat_n: "unat n = Suc (unat (v_since v))" if ?run
    using increment_cases [of "undefined\<lparr>ms_psh_recvd_since := v_since v\<rparr>" wv, simplified, OF less [OF that]] n by simp
  have acc: "accounted wv ?run (v_credit w) tt rest 0 (v_threshold v) (ss @ [Credit n])"
    "\<not> v_threshold v \<le> n \<Longrightarrow> accounted wv ?run (v_credit w) tt rest n (v_threshold v) ss"
    using D(7) v unat_n by (auto simp: accounted_def)
  have seq: "in_sequence (v_shut w) (v_source w) (v_write w) tt (v_closed v) rest d (v_read v)"
    using D(8) v by (auto simp: in_sequence_def)
  have del: "delivered B (v_sink v) d rest tt (v_source w)" using D(6) v by (simp add: delivered_def)
  have rel: "released ?run tt (v\<lparr>v_buf := d, v_queue := rest, v_since := k\<rparr>)" for k using D(10) v by (simp add: released_def)
  have ss: "in_sequence (v_shut v) (v_source v) (v_write v) (ss @ [Credit n]) (v_closed w) (v_queue w) (v_buf w) (v_read w)"
    "delivered A (v_sink w) (v_buf w) (v_queue w) (ss @ [Credit n]) (v_source v)" "released True (ss @ [Credit n]) w"
    "accounted ww ?run (v_credit v) (ss @ [Credit n]) (v_queue w) (v_since w) (v_threshold w) tt"
    using D(1-3,5) v by (auto simp: in_sequence_def delivered_def released_def accounted_def tidy_Credit)
  show ?thesis
  proof (cases "v_threshold v \<le> n")
    case True
    have "both_dirs A B wv ww (v\<lparr>v_buf := d, v_queue := rest, v_since := 0\<rparr>) w (ss @ [Credit n]) tt"
      by (intro both_dirsI) (use seq del rel [of 0] ss acc(1) in \<open>simp_all add: D v(1)\<close>)
    with True show ?thesis by simp
  next
    case False
    have "both_dirs A B wv ww (v\<lparr>v_buf := d, v_queue := rest, v_since := n\<rparr>) w ss tt"
      by (intro both_dirsI) (use seq del rel [of n] acc(2) [OF False] D(2,5) in \<open>simp_all add: D v(1)\<close>)
    with False show ?thesis by simp
  qed
qed

lemma dirs_push:
  assumes "both_dirs A B wv ww v w ss tt" and v: "v_result v = None" "\<not> v_shut v" "v_credit v \<noteq> 0" "v_source v = d @ rest" "v_write v = WTransferring n"
    and d: "d \<noteq> []"
  shows "both_dirs A B wv ww (v\<lparr>v_credit := v_credit v - 1, v_source := rest, v_write := WTransferring (n + word_of_nat (length d))\<rparr>) w
    (ss @ [Data d]) tt"
  (is "both_dirs A B wv ww ?v w ?ss tt")
proof -
  note D = both_dirsD [OF assms(1)]
  have w: "\<not> v_closed w" "Eof \<notin> set ss" using D(3) v(2) by (simp_all add: in_sequence_def)
  then have run: "v_result w = None" "v_present w" using D(5) by (auto simp: released_def simp del: not_None_eq)
  have "A = (v_sink w @ v_buf w @ concat (v_queue w) @ concat (datas ss)) @ d @ rest" using D(1) v by (simp add: delivered_def)
  then have "counted A rest (v_write ?v) (v_sink w) (v_read w)" using D(4) v by (simp add: counted_def)
  moreover have "delivered A (v_sink w) (v_buf w) (v_queue w) ?ss rest" using D(1) v by (simp add: delivered_def)
  moreover have "accounted ww True (v_credit v - 1) ?ss (v_queue w) (v_since w) (v_threshold w) tt"
    using D(2) v run u32_dec [OF v(3)] by (simp add: accounted_def)
  moreover have "accounted wv True (v_credit w) tt (v_queue v) (v_since v) (v_threshold v) ?ss"
    using D(7) v run by (simp add: accounted_def)
  moreover have "in_sequence (v_shut v) rest (v_write ?v) ?ss (v_closed w) (v_queue w) (v_buf w) (v_read w)"
    using D(3) v w d by (simp add: in_sequence_def tidy_Data)
  moreover have "released True ?ss w" using D(5) v run by (simp add: released_def)
  moreover have "released (v_result w = None) tt ?v" using D(10) v by (simp add: released_def)
  ultimately show ?thesis by (intro both_dirsI) (simp_all add: D v(1) run)
qed

lemma dirs_finish:
  assumes "both_dirs A B wv ww v w ss tt" and v: "v_result v = None" "v_source v = []" "v_write v = WTransferring n"
  shows "both_dirs A B wv ww (v\<lparr>v_shut := True, v_write := WDone n\<rparr>) w (ss @ (if v_shut v then [] else [Eof])) tt"
  (is "both_dirs A B wv ww ?v w ?ss tt")
proof -
  note D = both_dirsD [OF assms(1)]
  have "in_sequence True (v_source v) (WDone n) ?ss (v_closed w) (v_queue w) (v_buf w) (v_read w)"
    using D(3) v by (auto simp: in_sequence_def intro: tidy_Eof)
  moreover have "released True ?ss w" using D(3,5) v by (auto simp: released_def in_sequence_def)
  moreover have "released (v_result w = None) tt ?v" using D(10) v by (simp add: released_def)
  moreover have "delivered A (v_sink w) (v_buf w) (v_queue w) ?ss (v_source v)" using D(1) by (simp add: delivered_def)
  moreover have "accounted ww (v_result w = None) (v_credit v) ?ss (v_queue w) (v_since w) (v_threshold w) tt"
    "accounted wv (v_result w = None) (v_credit w) tt (v_queue v) (v_since v) (v_threshold v) ?ss"
    using D(2,7) v by (simp_all add: accounted_def)
  moreover have "counted A (v_source v) (WDone n) (v_sink w) (v_read w)" using D(4) v by (simp add: counted_def)
  ultimately show ?thesis by (intro both_dirsI) (simp_all add: D v(1))
qed

lemma dirs_return:
  assumes "both_dirs A B wv ww v w ss tt" and v: "v_result v = None" "v_read v = RDone a" "v_write v = WDone b"
  shows "both_dirs A B wv ww (v\<lparr>v_queue := [], v_result := Some (a, b)\<rparr>) w ss tt"
  (is "both_dirs A B wv ww ?v w ss tt")
proof -
  note D = both_dirsD [OF assms(1)]
  have q: "v_closed v" "v_buf v = []" "v_queue v = []" "v_shut v" using D(3,8) v by (auto simp: in_sequence_def)
  have "released (v_result w = None) tt ?v" using D(10) v q by (simp add: released_def)
  moreover have "released False ss w" using D(5) v by (auto simp: released_def)
  moreover have "accounted ww False (v_credit v) ss (v_queue w) (v_since w) (v_threshold w) tt"
    "accounted wv False (v_credit w) tt (v_queue v) (v_since v) (v_threshold v) ss"
    using D(2,7) by (simp_all add: accounted_def)
  ultimately show ?thesis using D(3,6,8) by (intro both_dirsI) (simp_all add: D q)
qed

lemma dirs_close:
  assumes "both_dirs A B wv ww v w ss tt" and "v_result v \<noteq> None"
  shows "both_dirs A B wv ww (v\<lparr>v_present := False\<rparr>) w ss tt"
proof -
  note D = both_dirsD [OF assms(1)]
  have "released (v_result w = None) tt (v\<lparr>v_present := False\<rparr>)" using D(10) assms(2) by (auto simp: released_def)
  then show ?thesis by (intro both_dirsI) (simp_all add: D)
qed

subsection \<open>Receiving\<close>

text \<open>The end \<open>w\<close> takes the next signal.\<close>

lemma dirs_signal:
  assumes "both_dirs A B wv ww v w (s # ss) tt"
  shows "case s of
      Data d \<Rightarrow> v_present w \<and> \<not> v_closed w \<and> length (v_queue w) < unat ww
    | Eof \<Rightarrow> v_present w \<and> \<not> v_closed w
    | Abort \<Rightarrow> v_closed w \<and> v_shut w \<and> v_result v \<noteq> None \<and> set ss \<subseteq> {Abort}
    | Credit n \<Rightarrow> v_present w \<or> v_result w \<noteq> None"
proof -
  note D = both_dirsD [OF assms]
  have "v_closed v" if "v_result v \<noteq> None" using D(10) that by (simp add: released_def)
  then show ?thesis using D(2,3,5,8)
    by (cases s) (auto simp: accounted_def in_sequence_def released_def simp del: not_None_eq)
qed

lemma dirs_open:
  assumes "both_dirs A B wv ww v w ss tt" and "\<not> v_closed w"
  shows "v_result w = None" "v_present w" "\<exists>n. v_read w = RTransferring n"
  using both_dirsD(3,5) [OF assms(1)] assms(2) by (auto simp: released_def in_sequence_def simp del: not_None_eq)

lemma dirs_data:
  assumes "both_dirs A B wv ww v w (Data d # ss) tt"
  shows "both_dirs A B wv ww v (w\<lparr>v_queue := v_queue w @ [d]\<rparr>) ss tt"
  (is "both_dirs A B wv ww v ?w ss tt")
proof -
  note D = both_dirsD [OF assms]
  note w = dirs_signal [OF assms, simplified] and opn = dirs_open [OF assms]
  have "delivered A (v_sink w) (v_buf w) (v_queue ?w) ss (v_source v)" using D(1) by (simp add: delivered_def)
  moreover have "in_sequence (v_shut v) (v_source v) (v_write v) ss (v_closed w) (v_queue ?w) (v_buf w) (v_read w)"
    using D(3) w opn(3) by (auto simp: in_sequence_def)
  moreover have "released (v_result v = None) ss ?w" using D(5) w opn by (simp add: released_def)
  moreover have "accounted ww (v_result v = None \<and> v_result w = None) (v_credit v) ss (v_queue ?w) (v_since w) (v_threshold w) tt"
    "accounted wv (v_result w = None \<and> v_result v = None) (v_credit w) tt (v_queue v) (v_since v) (v_threshold v) ss"
    using D(2,7) by (simp_all add: accounted_def)
  ultimately show ?thesis by (intro both_dirsI) (simp_all add: D)
qed

lemma dirs_got_eof:
  assumes "both_dirs A B wv ww v w (Eof # ss) tt"
  shows "both_dirs A B wv ww v (w\<lparr>v_closed := True\<rparr>) ss tt"
  (is "both_dirs A B wv ww v ?w ss tt")
proof -
  note D = both_dirsD [OF assms]
  note w = dirs_signal [OF assms, simplified] and opn = dirs_open [OF assms]
  have "delivered A (v_sink w) (v_buf w) (v_queue w) ss (v_source v)" using D(1) by (simp add: delivered_def)
  moreover have "in_sequence (v_shut v) (v_source v) (v_write v) ss True (v_queue w) (v_buf w) (v_read w)"
    using D(3) w opn(3) by (auto simp: in_sequence_def)
  moreover have "released (v_result v = None) ss ?w" using D(5) w opn by (simp add: released_def)
  moreover have "accounted ww (v_result v = None \<and> v_result w = None) (v_credit v) ss (v_queue w) (v_since w) (v_threshold w) tt"
    "accounted wv (v_result w = None \<and> v_result v = None) (v_credit w) tt (v_queue v) (v_since v) (v_threshold v) ss"
    using D(2,7) by (simp_all add: accounted_def)
  ultimately show ?thesis by (intro both_dirsI) (simp_all add: D)
qed

lemma dirs_credit:
  assumes "both_dirs A B wv ww v w (Credit n # ss) tt" and present: "v_present w"
  shows "both_dirs A B wv ww v (w\<lparr>v_credit := v_credit w + n\<rparr>) ss tt"
proof -
  note D = both_dirsD [OF assms(1)]
  have "unat (v_credit w + n) = unat (v_credit w) + unat n" if "v_result v = None" "v_result w = None"
  proof -
    have "unat (v_credit w) + unat n \<le> unat wv" using D(7) that by (simp add: accounted_def)
    then show ?thesis using unsigned_less [of wv, where ?'a = nat] by (intro unat_add_lem [THEN iffD1]) simp
  qed
  then have "accounted wv (v_result w = None \<and> v_result v = None) (v_credit w + n) tt (v_queue v) (v_since v) (v_threshold v) ss"
    using D(7) by (auto simp: accounted_def)
  moreover have "accounted ww (v_result v = None \<and> v_result w = None) (v_credit v) ss (v_queue w) (v_since w) (v_threshold w) tt"
    using D(2) by (simp add: accounted_def)
  moreover have "delivered A (v_sink w) (v_buf w) (v_queue w) ss (v_source v)" using D(1) by (simp add: delivered_def)
  moreover have "in_sequence (v_shut v) (v_source v) (v_write v) ss (v_closed w) (v_queue w) (v_buf w) (v_read w)"
    using D(3) by (auto simp: in_sequence_def)
  moreover have "released (v_result v = None) ss (w\<lparr>v_credit := v_credit w + n\<rparr>)" using D(5) present by (simp add: released_def)
  ultimately show ?thesis by (intro both_dirsI) (simp_all add: D)
qed

lemma dirs_credit_unknown:
  assumes "both_dirs A B wv ww v w (Credit n # ss) tt" and absent: "\<not> v_present w"
  shows "both_dirs A B wv ww v w ss (tt @ [Abort])"
proof -
  note D = both_dirsD [OF assms(1)]
  have w: "v_result w \<noteq> None" "v_shut w" using D(5) absent by (auto simp: released_def simp del: not_None_eq)
  have "released (v_result v = None) ss w" using D(5) w(1) by (auto simp: released_def simp del: not_None_eq)
  moreover have "released False (tt @ [Abort]) v" using D(10) w(1) by (auto simp: released_def simp del: not_None_eq)
  moreover have "in_sequence (v_shut v) (v_source v) (v_write v) ss (v_closed w) (v_queue w) (v_buf w) (v_read w)"
    using D(3) by (auto simp: in_sequence_def)
  moreover have "in_sequence (v_shut w) (v_source w) (v_write w) (tt @ [Abort]) (v_closed v) (v_queue v) (v_buf v) (v_read v)"
    using D(8) w(2) by (auto simp: in_sequence_def tidy_Abort)
  moreover have "accounted ww False (v_credit v) ss (v_queue w) (v_since w) (v_threshold w) (tt @ [Abort])"
    "accounted wv False (v_credit w) (tt @ [Abort]) (v_queue v) (v_since v) (v_threshold v) ss"
    using D(2,7) by (simp_all add: accounted_def)
  moreover have "delivered A (v_sink w) (v_buf w) (v_queue w) ss (v_source v)"
    "delivered B (v_sink v) (v_buf v) (v_queue v) (tt @ [Abort]) (v_source w)" using D(1,6) by (simp_all add: delivered_def)
  ultimately show ?thesis using w(1) by (intro both_dirsI) (simp_all add: D del: not_None_eq)
qed

lemma dirs_abort:
  assumes "both_dirs A B wv ww v w (Abort # ss) tt"
  shows "both_dirs A B wv ww v (w\<lparr>v_present := False\<rparr>) ss tt"
proof -
  note D = both_dirsD [OF assms]
  have w: "v_closed w" "v_shut w" "v_result v \<noteq> None" "set ss \<subseteq> {Abort}" using dirs_signal [OF assms] by simp_all
  have tidy: "tidy True ss" "Eof \<notin> set ss" "datas ss = []" "credits ss = []" using w(4) by (induction ss) auto
  have "in_sequence (v_shut v) (v_source v) (v_write v) ss (v_closed w) (v_queue w) (v_buf w) (v_read w)"
    using D(3) w(1) tidy by (auto simp: in_sequence_def)
  moreover have "released False ss (w\<lparr>v_present := False\<rparr>)" using D(5) w by (auto simp: released_def simp del: not_None_eq)
  moreover have "accounted ww False (v_credit v) ss (v_queue w) (v_since w) (v_threshold w) tt"
    "accounted wv False (v_credit w) tt (v_queue v) (v_since v) (v_threshold v) ss"
    using D(2,7) by (simp_all add: accounted_def)
  moreover have "delivered A (v_sink w) (v_buf w) (v_queue w) ss (v_source v)" using D(1) by (simp add: delivered_def)
  ultimately show ?thesis using w(3) by (intro both_dirsI) (simp_all add: D del: not_None_eq)
qed

end
