(* ===== verification/Relay_Properties.thy ===== *)
theory Relay_Properties
  imports Relay_Invariant
begin

text \<open>
  The invariant of theory \<open>Relay_Invariant\<close> for the operations of the code, through the effects shown in theory
  \<open>Relay\<close>, and what follows for a relayed connection: in both directions nothing is lost, duplicated or reordered, the end of
  file arrives behind everything, and a future that returns has moved everything.
\<close>

section \<open>The invariant of the system\<close>

definition pair_inv :: "u32 \<Rightarrow> 'o party \<Rightarrow> 'q party \<Rightarrow> 'o endpoint \<Rightarrow> 'q endpoint \<Rightarrow> signal list \<Rightarrow> signal list \<Rightarrow> bool" where
  "pair_inv i p q x y ss tt \<longleftrightarrow> side_ok i p x \<and> side_ok i q y
     \<and> flow_queue i (ep_mux x) = map (wire i) ss \<and> flow_queue i (ep_mux y) = map (wire i) tt
     \<and> both_dirs (py_sends p) (py_sends q) (py_window p) (py_window q) (view p x) (view q y) ss tt"

lemma pair_inv_sym: "pair_inv i p q x y ss tt \<longleftrightarrow> pair_inv i q p y x tt ss"
  by (auto simp: pair_inv_def both_dirs_def)

lemma ep_mux_simps [simp]:
  "ep_mux (with_mux m x) = m" "ep_mux (x\<lparr>ep_copy := c\<rparr>) = cb_mux c" "ep_mux \<lparr>ep_copy = c, ep_result = t\<rparr> = cb_mux c"
  by (simp_all add: ep_mux_def with_mux_def)

text \<open>The parts of an end that the other operations touch.\<close>

lemma view_parts [simp]:
  "view p (x\<lparr>ep_copy := c\<lparr>cb_read := rs\<rparr>\<rparr>) = (view p (x\<lparr>ep_copy := c\<rparr>))\<lparr>v_read := rs\<rparr>"
  "view p (x\<lparr>ep_copy := c\<lparr>cb_write := ws\<rparr>\<rparr>) = (view p (x\<lparr>ep_copy := c\<rparr>))\<lparr>v_write := ws\<rparr>"
  "view p (x\<lparr>ep_copy := c\<lparr>cb_other := s\<rparr>\<rparr>) = (view p (x\<lparr>ep_copy := c\<rparr>))\<lparr>v_sink := py_sink p s, v_source := py_source p s\<rparr>"
  "side_ok i p (x\<lparr>ep_copy := c\<lparr>cb_read := rs\<rparr>\<rparr>) = side_ok i p (x\<lparr>ep_copy := c\<rparr>)"
  "side_ok i p (x\<lparr>ep_copy := c\<lparr>cb_write := ws\<rparr>\<rparr>) = side_ok i p (x\<lparr>ep_copy := c\<rparr>)"
  "side_ok i p (x\<lparr>ep_copy := c\<lparr>cb_other := s\<rparr>\<rparr>) = side_ok i p (x\<lparr>ep_copy := c\<rparr>)"
  by (simp_all add: view_def side_ok_def Let_def ep_mux_def)

lemma view_sels [simp]:
  "v_sink (view p x) = py_sink p (cb_other (ep_copy x))" "v_source (view p x) = py_source p (cb_other (ep_copy x))"
  "v_read (view p x) = cb_read (ep_copy x)" "v_write (view p x) = cb_write (ep_copy x)" "v_result (view p x) = ep_result x"
  "v_buf (view p x) = ms_buf (cb_us (ep_copy x))"
  by (simp_all add: view_def Let_def)

lemma side_view_self [simp]:
  "v\<lparr>v_sink := v_sink v\<rparr> = v" "v\<lparr>v_source := v_source v\<rparr> = v" for v :: side_view
  by simp_all

lemma pair_left:
  assumes "pair_inv i p q x y ss tt" and "side_ok i p x'" and "flow_queue i (ep_mux x') = map (wire i) ss'"
    and "both_dirs (py_sends p) (py_sends q) (py_window p) (py_window q) (view p x') (view q y) ss' tt"
  shows "\<exists>ss'. pair_inv i p q x' y ss' tt"
  using assms by (auto simp: pair_inv_def)

text \<open>A step of the copying future.\<close>

lemma pair_fetch:
  assumes inv: "pair_inv i p q x y ss tt" and "ep_result x = None"
    and fill: "poll_fill_buf (cb_us (ep_copy x)) (ep_mux x) = (us, m, r)"
  shows "\<exists>ss'. pair_inv i p q (x\<lparr>ep_copy := (ep_copy x)\<lparr>cb_us := us, cb_mux := m\<rparr>\<rparr>) y ss' tt"
proof -
  let ?x = "x\<lparr>ep_copy := (ep_copy x)\<lparr>cb_us := us, cb_mux := m\<rparr>\<rparr>" and ?v = "view p x"
  from inv have ok: "side_ok i p x" and q: "flow_queue i (ep_mux x) = map (wire i) ss"
    and dirs: "both_dirs (py_sends p) (py_sends q) (py_window p) (py_window q) ?v (view q y) ss tt"
    by (simp_all add: pair_inv_def)
  note eff = fill_effect [OF ok fill]
  from eff have ok': "side_ok i p ?x" by simp
  from eff consider (same) "view p ?x = ?v" "flow_queue i m = flow_queue i (ep_mux x)"
    | (item) d rest where "v_buf ?v = []" "v_queue ?v = d # rest"
      "if v_threshold ?v \<le> v_since ?v + 1
       then view p ?x = ?v\<lparr>v_buf := d, v_queue := rest, v_since := 0\<rparr> \<and> flow_queue i m = flow_queue i (ep_mux x) @ [wire i (Credit (v_since ?v + 1))]
       else view p ?x = ?v\<lparr>v_buf := d, v_queue := rest, v_since := v_since ?v + 1\<rparr> \<and> flow_queue i m = flow_queue i (ep_mux x)" by blast
  then show ?thesis
  proof cases
    case same
    with dirs q show ?thesis by (intro pair_left [OF inv ok', of ss]) simp_all
  next
    case item
    note fetched = dirs_fetch [OF dirs _ item(1,2) refl, simplified, OF assms(2)]
    show ?thesis
    proof (cases "v_threshold ?v \<le> v_since ?v + 1")
      case True
      with item(3) fetched q show ?thesis by (intro pair_left [OF inv ok', of "ss @ [Credit (v_since ?v + 1)]"]) simp_all
    next
      case False
      with item(3) fetched q show ?thesis by (intro pair_left [OF inv ok', of ss]) simp_all
    qed
  qed
qed

lemma pair_eof:
  assumes inv: "pair_inv i p q x y ss tt" and "ep_result x = None" and "cb_read (ep_copy x) = RTransferring n"
    and fill: "poll_fill_buf (cb_us (ep_copy x)) (ep_mux x) = (us, m, Ready (Ok []))"
  shows "\<exists>ss'. pair_inv i p q (x\<lparr>ep_copy := (ep_copy x)\<lparr>cb_us := us, cb_mux := m, cb_read := RShuttingDown n\<rparr>\<rparr>) y ss' tt"
proof -
  let ?x = "x\<lparr>ep_copy := (ep_copy x)\<lparr>cb_us := us, cb_mux := m\<rparr>\<rparr>" and ?v = "view p x"
  from inv have ok: "side_ok i p x" and q: "flow_queue i (ep_mux x) = map (wire i) ss"
    and dirs: "both_dirs (py_sends p) (py_sends q) (py_window p) (py_window q) ?v (view q y) ss tt"
    by (simp_all add: pair_inv_def)
  have "[] \<notin> set (v_queue ?v)" using both_dirsD(8) [OF dirs] by (simp add: in_sequence_def)
  with fill_effect [OF ok fill] have same: "side_ok i p ?x" "view p ?x = ?v" "flow_queue i m = flow_queue i (ep_mux x)"
    and e: "v_closed ?v" "v_buf ?v = []" "v_queue ?v = []" by auto
  have "both_dirs (py_sends p) (py_sends q) (py_window p) (py_window q) (?v\<lparr>v_read := RShuttingDown n\<rparr>) (view q y) ss tt"
    using dirs_eof [OF dirs e] assms(2,3) by simp
  with same q show ?thesis by (intro pair_left [OF inv, of _ ss]) simp_all
qed

lemma pair_push:
  assumes inv: "pair_inv i p q x y ss tt" and "ep_result x = None" and "cb_write (ep_copy x) = WTransferring n"
    and wr: "poll_write w d (cb_us (ep_copy x)) (ep_mux x) = (m, Ready (Ok k))" and "d \<noteq> []"
    and src: "py_source p (cb_other (ep_copy x)) = d @ py_source p s" "py_sink p s = py_sink p (cb_other (ep_copy x))"
  shows "\<exists>ss'. pair_inv i p q (x\<lparr>ep_copy := (ep_copy x)\<lparr>cb_other := s, cb_mux := m, cb_write := WTransferring (n + word_of_nat (length d))\<rparr>\<rparr>) y ss' tt"
    (is "\<exists>ss'. pair_inv i p q ?x y ss' tt")
proof -
  let ?v = "view p x"
  from inv have ok: "side_ok i p x" and q: "flow_queue i (ep_mux x) = map (wire i) ss"
    and dirs: "both_dirs (py_sends p) (py_sends q) (py_window p) (py_window q) ?v (view q y) ss tt"
    by (simp_all add: pair_inv_def)
  from write_effect [OF ok wr] have eff: "side_ok i p (with_mux m x)" "\<not> v_shut ?v" "v_credit ?v \<noteq> 0"
    "view p (with_mux m x) = ?v\<lparr>v_credit := v_credit ?v - 1\<rparr>" "flow_queue i m = flow_queue i (ep_mux x) @ [wire i (Data d)]" by simp_all
  have x: "?x = x\<lparr>ep_copy := (ep_copy (with_mux m x))\<lparr>cb_other := s, cb_write := WTransferring (n + word_of_nat (length d))\<rparr>\<rparr>"
    by (intro endpoint.equality copy_bidirectional.equality) (simp_all add: with_mux_def)
  have xm: "x\<lparr>ep_copy := ep_copy (with_mux m x)\<rparr> = with_mux m x" by (simp add: with_mux_def)
  have "view p ?x = ?v\<lparr>v_credit := v_credit ?v - 1, v_source := py_source p s, v_write := WTransferring (n + word_of_nat (length d))\<rparr>"
    unfolding x by (simp add: xm eff(4)) (simp add: src(2) view_def Let_def)
  moreover have "side_ok i p ?x" unfolding x by (simp add: xm eff(1))
  ultimately show ?thesis using eff(5) q dirs_push [OF dirs _ eff(2,3), of d "py_source p s" n] assms(2,3,5) src
    by (intro pair_left [OF inv, of _ "ss @ [Data d]"]) simp_all
qed

lemma pair_shutdown:
  assumes inv: "pair_inv i p q x y ss tt" and "ep_result x = None" and "cb_write (ep_copy x) = WTransferring n"
    and sh: "shutdown_inner (cb_us (ep_copy x)) (ep_mux x) = (m, r)" and "py_source p (cb_other (ep_copy x)) = []"
  shows "r = Ok () \<and> (\<exists>ss'. pair_inv i p q (x\<lparr>ep_copy := (ep_copy x)\<lparr>cb_mux := m, cb_write := WDone n\<rparr>\<rparr>) y ss' tt)"
proof -
  let ?v = "view p x"
  from inv have ok: "side_ok i p x" and q: "flow_queue i (ep_mux x) = map (wire i) ss"
    and dirs: "both_dirs (py_sends p) (py_sends q) (py_window p) (py_window q) ?v (view q y) ss tt"
    by (simp_all add: pair_inv_def)
  note eff = shutdown_effect [OF ok sh, unfolded with_mux_def]
  show ?thesis using eff q dirs_finish [OF dirs, of n] assms(2,3,5)
    by (intro conjI pair_left [OF inv, of _ "ss @ (if v_shut ?v then [] else [Eof])"]) simp_all
qed

lemma pair_same:
  assumes inv: "pair_inv i p q x y ss tt" and "side_ok i p x'" and "view p x' = view p x" and "flow_queue i (ep_mux x') = flow_queue i (ep_mux x)"
  shows "\<exists>ss'. pair_inv i p q x' y ss' tt"
  using assms by (intro pair_left [OF inv, of _ ss]) (simp_all add: pair_inv_def)

lemma pair_give:
  assumes inv: "pair_inv i p q x y ss tt" and "ep_result x = None" and "cb_read (ep_copy x) = RTransferring n"
    and k: "k \<le> length (ms_buf (cb_us (ep_copy x)))"
    and s: "py_sink p s = py_sink p (cb_other (ep_copy x)) @ take k (ms_buf (cb_us (ep_copy x)))" "py_source p s = py_source p (cb_other (ep_copy x))"
  shows "\<exists>ss'. pair_inv i p q (x\<lparr>ep_copy := (ep_copy x)\<lparr>cb_us := (cb_us (ep_copy x))\<lparr>ms_buf := drop k (ms_buf (cb_us (ep_copy x)))\<rparr>,
      cb_other := s, cb_read := RTransferring (n + word_of_nat k)\<rparr>\<rparr>) y ss' tt"
    (is "\<exists>ss'. pair_inv i p q ?x y ss' tt")
proof -
  let ?v = "view p x"
  from inv have ok: "side_ok i p x" and q: "flow_queue i (ep_mux x) = map (wire i) ss"
    and dirs: "both_dirs (py_sends p) (py_sends q) (py_window p) (py_window q) ?v (view q y) ss tt"
    by (simp_all add: pair_inv_def)
  have "view p ?x = ?v\<lparr>v_buf := drop k (v_buf ?v), v_sink := v_sink ?v @ take k (v_buf ?v), v_read := RTransferring (n + word_of_nat k)\<rparr>"
    by (simp add: view_def Let_def s)
  moreover have "side_ok i p ?x" using ok by (auto simp: side_ok_def ep_mux_def Let_def has_cell_def)
  ultimately show ?thesis using q dirs_give [OF dirs, of k n] assms(2,3) k
    by (intro pair_left [OF inv, of _ ss]) (simp_all add: ep_mux_def)
qed

lemma copy_step_pair:
  assumes inv: "pair_inv i p q x y ss tt" and run: "ep_result x = None" and "copy_step (py_sink p) (py_source p) (ep_copy x) c"
  shows "\<exists>ss'. pair_inv i p q (x\<lparr>ep_copy := c\<rparr>) y ss' tt"
proof -
  from inv have ok: "side_ok i p x" and dirs: "both_dirs (py_sends p) (py_sends q) (py_window p) (py_window q) (view p x) (view q y) ss tt"
    and q: "flow_queue i (ep_mux x) = map (wire i) ss"
    by (simp_all add: pair_inv_def)
  from assms(3) show ?thesis
  proof (cases rule: copy_step.cases)
    case (copy_fetch us m r)
    with pair_fetch [OF inv run] show ?thesis by (simp add: ep_mux_def)
  next
    case (copy_eof us m n)
    with pair_eof [OF inv run] show ?thesis by (simp add: ep_mux_def)
  next
    case (copy_idle s)
    with ok show ?thesis by (intro pair_same [OF inv]) (simp_all add: side_ok_def view_def ep_mux_def Let_def)
  next
    case (copy_read_done n)
    with ok q dirs_read_done [OF dirs, of n] run show ?thesis by (intro pair_left [OF inv, of _ ss]) (simp_all add: ep_mux_def)
  next
    case (copy_give k s n)
    with pair_give [OF inv run] show ?thesis by simp
  next
    case (copy_push w d m k s n)
    with pair_push [OF inv run] show ?thesis by (simp add: ep_mux_def)
  next
    case (copy_blocked w d m r)
    with write_effect [OF ok, of w d m r] show ?thesis by (intro pair_same [OF inv]) (simp_all add: ep_mux_def with_mux_def)
  next
    case (copy_finish m n)
    with pair_shutdown [OF inv run] show ?thesis by (simp add: ep_mux_def)
  next
    case (copy_unfinished m r)
    with shutdown_effect [OF ok, of m r] show ?thesis by (simp add: ep_mux_def)
  qed
qed

lemma copy_steps_pair:
  assumes "(copy_step (py_sink p) (py_source p))\<^sup>*\<^sup>* (ep_copy x) c" and "pair_inv i p q x y ss tt" and "ep_result x = None"
  shows "\<exists>ss'. pair_inv i p q (x\<lparr>ep_copy := c\<rparr>) y ss' tt"
  using assms(1)
proof (induction rule: rtranclp_induct)
  case base
  then show ?case using assms(2) by auto
next
  case (step c c')
  then obtain ss' where "pair_inv i p q (x\<lparr>ep_copy := c\<rparr>) y ss' tt" by blast
  from copy_step_pair [OF this, of c'] step.hyps(2) assms(3) show ?case by simp
qed

text \<open>Everything one end can do.\<close>

lemma side_step_pair:
  assumes "side_step i p x x'" and inv: "pair_inv i p q x y ss tt" and p: "party_ok p"
  shows "\<exists>ss'. pair_inv i p q x' y ss' tt"
  using assms(1)
proof (cases rule: side_step.cases)
  case (side_poll w fuel c)
  with p copy_poll_steps [of "py_rw p" "py_sink p" "py_source p" w fuel "ep_copy x" c] copy_steps_pair [OF _ inv, of c]
  show ?thesis by (simp add: party_ok_def)
next
  case (side_return w fuel c t)
  obtain a b where t: "t = (a, b)" by fastforce
  from side_return p copy_poll_steps [of "py_rw p" "py_sink p" "py_source p" w fuel "ep_copy x" c]
  have steps: "(copy_step (py_sink p) (py_source p))\<^sup>*\<^sup>* (ep_copy x) c" and over: "cb_read c = RDone a" "cb_write c = WDone b"
    by (simp_all add: party_ok_def t)
  let ?x = "x\<lparr>ep_copy := c\<rparr>"
  obtain ss' where inv': "pair_inv i p q ?x y ss' tt" using copy_steps_pair [OF steps inv side_return(2)] by blast
  then have ok: "side_ok i p ?x" and q: "flow_queue i (ep_mux ?x) = map (wire i) ss'"
    and dirs: "both_dirs (py_sends p) (py_sends q) (py_window p) (py_window q) (view p ?x) (view q y) ss' tt"
    by (simp_all add: pair_inv_def)
  have "v_closed (view p ?x)" using both_dirsD(8) [OF dirs] over by (simp add: in_sequence_def)
  note eff = drop_effect [OF ok this, of t]
  have x': "x' = with_mux (drop_stream (cb_us c) (cb_mux c)) (?x\<lparr>ep_result := Some t\<rparr>)" using side_return(1) by (simp add: with_mux_def)
  show ?thesis
    using eff q dirs_return [OF dirs, of a b] side_return(2) over unfolding x' by (intro pair_left [OF inv', of _ ss']) (simp_all add: t)
next
  case (side_world s)
  with inv show ?thesis by (intro pair_same [OF inv]) (simp_all add: pair_inv_def side_ok_def view_def ep_mux_def Let_def)
next
  case (side_others m)
  with inv others_effect [of i p x m] show ?thesis by (intro pair_same [OF inv]) (simp_all add: pair_inv_def)
next
  case (side_close rest)
  from inv have ok: "side_ok i p x" and q: "flow_queue i (ep_mux x) = map (wire i) ss"
    and dirs: "both_dirs (py_sends p) (py_sends q) (py_window p) (py_window q) (view p x) (view q y) ss tt"
    by (simp_all add: pair_inv_def)
  have res: "ep_result x \<noteq> None" using ok side_close(2) by (simp add: side_ok_def Let_def)
  then have v: "v_closed (view p x)" "v_shut (view p x)" using both_dirsD(10) [OF dirs] by (simp_all add: released_def)
  have sub: "set (ch_queue ((dropped_ports (ep_mux x))\<lparr>ch_queue := rest\<rparr>)) \<subseteq> set (ch_queue (dropped_ports (ep_mux x)))"
    using side_close(2) by auto
  show ?thesis using close_effect [OF ok v sub, of False] q dirs_close [OF dirs] res unfolding side_close(1)
    by (intro pair_left [OF inv, of _ ss]) simp_all
qed

text \<open>A frame travels from one end to the other.\<close>

lemma sent_effect:
  assumes "side_ok i p x"
  shows "side_ok i p (with_mux (tx_rest ffs (ep_mux x)) x) \<and> view p (with_mux (tx_rest ffs (ep_mux x)) x) = view p x"
proof -
  have "dropped_ports (tx_rest ffs m) = dropped_ports m" for m by (simp add: tx_rest_def)
  with assms show ?thesis by (auto simp: view_simps)
qed

lemma receive_pair:
  assumes inv: "pair_inv i p q x y (s # ss) tt" and x': "side_ok i p x'" "view p x' = view p x" "flow_queue i (ep_mux x') = map (wire i) ss"
  shows "\<exists>tt'. pair_inv i p q x' (with_mux (receive (wire i s) (ep_mux y)) y) ss tt'"
proof -
  from inv have ok: "side_ok i q y" and q: "flow_queue i (ep_mux y) = map (wire i) tt"
    and dirs: "both_dirs (py_sends p) (py_sends q) (py_window p) (py_window q) (view p x) (view q y) (s # ss) tt"
    by (simp_all add: pair_inv_def)
  note head = dirs_signal [OF dirs]
  show ?thesis
  proof (cases s)
    case (Data d)
    with head receive_data_effect [OF ok, of d] dirs_data [of _ _ _ _ _ _ d] dirs x' q show ?thesis
      by (intro exI [of _ tt]) (auto simp: pair_inv_def)
  next
    case (Credit n)
    with receive_credit_effect [OF ok, of n] dirs_credit [of _ _ _ _ _ _ n] dirs_credit_unknown [of _ _ _ _ _ _ n] dirs x' q show ?thesis
      by (intro exI [of _ "if v_present (view q y) then tt else tt @ [Abort]"]) (auto simp: pair_inv_def)
  next
    case Eof
    with head receive_eof_effect [OF ok] dirs_got_eof dirs x' q show ?thesis
      by (intro exI [of _ tt]) (auto simp: pair_inv_def)
  next
    case Abort
    with head receive_abort_effect [OF ok] dirs_abort dirs x' q show ?thesis
      by (intro exI [of _ tt]) (auto simp: pair_inv_def)
  qed
qed

lemma transfer_pair:
  assumes "transfer i x y x' y'" and inv: "pair_inv i p q x y ss tt"
  shows "\<exists>ss' tt'. pair_inv i p q x' y' ss' tt'"
  using assms(1)
proof (cases rule: transfer.cases)
  case (transfer_frame ff ffs)
  have "map (wire i) ss = ff # filter (concerns i) ffs"
    using inv transfer_frame(3,4) by (simp add: pair_inv_def flow_queue_def)
  then obtain s ss' where ss: "ss = s # ss'" "ff = wire i s" "filter (concerns i) ffs = map (wire i) ss'" by (cases ss) auto
  have "side_ok i p x' \<and> view p x' = view p x \<and> flow_queue i (ep_mux x') = map (wire i) ss'"
    using inv sent_effect [of i p x ffs] unfolding transfer_frame(1) by (simp add: pair_inv_def ss(3))
  with receive_pair [of i p q x y s ss' tt x'] inv transfer_frame(2) ss show ?thesis by auto
qed

section \<open>Runs\<close>

text \<open>
  A connection right after the handshake, when both sides start to copy: each end has the other's receive window as credit, nothing has
  been moved and nothing of the flow is on its way.
\<close>

definition fresh_view :: "bytes \<Rightarrow> u32 \<Rightarrow> u32 \<Rightarrow> side_view" where
  "fresh_view sends peer_window threshold = \<lparr>v_present = True, v_closed = False, v_shut = False, v_credit = peer_window, v_queue = [],
     v_buf = [], v_since = 0, v_threshold = threshold, v_sink = [], v_source = sends, v_read = RTransferring 0, v_write = WTransferring 0,
     v_result = None\<rparr>"

definition relay_init :: "u32 \<Rightarrow> 'o party \<Rightarrow> 'q party \<Rightarrow> 'o endpoint \<times> 'q endpoint \<Rightarrow> bool" where
  "relay_init i p q xy \<longleftrightarrow> (let (x, y) = xy in party_ok p \<and> party_ok q \<and> side_ok i p x \<and> side_ok i q y
     \<and> flow_queue i (ep_mux x) = [] \<and> flow_queue i (ep_mux y) = []
     \<and> view p x = fresh_view (py_sends p) (py_window q) (ms_rwnd_threshold (cb_us (ep_copy x)))
     \<and> view q y = fresh_view (py_sends q) (py_window p) (ms_rwnd_threshold (cb_us (ep_copy y))))"

definition relay_inv :: "u32 \<Rightarrow> 'o party \<Rightarrow> 'q party \<Rightarrow> 'o endpoint \<times> 'q endpoint \<Rightarrow> bool" where
  "relay_inv i p q xy \<longleftrightarrow> party_ok p \<and> party_ok q \<and> (\<exists>ss tt. pair_inv i p q (fst xy) (snd xy) ss tt)"

lemma fresh_dirs: "both_dirs A B wv ww (fresh_view A ww thr) (fresh_view B wv thr') [] []"
  by (intro both_dirsI)
    (simp_all add: fresh_view_def delivered_def accounted_def in_sequence_def counted_def released_def)

lemma relay_inv_init: "relay_init i p q xy \<Longrightarrow> relay_inv i p q xy"
  unfolding relay_inv_def
  by (cases xy) (auto simp: relay_init_def pair_inv_def fresh_dirs intro!: exI [of _ "[]"])

lemma relay_inv_step:
  assumes "relay_inv i p q xy" and "relay_step i p q xy xy'"
  shows "relay_inv i p q xy'"
proof -
  from assms(1) obtain ss tt where inv: "pair_inv i p q (fst xy) (snd xy) ss tt" and ok: "party_ok p" "party_ok q"
    by (auto simp: relay_inv_def)
  from assms(2) have "\<exists>ss tt. pair_inv i p q (fst xy') (snd xy') ss tt"
  proof (cases rule: relay_step.cases)
    case (relay_left x x' y)
    with side_step_pair [OF _ _ ok(1), of i x x' q y ss tt] inv show ?thesis by auto
  next
    case (relay_right y y' x)
    with side_step_pair [OF _ _ ok(2), of i y y' p x tt ss] inv show ?thesis by (auto simp: pair_inv_sym [of i p q])
  next
    case (relay_to_right x y x' y')
    with transfer_pair [of i x y x' y' p q ss tt] inv show ?thesis by auto
  next
    case (relay_to_left y x y' x')
    with transfer_pair [of i y x y' x' q p tt ss] inv show ?thesis by (auto simp: pair_inv_sym [of i p q])
  qed
  with ok show ?thesis by (simp add: relay_inv_def)
qed

interpretation relay_run: step_system "relay_init i p q" "relay_step i p q" "relay_inv i p q" for i p q
  by unfold_locales (simp_all add: relay_inv_init relay_inv_step)

section \<open>Properties\<close>

text \<open>The octets of the flow on their way in the queue of a multiplexor.\<close>

definition push_data :: "finalized_frame \<Rightarrow> bytes" where
  "push_data ff = (case frame_try_from (finalized_bytes ff) of
       Ok f \<Rightarrow> (case frame_payload f of Push d \<Rightarrow> cow_into_owned d | _ \<Rightarrow> [])
     | _ \<Rightarrow> [])"

definition in_flight :: "u32 \<Rightarrow> mux \<Rightarrow> bytes" where
  "in_flight i m = concat (map push_data (flow_queue i m))"

lemma push_data_wire: "push_data (wire i s) = concat (datas [s])"
  by (cases s) (simp_all add: push_data_def)

lemma in_flight_signals: "flow_queue i m = map (wire i) ss \<Longrightarrow> in_flight i m = concat (datas ss)"
proof -
  have "concat (map push_data (map (wire i) ss)) = concat (datas ss)"
    by (induction ss) (auto simp: push_data_wire split: signal.split)
  then show "flow_queue i m = map (wire i) ss \<Longrightarrow> in_flight i m = concat (datas ss)" by (simp add: in_flight_def)
qed

text \<open>
  C3: From end to end nothing is lost, duplicated or reordered: at every moment of a relayed connection, whatever the two parties,
  the other flows and the scheduler do, what one party has been given, followed by what waits in its stream, followed by what is on its
  way, followed by what the other party has not handed over yet, is exactly what the other party sends; in both
  directions at the same time.
\<close>

theorem relay_exact:
  assumes "reach (relay_init i p q) (relay_step i p q) (x, y)"
  shows "py_sink q (cb_other (ep_copy y)) @ unread (cb_us (ep_copy y)) (ep_mux y) @ in_flight i (ep_mux x)
      @ py_source p (cb_other (ep_copy x)) = py_sends p
    \<and> py_sink p (cb_other (ep_copy x)) @ unread (cb_us (ep_copy x)) (ep_mux x) @ in_flight i (ep_mux y)
      @ py_source q (cb_other (ep_copy y)) = py_sends q"
proof -
  from relay_run.reach_inv [OF assms] obtain ss tt where "pair_inv i p q x y ss tt" by (auto simp: relay_inv_def)
  then have q: "flow_queue i (ep_mux x) = map (wire i) ss" "flow_queue i (ep_mux y) = map (wire i) tt"
    and dirs: "both_dirs (py_sends p) (py_sends q) (py_window p) (py_window q) (view p x) (view q y) ss tt"
    by (simp_all add: pair_inv_def)
  have queue: "unread (cb_us (ep_copy z)) (ep_mux z) = v_buf (view r z) @ concat (v_queue (view r z))" for z :: "'c endpoint" and r
    by (simp add: unread_def view_def ep_mux_def Let_def)
  show ?thesis
    using both_dirsD(1,6) [OF dirs] unfolding in_flight_signals [OF q(1)] in_flight_signals [OF q(2)]
    by (simp add: delivered_def queue [of x p] queue [of y q])
qed

text \<open>What the invariant says of an end that has stopped reading, and of one that has returned.\<close>

lemma pair_read_all:
  assumes "pair_inv i p q x y ss tt" and "\<nexists>n. cb_read (ep_copy x) = RTransferring n"
  shows "py_sink p (cb_other (ep_copy x)) = py_sends q"
proof -
  from assms(1) have dirs: "both_dirs (py_sends p) (py_sends q) (py_window p) (py_window q) (view p x) (view q y) ss tt"
    by (simp add: pair_inv_def)
  note D = both_dirsD [OF dirs]
  have v: "v_closed (view p x)" "v_buf (view p x) = []" "v_queue (view p x) = []" using D(8) assms(2) by (simp_all add: in_sequence_def)
  then have "tidy True tt" "v_source (view q y) = []" using D(8) by (simp_all add: in_sequence_def)
  with tidy_closed [of tt] D(6) v show ?thesis by (simp add: delivered_def)
qed

lemma pair_result:
  assumes "pair_inv i p q x y ss tt" and "ep_result x = Some (n, m)"
  shows "py_sink p (cb_other (ep_copy x)) = py_sends q \<and> n = word_of_nat (length (py_sends q))
    \<and> py_source p (cb_other (ep_copy x)) = [] \<and> m = word_of_nat (length (py_sends p))"
proof -
  from assms(1) have dirs: "both_dirs (py_sends p) (py_sends q) (py_window p) (py_window q) (view p x) (view q y) ss tt"
    by (simp add: pair_inv_def)
  note D = both_dirsD [OF dirs]
  have v: "v_closed (view p x)" "v_shut (view p x)" "v_buf (view p x) = []" "v_queue (view p x) = []"
    "n = read_total (cb_read (ep_copy x))" "m = write_total (cb_write (ep_copy x))" using D(10) assms(2) by (simp_all add: released_def)
  then have "tidy True tt" "v_source (view q y) = []" "v_source (view p x) = []" using D(3,8) by (simp_all add: in_sequence_def)
  moreover from this tidy_closed [of tt] D(6) v have "py_sink p (cb_other (ep_copy x)) = py_sends q" by (simp add: delivered_def)
  ultimately show ?thesis using D(4,9) v by (simp add: counted_def)
qed

text \<open>
  C4: The end of a relayed connection is the end of the data: a party's connection is shut down for writing only after it has been given
  everything the other party sends, and a copying future that returns reports the exact numbers of octets (modulo \<open>2^64\<close>),
  has delivered everything the other party sends and has taken everything of its own party; this holds at both ends, however the
  closing of one end (the drop of its stream and the resets that late acknowledgements provoke) interleaves with the other.
\<close>

theorem relay_complete:
  assumes "reach (relay_init i p q) (relay_step i p q) (x, y)"
  shows "((\<nexists>k. cb_read (ep_copy x) = RTransferring k) \<longrightarrow> py_sink p (cb_other (ep_copy x)) = py_sends q)
    \<and> ((\<nexists>k. cb_read (ep_copy y) = RTransferring k) \<longrightarrow> py_sink q (cb_other (ep_copy y)) = py_sends p)
    \<and> (ep_result x = Some (n, m) \<longrightarrow> py_sink p (cb_other (ep_copy x)) = py_sends q \<and> n = word_of_nat (length (py_sends q))
         \<and> py_source p (cb_other (ep_copy x)) = [] \<and> m = word_of_nat (length (py_sends p)))
    \<and> (ep_result y = Some (n, m) \<longrightarrow> py_sink q (cb_other (ep_copy y)) = py_sends p \<and> n = word_of_nat (length (py_sends p))
         \<and> py_source q (cb_other (ep_copy y)) = [] \<and> m = word_of_nat (length (py_sends q)))"
proof -
  from relay_run.reach_inv [OF assms] obtain ss tt where inv: "pair_inv i p q x y ss tt" by (auto simp: relay_inv_def)
  then have "pair_inv i q p y x tt ss" by (simp add: pair_inv_sym [of i p q])
  with inv pair_read_all [of i p q x y ss tt] pair_read_all [of i q p y x tt ss] pair_result [of i p q x y ss tt] pair_result [of i q p y x tt ss]
  show ?thesis by blast
qed

section \<open>A run from the handshake to both returns\<close>

text \<open>One way to run the system: poll an end, or let the next frame of an end travel.\<close>

datatype act = PollLeft | PollRight | ToRight | ToLeft

definition polled :: "'o party \<Rightarrow> 'o endpoint \<Rightarrow> 'o endpoint" where
  "polled p x = (case ep_result x of Some _ \<Rightarrow> x | None \<Rightarrow> (case copy_poll (py_rw p) 0 40 (ep_copy x) of
       Some (c, Pending) \<Rightarrow> x\<lparr>ep_copy := c\<rparr>
     | Some (c, Ready (Ok t)) \<Rightarrow> with_mux (drop_stream (cb_us c) (cb_mux c)) \<lparr>ep_copy = c, ep_result = Some t\<rparr>
     | _ \<Rightarrow> x))"

definition sent_over :: "u32 \<Rightarrow> 'o endpoint \<Rightarrow> 'q endpoint \<Rightarrow> 'o endpoint \<times> 'q endpoint" where
  "sent_over i x y = (case ch_queue (tx_frame (ep_mux x)) of
       ff # ffs \<Rightarrow> if concerns i ff then (with_mux (tx_rest ffs (ep_mux x)) x, with_mux (receive ff (ep_mux y)) y) else (x, y)
     | [] \<Rightarrow> (x, y))"

primrec acted :: "u32 \<Rightarrow> 'o party \<Rightarrow> 'q party \<Rightarrow> act \<Rightarrow> 'o endpoint \<times> 'q endpoint \<Rightarrow> 'o endpoint \<times> 'q endpoint" where
  "acted i p q PollLeft xy = (polled p (fst xy), snd xy)"
| "acted i p q PollRight xy = (fst xy, polled q (snd xy))"
| "acted i p q ToRight xy = sent_over i (fst xy) (snd xy)"
| "acted i p q ToLeft xy = prod.swap (sent_over i (snd xy) (fst xy))"

lemma polled_step: "polled p x = x \<or> side_step i p x (polled p x)"
  by (auto simp: polled_def split: option.split poll.split outcome.split intro: side_poll side_return)

lemma sent_over_step: "sent_over i x y = (x, y) \<or> transfer i x y (fst (sent_over i x y)) (snd (sent_over i x y))"
  by (auto simp: sent_over_def split: list.split intro: transfer_frame)

lemma acted_step: "acted i p q a xy = xy \<or> relay_step i p q xy (acted i p q a xy)"
proof -
  obtain x y where xy: "xy = (x, y)" by fastforce
  obtain x' y' where over: "sent_over i x y = (x', y')" by fastforce
  show ?thesis
    using polled_step [of p x i] polled_step [of q y i] sent_over_step [of i x y] sent_over_step [of i y x] unfolding xy
    by (cases a) (auto simp: over prod.swap_def intro: relay_step.intros)
qed

lemma acted_reach:
  "reach (relay_init i p q) (relay_step i p q) xy \<Longrightarrow> reach (relay_init i p q) (relay_step i p q) (acted i p q a xy)"
  using acted_step [of i p q a xy] by (auto intro: reach_step)

lemma fold_acted_reach:
  "reach (relay_init i p q) (relay_step i p q) xy \<Longrightarrow> reach (relay_init i p q) (relay_step i p q) (fold (acted i p q) as xy)"
  by (induction as arbitrary: xy) (simp_all add: acted_reach)

definition left_party :: "(bytes \<times> bytes) party" where
  "left_party = \<lparr>py_rw = pipe, py_sink = snd, py_source = fst, py_sends = [1, 2, 3], py_window = 512\<rparr>"

definition right_party :: "(bytes \<times> bytes) party" where
  "right_party = \<lparr>py_rw = pipe, py_sink = snd, py_source = fst, py_sends = [9], py_window = 4\<rparr>"

definition relay0 :: "(bytes \<times> bytes) endpoint \<times> (bytes \<times> bytes) endpoint" where
  "relay0 = (let l = link_of 4 2 in
     (\<lparr>ep_copy = into_copy_bidirectional_with_buf (lk_sa l) ([1, 2, 3], []) (lk_a l), ep_result = None\<rparr>,
      \<lparr>ep_copy = into_copy_bidirectional_with_buf (lk_sb l) ([9], []) (lk_b l), ep_result = None\<rparr>))"

definition relay_end :: "(bytes \<times> bytes) endpoint \<times> (bytes \<times> bytes) endpoint" where
  "relay_end = fold (acted 7 left_party right_party) [PollLeft, ToRight, ToRight, PollRight, ToLeft, ToLeft, PollLeft] relay0"

lemma relay0_init: "relay_init 7 left_party right_party relay0"
proof -
  have "party_ok left_party" "party_ok right_party"
    by (simp_all add: party_ok_def left_party_def right_party_def pipe_contract)
  moreover have "side_ok 7 left_party (fst relay0)" by code_simp
  moreover have "side_ok 7 right_party (snd relay0)" by code_simp
  moreover have "flow_queue 7 (ep_mux (fst relay0)) = []" by code_simp
  moreover have "flow_queue 7 (ep_mux (snd relay0)) = []" by code_simp
  moreover have "view left_party (fst relay0) = fresh_view (py_sends left_party) (py_window right_party) (ms_rwnd_threshold (cb_us (ep_copy (fst relay0))))"
    by code_simp
  moreover have "view right_party (snd relay0) = fresh_view (py_sends right_party) (py_window left_party) (ms_rwnd_threshold (cb_us (ep_copy (snd relay0))))"
    by code_simp
  ultimately show ?thesis by (simp add: relay_init_def case_prod_beta)
qed

lemma relay_end_reach: "reach (relay_init 7 left_party right_party) (relay_step 7 left_party right_party) relay_end"
  unfolding relay_end_def by (rule fold_acted_reach, rule reach_init, rule relay0_init)

lemma relay_end_results: "ep_result (fst relay_end) = Some (1, 3)" "ep_result (snd relay_end) = Some (3, 1)"
  by code_simp+

theorem relay_exact_witness:
  "snd (cb_other (ep_copy (snd relay_end))) @ unread (cb_us (ep_copy (snd relay_end))) (ep_mux (snd relay_end))
     @ in_flight 7 (ep_mux (fst relay_end)) @ fst (cb_other (ep_copy (fst relay_end))) = [1, 2, 3]"
  using relay_exact [of 7 left_party right_party "fst relay_end" "snd relay_end"] relay_end_reach
  by (simp add: left_party_def right_party_def)

theorem relay_complete_witness:
  "snd (cb_other (ep_copy (fst relay_end))) = [9] \<and> snd (cb_other (ep_copy (snd relay_end))) = [1, 2, 3]"
  using relay_complete [of 7 left_party right_party "fst relay_end" "snd relay_end" 1 3]
    relay_complete [of 7 left_party right_party "fst relay_end" "snd relay_end" 3 1] relay_end_reach relay_end_results
  by (simp add: left_party_def right_party_def)

end
