(* ===== verification/Relay_Others.thy ===== *)
theory Relay_Others
  imports Relay
begin

text \<open>
  What theory \<open>Relay\<close> allows the rest of a multiplexor to do is what it does: sending a frame of another flow and processing a
  received one leave an open flow alone.
\<close>

lemma others_refl: "others i a m m"
  by (simp add: others_def)

lemma others_sent: "ch_queue (tx_frame m) = ff # ffs \<Longrightarrow> \<not> concerns i ff \<Longrightarrow> others i a m (tx_rest ffs m)"
  by (simp add: others_def flow_queue_def tx_rest_def slot_of_def cell_def)

text \<open>A received frame only adds cells, keeps the task running and reports no stream dropped but its own.\<close>

definition grows :: "u32 \<Rightarrow> mux \<Rightarrow> mux \<Rightarrow> bool" where
  "grows j m m' \<longleftrightarrow> length (cells m) \<le> length (cells m') \<and> ch_rx_open (tx_frame m') = ch_rx_open (tx_frame m)
     \<and> set (ch_queue (dropped_ports m')) \<subseteq> insert j (set (ch_queue (dropped_ports m)))"

lemma drop_stream_dropped:
  "set (ch_queue (dropped_ports (drop_stream s m))) \<subseteq> insert (ms_flow_id s) (set (ch_queue (dropped_ports m)))"
  by (auto simp: drop_stream_def notify_dropped_def chan_send_def ch_push_def)

lemma drop_stream_cells [simp]: "length (cells (drop_stream s m)) = length (cells m)"
  by (simp add: drop_stream_def)

lemma close_port_grows: "grows j m (close_port i inhibit m)"
proof (cases "slot_of m i")
  case (Some s)
  then show ?thesis
    by (cases s) (auto simp: grows_def close_port_def close_port_local_simps close_write_def Let_def)
qed (auto simp: grows_def close_port_def)

lemma connect_grows:
  assumes "mux_rwnd m \<noteq> 0"
  shows "grows i m (fst (con_recv_new_stream i h p n m))"
  using assms
  by (auto simp: grows_def con_recv_new_stream_eq send_stream_to_user_def poll_send_def drop_stream_def notify_dropped_def
    chan_send_def ch_push_def new_stream_of_def)

lemma ack_grows:
  assumes "mux_rwnd m \<noteq> 0"
  shows "grows i m (fst (recv_ack i n m))"
  using assms drop_stream_dropped
  by (auto simp: grows_def recv_ack_def acknowledge_def ack_recv_new_stream_Requested Let_def new_stream_of_def drop_stream_def
    notify_dropped_def chan_send_def ch_push_def split: option.split flow_slot.split)

lemma finish_grows: "grows i m (recv_finish i m)"
  by (auto simp: grows_def recv_finish_def disallow_read_def drop_stream_os_tx_def Let_def split: option.split flow_slot.split)

lemma push_grows: "grows i m (recv_push i d m)"
  using close_port_grows [of i m i False] by (auto simp: recv_push_eq split: option.split flow_slot.split) (simp_all add: grows_def)

lemma frame_grows: "mux_rwnd m \<noteq> 0 \<Longrightarrow> grows (frame_id f) m (fst (process_frame f ignore m))"
  by (cases "frame_payload f")
    (auto simp: process_frame_def connect_grows ack_grows finish_grows push_grows close_port_grows,
     auto simp: grows_def recv_bind_def send_bind_to_user_def poll_send_def recv_datagram_def Let_def case_prod_beta
       split: option.split outcome.split try_send_error.split)

text \<open>The frames a received frame makes an end send are of the same flow.\<close>

lemma others_frame:
  assumes "mux_wf m" and "frame_id f \<noteq> i" and "slot_of m i = Some (Established d)"
  shows "others i (es_cell d) m (fst (process_frame f ignore m))"
proof -
  let ?m = "fst (process_frame f ignore m)"
  have rw: "mux_rwnd m \<noteq> 0" using assms(1) by (rule mux_wf_rwnd)
  have "flow_view ?m i = flow_view m i" using assms(1,2) by (intro process_frame_flow_view) auto
  then have same: "slot_of ?m i = slot_of m i" "cell ?m (es_cell d) = cell m (es_cell d)"
    using assms(3) by (auto simp: flow_view_def split: option.splits flow_slot.splits)
  from process_frame_replies [OF rw, of f ignore] obtain rs where rs: "replies m ?m rs"
    "set rs \<subseteq> {fin (new_reset (frame_id f)), fin (new_acknowledge (frame_id f) (mux_rwnd m))}" by (auto split: if_splits)
  have "\<not> concerns i (fin (new_reset (frame_id f)))" "\<not> concerns i (fin (new_acknowledge (frame_id f) (mux_rwnd m)))"
    using concerns_wire [of i "frame_id f" Abort] concerns_wire [of i "frame_id f" "Credit (mux_rwnd m)"] assms(2)
    by (simp_all add: wire_def del: concerns_wire)
  then have "filter (concerns i) rs = []" using rs(2) by (auto simp: filter_empty_conv)
  with rs(1) have "flow_queue i ?m = flow_queue i m" by (simp add: flow_queue_def replies_def)
  with same frame_grows [OF rw, of f ignore] assms(2) show ?thesis by (auto simp: others_def grows_def)
qed

end
