(* ===== verification/Relay_Liveness.thy ===== *)
theory Relay_Liveness
  imports Relay_Properties Relay_Others
begin

text \<open>
  A relayed connection does not get stuck: with parties that always have the next octets or the end ready and always accept,
  two ends between which nothing is on its way cannot both wait. The argument is the accounting of the window: an
  end that waits for credit has sent a window of frames, the other end has read and counted them, and an acknowledgement is due.
\<close>

section \<open>Eager parties\<close>

definition eager :: "'o rw \<Rightarrow> bool" where
  "eager rw \<longleftrightarrow> (\<forall>x. \<exists>d. snd (rw_fill_buf rw x) = Ready (Ok d)) \<and> (\<forall>d x. d \<noteq> [] \<longrightarrow> (\<exists>k. snd (rw_write rw d x) = Ready (Ok k)))
     \<and> (\<forall>x. snd (rw_shutdown rw x) = Ready (Ok ()))"

text \<open>The reading direction waits only when the stream is empty and open.\<close>

definition drained :: "'o copy_bidirectional \<Rightarrow> bool" where
  "drained c \<longleftrightarrow> unread (cb_us c) (cb_mux c) = [] \<and> ch_tx_alive (frames_at (cb_mux c) (ms_cell (cb_us c)))"

lemma read_loop_eager:
  assumes e: "eager rw"
  shows "read_loop rw fuel n c = Some (c', r) \<Longrightarrow> has_cell (cb_mux c) (cb_us c)
    \<Longrightarrow> r = Pending \<and> drained c' \<or> (\<exists>k. r = Ready (Ok k)) \<or> r = Ready Panic"
proof (induction fuel arbitrary: n c)
  case (Suc fuel)
  obtain us m res where fb: "poll_fill_buf (cb_us c) (cb_mux c) = (us, m, res)" by (metis prod_cases3)
  note fbc = poll_fill_buf_cases [OF Suc.prems(2), unfolded fb, simplified]
  have hc: "has_cell m t = has_cell (cb_mux c) t" for t using has_cell_fill [of "cb_us c" "cb_mux c" t] fb by simp
  consider (pend) "res = Pending" | (eof) "res = Ready (Ok [])"
    | (data) d where "res = Ready (Ok d)" "d \<noteq> []"
    using fbc by (cases res) (auto split: outcome.splits)
  then show ?case
  proof cases
    case pend
    with Suc.prems(1) fb fbc show ?thesis by (auto simp: drained_def)
  next
    case eof
    obtain x where "rw_shutdown rw (cb_other c) = (x, Ready (Ok ()))" using e by (metis eager_def prod.collapse)
    with Suc.prems(1) fb eof show ?thesis by (auto simp: shut_other_def)
  next
    case (data d)
    obtain x k where wr: "rw_write rw d (cb_other c) = (x, Ready (Ok k))" using e data(2) by (metis eager_def prod.collapse)
    show ?thesis
    proof (cases "k \<le> length (ms_buf us)")
      case True
      let ?c = "c\<lparr>cb_us := us\<lparr>ms_buf := drop k (ms_buf us)\<rparr>, cb_mux := m, cb_other := x, cb_read := RTransferring (n + word_of_nat k)\<rparr>"
      have "read_loop rw fuel (n + word_of_nat k) ?c = Some (c', r)"
        using Suc.prems(1) fb data wr True by (simp add: consume_def Let_def)
      moreover have "has_cell (cb_mux ?c) (cb_us ?c)" using hc Suc.prems(2) fbc data(1) by (simp add: has_cell_def)
      ultimately show ?thesis by (rule Suc.IH)
    next
      case False
      with Suc.prems(1) fb data wr show ?thesis by (auto simp: consume_def)
    qed
  qed
qed simp

lemma poll_read_us_eager:
  assumes e: "eager rw" and "poll_read_us rw fuel c = Some (c', r)" and "has_cell (cb_mux c) (cb_us c)" and "r \<noteq> Ready Panic"
  shows "r = Pending \<and> drained c' \<or> (\<exists>k. r = Ready (Ok k))"
proof (cases "cb_read c")
  case (RTransferring n)
  with assms read_loop_eager [OF e, of fuel n c c' r] show ?thesis by (simp add: poll_read_us_def)
next
  case (RShuttingDown n)
  obtain x where "rw_shutdown rw (cb_other c) = (x, Ready (Ok ()))" using e by (metis eager_def prod.collapse)
  with RShuttingDown assms(2) show ?thesis by (auto simp: poll_read_us_def shut_other_def)
qed (use assms(2) in \<open>auto simp: poll_read_us_def\<close>)

text \<open>The writing direction waits only for credit.\<close>

lemma write_loop_eager:
  assumes e: "eager rw"
  shows "write_loop rw w fuel n c = Some (c', r) \<Longrightarrow> has_cell (cb_mux c) (cb_us c) \<Longrightarrow> ch_rx_open (tx_frame (cb_mux c))
    \<Longrightarrow> \<not> c_finish_sent (cell (cb_mux c) (ms_cell (cb_us c))) \<Longrightarrow> cb_write c = WTransferring n
    \<Longrightarrow> r = Pending \<and> credit_of c' = 0 \<and> (\<exists>k. cb_write c' = WTransferring k) \<or> (\<exists>k. r = Ready (Ok k) \<and> cb_write c' = WDone k)"
proof (induction fuel arbitrary: n c)
  case (Suc fuel)
  let ?a = "ms_cell (cb_us c)"
  obtain x d where fill: "rw_fill_buf rw (cb_other c) = (x, Ready (Ok d))" using e by (metis eager_def prod.collapse)
  consider (eof) "d = []" | (wait) "d \<noteq> []" "credit_of c = 0" | (push) "d \<noteq> []" "credit_of c \<noteq> 0" by blast
  then show ?case
  proof cases
    case eof
    with Suc.prems fill show ?thesis by (auto simp: end_write_def shutdown_inner_def Let_def tx_send_fin_eq)
  next
    case wait
    with Suc.prems fill show ?thesis
      by (auto simp: poll_write_cases credit_of_def register_waker_def cell_upd_cell has_cell_def)
  next
    case push
    let ?m = "queue_frame (new_push (ms_flow_id (cb_us c)) d) (upd_cell ?a (\<lambda>s. s\<lparr>c_psh_send_remaining := c_psh_send_remaining s - 1\<rparr>) (cb_mux c))"
    let ?n = "n + word_of_nat (length d)"
    let ?c = "c\<lparr>cb_other := rw_consume rw (length d) x, cb_mux := ?m, cb_write := WTransferring ?n\<rparr>"
    have "write_loop rw w fuel ?n ?c = Some (c', r)"
      using Suc.prems fill push by (simp add: poll_write_cases credit_of_def Let_def)
    then show ?thesis using Suc.prems by (intro Suc.IH [of ?n ?c]) (simp_all add: has_cell_def cell_upd_cell)
  qed
qed simp

lemma poll_write_us_eager:
  assumes e: "eager rw" and "poll_write_us rw w fuel c = Some (c', r)" and "has_cell (cb_mux c) (cb_us c)" and "ch_rx_open (tx_frame (cb_mux c))"
    and "c_finish_sent (cell (cb_mux c) (ms_cell (cb_us c))) \<longleftrightarrow> (\<exists>k. cb_write c = WDone k)"
  shows "r = Pending \<and> credit_of c' = 0 \<and> (\<exists>k. cb_write c' = WTransferring k) \<or> (\<exists>k. r = Ready (Ok k) \<and> cb_write c' = WDone k)"
proof (cases "cb_write c")
  case (WTransferring n)
  with assms write_loop_eager [OF e, of w fuel n c c' r] show ?thesis by (simp add: poll_write_us_def)
qed (use assms(2) in \<open>auto simp: poll_write_us_def\<close>)

section \<open>One poll\<close>

lemma read_loop_threshold: "read_loop rw fuel n c = Some (c', r) \<Longrightarrow> ms_rwnd_threshold (cb_us c') = ms_rwnd_threshold (cb_us c)"
  by (induction fuel arbitrary: n c) (auto simp: shut_other_def consume_def poll_fill_buf_def increment_psh_recvd_since_def Let_def
    split: poll.splits outcome.splits option.splits prod.splits if_splits)

lemma write_loop_us: "write_loop rw w fuel n c = Some (c', r) \<Longrightarrow> cb_us c' = cb_us c"
  by (induction fuel arbitrary: n c) (auto simp: flush_other_def end_write_def Let_def
    split: poll.splits outcome.splits prod.splits if_splits)

lemma copy_poll_threshold:
  assumes "copy_poll rw w fuel c = Some (c', r)"
  shows "ms_rwnd_threshold (cb_us c') = ms_rwnd_threshold (cb_us c)"
proof -
  from assms obtain c1 r1 r2 where p: "poll_read_us rw fuel c = Some (c1, r1)" "poll_write_us rw w fuel c1 = Some (c', r2)"
    by (auto simp: copy_poll_def split: option.splits prod.splits)
  from p(1) read_loop_threshold [of rw fuel _ c c1 r1] have "ms_rwnd_threshold (cb_us c1) = ms_rwnd_threshold (cb_us c)"
    by (auto simp: poll_read_us_def shut_other_def split: read_state.splits poll.splits outcome.splits prod.splits)
  moreover from p(2) write_loop_us [of rw w fuel _ c1 c' r2] have "cb_us c' = cb_us c1"
    by (auto simp: poll_write_us_def split: write_state.splits)
  ultimately show ?thesis by simp
qed

text \<open>
  A poll of an eager end returns, or has emptied its stream and waits for credit unless it is done writing, in which case the other direction
  is still open.
\<close>

definition waiting :: "side_view \<Rightarrow> bool" where
  "waiting v \<longleftrightarrow> v_queue v = [] \<and> (if v_shut v then \<not> v_closed v else v_credit v = 0)"

lemma pair_sequence:
  assumes "pair_inv i p q x y ss tt"
  shows "v_shut (view p x) \<longleftrightarrow> (\<exists>k. cb_write (ep_copy x) = WDone k)" "v_closed (view p x) \<longleftrightarrow> v_shut (view q y) \<and> Eof \<notin> set tt"
    "[] \<notin> set (v_queue (view p x))" "cb_read (ep_copy x) = RDone k \<Longrightarrow> v_queue (view p x) = []"
    "has_cell (cb_mux (ep_copy x)) (cb_us (ep_copy x))" "ch_rx_open (tx_frame (cb_mux (ep_copy x)))"
proof -
  from assms have dirs: "both_dirs (py_sends p) (py_sends q) (py_window p) (py_window q) (view p x) (view q y) ss tt" and ok: "side_ok i p x"
    by (simp_all add: pair_inv_def)
  note D = both_dirsD(3,8) [OF dirs, unfolded in_sequence_def]
  show "v_shut (view p x) \<longleftrightarrow> (\<exists>k. cb_write (ep_copy x) = WDone k)" using D(1) by simp
  show "v_closed (view p x) \<longleftrightarrow> v_shut (view q y) \<and> Eof \<notin> set tt" using D(2) tidy_closed [of tt] by auto
  show "[] \<notin> set (v_queue (view p x))" using D(2) by simp
  show "cb_read (ep_copy x) = RDone k \<Longrightarrow> v_queue (view p x) = []" using D(2) by simp
  show "has_cell (cb_mux (ep_copy x)) (cb_us (ep_copy x))" "ch_rx_open (tx_frame (cb_mux (ep_copy x)))"
    using ok by (simp_all add: side_ok_def ep_mux_def Let_def)
qed

lemma eager_poll:
  assumes inv: "pair_inv i p q x y ss tt" and p: "party_ok p" and e: "eager (py_rw p)" and run: "ep_result x = None"
    and fuel: "length (unread (cb_us (ep_copy x)) (ep_mux x)) < fuel" "unat (credit_of (ep_copy x)) < fuel"
  shows "\<exists>c r ss'. copy_poll (py_rw p) w fuel (ep_copy x) = Some (c, r) \<and> pair_inv i p q (x\<lparr>ep_copy := c\<rparr>) y ss' tt
    \<and> ((\<exists>t. r = Ready (Ok t)) \<or> waiting (view p (x\<lparr>ep_copy := c\<rparr>)))"
proof -
  note wc = conjunct1 [OF p [unfolded party_ok_def]] and rc = conjunct2 [OF p [unfolded party_ok_def]]
  note hc = pair_sequence(5) [OF inv]
  obtain c1 r1 where read: "poll_read_us (py_rw p) fuel (ep_copy x) = Some (c1, r1)" "r1 \<noteq> Ready Panic"
    using poll_read_us_moves [OF wc hc, of fuel] fuel(1) by (auto simp: ep_mux_def)
  note steps1 = poll_read_us_steps [OF wc rc read(1)]
  obtain ss1 where inv1: "pair_inv i p q (x\<lparr>ep_copy := c1\<rparr>) y ss1 tt" using copy_steps_pair [OF _ inv run, of c1] steps1 by blast
  note seq1 = pair_sequence [OF inv1, simplified]
  have "unat (credit_of c1) < fuel" using poll_read_us_keeps [OF rc read(1)] fuel(2) by (simp add: keeps_writing_def)
  from poll_write_us_sends [OF rc seq1(5) this, of w] obtain c r2 chunks tail where
    wrote: "poll_write_us (py_rw p) w fuel c1 = Some (c, r2)" and sent: "sent (py_sink p) (py_source p) c1 c chunks tail" by blast
  note steps2 = poll_write_us_steps [OF rc wrote]
  let ?x = "x\<lparr>ep_copy := c\<rparr>"
  obtain ss' where inv': "pair_inv i p q ?x y ss' tt" using copy_steps_pair [OF _ inv1, of c] steps2 run by auto
  note seq = pair_sequence [OF inv', simplified]
  have "c_finish_sent (cell (cb_mux c1) (ms_cell (cb_us c1))) \<longleftrightarrow> (\<exists>k. cb_write c1 = WDone k)"
    using seq1(1) by (simp add: view_def Let_def)
  from poll_write_us_eager [OF e wrote seq1(5,6) this]
  have w: "r2 = Pending \<and> v_credit (view p ?x) = 0 \<and> \<not> v_shut (view p ?x) \<or> (\<exists>k. r2 = Ready (Ok k)) \<and> v_shut (view p ?x)"
    unfolding seq(1) by (auto simp: credit_of_def view_def Let_def)
  have "waiting (view p ?x) \<or> (\<exists>a b. r1 = Ready (Ok a) \<and> r2 = Ready (Ok b))"
    using poll_read_us_eager [OF e read(1) hc read(2)]
  proof
    assume wait: "r1 = Pending \<and> drained c1"
    then have "unread (cb_us c) (cb_mux c) = []" using sent by (auto simp: drained_def sent_def)
    then have "concat (v_queue (view p ?x)) = []" by (simp add: unread_def view_def Let_def)
    then have "v_queue (view p ?x) = []" using seq(3) by (cases "v_queue (view p ?x)") auto
    moreover have "\<not> v_closed (view p ?x)" using wait seq(2) seq1(2) by (simp add: drained_def view_def Let_def)
    ultimately show ?thesis using w by (auto simp: waiting_def)
  next
    assume "\<exists>k. r1 = Ready (Ok k)"
    with w steps1 steps2 seq(4) show ?thesis by (auto simp: waiting_def)
  qed
  with read wrote inv' show ?thesis by (intro exI [of _ c] exI) (auto simp: copy_poll_def)
qed

section \<open>Two ends\<close>

text \<open>An end that waits although nothing of the flow is on its way waits for the other end to read.\<close>

lemma waiting_for_credit:
  assumes inv: "pair_inv i p q x y [] []" and inv': "pair_inv i p q x y' [] []" and run: "ep_result x = None" "ep_result y' = None"
    and "v_credit (view p x) = 0" and "v_queue (view q y') = []" and "ms_rwnd_threshold (cb_us (ep_copy y')) \<le> py_window q" and "py_window q \<noteq> 0"
  shows False
proof -
  from inv' have dirs: "both_dirs (py_sends p) (py_sends q) (py_window p) (py_window q) (view p x) (view q y') [] []" by (simp add: pair_inv_def)
  have "unat (v_since (view q y')) = unat (py_window q)" "v_since (view q y') = 0 \<or> v_since (view q y') < ms_rwnd_threshold (cb_us (ep_copy y'))"
    using both_dirsD(2) [OF dirs] run assms(5,6) by (simp_all add: accounted_def) (simp add: view_def Let_def)
  then have "v_since (view q y') = py_window q" by (simp add: word_unat_eq_iff)
  with \<open>v_since _ = 0 \<or> _\<close> assms(7,8) show False by auto
qed

lemma same_credit:
  assumes "pair_inv i p q x y [] []" and "pair_inv i p q x' y [] []" and "ep_result x = None" "ep_result x' = None" "ep_result y = None"
  shows "v_credit (view p x') = v_credit (view p x)"
proof -
  have "unat (v_credit (view p z)) + length (v_queue (view q y)) + unat (v_since (view q y)) = unat (py_window q)"
    if "pair_inv i p q z y [] []" "ep_result z = None" for z
  proof -
    from that(1) have dirs: "both_dirs (py_sends p) (py_sends q) (py_window p) (py_window q) (view p z) (view q y) [] []" by (simp add: pair_inv_def)
    show ?thesis using both_dirsD(2) [OF dirs] that(2) assms(5) by (simp add: accounted_def)
  qed
  from this [OF assms(1,3)] this [OF assms(2,4)] show ?thesis by (simp add: word_unat_eq_iff)
qed

text \<open>Polling the two ends one after the other, with nothing put on its way, leaves one of them not waiting.\<close>

lemma not_both_waiting:
  assumes inv: "pair_inv i p q x y [] []" and left: "pair_inv i p q x' y [] []" and right: "pair_inv i p q x y' [] []"
    and run: "ep_result x = None" "ep_result y = None" "ep_result x' = None" "ep_result y' = None"
    and thr: "ms_rwnd_threshold (cb_us (ep_copy x')) \<le> py_window p" "ms_rwnd_threshold (cb_us (ep_copy y')) \<le> py_window q"
    and win: "py_window p \<noteq> 0" "py_window q \<noteq> 0"
    and w: "waiting (view p x')" "waiting (view q y')"
  shows False
proof -
  note sym = pair_inv_sym [of i p q]
  have x: "v_shut (view p x')"
    using w same_credit [OF inv left run(1,3,2)] waiting_for_credit [OF inv right run(1,4) _ _ thr(2) win(2)] by (auto simp: waiting_def split: if_splits)
  have y: "v_shut (view q y')"
    using w same_credit [OF inv [unfolded sym] right [unfolded sym] run(2,4,1)]
      waiting_for_credit [OF inv [unfolded sym] left [unfolded sym] run(2,3) _ _ thr(1) win(1)] by (auto simp: waiting_def split: if_splits)
  have "v_closed (view q y) \<longleftrightarrow> v_shut (view p x')" "v_closed (view q y') \<longleftrightarrow> v_shut (view p x)" "v_closed (view q y) \<longleftrightarrow> v_shut (view p x)"
    using pair_sequence(2) [OF left [unfolded sym]] pair_sequence(2) [OF right [unfolded sym]] pair_sequence(2) [OF inv [unfolded sym]] by simp_all
  with x y w(2) show False by (simp add: waiting_def)
qed

text \<open>
  C8: A relayed connection is never stuck: when both futures still run, the parties are always ready, each end's acknowledgement threshold does
  not exceed its window, and no frame of the flow is on its way, then a poll of one of the two ends (both return, with fuel
  for the unread octets and the credit) completes its future or puts a frame on its way.
\<close>

theorem relay_not_stuck:
  assumes "reach (relay_init i p q) (relay_step i p q) (x, y)" and "eager (py_rw p)" and "eager (py_rw q)"
    and "ep_result x = None" and "ep_result y = None" and "flow_queue i (ep_mux x) = []" and "flow_queue i (ep_mux y) = []"
    and "ms_rwnd_threshold (cb_us (ep_copy x)) \<le> py_window p" and "ms_rwnd_threshold (cb_us (ep_copy y)) \<le> py_window q"
    and "py_window p \<noteq> 0" and "py_window q \<noteq> 0"
    and "length (unread (cb_us (ep_copy x)) (ep_mux x)) < fuel" and "unat (credit_of (ep_copy x)) < fuel"
    and "length (unread (cb_us (ep_copy y)) (ep_mux y)) < fuel" and "unat (credit_of (ep_copy y)) < fuel"
  shows "\<exists>c r d s. copy_poll (py_rw p) w fuel (ep_copy x) = Some (c, r) \<and> copy_poll (py_rw q) w fuel (ep_copy y) = Some (d, s)
    \<and> ((\<exists>t. r = Ready (Ok t)) \<or> (\<exists>t. s = Ready (Ok t)) \<or> flow_queue i (cb_mux c) \<noteq> [] \<or> flow_queue i (cb_mux d) \<noteq> [])"
proof -
  from relay_run.reach_inv [OF assms(1)] obtain ss tt where "pair_inv i p q x y ss tt" and ok: "party_ok p" "party_ok q"
    by (auto simp: relay_inv_def)
  with assms(6,7) have inv: "pair_inv i p q x y [] []" by (auto simp: pair_inv_def)
  note sym = pair_inv_sym [of i p q]
  from eager_poll [OF inv ok(1) assms(2,4,12,13), of w] obtain c r ss' where
    x: "copy_poll (py_rw p) w fuel (ep_copy x) = Some (c, r)" "pair_inv i p q (x\<lparr>ep_copy := c\<rparr>) y ss' []"
      "(\<exists>t. r = Ready (Ok t)) \<or> waiting (view p (x\<lparr>ep_copy := c\<rparr>))" by blast
  from eager_poll [OF inv [unfolded sym] ok(2) assms(3,5,14,15), of w] obtain d s tt' where
    y: "copy_poll (py_rw q) w fuel (ep_copy y) = Some (d, s)" "pair_inv i q p (y\<lparr>ep_copy := d\<rparr>) x tt' []"
      "(\<exists>t. s = Ready (Ok t)) \<or> waiting (view q (y\<lparr>ep_copy := d\<rparr>))" by blast
  have thr: "ms_rwnd_threshold (cb_us c) = ms_rwnd_threshold (cb_us (ep_copy x))" "ms_rwnd_threshold (cb_us d) = ms_rwnd_threshold (cb_us (ep_copy y))"
    using copy_poll_threshold [OF x(1)] copy_poll_threshold [OF y(1)] .
  have "False" if quiet: "flow_queue i (cb_mux c) = []" "flow_queue i (cb_mux d) = []" and "\<not> (\<exists>t. r = Ready (Ok t))" "\<not> (\<exists>t. s = Ready (Ok t))"
  proof -
    have "ss' = []" "tt' = []" using x(2) y(2) quiet by (simp_all add: pair_inv_def)
    with not_both_waiting [OF inv, of "x\<lparr>ep_copy := c\<rparr>" "y\<lparr>ep_copy := d\<rparr>"] x y assms(4,5,8-11) that(3,4) thr show False
      by (simp add: sym)
  qed
  with x(1) y(1) show ?thesis by blast
qed

lemma pipe_eager: "eager pipe"
  by (simp add: eager_def pipe_def)

theorem relay_not_stuck_witness:
  "\<exists>c r d s. copy_poll pipe 0 600 (ep_copy (fst relay0)) = Some (c, r) \<and> copy_poll pipe 0 600 (ep_copy (snd relay0)) = Some (d, s)
    \<and> ((\<exists>t. r = Ready (Ok t)) \<or> (\<exists>t. s = Ready (Ok t)) \<or> flow_queue 7 (cb_mux c) \<noteq> [] \<or> flow_queue 7 (cb_mux d) \<noteq> [])"
proof -
  have reach0: "reach (relay_init 7 left_party right_party) (relay_step 7 left_party right_party) (fst relay0, snd relay0)"
    using reach_init [of "relay_init 7 left_party right_party" relay0] relay0_init by simp
  have rw: "py_rw left_party = pipe" "py_rw right_party = pipe" "py_window left_party = 512" "py_window right_party = 4"
    by (simp_all add: left_party_def right_party_def)
  have results: "ep_result (fst relay0) = None" "ep_result (snd relay0) = None" by code_simp+
  have queues: "flow_queue 7 (ep_mux (fst relay0)) = []" "flow_queue 7 (ep_mux (snd relay0)) = []" by code_simp+
  have thr: "ms_rwnd_threshold (cb_us (ep_copy (fst relay0))) \<le> 512" "ms_rwnd_threshold (cb_us (ep_copy (snd relay0))) \<le> 4" by code_simp+
  have unread: "unread (cb_us (ep_copy (fst relay0))) (ep_mux (fst relay0)) = []" "unread (cb_us (ep_copy (snd relay0))) (ep_mux (snd relay0)) = []"
    by code_simp+
  have credit: "credit_of (ep_copy (fst relay0)) = 4" "credit_of (ep_copy (snd relay0)) = 512" by code_simp+
  show ?thesis
    using relay_not_stuck [OF reach0, of 600 0] by (simp add: rw results queues thr unread credit pipe_eager)
qed

end
