(* ===== verification/Relay_Open.thy ===== *)
theory Relay_Open
  imports Relay_Properties
begin

text \<open>
  How a relayed connection comes about: the opening handshake of a stream, the acceptance at the other end and the
  creation of the two copying futures lead to an initial state of \<open>Relay\<close>. The properties of a relay thus hold from the
  first octet on of every stream that the code opens. The one thing to know of the past is that no stream of the same identifier was
  dropped whose notification is still unread (\<open>stale_drop_resets_new_stream\<close> in \<open>Mux_Shutdown\<close> shows what happens otherwise).
\<close>

section \<open>The handshake starts a relay\<close>

text \<open>One end, just after its flow was entered: \<open>m\<close> may differ in what does not concern the flow.\<close>

definition new_side :: "u32 \<Rightarrow> u32 \<Rightarrow> mux \<Rightarrow> mux_stream \<Rightarrow> mux \<Rightarrow> bool" where
  "new_side i n m0 s m \<longleftrightarrow> (\<exists>h p. s = new_stream_of i n h p m0) \<and> cells m = cells (add_flow i n m0)
     \<and> slot_of m i = slot_of (add_flow i n m0) i \<and> ch_rx_open (tx_frame m) \<and> flow_queue i m = [] \<and> i \<notin> set (ch_queue (dropped_ports m))"

lemma new_side_relay:
  fixes i n m0 s m p x0
  defines "x \<equiv> \<lparr>ep_copy = into_copy_bidirectional_with_buf s x0 m, ep_result = None\<rparr>"
  assumes "new_side i n m0 s m" and "py_window p = mux_rwnd m0" and "py_sink p x0 = []" and "py_source p x0 = py_sends p"
  shows "side_ok i p x \<and> flow_queue i (ep_mux x) = [] \<and> view p x = fresh_view (py_sends p) n (ms_rwnd_threshold (cb_us (ep_copy x)))"
proof -
  from assms(2) obtain h pt where s: "s = new_stream_of i n h pt m0" and m: "cells m = cells (add_flow i n m0)"
    "slot_of m i = slot_of (add_flow i n m0) i" "ch_rx_open (tx_frame m)" "flow_queue i m = []" "i \<notin> set (ch_queue (dropped_ports m))"
    by (auto simp: new_side_def)
  have c: "cell m (length (cells m0)) = cell (add_flow i n m0) (length (cells m0))" by (simp add: cell_def m(1))
  have f: "frames_at m (length (cells m0)) = \<lparr>ch_queue = [], ch_cap = Some (unat (mux_rwnd m0)), ch_rx_open = True, ch_tx_alive = True\<rparr>"
    using c by (simp add: cell_add_flow flip: c_frames_cell)
  show ?thesis using m assms(3-5) c f
    by (simp add: x_def s new_stream_of_def into_copy_bidirectional_with_buf_def view_simps fresh_view_def cell_add_flow)
qed

text \<open>The end that asks: its request is one \<open>Connect\<close>, and the \<open>Acknowledge\<close> for it completes the request.\<close>

lemma requested_side:
  assumes "mux_rwnd a \<noteq> 0" and "next_available_key ds (flows a) = Some (i, ds')" and "ch_rx_open (tx_frame a)" and "ch_queue (tx_frame a) = []"
    and "i \<notin> set (ch_queue (dropped_ports a))"
  obtains a1 k a2 a3 sa where "new_stream_attempt h pt ds a = Some (a1, ds', Ok k)" "ch_queue (tx_frame a1) = [fin (new_connect h pt i (mux_rwnd a))]"
    "deliver (new_acknowledge i n) (tx_rest [] a1) = (a2, Ready (Ok False))" "poll_wait r k a2 = (a3, NsDone, Ready (Ok sa))"
    "new_side i n (tx_rest [] a1) sa a3" "mux_rwnd (tx_rest [] a1) = mux_rwnd a"
proof -
  let ?k = "length (stream_os a)"
  let ?a1 = "queue_frame (new_connect h pt i (mux_rwnd a)) (flow_insert i (Requested ?k) (a\<lparr>stream_os := stream_os a @ [oneshot_new]\<rparr>))"
  let ?t = "tx_rest [] ?a1"
  let ?sa = "new_stream_of i n [] 0 ?t"
  let ?x = "fst (oneshot_send (Some ?sa) oneshot_new)"
  let ?a2 = "(add_flow i n ?t)\<lparr>stream_os := (stream_os ?t)[?k := ?x]\<rparr>"
  let ?a3 = "?a2\<lparr>stream_os := (stream_os ?a2)[?k := ?x\<lparr>os_value := None\<rparr>]\<rparr>"
  show thesis
  proof
    show "new_stream_attempt h pt ds a = Some (?a1, ds', Ok ?k)" by (rule new_stream_attempt_eq [OF assms(2,3)])
    show "ch_queue (tx_frame ?a1) = [fin (new_connect h pt i (mux_rwnd a))]" using assms(3,4) by simp
    show "deliver (new_acknowledge i n) ?t = (?a2, Ready (Ok False))"
      using assms(1) by (subst deliver_ack_Requested [where k = ?k]) (simp_all add: oneshot_new_def tx_rest_def)
    show "poll_wait r ?k ?a2 = (?a3, NsDone, Ready (Ok ?sa))"
      by (simp add: poll_wait_def oneshot_poll_def oneshot_send_def oneshot_new_def tx_rest_def Let_def)
    show "new_side i n ?t ?sa ?a3" using assms(3,5) by (auto simp: new_side_def tx_rest_def flow_queue_def)
    show "mux_rwnd ?t = mux_rwnd a" by (simp add: tx_rest_def)
  qed
qed

text \<open>Two such ends, with their parties, are a relay that starts.\<close>

lemma new_sides_relay:
  assumes "new_side i n m0 sa a" and "new_side i k m1 sb b" and "n = mux_rwnd m1" and "k = mux_rwnd m0"
    and "party_ok p" and "py_window p = mux_rwnd m0" and "py_sink p x0 = []" and "py_source p x0 = py_sends p"
    and "party_ok q" and "py_window q = mux_rwnd m1" and "py_sink q y0 = []" and "py_source q y0 = py_sends q"
  shows "relay_init i p q (\<lparr>ep_copy = into_copy_bidirectional_with_buf sa x0 a, ep_result = None\<rparr>,
    \<lparr>ep_copy = into_copy_bidirectional_with_buf sb y0 b, ep_result = None\<rparr>)"
  using new_side_relay [OF assms(1), of p x0] new_side_relay [OF assms(2), of q y0] assms(3-) by (simp add: relay_init_def)

end
