(* ===== verification/Relay_Faults.thy ===== *)
theory Relay_Faults
  imports Relay_Others Relay_Properties Mux_Shutdown "HOL-Library.Sublist"
begin

text \<open>
  A relayed connection when things go wrong. Beside the steps of theory \<open>Relay\<close>, a copying future may end with an error or
  be dropped at any moment (its task is aborted), a flow may be closed at any moment, and the task of either multiplexor may wind down:
  stop the writers, close its channel to the WebSocket, give every stream its end of file and exit. Frames that are
  not sent any more are lost. The invariant is weaker than that of \<open>Relay_Invariant\<close>, and needs no account of credit: what a party has
  been given is always a beginning of what the other party sends.
\<close>

section \<open>The system\<close>

record 'o frail =
  fr_copy :: "'o copy_bidirectional"
  fr_gone :: bool

definition fr_mux :: "'o frail \<Rightarrow> mux" where
  "fr_mux x = cb_mux (fr_copy x)"

definition fr_cell :: "'o frail \<Rightarrow> nat" where
  "fr_cell x = ms_cell (cb_us (fr_copy x))"

definition set_mux :: "mux \<Rightarrow> 'o frail \<Rightarrow> 'o frail" where
  "set_mux m x = x\<lparr>fr_copy := (fr_copy x)\<lparr>cb_mux := m\<rparr>\<rparr>"

text \<open>What may happen to the multiplexor of an end without its copying future, and without a frame of the flow arriving.\<close>

inductive mux_move :: "u32 \<Rightarrow> nat \<Rightarrow> mux \<Rightarrow> mux \<Rightarrow> bool" for i a where
  move_others: "others i a m m' \<Longrightarrow> mux_move i a m m'"
| move_close: "mux_move i a m (close_port i inhibit (m\<lparr>dropped_ports := dp\<rparr>))"
| move_stop_writers: "mux_move i a m (wind_down_stop_writers m)"
| move_flush: "mux_move i a m (snd (wind_down_flush rs cl drain (w :: message list) m))"
| move_eof: "mux_move i a m (wind_down_eof m)"
| move_exit: "mux_move i a m (task_exit m)"

text \<open>A future that returns, with or without an error, drops its stream, and so does one that is dropped.\<close>

inductive frail_step :: "u32 \<Rightarrow> 'o party \<Rightarrow> 'o frail \<Rightarrow> 'o frail \<Rightarrow> bool" for i p where
  frail_poll: "\<not> fr_gone x \<Longrightarrow> copy_poll (py_rw p) w fuel (fr_copy x) = Some (c, Pending) \<Longrightarrow> frail_step i p x (x\<lparr>fr_copy := c\<rparr>)"
| frail_return: "\<not> fr_gone x \<Longrightarrow> copy_poll (py_rw p) w fuel (fr_copy x) = Some (c, Ready r)
    \<Longrightarrow> frail_step i p x (set_mux (drop_stream (cb_us c) (cb_mux c)) \<lparr>fr_copy = c, fr_gone = True\<rparr>)"
| frail_abort: "\<not> fr_gone x \<Longrightarrow> frail_step i p x (set_mux (drop_stream (cb_us (fr_copy x)) (fr_mux x)) (x\<lparr>fr_gone := True\<rparr>))"
| frail_world: "py_sink p s = py_sink p (cb_other (fr_copy x)) \<Longrightarrow> py_source p s = py_source p (cb_other (fr_copy x))
    \<Longrightarrow> frail_step i p x (x\<lparr>fr_copy := (fr_copy x)\<lparr>cb_other := s\<rparr>\<rparr>)"
| frail_mux: "mux_move i (fr_cell x) (fr_mux x) m \<Longrightarrow> frail_step i p x (set_mux m x)"

text \<open>A frame of the flow crosses while the task of its sender has not closed its channel.\<close>

inductive frail_transfer :: "u32 \<Rightarrow> 'o frail \<Rightarrow> 'q frail \<Rightarrow> 'o frail \<Rightarrow> 'q frail \<Rightarrow> bool" for i where
  frail_frame: "ch_queue (tx_frame (fr_mux x)) = ff # ffs \<Longrightarrow> ch_rx_open (tx_frame (fr_mux x)) \<Longrightarrow> concerns i ff
    \<Longrightarrow> frail_transfer i x y (set_mux (tx_rest ffs (fr_mux x)) x) (set_mux (receive ff (fr_mux y)) y)"

inductive fault_step :: "u32 \<Rightarrow> 'o party \<Rightarrow> 'q party \<Rightarrow> 'o frail \<times> 'q frail \<Rightarrow> 'o frail \<times> 'q frail \<Rightarrow> bool" for i p q where
  fault_left: "frail_step i p x x' \<Longrightarrow> fault_step i p q (x, y) (x', y)"
| fault_right: "frail_step i q y y' \<Longrightarrow> fault_step i p q (x, y) (x, y')"
| fault_to_right: "frail_transfer i x y x' y' \<Longrightarrow> fault_step i p q (x, y) (x', y')"
| fault_to_left: "frail_transfer i y x y' x' \<Longrightarrow> fault_step i p q (x, y) (x', y')"

definition fault_init :: "u32 \<Rightarrow> 'o party \<Rightarrow> 'q party \<Rightarrow> 'o frail \<times> 'q frail \<Rightarrow> bool" where
  "fault_init i p q xy \<longleftrightarrow> \<not> fr_gone (fst xy) \<and> \<not> fr_gone (snd xy)
     \<and> relay_init i p q (\<lparr>ep_copy = fr_copy (fst xy), ep_result = None\<rparr>, \<lparr>ep_copy = fr_copy (snd xy), ep_result = None\<rparr>)"

section \<open>Changes that carry no data\<close>

text \<open>
  \<open>calm\<close>: the data channel keeps its frames, the flow stays as it is or closes, a closed writer stays closed, a closed channel to
  the WebSocket stays closed, and while it is open nothing but signals without data is queued for the flow.
\<close>

definition calm :: "u32 \<Rightarrow> nat \<Rightarrow> mux \<Rightarrow> mux \<Rightarrow> bool" where
  "calm i a m m' \<longleftrightarrow> length (cells m) \<le> length (cells m') \<and> ch_queue (frames_at m' a) = ch_queue (frames_at m a)
     \<and> (slot_of m' i = slot_of m i \<and> frames_at m' a = frames_at m a \<or> slot_of m' i = None
        \<or> (\<exists>d. slot_of m i = Some (Established d) \<and> slot_of m' i = Some (Established (d\<lparr>es_sender := None\<rparr>))))
     \<and> (c_finish_sent (cell m a) \<longrightarrow> c_finish_sent (cell m' a))
     \<and> (ch_rx_open (tx_frame m') \<longrightarrow> ch_rx_open (tx_frame m)
        \<and> (\<exists>ss. datas ss = [] \<and> flow_queue i m' = flow_queue i m @ map (wire i) ss))"

lemma calmI:
  assumes "length (cells m) \<le> length (cells m')" and "ch_queue (frames_at m' a) = ch_queue (frames_at m a)"
    and "slot_of m' i = slot_of m i \<and> frames_at m' a = frames_at m a \<or> slot_of m' i = None
      \<or> (\<exists>d. slot_of m i = Some (Established d) \<and> slot_of m' i = Some (Established (d\<lparr>es_sender := None\<rparr>)))"
    and "c_finish_sent (cell m a) \<Longrightarrow> c_finish_sent (cell m' a)" and "ch_rx_open (tx_frame m') \<Longrightarrow> ch_rx_open (tx_frame m)"
    and "ch_rx_open (tx_frame m') \<Longrightarrow> \<exists>ss. datas ss = [] \<and> flow_queue i m' = flow_queue i m @ map (wire i) ss"
  shows "calm i a m m'"
  using assms unfolding calm_def by blast

lemma calmD:
  assumes "calm i a m m'"
  shows "length (cells m) \<le> length (cells m')" "ch_queue (frames_at m' a) = ch_queue (frames_at m a)"
    "c_finish_sent (cell m a) \<Longrightarrow> c_finish_sent (cell m' a)" "ch_rx_open (tx_frame m') \<Longrightarrow> ch_rx_open (tx_frame m)"
  using assms by (simp_all add: calm_def)

lemma calm_slot:
  assumes "calm i a m m'"
  obtains "slot_of m' i = slot_of m i" "frames_at m' a = frames_at m a" | "slot_of m' i = None"
    | d where "slot_of m i = Some (Established d)" "slot_of m' i = Some (Established (d\<lparr>es_sender := None\<rparr>))"
  using assms unfolding calm_def by (elim conjE disjE exE) simp_all

lemma calm_signals:
  assumes "calm i a m m'" and "ch_rx_open (tx_frame m')"
  obtains ss where "datas ss = []" "flow_queue i m' = flow_queue i m @ map (wire i) ss"
  using assms unfolding calm_def by blast

lemma calm_refl: "calm i a m m"
  by (rule calmI) (auto intro: exI [of _ "[]"])

lemma no_signal: "f = g \<Longrightarrow> \<exists>ss. datas ss = [] \<and> f = g @ map (wire i) ss"
  by (rule exI [of _ "[]"]) simp

lemma calm_same_tx:
  assumes "length (cells m) \<le> length (cells m')" and "ch_queue (frames_at m' a) = ch_queue (frames_at m a)"
    and "slot_of m' i = slot_of m i \<and> frames_at m' a = frames_at m a \<or> slot_of m' i = None" and "c_finish_sent (cell m a) \<Longrightarrow> c_finish_sent (cell m' a)"
    and "tx_frame m' = tx_frame m"
  shows "calm i a m m'"
  using assms by (intro calmI) (auto simp: flow_queue_def intro: no_signal)

lemma calm_reset: "calm i a m (queue_frame (new_reset i) m)"
  by (rule calmI) (auto intro!: exI [of _ "[Abort]"])

lemma others_calm: "others i a m m' \<Longrightarrow> calm i a m m'"
  by (rule calmI) (auto simp: others_def intro: no_signal simp flip: c_frames_cell)

text \<open>What closing a flow leaves alone, of its own cell and of the others.\<close>

lemma close_write_keeps:
  "length (cells (close_write d j inhibit m)) = length (cells m)" "tx_frame (close_write d j True m) = tx_frame m"
  "ch_rx_open (tx_frame (close_write d j inhibit m)) = ch_rx_open (tx_frame m)"
  by (simp_all add: close_write_def Let_def)

lemma drop_sender_keeps: "length (cells (drop_sender t m)) = length (cells m)" "tx_frame (drop_sender t m) = tx_frame m"
  by (simp_all add: drop_sender_def split: option.split)

lemma close_local_keeps:
  "length (cells (close_port_local s j inhibit m)) = length (cells m)"
  "ch_queue (frames_at (close_port_local s j inhibit m) b) = ch_queue (frames_at m b)"
  "c_finish_sent (cell m b) \<Longrightarrow> c_finish_sent (cell (close_port_local s j inhibit m) b)"
  "tx_frame (close_port_local s j True m) = tx_frame m"
  "ch_rx_open (tx_frame (close_port_local s j inhibit m)) = ch_rx_open (tx_frame m)"
proof -
  have os: "frames_at (m\<lparr>stream_os := so\<rparr>) b = frames_at m b" "cell (m\<lparr>stream_os := so\<rparr>) b = cell m b"
    "frames_at (m\<lparr>bind_os := bo\<rparr>) b = frames_at m b" "cell (m\<lparr>bind_os := bo\<rparr>) b = cell m b" for so bo
    by (simp_all add: frames_at_def cell_def)
  note keeps = close_port_local_simps frames_drop_sender close_write_keeps drop_sender_keeps os
  show "length (cells (close_port_local s j inhibit m)) = length (cells m)" by (cases s) (simp_all add: keeps)
  show "ch_queue (frames_at (close_port_local s j inhibit m) b) = ch_queue (frames_at m b)" by (cases s) (simp_all add: keeps)
  show "tx_frame (close_port_local s j True m) = tx_frame m" by (cases s) (simp_all add: keeps)
  show "ch_rx_open (tx_frame (close_port_local s j inhibit m)) = ch_rx_open (tx_frame m)" by (cases s) (simp_all add: keeps)
  assume "c_finish_sent (cell m b)"
  then show "c_finish_sent (cell (close_port_local s j inhibit m) b)" by (cases s) (simp_all add: keeps finish_close_write(1))
qed

lemma close_port_calm: "calm i a m (close_port i inhibit (m\<lparr>dropped_ports := dp\<rparr>))"
proof (cases "slot_of m i")
  case None
  then have e: "close_port i inhibit (m\<lparr>dropped_ports := dp\<rparr>) = m\<lparr>dropped_ports := dp\<rparr>" by (simp add: close_port_def slot_of_def)
  show ?thesis unfolding e by (intro calm_same_tx) (simp_all add: slot_of_def cell_def frames_at_def)
next
  case (Some s)
  let ?m = "flow_remove i (m\<lparr>dropped_ports := dp\<rparr>)"
  have s: "slot_of (m\<lparr>dropped_ports := dp\<rparr>) i = Some s" using Some by (simp add: slot_of_def)
  have m: "frames_at ?m a = frames_at m a" "cell ?m a = cell m a" "length (cells ?m) = length (cells m)" "tx_frame ?m = tx_frame m"
    by (simp_all add: flow_remove_def frames_at_def cell_def)
  have tx: "\<exists>ss. datas ss = [] \<and> flow_queue i (close_port_local s i inhibit ?m) = flow_queue i ?m @ map (wire i) ss"
    if "ch_rx_open (tx_frame ?m)"
  proof (cases s)
    case (Established d)
    with that show ?thesis
      by (cases inhibit; cases "c_finish_sent (cell ?m (es_cell d))")
        (auto simp: close_port_local_simps close_write_def Let_def drop_sender_def split: option.split
          intro: no_signal intro!: exI [of _ "[Abort]"])
  qed (auto simp: close_port_local_simps flow_queue_def intro: no_signal)
  have e: "close_port i inhibit (m\<lparr>dropped_ports := dp\<rparr>) = close_port_local s i inhibit ?m" by (simp only: close_port_def s option.case)
  have q: "flow_queue i ?m = flow_queue i m" by (simp add: flow_queue_def)
  have "slot_of (close_port_local s i inhibit ?m) i = None" using close_port_slots [of i inhibit "m\<lparr>dropped_ports := dp\<rparr>" i] by (simp add: e)
  then show ?thesis unfolding e using tx m q by (intro calmI) (simp_all add: close_local_keeps)
qed

lemma fold_keeps:
  assumes "\<And>e m. length (cells (f e m)) = length (cells m)" and "\<And>e m. ch_queue (frames_at (f e m) a) = ch_queue (frames_at m a)"
    and "\<And>e m. c_finish_sent (cell m a) \<Longrightarrow> c_finish_sent (cell (f e m) a)" and "\<And>e m. tx_frame (f e m) = tx_frame m"
  shows "length (cells (fold f es m)) = length (cells m) \<and> ch_queue (frames_at (fold f es m) a) = ch_queue (frames_at m a)
    \<and> (c_finish_sent (cell m a) \<longrightarrow> c_finish_sent (cell (fold f es m) a)) \<and> tx_frame (fold f es m) = tx_frame m"
  using assms by (induction es arbitrary: m) auto

lemma stop_writers_calm: "calm i a m (wind_down_stop_writers m)"
proof -
  have "slot_of (fold stop_writer es m) i = slot_of m i" for es m
    by (induction es arbitrary: m) (auto simp: stop_writer_def disallow_write_def Let_def split: flow_slot.split)
  moreover have "frames_at (fold stop_writer es m) a = frames_at m a" for es m
    by (induction es arbitrary: m) (auto simp: stop_writer_def disallow_write_def Let_def split: flow_slot.split)
  moreover note fold_keeps [of stop_writer a "flows m" m]
  ultimately show ?thesis
    by (intro calm_same_tx)
      (auto simp: wind_down_stop_writers_def stop_writer_def disallow_write_def Let_def finish_mono split: flow_slot.split)
qed

lemma eof_calm: "calm i a m (wind_down_eof m)"
proof -
  let ?f = "\<lambda>(j, s) m. close_port_local s j True m"
  have m: "frames_at (m\<lparr>flows := []\<rparr>) a = frames_at m a" "cell (m\<lparr>flows := []\<rparr>) a = cell m a" by (simp_all add: frames_at_def cell_def)
  have "flows (fold ?f es m) = flows m" for es m by (induction es arbitrary: m) auto
  then have "slot_of (wind_down_eof m) i = None" by (simp add: wind_down_eof_def slot_of_def)
  moreover have "length (cells (fold ?f es n)) = length (cells n) \<and> ch_queue (frames_at (fold ?f es n) a) = ch_queue (frames_at n a)
    \<and> (c_finish_sent (cell n a) \<longrightarrow> c_finish_sent (cell (fold ?f es n) a)) \<and> tx_frame (fold ?f es n) = tx_frame n" for es n
    by (rule fold_keeps) (auto simp: close_local_keeps)
  ultimately show ?thesis
    by (intro calm_same_tx) (simp_all add: wind_down_eof_def m)
qed

lemma flush_calm: "calm i a m (snd (wind_down_flush rs cl drain w m))"
  by (rule calmI) (auto simp: wind_down_flush_def Let_def case_prod_beta chan_close_def slot_of_def cell_def frames_at_def)

lemma exit_calm: "calm i a m (task_exit m)"
  by (rule calmI) (auto simp: task_exit_def drop_rx_def slot_of_def cell_def frames_at_def)

lemma mux_move_calm: "mux_move i a m m' \<Longrightarrow> calm i a m m'"
  by (cases rule: mux_move.cases)
    (auto intro: others_calm close_port_calm stop_writers_calm flush_calm eof_calm exit_calm)

section \<open>The invariant\<close>

text \<open>What an end has been given: what its party has, and while its future runs what waits in the stream.\<close>

definition got :: "'o party \<Rightarrow> 'o frail \<Rightarrow> bytes" where
  "got p x = py_sink p (cb_other (fr_copy x)) @ (if fr_gone x then [] else unread (cb_us (fr_copy x)) (fr_mux x))"

definition takes_data :: "u32 \<Rightarrow> 'o frail \<Rightarrow> bool" where
  "takes_data i x \<longleftrightarrow> \<not> fr_gone x \<and> slot_of (fr_mux x) i = Some (Established \<lparr>es_sender = Some (fr_cell x), es_cell = fr_cell x\<rparr>)"

definition sends_on :: "'o frail \<Rightarrow> bool" where
  "sends_on x \<longleftrightarrow> \<not> fr_gone x \<and> \<not> c_finish_sent (cell (fr_mux x) (fr_cell x))"

definition end_fine :: "u32 \<Rightarrow> 'o frail \<Rightarrow> bool" where
  "end_fine i x \<longleftrightarrow> ms_flow_id (cb_us (fr_copy x)) = i \<and> fr_cell x < length (cells (fr_mux x))
     \<and> (slot_of (fr_mux x) i = None \<or> (\<exists>t. t \<in> {None, Some (fr_cell x)}
          \<and> slot_of (fr_mux x) i = Some (Established \<lparr>es_sender = t, es_cell = fr_cell x\<rparr>)))
     \<and> (takes_data i x \<longrightarrow> ch_tx_alive (frames_at (fr_mux x) (fr_cell x)) \<and> ch_rx_open (frames_at (fr_mux x) (fr_cell x)))
     \<and> (ch_rx_open (tx_frame (fr_mux x)) \<longrightarrow> (\<exists>ss. flow_queue i (fr_mux x) = map (wire i) ss))"

text \<open>From end \<open>x\<close> to end \<open>y\<close>; equality while both work, and a beginning in any case.\<close>

definition toward :: "u32 \<Rightarrow> 'o party \<Rightarrow> 'q party \<Rightarrow> 'o frail \<Rightarrow> 'q frail \<Rightarrow> bool" where
  "toward i p q x y \<longleftrightarrow> prefix (got q y) (py_sends p)
     \<and> (takes_data i y \<and> ch_rx_open (tx_frame (fr_mux x)) \<longrightarrow> prefix (got q y @ in_flight i (fr_mux x)) (py_sends p))
     \<and> (takes_data i y \<and> ch_rx_open (tx_frame (fr_mux x)) \<and> sends_on x
        \<longrightarrow> got q y @ in_flight i (fr_mux x) @ py_source p (cb_other (fr_copy x)) = py_sends p)"

definition pair_fine :: "u32 \<Rightarrow> 'o party \<Rightarrow> 'q party \<Rightarrow> 'o frail \<Rightarrow> 'q frail \<Rightarrow> bool" where
  "pair_fine i p q x y \<longleftrightarrow> end_fine i x \<and> end_fine i y \<and> toward i p q x y \<and> toward i q p y x"

lemma pair_fine_sym: "pair_fine i p q x y \<longleftrightarrow> pair_fine i q p y x"
  by (auto simp: pair_fine_def)

lemma set_mux_simps [simp]:
  "fr_mux (set_mux m x) = m" "fr_cell (set_mux m x) = fr_cell x" "fr_gone (set_mux m x) = fr_gone x"
  "cb_us (fr_copy (set_mux m x)) = cb_us (fr_copy x)" "cb_other (fr_copy (set_mux m x)) = cb_other (fr_copy x)"
  by (simp_all add: set_mux_def fr_mux_def fr_cell_def)

text \<open>A sender may lose its ability to send; a receiver may stop.\<close>

lemma toward_sender:
  assumes "toward i p q x y" and "ch_rx_open (tx_frame (fr_mux x')) \<Longrightarrow> ch_rx_open (tx_frame (fr_mux x)) \<and> in_flight i (fr_mux x') = in_flight i (fr_mux x)"
    and "sends_on x' \<Longrightarrow> sends_on x" and "py_source p (cb_other (fr_copy x')) = py_source p (cb_other (fr_copy x))"
  shows "toward i p q x' y"
  using assms unfolding toward_def by auto

lemma toward_receiver:
  assumes "toward i p q x y" and "got q y' = got q y" and "takes_data i y' \<Longrightarrow> takes_data i y"
  shows "toward i p q x y'"
  using assms unfolding toward_def by auto

lemma in_flight_more:
  assumes "flow_queue i m = map (wire i) ss" and "flow_queue i m' = flow_queue i m @ map (wire i) ts"
  shows "in_flight i m' = in_flight i m @ concat (datas ts)"
  using in_flight_signals [of i m ss] in_flight_signals [of i m' "ss @ ts"] assms by simp

lemma end_queue: "end_fine i x \<Longrightarrow> ch_rx_open (tx_frame (fr_mux x)) \<Longrightarrow> \<exists>ss. flow_queue i (fr_mux x) = map (wire i) ss"
  by (simp add: end_fine_def)

lemma end_slot:
  assumes "end_fine i x"
  obtains "slot_of (fr_mux x) i = None"
    | t where "t \<in> {None, Some (fr_cell x)}" "slot_of (fr_mux x) i = Some (Established \<lparr>es_sender = t, es_cell = fr_cell x\<rparr>)"
  using assms unfolding end_fine_def by (elim conjE disjE exE) simp_all

lemma calm_takes:
  assumes "calm i (fr_cell x) (fr_mux x) (fr_mux x')" and "fr_cell x' = fr_cell x" and "fr_gone x' = fr_gone x" and "takes_data i x'"
  shows "takes_data i x \<and> frames_at (fr_mux x') (fr_cell x) = frames_at (fr_mux x) (fr_cell x)"
  using assms(1) by (rule calm_slot) (use assms(2-4) in \<open>auto simp: takes_data_def dest: arg_cong [of _ _ es_sender]\<close>)

lemma calm_end:
  assumes "end_fine i x" and "calm i (fr_cell x) (fr_mux x) (fr_mux x')" and "fr_gone x' = fr_gone x"
    and "fr_cell x' = fr_cell x" and "ms_flow_id (cb_us (fr_copy x')) = ms_flow_id (cb_us (fr_copy x))"
  shows "end_fine i x'"
proof -
  let ?m = "fr_mux x'"
  have "slot_of ?m i = None \<or> (\<exists>t. t \<in> {None, Some (fr_cell x)} \<and> slot_of ?m i = Some (Established \<lparr>es_sender = t, es_cell = fr_cell x\<rparr>))"
    using assms(2)
  proof (cases rule: calm_slot)
    case 1
    with assms(1) show ?thesis by (simp add: end_fine_def)
  next
    case (3 d)
    with assms(1) have "es_cell d = fr_cell x" by (auto simp: end_fine_def)
    then have "d\<lparr>es_sender := None\<rparr> = \<lparr>es_sender = None, es_cell = fr_cell x\<rparr>" by (cases d) simp
    with 3(2) show ?thesis by simp
  qed simp
  moreover have "\<exists>ss. flow_queue i ?m = map (wire i) ss" if tx: "ch_rx_open (tx_frame ?m)"
  proof -
    from calm_signals [OF assms(2) tx] obtain ts where ts: "flow_queue i ?m = flow_queue i (fr_mux x) @ map (wire i) ts" by blast
    from end_queue [OF assms(1) calmD(4) [OF assms(2) tx]] obtain ss where "flow_queue i (fr_mux x) = map (wire i) ss" by blast
    with ts show ?thesis by (intro exI [of _ "ss @ ts"]) simp
  qed
  moreover have "ms_flow_id (cb_us (fr_copy x)) = i" "fr_cell x < length (cells ?m)"
    using assms(1) calmD(1) [OF assms(2)] by (simp_all add: end_fine_def)
  moreover have "takes_data i x' \<Longrightarrow> ch_tx_alive (frames_at ?m (fr_cell x)) \<and> ch_rx_open (frames_at ?m (fr_cell x))"
    using calm_takes [OF assms(2,4,3)] assms(1) by (simp add: end_fine_def)
  ultimately show ?thesis using assms(4,5) by (simp add: end_fine_def)
qed

lemma calm_in_flight:
  assumes "end_fine i x" and "calm i (fr_cell x) (fr_mux x) m" and "ch_rx_open (tx_frame m)"
  shows "in_flight i m = in_flight i (fr_mux x)"
proof -
  from calm_signals [OF assms(2,3)] obtain ts where ts: "datas ts = []" "flow_queue i m = flow_queue i (fr_mux x) @ map (wire i) ts" by blast
  from end_queue [OF assms(1) calmD(4) [OF assms(2,3)]] obtain ss where "flow_queue i (fr_mux x) = map (wire i) ss" by blast
  from in_flight_more [OF this ts(2)] ts(1) show ?thesis by simp
qed

text \<open>A change of one end by which it gets and sends nothing.\<close>

lemma quiet_pair:
  assumes "pair_fine i p q x y" and "end_fine i x'" and "got p x' = got p x" and "takes_data i x' \<Longrightarrow> takes_data i x"
    and "ch_rx_open (tx_frame (fr_mux x')) \<Longrightarrow> ch_rx_open (tx_frame (fr_mux x)) \<and> in_flight i (fr_mux x') = in_flight i (fr_mux x)"
    and "sends_on x' \<Longrightarrow> sends_on x" and "py_source p (cb_other (fr_copy x')) = py_source p (cb_other (fr_copy x))"
  shows "pair_fine i p q x' y"
proof -
  have xy: "toward i p q x y" and yx: "toward i q p y x" and y: "end_fine i y" using assms(1) by (simp_all add: pair_fine_def)
  from toward_sender [OF xy assms(5-7)] toward_receiver [OF yx assms(3,4)] assms(2) y show ?thesis by (simp add: pair_fine_def)
qed

lemma calm_pair:
  assumes "pair_fine i p q x y" and "calm i (fr_cell x) (fr_mux x) (fr_mux x')" and "fr_gone x' = fr_gone x"
    and "cb_us (fr_copy x') = cb_us (fr_copy x)" and "py_sink p (cb_other (fr_copy x')) = py_sink p (cb_other (fr_copy x))"
    and "py_source p (cb_other (fr_copy x')) = py_source p (cb_other (fr_copy x))"
  shows "pair_fine i p q x' y"
proof -
  have x: "end_fine i x" using assms(1) by (simp add: pair_fine_def)
  have c: "fr_cell x' = fr_cell x" using assms(4) by (simp add: fr_cell_def)
  show ?thesis
  proof (rule quiet_pair [OF assms(1)])
    show "end_fine i x'" using x assms(2,3) c by (rule calm_end) (simp add: assms(4))
    show "got p x' = got p x" using calmD(2) [OF assms(2)] assms(3-5) by (simp add: got_def unread_def fr_cell_def)
    show "takes_data i x' \<Longrightarrow> takes_data i x" using calm_takes [OF assms(2) c assms(3)] by (rule conjunct1)
    show "ch_rx_open (tx_frame (fr_mux x')) \<Longrightarrow> ch_rx_open (tx_frame (fr_mux x)) \<and> in_flight i (fr_mux x') = in_flight i (fr_mux x)"
      using calmD(4) [OF assms(2)] calm_in_flight [OF x assms(2)] by (intro conjI)
    show "sends_on x' \<Longrightarrow> sends_on x" using calmD(3) [OF assms(2)] assms(3) c by (auto simp: sends_on_def)
  qed (rule assms(6))
qed

section \<open>The steps\<close>

subsection \<open>The copying future\<close>

lemma fill_item:
  assumes "ms_buf s = []" and "ch_queue (frames_at m (ms_cell s)) = d # rest" and "poll_fill_buf s m = (s', m', r)"
  defines "u \<equiv> upd_frames (ms_cell s) (\<lambda>_. (frames_at m (ms_cell s))\<lparr>ch_queue := rest\<rparr>) m" and "n \<equiv> ms_psh_recvd_since s + 1"
  shows "(s', m') = (if ms_rwnd_threshold s \<le> n
    then (s\<lparr>ms_buf := d, ms_psh_recvd_since := 0\<rparr>, queue_frame (new_acknowledge (ms_flow_id s) n) u)
    else (s\<lparr>ms_buf := d, ms_psh_recvd_since := n\<rparr>, u))"
  using assms by (simp add: poll_fill_buf_def poll_recv_def increment_psh_recvd_since_def Let_def split: if_splits)

lemma fill_quiet:
  assumes "poll_fill_buf s m = (s', m', r)" and "ms_flow_id s = i" and "ms_cell s < length (cells m)"
  shows "ms_flow_id s' = i" "ms_cell s' = ms_cell s" "unread s' m' = unread s m" "slot_of m' = slot_of m"
    "length (cells m') = length (cells m)" "c_finish_sent (cell m' b) = c_finish_sent (cell m b)"
    "ch_rx_open (tx_frame m') = ch_rx_open (tx_frame m)"
    "ch_tx_alive (frames_at m (ms_cell s)) \<Longrightarrow> ch_rx_open (frames_at m (ms_cell s))
      \<Longrightarrow> ch_tx_alive (frames_at m' (ms_cell s)) \<and> ch_rx_open (frames_at m' (ms_cell s))"
    "ch_rx_open (tx_frame m) \<Longrightarrow> \<exists>ss. datas ss = [] \<and> flow_queue i m' = flow_queue i m @ map (wire i) ss"
proof -
  let ?a = "ms_cell s"
  consider (full) "ms_buf s \<noteq> []" | (none) "ms_buf s = []" "ch_queue (frames_at m ?a) = []"
    | (item) d rest where "ms_buf s = []" "ch_queue (frames_at m ?a) = d # rest" by (cases "ch_queue (frames_at m ?a)") blast+
  then have "ms_flow_id s' = i \<and> ms_cell s' = ?a \<and> unread s' m' = unread s m \<and> slot_of m' = slot_of m
    \<and> length (cells m') = length (cells m) \<and> c_finish_sent (cell m' b) = c_finish_sent (cell m b)
    \<and> ch_rx_open (tx_frame m') = ch_rx_open (tx_frame m)
    \<and> (ch_tx_alive (frames_at m ?a) \<and> ch_rx_open (frames_at m ?a) \<longrightarrow> ch_tx_alive (frames_at m' ?a) \<and> ch_rx_open (frames_at m' ?a))
    \<and> (ch_rx_open (tx_frame m) \<longrightarrow> (\<exists>ss. datas ss = [] \<and> flow_queue i m' = flow_queue i m @ map (wire i) ss))"
  proof cases
    case full
    with assms show ?thesis by (auto simp: poll_fill_buf_def intro: no_signal)
  next
    case none
    with assms show ?thesis
      by (cases "ch_tx_alive (frames_at m ?a)"; cases "ch_rx_open (frames_at m ?a)")
        (auto simp: poll_fill_buf_def poll_recv_def chan_close_def unread_def frames_at_upd_frames intro: no_signal)
  next
    case item
    let ?n = "ms_psh_recvd_since s + 1"
    note eq = fill_item [OF item assms(1)]
    show ?thesis
    proof (cases "ms_rwnd_threshold s \<le> ?n")
      case True
      with eq assms(2,3) item show ?thesis
        by (auto simp: unread_def frames_at_upd_frames intro!: exI [of _ "[Credit ?n]"])
    next
      case False
      with eq assms(2,3) item show ?thesis by (auto simp: unread_def frames_at_upd_frames intro: no_signal)
    qed
  qed
  then show "ms_flow_id s' = i" "ms_cell s' = ms_cell s" "unread s' m' = unread s m" "slot_of m' = slot_of m"
    "length (cells m') = length (cells m)" "c_finish_sent (cell m' b) = c_finish_sent (cell m b)"
    "ch_rx_open (tx_frame m') = ch_rx_open (tx_frame m)"
    "ch_tx_alive (frames_at m (ms_cell s)) \<Longrightarrow> ch_rx_open (frames_at m (ms_cell s))
      \<Longrightarrow> ch_tx_alive (frames_at m' (ms_cell s)) \<and> ch_rx_open (frames_at m' (ms_cell s))"
    "ch_rx_open (tx_frame m) \<Longrightarrow> \<exists>ss. datas ss = [] \<and> flow_queue i m' = flow_queue i m @ map (wire i) ss"
    by blast+
qed

lemma fill_pair:
  assumes "pair_fine i p q x y" and "\<not> fr_gone x" and "poll_fill_buf (cb_us (fr_copy x)) (fr_mux x) = (us, m, r)"
    and "fr_gone x' = fr_gone x" and "cb_us (fr_copy x') = us" and "fr_mux x' = m" and "cb_other (fr_copy x') = cb_other (fr_copy x)"
  shows "pair_fine i p q x' y"
proof -
  have x: "end_fine i x" using assms(1) by (simp add: pair_fine_def)
  then have "ms_flow_id (cb_us (fr_copy x)) = i" "ms_cell (cb_us (fr_copy x)) < length (cells (fr_mux x))" by (simp_all add: end_fine_def fr_cell_def)
  note k = fill_quiet [OF assms(3) this]
  have c: "fr_cell x' = fr_cell x" using k(2) assms(5) by (simp add: fr_cell_def)
  have tk: "takes_data i x' = takes_data i x" using assms(4,6) c k(4) by (simp add: takes_data_def)
  have tx: "ch_rx_open (tx_frame m) = ch_rx_open (tx_frame (fr_mux x))" using k(7) .
  have q: "\<exists>ss ts. flow_queue i (fr_mux x) = map (wire i) ss \<and> datas ts = [] \<and> flow_queue i m = flow_queue i (fr_mux x) @ map (wire i) ts"
    if "ch_rx_open (tx_frame m)" using that tx end_queue [OF x] k(9) by blast
  show ?thesis
  proof (rule quiet_pair [OF assms(1)])
    have "ch_tx_alive (frames_at m (fr_cell x)) \<and> ch_rx_open (frames_at m (fr_cell x))" if "takes_data i x"
      using that x k(8) by (simp add: end_fine_def fr_cell_def)
    moreover have "\<exists>ss. flow_queue i m = map (wire i) ss" if "ch_rx_open (tx_frame m)" using q [OF that] by (metis map_append)
    ultimately show "end_fine i x'" using x c tk k(1,4,5) assms(5,6) by (simp add: end_fine_def)
    show "got p x' = got p x" using k(3) assms(4-7) by (simp add: got_def)
    show "takes_data i x' \<Longrightarrow> takes_data i x" using tk by simp
    show "ch_rx_open (tx_frame (fr_mux x)) \<and> in_flight i (fr_mux x') = in_flight i (fr_mux x)" if "ch_rx_open (tx_frame (fr_mux x'))"
    proof -
      from that assms(6) have o: "ch_rx_open (tx_frame m)" by simp
      from q [OF this] obtain ss ts where "flow_queue i (fr_mux x) = map (wire i) ss" "datas ts = []"
        "flow_queue i m = flow_queue i (fr_mux x) @ map (wire i) ts" by blast
      from in_flight_more [OF this(1,3)] this(2) o tx assms(6) show ?thesis by simp
    qed
    show "sends_on x' \<Longrightarrow> sends_on x" using k(6) c assms(4,6) by (simp add: sends_on_def)
  qed (simp add: assms(7))
qed

lemma write_calm:
  assumes "poll_write w d s m = (m', r)" and "\<not> (\<exists>k. r = Ready (Ok k))" and "ms_cell s < length (cells m)"
  shows "calm i (ms_cell s) m m'"
proof -
  let ?c = "cell m (ms_cell s)"
  consider (shut) "c_finish_sent ?c" | (wait) "\<not> c_finish_sent ?c" "c_psh_send_remaining ?c = 0"
    | (lost) "\<not> c_finish_sent ?c" "c_psh_send_remaining ?c \<noteq> 0" "\<not> ch_rx_open (tx_frame m)"
    using assms(1,2) by (auto simp: poll_write_cases Let_def split: if_splits)
  then show ?thesis
  proof cases
    case shut
    with assms(1) show ?thesis by (simp add: poll_write_cases calm_refl)
  next
    case wait
    with assms(1,3) show ?thesis by (intro calm_same_tx) (auto simp: poll_write_cases register_waker_def cell_upd_cell)
  next
    case lost
    with assms(1,3) show ?thesis by (intro calmI) (auto simp: poll_write_cases cell_upd_cell)
  qed
qed

lemma shutdown_calm:
  assumes "shutdown_inner s m = (m', r)" and "ms_flow_id s = i" and "ms_cell s < length (cells m)"
  shows "calm i (ms_cell s) m m'"
proof -
  let ?u = "upd_cell (ms_cell s) (\<lambda>c. c\<lparr>c_finish_sent := True\<rparr>) m"
  have m': "m' = ?u \<or> m' = queue_frame (new_finish i) ?u"
    using assms(1,2) by (auto simp: shutdown_inner_def tx_send_fin_eq Let_def split: if_splits bool.splits)
  then have "ch_rx_open (tx_frame m') \<Longrightarrow> \<exists>ss. datas ss = [] \<and> flow_queue i m' = flow_queue i m @ map (wire i) ss"
    by (elim disjE) (simp add: no_signal, auto intro!: exI [of _ "[Eof]"])
  with m' assms(3) show ?thesis by (intro calmI) (auto simp: cell_upd_cell)
qed

lemma fr_copy_simps [simp]:
  "fr_mux (x\<lparr>fr_copy := c\<rparr>) = cb_mux c" "fr_cell (x\<lparr>fr_copy := c\<rparr>) = ms_cell (cb_us c)"
  "fr_mux \<lparr>fr_copy = c, fr_gone = g\<rparr> = cb_mux c" "fr_cell \<lparr>fr_copy = c, fr_gone = g\<rparr> = ms_cell (cb_us c)"
  "fr_mux (x\<lparr>fr_gone := g\<rparr>) = fr_mux x" "fr_cell (x\<lparr>fr_gone := g\<rparr>) = fr_cell x"
  by (simp_all add: fr_mux_def fr_cell_def)

lemma push_pair:
  assumes inv: "pair_fine i p q x y" and run: "\<not> fr_gone x" and wr: "poll_write w d (cb_us (fr_copy x)) (fr_mux x) = (m, Ready (Ok k))"
    and src: "py_source p (cb_other (fr_copy x)) = d @ py_source p s" "py_sink p s = py_sink p (cb_other (fr_copy x))"
    and c: "cb_us c = cb_us (fr_copy x)" "cb_other c = s" "cb_mux c = m"
  shows "pair_fine i p q (x\<lparr>fr_copy := c\<rparr>) y"
proof -
  let ?s = "cb_us (fr_copy x)" and ?x = "x\<lparr>fr_copy := c\<rparr>" and ?a = "fr_cell x"
  have x: "end_fine i x" and y: "end_fine i y" and xy: "toward i p q x y" and yx: "toward i q p y x"
    using inv by (simp_all add: pair_fine_def)
  have a: "ms_cell ?s = ?a" "ms_flow_id ?s = i" "?a < length (cells (fr_mux x))" using x by (simp_all add: end_fine_def fr_cell_def)
  from wr a have tx: "ch_rx_open (tx_frame (fr_mux x))" and fs: "\<not> c_finish_sent (cell (fr_mux x) ?a)"
    and m: "m = queue_frame (new_push i d) (upd_cell ?a (\<lambda>c. c\<lparr>c_psh_send_remaining := c_psh_send_remaining c - 1\<rparr>) (fr_mux x))"
    by (auto simp: poll_write_cases Let_def split: if_splits)
  from end_queue [OF x tx] obtain ss where ss: "flow_queue i (fr_mux x) = map (wire i) ss" by blast
  have fq: "flow_queue i m = flow_queue i (fr_mux x) @ map (wire i) [Data d]" using tx by (simp add: m)
  have fl: "in_flight i m = in_flight i (fr_mux x) @ d" using in_flight_more [OF ss fq] by simp
  have on: "sends_on x" using run fs by (simp add: sends_on_def)
  have tk: "takes_data i ?x = takes_data i x" using a c by (simp add: takes_data_def m)
  have "end_fine i ?x" using x tk a c fq ss
    by (auto simp: end_fine_def m intro: exI [of _ "ss @ [Data d]"])
  moreover have "toward i p q ?x y" using xy on tx fl src(1) c unfolding toward_def by (auto simp: prefix_def)
  moreover have "got p ?x = got p x" using a c src(2) by (simp add: got_def unread_def m)
  with toward_receiver [OF yx, of ?x] tk have "toward i q p y ?x" by simp
  ultimately show ?thesis using y by (simp add: pair_fine_def)
qed

lemma copy_step_fine:
  assumes inv: "pair_fine i p q x y" and run: "\<not> fr_gone x" and st: "copy_step (py_sink p) (py_source p) (fr_copy x) c"
  shows "pair_fine i p q (x\<lparr>fr_copy := c\<rparr>) y"
proof -
  have x: "end_fine i x" using inv by (simp add: pair_fine_def)
  have a: "ms_cell (cb_us (fr_copy x)) = fr_cell x" "ms_flow_id (cb_us (fr_copy x)) = i" "fr_cell x < length (cells (fr_mux x))"
    "cb_mux (fr_copy x) = fr_mux x"
    using x by (simp_all add: end_fine_def fr_cell_def fr_mux_def)
  note calm = calm_pair [OF inv, of "x\<lparr>fr_copy := c\<rparr>"]
  from st show ?thesis
  proof (cases rule: copy_step.cases)
    case (copy_fetch us m r)
    with a run show ?thesis by (intro fill_pair [OF inv, of us m r]) simp_all
  next
    case (copy_eof us m n)
    with a run show ?thesis by (intro fill_pair [OF inv, of us m "Ready (Ok [])"]) simp_all
  next
    case (copy_idle s)
    with a show ?thesis by (intro calm) (simp_all add: calm_refl)
  next
    case (copy_read_done n)
    with a show ?thesis by (intro calm) (simp_all add: calm_refl)
  next
    case (copy_give k s n)
    let ?x = "x\<lparr>fr_copy := c\<rparr>"
    have same: "fr_mux ?x = fr_mux x" "fr_cell ?x = fr_cell x" "fr_gone ?x = fr_gone x" using copy_give a by simp_all
    then have tk: "takes_data i ?x = takes_data i x" "sends_on ?x = sends_on x" by (simp_all only: takes_data_def sends_on_def)
    show ?thesis
    proof (rule quiet_pair [OF inv])
      have "ms_flow_id (cb_us (fr_copy ?x)) = i" using copy_give a by simp
      then show "end_fine i ?x" using x unfolding end_fine_def same tk by simp
      show "got p ?x = got p x" using copy_give a run by (simp add: got_def unread_def)
    qed (use same tk copy_give in simp_all)
  next
    case (copy_push w d m k s n)
    with a run show ?thesis by (intro push_pair [OF inv, of w d m k s]) simp_all
  next
    case (copy_blocked w d m r)
    with a write_calm [of w d "cb_us (fr_copy x)" "fr_mux x" m r i] show ?thesis by (intro calm) simp_all
  next
    case (copy_finish m n)
    with a shutdown_calm [of "cb_us (fr_copy x)" "fr_mux x" m] show ?thesis by (intro calm) simp_all
  next
    case (copy_unfinished m r)
    with a shutdown_calm [of "cb_us (fr_copy x)" "fr_mux x" m] show ?thesis by (intro calm) simp_all
  qed
qed

lemma copy_steps_fine:
  assumes "(copy_step (py_sink p) (py_source p))\<^sup>*\<^sup>* (fr_copy x) c" and "pair_fine i p q x y" and "\<not> fr_gone x"
  shows "pair_fine i p q (x\<lparr>fr_copy := c\<rparr>) y"
  using assms(1)
proof (induction rule: rtranclp_induct)
  case base
  then show ?case using assms(2) by simp
next
  case (step c c')
  from copy_step_fine [OF step.IH, of c'] step.hyps(2) assms(3) show ?case by simp
qed

text \<open>A stream that is dropped: what it had not passed on is lost.\<close>

lemma drop_pair:
  assumes inv: "pair_fine i p q x y" and x': "fr_gone x'" "cb_us (fr_copy x') = cb_us (fr_copy x)" "cb_other (fr_copy x') = cb_other (fr_copy x)"
    "fr_mux x' = drop_stream (cb_us (fr_copy x)) (fr_mux x)"
  shows "pair_fine i p q x' y"
proof -
  let ?m = "drop_stream (cb_us (fr_copy x)) (fr_mux x)"
  have x: "end_fine i x" and y: "end_fine i y" and xy: "toward i p q x y" and yx: "toward i q p y x"
    using inv by (simp_all add: pair_fine_def)
  have keeps: "slot_of ?m i = slot_of (fr_mux x) i" "length (cells ?m) = length (cells (fr_mux x))" "tx_frame ?m = tx_frame (fr_mux x)"
    by (simp_all add: drop_stream_def notify_dropped_def slot_of_def)
  then have fl: "flow_queue i ?m = flow_queue i (fr_mux x)" "in_flight i ?m = in_flight i (fr_mux x)" by (simp_all add: flow_queue_def in_flight_def)
  have gone: "\<not> takes_data i x'" "\<not> sends_on x'" using x'(1) by (simp_all add: takes_data_def sends_on_def)
  have cl: "fr_cell x' = fr_cell x" using x'(2) by (simp add: fr_cell_def)
  have "end_fine i x'" using x gone x'(2,4) cl keeps fl by (simp add: end_fine_def)
  moreover have "toward i p q x' y" by (rule toward_sender [OF xy]) (use gone x'(3,4) keeps fl in simp_all)
  moreover have "prefix (got p x') (got p x)" using x'(1,3) by (simp add: got_def)
  then have "toward i q p y x'" using yx gone unfolding toward_def by (meson prefix_order.trans)
  ultimately show ?thesis using y by (simp add: pair_fine_def)
qed

lemma frail_step_fine:
  assumes "frail_step i p x x'" and inv: "pair_fine i p q x y" and p: "party_ok p"
  shows "pair_fine i p q x' y"
  using assms(1)
proof (cases rule: frail_step.cases)
  case (frail_poll w fuel c)
  with p copy_poll_steps [of "py_rw p" "py_sink p" "py_source p" w fuel "fr_copy x" c] copy_steps_fine [OF _ inv, of c]
  show ?thesis by (simp add: party_ok_def)
next
  case (frail_return w fuel c r)
  with p copy_poll_steps [of "py_rw p" "py_sink p" "py_source p" w fuel "fr_copy x" c] copy_steps_fine [OF _ inv, of c]
  have "pair_fine i p q (x\<lparr>fr_copy := c\<rparr>) y" by (simp add: party_ok_def)
  then show ?thesis by (rule drop_pair) (simp_all add: frail_return(1))
next
  case frail_abort
  show ?thesis using inv by (rule drop_pair) (simp_all add: frail_abort(1))
next
  case (frail_world s)
  then show ?thesis by (intro calm_pair [OF inv]) (simp_all add: calm_refl fr_mux_def)
next
  case (frail_mux m)
  then show ?thesis by (intro calm_pair [OF inv]) (simp_all add: mux_move_calm)
qed

subsection \<open>A frame that arrives\<close>

text \<open>Without data, or at an end that takes none, a frame changes nothing of what was given.\<close>

lemma finish_calm:
  assumes "slot_of m i = Some (Established d)" and "es_cell d = a" and "es_sender d \<in> {None, Some a}" and "a < length (cells m)"
  shows "calm i a m (recv_finish i m)"
proof -
  have e: "recv_finish i m = drop_sender (es_sender d) (flow_insert i (Established (d\<lparr>es_sender := None\<rparr>)) m)"
    using assms(1) by (simp add: recv_finish_def disallow_read_def)
  have k: "frames_at (flow_insert i s m) a = frames_at m a" "cell (flow_insert i s m) a = cell m a" "cells (flow_insert i s m) = cells m"
    "tx_frame (flow_insert i s m) = tx_frame m" for s
    by (simp_all add: flow_insert_def frames_at_def cell_def)
  have "slot_of (recv_finish i m) i = Some (Established (d\<lparr>es_sender := None\<rparr>))" unfolding e by simp
  moreover have "ch_queue (frames_at (recv_finish i m) a) = ch_queue (frames_at m a)"
    using assms(4) unfolding e by (simp add: frames_drop_sender k)
  moreover have "c_finish_sent (cell (recv_finish i m) a) = c_finish_sent (cell m a)"
    using assms(3,4) unfolding e by (auto simp: drop_sender_def upd_frames_def cell_upd_cell k)
  moreover have "length (cells (recv_finish i m)) = length (cells m)" "tx_frame (recv_finish i m) = tx_frame m"
    unfolding e by (simp_all add: drop_sender_keeps k)
  ultimately show ?thesis using assms(1) by (intro calmI) (simp_all add: flow_queue_def no_signal)
qed

lemma receive_calm:
  assumes y: "end_fine i y" and s: "datas [s] = [] \<or> \<not> takes_data i y \<and> \<not> fr_gone y \<or> ch_full (frames_at (fr_mux y) (fr_cell y))"
  shows "calm i (fr_cell y) (fr_mux y) (receive (wire i s) (fr_mux y))"
proof -
  let ?m = "fr_mux y" and ?a = "fr_cell y"
  have a: "?a < length (cells ?m)" using y by (simp add: end_fine_def)
  consider (none) "slot_of ?m i = None" | (some) t where "t \<in> {None, Some ?a}" "slot_of ?m i = Some (Established \<lparr>es_sender = t, es_cell = ?a\<rparr>)"
    using y by (rule end_slot)
  then show ?thesis
  proof cases
    case none
    have "close_port i True ?m = ?m" using none by (simp add: close_port_def)
    with none show ?thesis
      by (cases s) (simp_all add: receive_wire recv_push_eq recv_ack_def recv_finish_def calm_reset calm_refl)
  next
    case some
    show ?thesis
    proof (cases s)
      case (Data d)
      have "t = Some ?a \<Longrightarrow> ch_rx_open (frames_at ?m ?a) \<Longrightarrow> fr_gone y \<or> takes_data i y" using some by (simp add: takes_data_def)
      with some s Data show ?thesis
        using close_port_calm [of i ?a ?m False "dropped_ports ?m"]
        by (cases t) (auto simp: receive_wire recv_push_eq calm_reset calm_refl)
    next
      case (Credit n)
      let ?u = "upd_cell ?a (\<lambda>c. c\<lparr>c_psh_send_remaining := c_psh_send_remaining c + n\<rparr>) ?m"
      have "receive (wire i s) ?m = wake ?a ?u" using some Credit by (simp add: receive_wire recv_ack_def acknowledge_def)
      then show ?thesis using a by (intro calm_same_tx) (simp_all add: cell_upd_cell)
    next
      case Eof
      with some a finish_calm [OF some(2)] show ?thesis by (simp add: receive_wire)
    next
      case Abort
      with close_port_calm [of i ?a ?m True "dropped_ports ?m"] show ?thesis by (simp add: receive_wire)
    qed
  qed
qed

text \<open>The sender's part: the frame leaves its queue.\<close>

lemma pop_fine:
  assumes "end_fine i x" and q: "ch_queue (tx_frame (fr_mux x)) = wire i s # ffs" and "ch_rx_open (tx_frame (fr_mux x))"
  shows "end_fine i (set_mux (tx_rest ffs (fr_mux x)) x)" "in_flight i (fr_mux x) = concat (datas [s]) @ in_flight i (tx_rest ffs (fr_mux x))"
    "takes_data i (set_mux (tx_rest ffs (fr_mux x)) x) = takes_data i x" "sends_on (set_mux (tx_rest ffs (fr_mux x)) x) = sends_on x"
    "ch_rx_open (tx_frame (tx_rest ffs (fr_mux x)))" "got p (set_mux (tx_rest ffs (fr_mux x)) x) = got p x"
proof -
  let ?m = "tx_rest ffs (fr_mux x)"
  have fq: "flow_queue i (fr_mux x) = wire i s # flow_queue i ?m" using q by (simp add: flow_queue_def tx_rest_def)
  have same: "slot_of ?m = slot_of (fr_mux x)" "cells ?m = cells (fr_mux x)" "frames_at ?m = frames_at (fr_mux x)" "cell ?m = cell (fr_mux x)"
    by (auto simp: tx_rest_def slot_of_def frames_at_def cell_def)
  show o: "ch_rx_open (tx_frame ?m)" using assms(3) by (simp add: tx_rest_def)
  show "in_flight i (fr_mux x) = concat (datas [s]) @ in_flight i ?m" by (simp add: in_flight_def fq push_data_wire)
  show tk: "takes_data i (set_mux ?m x) = takes_data i x" "sends_on (set_mux ?m x) = sends_on x"
    by (simp_all add: takes_data_def sends_on_def same)
  show "got p (set_mux ?m x) = got p x" by (simp add: got_def unread_def same)
  from end_queue [OF assms(1,3)] fq obtain ss where "flow_queue i ?m = map (wire i) ss" by (auto simp: Cons_eq_map_conv)
  with assms(1) tk show "end_fine i (set_mux ?m x)" by (auto simp: end_fine_def same)
qed

lemma pop_pair:
  assumes inv: "pair_fine i p q x y" and q: "ch_queue (tx_frame (fr_mux x)) = wire i s # ffs" "ch_rx_open (tx_frame (fr_mux x))"
    and s: "datas [s] = [] \<or> \<not> takes_data i y"
  shows "pair_fine i p q (set_mux (tx_rest ffs (fr_mux x)) x) y"
proof -
  let ?x = "set_mux (tx_rest ffs (fr_mux x)) x"
  have x: "end_fine i x" and y: "end_fine i y" and xy: "toward i p q x y" and yx: "toward i q p y x"
    using inv by (simp_all add: pair_fine_def)
  note pop = pop_fine [OF x q]
  have "toward i p q ?x y" using xy s pop(2,4) q(2) unfolding toward_def by auto
  moreover have "toward i q p y ?x" by (rule toward_receiver [OF yx pop(6)]) (simp add: pop(3))
  ultimately show ?thesis using pop(1) y by (simp add: pair_fine_def)
qed

text \<open>Data that is taken.\<close>

lemma taken_pair:
  assumes inv: "pair_fine i p q x y" and q: "ch_queue (tx_frame (fr_mux x)) = wire i (Data d) # ffs" "ch_rx_open (tx_frame (fr_mux x))"
    and y: "slot_of (fr_mux y) i = Some (Established \<lparr>es_sender = Some (fr_cell y), es_cell = fr_cell y\<rparr>)"
  shows "pair_fine i p q (set_mux (tx_rest ffs (fr_mux x)) x) (set_mux (upd_frames (fr_cell y) (ch_push d) (fr_mux y)) y)"
proof -
  let ?x = "set_mux (tx_rest ffs (fr_mux x)) x" and ?m = "upd_frames (fr_cell y) (ch_push d) (fr_mux y)"
  let ?y = "set_mux ?m y"
  have x: "end_fine i x" and yf: "end_fine i y" and xy: "toward i p q x y" and yx: "toward i q p y x"
    using inv by (simp_all add: pair_fine_def)
  note pop = pop_fine [OF x q]
  have a: "fr_cell y < length (cells (fr_mux y))" using yf by (simp add: end_fine_def)
  have ch: "frames_at ?m (fr_cell y) = ch_push d (frames_at (fr_mux y) (fr_cell y))" using a by (simp add: frames_at_upd_frames)
  have tk: "takes_data i ?y = takes_data i y" by (simp add: takes_data_def)
  have on: "sends_on ?y = sends_on y" using a by (simp add: sends_on_def upd_frames_def cell_upd_cell)
  have fl: "in_flight i ?m = in_flight i (fr_mux y)" "tx_frame ?m = tx_frame (fr_mux y)" by (simp_all add: in_flight_def flow_queue_def)
  have g: "got q ?y = got q y @ (if fr_gone y then [] else d)"
    using ch by (simp add: got_def unread_def ch_push_def fr_cell_def)
  have "end_fine i ?y" using yf tk ch fl by (simp add: end_fine_def ch_push_def flow_queue_def)
  moreover have "toward i p q ?x ?y"
  proof (cases "fr_gone y")
    case True
    then show ?thesis using xy g by (simp add: toward_def takes_data_def)
  next
    case False
    then have "takes_data i y" using y by (simp add: takes_data_def)
    with False xy g tk pop(2,4) q(2) show ?thesis unfolding toward_def by (auto simp: prefix_def)
  qed
  moreover have "toward i q p ?y ?x"
    using toward_receiver [OF toward_sender [OF yx, of ?y] pop(6)] fl on pop(3) by simp
  ultimately show ?thesis using pop(1) by (simp add: pair_fine_def)
qed

text \<open>Data that is not taken: the channel is full and the flow is closed, or nothing changes.\<close>

definition room_for_data :: "u32 \<Rightarrow> 'o frail \<Rightarrow> bool" where
  "room_for_data i y \<longleftrightarrow> slot_of (fr_mux y) i = Some (Established \<lparr>es_sender = Some (fr_cell y), es_cell = fr_cell y\<rparr>)
     \<and> ch_rx_open (frames_at (fr_mux y) (fr_cell y)) \<and> \<not> ch_full (frames_at (fr_mux y) (fr_cell y))"

lemma untaken_calm:
  fixes d :: bytes
  assumes y: "end_fine i y" and no: "\<not> room_for_data i y"
  defines "m \<equiv> receive (wire i (Data d)) (fr_mux y)"
  shows "calm i (fr_cell y) (fr_mux y) m \<and> \<not> takes_data i (set_mux m y)"
proof (cases "takes_data i y")
  case True
  then have full: "ch_full (frames_at (fr_mux y) (fr_cell y))" using no y by (auto simp: room_for_data_def takes_data_def end_fine_def)
  have "slot_of m i = None"
    using True full y close_port_slots [of i False "fr_mux y" i]
    by (simp add: m_def takes_data_def end_fine_def receive_wire recv_push_eq)
  with receive_calm [OF y, of "Data d"] full show ?thesis by (simp add: m_def takes_data_def)
next
  case False
  have c: "calm i (fr_cell y) (fr_mux y) m"
  proof (cases "fr_gone y")
    case True
    have "m = fr_mux y \<or> calm i (fr_cell y) (fr_mux y) m"
      using no receive_calm [OF y, of "Data d"] y
      by (auto simp: m_def room_for_data_def end_fine_def receive_wire recv_push_eq calm_reset)
    then show ?thesis using calm_refl by metis
  qed (use receive_calm [OF y, of "Data d"] False in \<open>simp add: m_def\<close>)
  then show ?thesis using calm_takes [of i y "set_mux m y"] False by auto
qed

lemma transfer_fine:
  assumes "frail_transfer i x y x' y'" and inv: "pair_fine i p q x y"
  shows "pair_fine i p q x' y'"
  using assms(1)
proof (cases rule: frail_transfer.cases)
  case (frail_frame ff ffs)
  have x: "end_fine i x" and y: "end_fine i y" using inv by (simp_all add: pair_fine_def)
  from end_queue [OF x frail_frame(4)] frail_frame(3,5) obtain s where ff: "ff = wire i s" by (auto simp: flow_queue_def Cons_eq_map_conv)
  note q = frail_frame(3) [unfolded ff]
  let ?m = "receive (wire i s) (fr_mux y)"
  have calm: "pair_fine i p q x' y'" if c: "calm i (fr_cell y) (fr_mux y) ?m" and s: "datas [s] = [] \<or> \<not> takes_data i (set_mux ?m y)"
  proof -
    have "pair_fine i q p (set_mux ?m y) x" using inv c by (intro calm_pair [of i q p y x "set_mux ?m y"]) (simp_all add: pair_fine_sym [of i q p])
    then have "pair_fine i p q x (set_mux ?m y)" by (simp add: pair_fine_sym [of i p q])
    from pop_pair [OF this q frail_frame(4) s] show ?thesis by (simp add: frail_frame(1,2) ff)
  qed
  consider (none) "datas [s] = []" | (taken) d where "s = Data d" "room_for_data i y" | (untaken) d where "s = Data d" "\<not> room_for_data i y"
    by (cases s) auto
  then show ?thesis
  proof cases
    case none
    with receive_calm [OF y] show ?thesis by (intro calm) simp_all
  next
    case (taken d)
    then have m: "?m = upd_frames (fr_cell y) (ch_push d) (fr_mux y)" by (simp add: room_for_data_def receive_wire recv_push_eq)
    from taken have "slot_of (fr_mux y) i = Some (Established \<lparr>es_sender = Some (fr_cell y), es_cell = fr_cell y\<rparr>)" by (simp add: room_for_data_def)
    from taken_pair [OF inv q [unfolded taken(1)] frail_frame(4) this] show ?thesis by (simp add: frail_frame(1,2) ff m)
  next
    case (untaken d)
    with untaken_calm [OF y, of d] show ?thesis by (intro calm) simp_all
  qed
qed

section \<open>Runs\<close>

definition fault_inv :: "u32 \<Rightarrow> 'o party \<Rightarrow> 'q party \<Rightarrow> 'o frail \<times> 'q frail \<Rightarrow> bool" where
  "fault_inv i p q xy \<longleftrightarrow> party_ok p \<and> party_ok q \<and> pair_fine i p q (fst xy) (snd xy)"

lemma fresh_toward:
  assumes "view q y = fresh_view B n thr'" and "view p x = fresh_view A k thr" and "A = py_sends p"
    and "in_flight i (ep_mux x) = []"
  shows "toward i p q \<lparr>fr_copy = ep_copy x, fr_gone = False\<rparr> \<lparr>fr_copy = ep_copy y, fr_gone = False\<rparr>"
proof -
  have "v_sink (view q y) = []" "v_buf (view q y) = []" "v_queue (view q y) = []" "v_source (view p x) = A"
    unfolding assms(1,2) by (simp_all add: fresh_view_def)
  with assms(3,4) show ?thesis by (simp add: toward_def got_def unread_def view_def Let_def ep_mux_def)
qed

lemma fresh_fine:
  assumes "side_ok i p x" and "view p x = fresh_view A k thr" and "flow_queue i (ep_mux x) = []"
  shows "end_fine i \<lparr>fr_copy = ep_copy x, fr_gone = False\<rparr>"
proof -
  have "\<not> v_closed (view p x)" unfolding assms(2) by (simp add: fresh_view_def)
  with assms(1,3) show ?thesis by (auto simp: end_fine_def view_simps)
qed

lemma fault_inv_init:
  assumes "fault_init i p q xy"
  shows "fault_inv i p q xy"
proof -
  obtain x y where xy: "xy = (x, y)" by fastforce
  let ?x = "\<lparr>ep_copy = fr_copy x, ep_result = None\<rparr>" and ?y = "\<lparr>ep_copy = fr_copy y, ep_result = None\<rparr>"
  have e: "\<lparr>fr_copy = fr_copy x, fr_gone = False\<rparr> = x" "\<lparr>fr_copy = fr_copy y, fr_gone = False\<rparr> = y"
    using assms by (simp_all add: fault_init_def xy)
  from assms have i: "side_ok i p ?x" "side_ok i q ?y" "flow_queue i (ep_mux ?x) = []" "flow_queue i (ep_mux ?y) = []"
    "view p ?x = fresh_view (py_sends p) (py_window q) (ms_rwnd_threshold (cb_us (ep_copy ?x)))"
    "view q ?y = fresh_view (py_sends q) (py_window p) (ms_rwnd_threshold (cb_us (ep_copy ?y)))"
    and ok: "party_ok p" "party_ok q"
    by (simp_all add: fault_init_def relay_init_def xy)
  then have fl: "in_flight i (ep_mux ?x) = []" "in_flight i (ep_mux ?y) = []" by (simp_all add: in_flight_def)
  from fresh_toward [OF i(6,5) refl fl(1)] fresh_toward [OF i(5,6) refl fl(2)] fresh_fine [OF i(1,5,3)] fresh_fine [OF i(2,6,4)] ok
  show ?thesis by (simp add: fault_inv_def pair_fine_def e xy)
qed

lemma fault_inv_step:
  assumes "fault_inv i p q xy" and "fault_step i p q xy xy'"
  shows "fault_inv i p q xy'"
proof -
  from assms(1) have inv: "pair_fine i p q (fst xy) (snd xy)" and ok: "party_ok p" "party_ok q" by (simp_all add: fault_inv_def)
  from assms(2) have "pair_fine i p q (fst xy') (snd xy')"
  proof (cases rule: fault_step.cases)
    case (fault_left x x' y)
    with frail_step_fine [OF _ _ ok(1), of i x x' q y] inv show ?thesis by simp
  next
    case (fault_right y y' x)
    with frail_step_fine [OF _ _ ok(2), of i y y' p x] inv show ?thesis by (simp add: pair_fine_sym [of i p q])
  next
    case (fault_to_right x y x' y')
    with transfer_fine [of i x y x' y' p q] inv show ?thesis by simp
  next
    case (fault_to_left y x y' x')
    with transfer_fine [of i y x y' x' q p] inv show ?thesis by (simp add: pair_fine_sym [of i p q])
  qed
  with ok show ?thesis by (simp add: fault_inv_def)
qed

interpretation fault_run: step_system "fault_init i p q" "fault_step i p q" "fault_inv i p q" for i p q
  by unfold_locales (simp_all add: fault_inv_init fault_inv_step)


section \<open>A run that is cut off\<close>

text \<open>The left party's data arrives; then the left future is aborted and the left task exits before the reply is processed.\<close>

definition frail_polled :: "'o party \<Rightarrow> 'o frail \<Rightarrow> 'o frail" where
  "frail_polled p x = (case copy_poll (py_rw p) 0 40 (fr_copy x) of
       Some (c, Pending) \<Rightarrow> x\<lparr>fr_copy := c\<rparr>
     | _ \<Rightarrow> set_mux (drop_stream (cb_us (fr_copy x)) (fr_mux x)) (x\<lparr>fr_gone := True\<rparr>))"

definition frail_start :: "(bytes \<times> bytes) frail \<times> (bytes \<times> bytes) frail" where
  "frail_start = (\<lparr>fr_copy = ep_copy (fst relay0), fr_gone = False\<rparr>, \<lparr>fr_copy = ep_copy (snd relay0), fr_gone = False\<rparr>)"

definition frail_over :: "'o frail \<Rightarrow> 'q frail \<Rightarrow> 'o frail \<times> 'q frail" where
  "frail_over x y = (case ch_queue (tx_frame (fr_mux x)) of
       ff # ffs \<Rightarrow> (set_mux (tx_rest ffs (fr_mux x)) x, set_mux (receive ff (fr_mux y)) y)
     | [] \<Rightarrow> (x, y))"

definition frail_cut :: "'o frail \<Rightarrow> 'o frail" where
  "frail_cut x = (let x = set_mux (drop_stream (cb_us (fr_copy x)) (fr_mux x)) (x\<lparr>fr_gone := True\<rparr>)
     in set_mux (task_exit (fr_mux x)) x)"

definition frail_end :: "(bytes \<times> bytes) frail \<times> (bytes \<times> bytes) frail" where
  "frail_end = (case frail_over (frail_polled left_party (fst frail_start)) (snd frail_start) of
     (x, y) \<Rightarrow> (frail_cut x, frail_polled right_party y))"

lemma frail_polled_step: "\<not> fr_gone x \<Longrightarrow> frail_step i p x (frail_polled p x)"
  by (auto simp: frail_polled_def split: option.split poll.split intro: frail_poll frail_abort)

lemma frail_over_step:
  assumes "let ch = tx_frame (fr_mux x) in ch_queue ch \<noteq> [] \<and> ch_rx_open ch \<and> concerns i (hd (ch_queue ch))"
  shows "frail_transfer i x y (fst (frail_over x y)) (snd (frail_over x y))"
  using assms by (auto simp: frail_over_def Let_def split: list.split intro: frail_frame)

lemma frail_left_sends:
  "(\<lambda>x. \<not> fr_gone x \<and> (let ch = tx_frame (fr_mux x) in ch_queue ch \<noteq> [] \<and> ch_rx_open ch \<and> concerns 7 (hd (ch_queue ch))))
     (frail_polled left_party (fst frail_start))"
  by code_simp

lemma frail_end_results:
  "(\<lambda>xy. fr_gone (fst xy) \<and> snd (cb_other (fr_copy (fst xy))) = [] \<and> snd (cb_other (fr_copy (snd xy))) = [1, 2, 3]) frail_end"
  by code_simp

lemma frail_end_reach: "reach (fault_init 7 left_party right_party) (fault_step 7 left_party right_party) frail_end"
proof -
  let ?R = "reach (fault_init 7 left_party right_party) (fault_step 7 left_party right_party)"
  let ?l = "frail_polled left_party (fst frail_start)"
  obtain x y where over: "frail_over ?l (snd frail_start) = (x, y)" by fastforce
  have "fault_init 7 left_party right_party frail_start" using relay0_init
    by (simp add: fault_init_def frail_start_def relay0_def Let_def)
  then have "?R frail_start" by (rule reach_init)
  then have "?R (fst frail_start, snd frail_start)" by simp
  moreover have "frail_step 7 left_party (fst frail_start) ?l" by (rule frail_polled_step) (simp add: frail_start_def)
  ultimately have "?R (?l, snd frail_start)" by (blast intro: reach_step fault_left)
  moreover have "frail_transfer 7 ?l (snd frail_start) x y" using frail_over_step [of ?l 7 "snd frail_start"] frail_left_sends over by simp
  ultimately have "?R (x, y)" by (blast intro: reach_step fault_to_right)
  moreover have gone: "\<not> fr_gone x" "\<not> fr_gone y"
    using over frail_left_sends by (auto simp: frail_over_def frail_start_def split: list.splits)
  then have "frail_step 7 right_party y (frail_polled right_party y)" by (intro frail_polled_step)
  ultimately have sent: "?R (x, frail_polled right_party y)" by (blast intro: reach_step fault_right)
  let ?x = "set_mux (drop_stream (cb_us (fr_copy x)) (fr_mux x)) (x\<lparr>fr_gone := True\<rparr>)"
  from sent gone(1) have "?R (?x, frail_polled right_party y)" by (blast intro: reach_step fault_left frail_abort)
  moreover have "frail_step 7 left_party ?x (frail_cut x)" unfolding frail_cut_def Let_def by (rule frail_mux) (rule move_exit)
  ultimately have "?R (frail_cut x, frail_polled right_party y)" by (blast intro: reach_step fault_left)
  then show ?thesis by (simp add: frail_end_def over)
qed


end
