(* ===== verification/Relay_Refinement.thy ===== *)
theory Relay_Refinement
  imports Relay_Properties "HOL-Library.Sublist"
begin

text \<open>
  What a relayed connection promises, as a specification without frames, windows, credit, queues or tasks: a pipe in either
  direction, with the end of file of each and the totals reported at the end. Every run of the relay is, step by step and with the same
  octets given to the parties, a run of this specification.
\<close>

section \<open>The specification\<close>

text \<open>
  What a party has been given, what it still has to be given, whether its connection has been shut down for
  writing, and what the copying on its side has returned.
\<close>

record pipe_end =
  pe_given :: bytes
  pe_pending :: bytes
  pe_eof :: bool
  pe_result :: "(u64 \<times> u64) option"

text \<open>
  A party, which itself sends \<open>mine\<close>, is given the octets \<open>d\<close>. They are the next ones; the end of file comes when nothing is
  left and is not taken back; the result is final, comes after the end of file and has the totals of both directions.
\<close>

definition pipe_move :: "bytes \<Rightarrow> bytes \<Rightarrow> pipe_end \<Rightarrow> pipe_end \<Rightarrow> bool" where
  "pipe_move mine d e e' \<longleftrightarrow> pe_pending e = d @ pe_pending e' \<and> pe_given e' = pe_given e @ d
     \<and> (pe_eof e \<longrightarrow> pe_eof e') \<and> (pe_eof e' \<longrightarrow> pe_pending e' = []) \<and> (pe_result e \<noteq> None \<longrightarrow> pe_result e' = pe_result e)
     \<and> (\<forall>n m. pe_result e' = Some (n, m) \<longrightarrow> pe_eof e' \<and> n = word_of_nat (length (pe_given e')) \<and> m = word_of_nat (length mine))"

definition pipe_step :: "bytes \<Rightarrow> bytes \<Rightarrow> bytes \<times> bytes \<Rightarrow> pipe_end \<times> pipe_end \<Rightarrow> pipe_end \<times> pipe_end \<Rightarrow> bool" where
  "pipe_step A B l s t \<longleftrightarrow> pipe_move A (fst l) (fst s) (fst t) \<and> pipe_move B (snd l) (snd s) (snd t)"

definition pipe_start :: "bytes \<Rightarrow> bytes \<Rightarrow> pipe_end \<times> pipe_end" where
  "pipe_start A B = (\<lparr>pe_given = [], pe_pending = B, pe_eof = False, pe_result = None\<rparr>,
     \<lparr>pe_given = [], pe_pending = A, pe_eof = False, pe_result = None\<rparr>)"

section \<open>The relay as the parties see it\<close>

definition read_over :: "'o copy_bidirectional \<Rightarrow> bool" where
  "read_over c = (case cb_read c of RTransferring _ \<Rightarrow> False | _ \<Rightarrow> True)"

definition given :: "'o party \<Rightarrow> 'o endpoint \<Rightarrow> bytes" where
  "given p x = py_sink p (cb_other (ep_copy x))"

definition pipe_end_of :: "'o party \<Rightarrow> bytes \<Rightarrow> 'o endpoint \<Rightarrow> pipe_end" where
  "pipe_end_of p theirs x = \<lparr>pe_given = given p x, pe_pending = drop (length (given p x)) theirs, pe_eof = read_over (ep_copy x),
     pe_result = ep_result x\<rparr>"

definition pipe_of :: "'o party \<Rightarrow> 'q party \<Rightarrow> 'o endpoint \<times> 'q endpoint \<Rightarrow> pipe_end \<times> pipe_end" where
  "pipe_of p q xy = (pipe_end_of p (py_sends q) (fst xy), pipe_end_of q (py_sends p) (snd xy))"

text \<open>A step of the relay, labelled with what is new at either party.\<close>

definition relay_gives :: "u32 \<Rightarrow> 'o party \<Rightarrow> 'q party \<Rightarrow> bytes \<times> bytes \<Rightarrow> 'o endpoint \<times> 'q endpoint \<Rightarrow> 'o endpoint \<times> 'q endpoint \<Rightarrow> bool" where
  "relay_gives i p q l xy xy' \<longleftrightarrow> relay_step i p q xy xy'
     \<and> l = (drop (length (given p (fst xy))) (given p (fst xy')), drop (length (given q (snd xy))) (given q (snd xy')))"

section \<open>Nothing is taken back\<close>

definition copy_onward :: "('o \<Rightarrow> bytes) \<Rightarrow> 'o copy_bidirectional \<Rightarrow> 'o copy_bidirectional \<Rightarrow> bool" where
  "copy_onward sink c c' \<longleftrightarrow> prefix (sink (cb_other c)) (sink (cb_other c')) \<and> (read_over c \<longrightarrow> read_over c')"

lemma copy_steps_onward: "(copy_step sink source)\<^sup>*\<^sup>* c c' \<Longrightarrow> copy_onward sink c c'"
proof (induction rule: rtranclp_induct)
  case (step c' c'')
  have "copy_onward sink c' c''" using step.hyps(2)
    by (cases rule: copy_step.cases) (auto simp: copy_onward_def read_over_def)
  with step.IH show ?case by (auto simp: copy_onward_def)
qed (simp add: copy_onward_def)

definition onward :: "'o party \<Rightarrow> 'o endpoint \<Rightarrow> 'o endpoint \<Rightarrow> bool" where
  "onward p x x' \<longleftrightarrow> prefix (given p x) (given p x') \<and> (read_over (ep_copy x) \<longrightarrow> read_over (ep_copy x'))
     \<and> (ep_result x \<noteq> None \<longrightarrow> ep_result x' = ep_result x) \<and> (ep_result x' \<noteq> None \<and> ep_result x = None \<longrightarrow> read_over (ep_copy x'))"

lemma with_mux_onward [simp]: "onward p x (with_mux m x)" "onward p x x"
  by (auto simp: onward_def given_def read_over_def with_mux_def)

lemma side_step_onward:
  assumes "side_step i p x x'" and "party_ok p"
  shows "onward p x x'"
  using assms(1)
proof (cases rule: side_step.cases)
  case (side_poll w fuel c)
  with assms(2) copy_poll_steps [of "py_rw p" "py_sink p" "py_source p" w fuel "ep_copy x" c] copy_steps_onward [of "py_sink p" "py_source p" "ep_copy x" c]
  show ?thesis by (simp add: party_ok_def onward_def copy_onward_def given_def)
next
  case (side_return w fuel c t)
  with assms(2) copy_poll_steps [of "py_rw p" "py_sink p" "py_source p" w fuel "ep_copy x" c] copy_steps_onward [of "py_sink p" "py_source p" "ep_copy x" c]
  show ?thesis by (cases t) (simp add: party_ok_def onward_def copy_onward_def given_def with_mux_def read_over_def)
next
  case (side_world s)
  then show ?thesis by (auto simp: onward_def given_def read_over_def)
qed simp_all

lemma relay_step_onward:
  assumes "relay_step i p q xy xy'" and "party_ok p" and "party_ok q"
  shows "onward p (fst xy) (fst xy') \<and> onward q (snd xy) (snd xy')"
  using assms(1)
  by (cases rule: relay_step.cases) (auto simp: assms(2,3) side_step_onward elim: transfer.cases)

section \<open>The refinement\<close>

lemma given_prefix:
  assumes "pair_inv i p q x y ss tt"
  shows "prefix (given p x) (py_sends q)"
proof -
  from assms have "both_dirs (py_sends p) (py_sends q) (py_window p) (py_window q) (view p x) (view q y) ss tt" by (simp add: pair_inv_def)
  from both_dirsD(6) [OF this] show ?thesis unfolding delivered_def given_def by (simp add: prefixI [OF sym])
qed

text \<open>A future that has returned has seen the end of file.\<close>

definition settled :: "'o endpoint \<Rightarrow> bool" where
  "settled x \<longleftrightarrow> (ep_result x \<noteq> None \<longrightarrow> read_over (ep_copy x))"

definition pipe_inv :: "u32 \<Rightarrow> 'o party \<Rightarrow> 'q party \<Rightarrow> 'o endpoint \<times> 'q endpoint \<Rightarrow> bool" where
  "pipe_inv i p q xy \<longleftrightarrow> relay_inv i p q xy \<and> settled (fst xy) \<and> settled (snd xy)"

lemma onward_settled: "onward p x x' \<Longrightarrow> settled x \<Longrightarrow> settled x'"
  by (auto simp: onward_def settled_def)

lemma end_moves:
  assumes "onward p x x'" and "settled x" and inv: "pair_inv i p q x' y' ss tt"
  shows "pipe_move (py_sends p) (drop (length (given p x)) (given p x')) (pipe_end_of p (py_sends q) x) (pipe_end_of p (py_sends q) x')"
proof -
  from assms(1) obtain d where d: "given p x' = given p x @ d" by (auto simp: onward_def prefix_def)
  from given_prefix [OF inv] obtain z where z: "py_sends q = given p x @ d @ z" by (auto simp: prefix_def d)
  have eof: "given p x' = py_sends q" if "read_over (ep_copy x')"
    using pair_read_all [OF inv] that by (auto simp: read_over_def given_def split: read_state.splits)
  have "read_over (ep_copy x') \<and> n = word_of_nat (length (given p x')) \<and> m = word_of_nat (length (py_sends p))"
    if "ep_result x' = Some (n, m)" for n m
    using pair_result [OF inv that] onward_settled [OF assms(1,2)] that by (simp add: given_def settled_def)
  with assms(1) eof d z show ?thesis by (auto simp: pipe_move_def pipe_end_of_def onward_def)
qed

lemma relay_simulates:
  assumes "pipe_inv i p q xy" and "relay_gives i p q l xy xy'"
  shows "pipe_inv i p q xy' \<and> pipe_step (py_sends p) (py_sends q) l (pipe_of p q xy) (pipe_of p q xy')"
proof -
  from assms(2) have st: "relay_step i p q xy xy'"
    and l: "l = (drop (length (given p (fst xy))) (given p (fst xy')), drop (length (given q (snd xy))) (given q (snd xy')))"
    by (simp_all add: relay_gives_def)
  from assms(1) have ok: "party_ok p" "party_ok q" and rel: "relay_inv i p q xy" and set: "settled (fst xy)" "settled (snd xy)"
    by (simp_all add: pipe_inv_def relay_inv_def)
  note rel' = relay_inv_step [OF rel st]
  from rel' obtain ss tt where inv: "pair_inv i p q (fst xy') (snd xy') ss tt" by (auto simp: relay_inv_def)
  note swap = inv [unfolded pair_inv_sym [of i p q]]
  note on = conjunct1 [OF relay_step_onward [OF st ok]] conjunct2 [OF relay_step_onward [OF st ok]]
  have "pipe_inv i p q xy'" using rel' onward_settled [OF on(1) set(1)] onward_settled [OF on(2) set(2)] by (simp add: pipe_inv_def)
  then show ?thesis using end_moves [OF on(1) set(1) inv] end_moves [OF on(2) set(2) swap] by (simp add: pipe_step_def pipe_of_def l)
qed

lemma pipe_inv_init:
  assumes "relay_init i p q xy"
  shows "pipe_inv i p q xy"
proof -
  have "ep_result (fst xy) = None" "ep_result (snd xy) = None"
    using assms by (cases xy; auto simp: relay_init_def fresh_view_def dest: arg_cong [of _ _ v_result])+
  with relay_inv_init [OF assms] show ?thesis by (simp add: pipe_inv_def settled_def)
qed

interpretation relay_pipe: refinement "relay_init i p q" "relay_gives i p q" "pipe_inv i p q" "pipe_step (py_sends p) (py_sends q)" "pipe_of p q"
  for i p q
  by unfold_locales (simp_all add: pipe_inv_init relay_simulates)

lemma pipe_of_init: "relay_init i p q xy \<Longrightarrow> pipe_of p q xy = pipe_start (py_sends p) (py_sends q)"
proof -
  assume "relay_init i p q xy"
  then have v: "view p (fst xy) = fresh_view (py_sends p) (py_window q) (ms_rwnd_threshold (cb_us (ep_copy (fst xy))))"
    "view q (snd xy) = fresh_view (py_sends q) (py_window p) (ms_rwnd_threshold (cb_us (ep_copy (snd xy))))"
    by (cases xy; simp add: relay_init_def)+
  have "given p (fst xy) = []" "\<not> read_over (ep_copy (fst xy))" "ep_result (fst xy) = None"
    using arg_cong [OF v(1), of v_sink] arg_cong [OF v(1), of v_read] arg_cong [OF v(1), of v_result]
    by (simp_all add: fresh_view_def given_def read_over_def)
  moreover have "given q (snd xy) = []" "\<not> read_over (ep_copy (snd xy))" "ep_result (snd xy) = None"
    using arg_cong [OF v(2), of v_sink] arg_cong [OF v(2), of v_read] arg_cong [OF v(2), of v_result]
    by (simp_all add: fresh_view_def given_def read_over_def)
  ultimately show "pipe_of p q xy = pipe_start (py_sends p) (py_sends q)" by (simp add: pipe_of_def pipe_start_def pipe_end_of_def)
qed

text \<open>
  C5: A relayed connection refines a pair of pipes: from the opening of the stream on, every run of the two copying futures, the two
  multiplexors and whatever else they do is a run of the specification, which knows nothing of frames, windows and
  acknowledgements, with the same octets given to the parties in the same steps. In particular octets are only ever added to what a party
  was given, an end of file comes behind the last octet and stays, and the totals that are returned are those of both directions.
\<close>

theorem relay_refines_pipes:
  assumes "relay_init i p q s" and "run (relay_gives i p q) s ls t"
  shows "run (pipe_step (py_sends p) (py_sends q)) (pipe_start (py_sends p) (py_sends q)) ls (pipe_of p q t)"
  using relay_pipe.run_refines [OF assms(2,1)] pipe_of_init [OF assms(1)] by simp

section \<open>A run\<close>

lemma acted_runs:
  assumes "run (relay_gives i p q) s ls t"
  shows "\<exists>ls. run (relay_gives i p q) s ls (acted i p q a t)"
proof -
  have "acted i p q a t = t \<or> relay_step i p q t (acted i p q a t)" by (rule acted_step)
  moreover have "relay_step i p q t t' \<Longrightarrow> \<exists>l. relay_gives i p q l t t'" for t' by (simp add: relay_gives_def)
  ultimately show ?thesis using assms by (metis run_step)
qed

lemma fold_acted_runs: "run (relay_gives i p q) s ls t \<Longrightarrow> \<exists>ls. run (relay_gives i p q) s ls (fold (acted i p q) as t)"
proof (induction as arbitrary: ls t)
  case (Cons a as)
  from acted_runs [OF Cons.prems, of a] Cons.IH show ?case by fastforce
qed auto

theorem relay_refines_pipes_witness:
  "\<exists>ls. run (pipe_step [1, 2, 3] [9]) (pipe_start [1, 2, 3] [9]) ls
     (\<lparr>pe_given = [9], pe_pending = [], pe_eof = True, pe_result = Some (1, 3)\<rparr>,
      \<lparr>pe_given = [1, 2, 3], pe_pending = [], pe_eof = True, pe_result = Some (3, 1)\<rparr>)"
proof -
  obtain ls where "run (relay_gives 7 left_party right_party) relay0 ls relay_end"
    unfolding relay_end_def using fold_acted_runs [OF run_start] by blast
  from relay_refines_pipes [OF relay0_init this] 
  have "run (pipe_step [1, 2, 3] [9]) (pipe_start [1, 2, 3] [9]) ls (pipe_of left_party right_party relay_end)"
    by (simp add: left_party_def right_party_def)
  moreover have "pipe_of left_party right_party relay_end = (\<lparr>pe_given = [9], pe_pending = [], pe_eof = True, pe_result = Some (1, 3)\<rparr>,
      \<lparr>pe_given = [1, 2, 3], pe_pending = [], pe_eof = True, pe_result = Some (3, 1)\<rparr>)" by code_simp
  ultimately show ?thesis by auto
qed

end
