(* ===== verification/Write_Permission.thy ===== *)
theory Write_Permission
  imports Mux_Lifecycle
begin

text \<open>
  \<open>poll_obtain_write_permission\<close> of \<open>src/src/mux/stream.rs\<close> one atomic access at a time, interleaved with
  \<open>acknowledge\<close> and \<open>disallow_write\<close> of \<open>src/src/mux/lib.rs\<close>, which the multiplexor task runs on
  another thread. The writer polls at most once here; \<open>WPending\<close> is the point where it has returned
  \<open>Poll::Pending\<close> and runs again only when it is woken.
\<close>

section \<open>Threads and shared memory\<close>

text \<open>Where the writer is: before the check of \<open>finish_sent\<close>, at the head of the loop, about to register
  its waker, about to exchange, or returned.\<close>

datatype writer_pc = WStart | WLoad | WRegister | WCas u32 | WPending | WGranted | WBroken

text \<open>What the task does to the stream, and where it is in doing so: each job changes the shared value
  first and wakes the writer in a second step.\<close>

datatype task_job = JobAcknowledge u32 | JobDisallowWrite

datatype task_pc = TIdle | TWake

record perm_state =
  p_finish :: bool
  p_remaining :: u32
  p_registered :: bool
  p_woken :: bool
  p_writer :: writer_pc
  p_jobs :: "task_job list"
  p_task :: task_pc

definition writer_step :: "bool \<Rightarrow> perm_state \<Rightarrow> perm_state option" where
  "writer_step spurious p = (case p_writer p of
       WStart \<Rightarrow> Some (p\<lparr>p_writer := if p_finish p then WBroken else WLoad\<rparr>)
     | WLoad \<Rightarrow> Some (p\<lparr>p_writer := if p_remaining p = 0 then WRegister else WCas (p_remaining p)\<rparr>)
     | WRegister \<Rightarrow> Some (p\<lparr>p_registered := True, p_writer := WPending\<rparr>)
     | WCas original \<Rightarrow>
         if p_remaining p = original \<and> \<not> spurious
         then Some (p\<lparr>p_remaining := original - 1, p_writer := WGranted\<rparr>)
         else Some (p\<lparr>p_writer := WLoad\<rparr>)
     | WPending \<Rightarrow> None
     | WGranted \<Rightarrow> None
     | WBroken \<Rightarrow> None)"

definition task_step :: "perm_state \<Rightarrow> perm_state option" where
  "task_step p = (case p_task p of
       TIdle \<Rightarrow> (case p_jobs p of
           [] \<Rightarrow> None
         | JobAcknowledge n # js \<Rightarrow> Some (p\<lparr>p_remaining := p_remaining p + n, p_jobs := js, p_task := TWake\<rparr>)
         | JobDisallowWrite # js \<Rightarrow> Some (p\<lparr>p_finish := True, p_jobs := js, p_task := TWake\<rparr>))
     | TWake \<Rightarrow> Some (if p_registered p
         then p\<lparr>p_registered := False, p_woken := True, p_task := TIdle\<rparr>
         else p\<lparr>p_task := TIdle\<rparr>))"

inductive perm_step :: "perm_state \<Rightarrow> perm_state \<Rightarrow> bool" where
  perm_writer: "writer_step spurious p = Some p' \<Longrightarrow> perm_step p p'"
| perm_task: "task_step p = Some p' \<Longrightarrow> perm_step p p'"

definition perm_start :: "u32 \<Rightarrow> task_job list \<Rightarrow> perm_state" where
  "perm_start credits jobs = \<lparr>p_finish = False, p_remaining = credits, p_registered = False, p_woken = False,
     p_writer = WStart, p_jobs = jobs, p_task = TIdle\<rparr>"

definition perm_init :: "u32 \<Rightarrow> task_job list \<Rightarrow> perm_state \<Rightarrow> bool" where
  "perm_init credits jobs p \<longleftrightarrow> p = perm_start credits jobs"

section \<open>Credits\<close>

text \<open>The credits the jobs of a list add, the credits taken by the writer.\<close>

primrec job_credits :: "task_job list \<Rightarrow> u32" where
  "job_credits [] = 0"
| "job_credits (j # js) = (case j of JobAcknowledge n \<Rightarrow> n | JobDisallowWrite \<Rightarrow> 0) + job_credits js"

definition taken :: "perm_state \<Rightarrow> u32" where
  "taken p = (if p_writer p = WGranted then 1 else 0)"

definition perm_inv :: "u32 \<Rightarrow> task_job list \<Rightarrow> perm_state \<Rightarrow> bool" where
  "perm_inv credits jobs p \<longleftrightarrow>
     p_remaining p + taken p + job_credits (p_jobs p) = credits + job_credits jobs
     \<and> (\<forall>original. p_writer p = WCas original \<longrightarrow> original \<noteq> 0)
     \<and> (p_woken p \<or> p_registered p \<longrightarrow> p_writer p = WPending)"

lemma writer_step_inv: "perm_inv c js p \<Longrightarrow> writer_step sp p = Some p' \<Longrightarrow> perm_inv c js p'"
  by (auto simp: perm_inv_def writer_step_def taken_def split: writer_pc.splits if_splits)

lemma task_step_inv: "perm_inv c js p \<Longrightarrow> task_step p = Some p' \<Longrightarrow> perm_inv c js p'"
  by (auto simp: perm_inv_def task_step_def taken_def ac_simps
    split: task_pc.splits list.splits task_job.splits if_splits)

interpretation perm_run: step_system "perm_init c js" perm_step "perm_inv c js" for c js
proof unfold_locales
  fix p p'
  show "perm_init c js p \<Longrightarrow> perm_inv c js p"
    by (simp add: perm_init_def perm_start_def perm_inv_def taken_def)
  show "perm_inv c js p \<Longrightarrow> perm_step p p' \<Longrightarrow> perm_inv c js p'"
    by (auto elim!: perm_step.cases intro: writer_step_inv task_step_inv)
qed

text \<open>
  C20: Credits are conserved under every interleaving of the exchange loop with the task, spurious
  failures included: what is left, plus one if the writer obtained permission, plus what is
  still to be acknowledged, is what there was; and an exchange is only attempted from a
  positive value, so the counter never wraps below zero.
\<close>

theorem permission_conserves_credit:
  assumes "reach (perm_init credits jobs) perm_step p"
  shows "p_remaining p + taken p + job_credits (p_jobs p) = credits + job_credits jobs
    \<and> (\<forall>original. p_writer p = WCas original \<longrightarrow> original \<noteq> 0)"
  using perm_run.reach_inv [OF assms] by (simp add: perm_inv_def)

lemma reach_via_writer: "reach ini perm_step p \<Longrightarrow> writer_step sp p = Some p' \<Longrightarrow> reach ini perm_step p'"
  by (erule reach_step) (rule perm_writer)

lemma reach_via_task: "reach ini perm_step p \<Longrightarrow> task_step p = Some p' \<Longrightarrow> reach ini perm_step p'"
  by (erule reach_step) (rule perm_task)

lemma reach_perm_start: "reach (perm_init c js) perm_step (perm_start c js)"
  by (rule reach_init) (simp add: perm_init_def)

lemmas perm_eval = writer_step_def task_step_def perm_start_def

theorem permission_conserves_credit_witness:
  "p_remaining ((perm_start 3 [])\<lparr>p_remaining := 2, p_writer := WGranted\<rparr>)
    + taken ((perm_start 3 [])\<lparr>p_remaining := 2, p_writer := WGranted\<rparr>) = 3"
proof -
  have "reach (perm_init 3 []) perm_step ((perm_start 3 [])\<lparr>p_writer := WLoad\<rparr>)"
    by (rule reach_via_writer [OF reach_perm_start]) (simp add: perm_eval)
  then have "reach (perm_init 3 []) perm_step ((perm_start 3 [])\<lparr>p_writer := WCas 3\<rparr>)"
    by (rule reach_via_writer) (simp add: perm_eval)
  then have "reach (perm_init 3 []) perm_step ((perm_start 3 [])\<lparr>p_remaining := 2, p_writer := WGranted\<rparr>)"
    by (rule reach_via_writer [where sp = False]) (simp add: perm_eval)
  from permission_conserves_credit [OF this] show ?thesis by (simp add: perm_start_def)
qed

section \<open>Lost wake-ups\<close>

text \<open>
  A writer that loaded zero credits and is about to register, when the task runs a whole job in between.
\<close>

lemma reach_register:
  "reach (perm_init 0 js) perm_step ((perm_start 0 js)\<lparr>p_writer := WRegister\<rparr>)"
proof -
  have "reach (perm_init 0 js) perm_step ((perm_start 0 js)\<lparr>p_writer := WLoad\<rparr>)"
    by (rule reach_via_writer [OF reach_perm_start]) (simp add: perm_eval)
  then show ?thesis by (rule reach_via_writer) (simp add: perm_eval)
qed

lemma no_step_pending: "p_writer p = WPending \<Longrightarrow> p_jobs p = [] \<Longrightarrow> p_task p = TIdle \<Longrightarrow> \<not> perm_step p p'"
  by (auto elim!: perm_step.cases simp: writer_step_def task_step_def)

text \<open>
  C21: A wake-up can be lost: the task can acknowledge, and wake nobody, between the writer's load of zero
  and its registration; the writer then waits although it has credit, and nothing will wake it.
  In the same way a writer can wait for ever on a stream that has been closed under it.
\<close>

theorem permission_lost_wakeup:
  "(\<exists>p. reach (perm_init 0 [JobAcknowledge 1]) perm_step p \<and> p_writer p = WPending \<and> \<not> p_woken p
      \<and> p_remaining p = 1 \<and> \<not> (\<exists>p'. perm_step p p'))
   \<and> (\<exists>p. reach (perm_init 0 [JobDisallowWrite]) perm_step p \<and> p_writer p = WPending \<and> \<not> p_woken p
      \<and> p_finish p \<and> \<not> (\<exists>p'. perm_step p p'))"
proof -
  let ?a = "(perm_start 0 [])\<lparr>p_remaining := 1, p_registered := True, p_writer := WPending\<rparr>"
  have "reach (perm_init 0 [JobAcknowledge 1]) perm_step
      ((perm_start 0 [])\<lparr>p_remaining := 1, p_writer := WRegister, p_task := TWake\<rparr>)"
    by (rule reach_via_task [OF reach_register]) (simp add: perm_eval)
  then have "reach (perm_init 0 [JobAcknowledge 1]) perm_step ((perm_start 0 [])\<lparr>p_remaining := 1, p_writer := WRegister\<rparr>)"
    by (rule reach_via_task) (simp add: perm_eval)
  then have a: "reach (perm_init 0 [JobAcknowledge 1]) perm_step ?a"
    by (rule reach_via_writer) (simp add: perm_eval)
  let ?b = "(perm_start 0 [])\<lparr>p_finish := True, p_registered := True, p_writer := WPending\<rparr>"
  have "reach (perm_init 0 [JobDisallowWrite]) perm_step
      ((perm_start 0 [])\<lparr>p_finish := True, p_writer := WRegister, p_task := TWake\<rparr>)"
    by (rule reach_via_task [OF reach_register]) (simp add: perm_eval)
  then have "reach (perm_init 0 [JobDisallowWrite]) perm_step ((perm_start 0 [])\<lparr>p_finish := True, p_writer := WRegister\<rparr>)"
    by (rule reach_via_task) (simp add: perm_eval)
  then have b: "reach (perm_init 0 [JobDisallowWrite]) perm_step ?b"
    by (rule reach_via_writer) (simp add: perm_eval)
  have "\<not> perm_step ?a p'" "\<not> perm_step ?b p'" for p'
    by (rule no_step_pending; simp add: perm_start_def)+
  with a b show ?thesis
    by (intro conjI exI [of _ ?a] exI [of _ ?b]) (auto simp: perm_start_def)
qed

section \<open>The loop without interference\<close>

text \<open>The writer alone, without spurious failures, for at most \<open>n\<close> steps.\<close>

fun writer_run :: "nat \<Rightarrow> perm_state \<Rightarrow> perm_state" where
  "writer_run 0 p = p"
| "writer_run (Suc n) p = (case writer_step False p of None \<Rightarrow> p | Some p' \<Rightarrow> writer_run n p')"

definition perm_of :: "mux_stream \<Rightarrow> mux \<Rightarrow> perm_state" where
  "perm_of s m = (perm_start (c_psh_send_remaining (cell m (ms_cell s))) [])
     \<lparr>p_finish := c_finish_sent (cell m (ms_cell s))\<rparr>"

definition poll_of :: "writer_pc \<Rightarrow> (io_error, unit) outcome poll" where
  "poll_of pc = (case pc of WGranted \<Rightarrow> Ready (Ok ()) | WBroken \<Rightarrow> Ready (Err BrokenPipe) | _ \<Rightarrow> Pending)"



end
