(* ===== verification/Mux_Panic_Freedom.thy ===== *)
theory Mux_Panic_Freedom
  imports Mux_Shutdown
begin

text \<open>
  No operation of a multiplexor panics. The only panics that the code could reach are a data channel of capacity zero, a host
  that the encoder cannot measure in one octet, and reading behind the end of a buffer; the invariant and the checks of the
  code exclude them. The fuzz targets of the repository test a part of this.
\<close>

section \<open>The task\<close>

lemma new_stream_shared_ok: "mux_wf m \<Longrightarrow> snd (new_stream_shared i n h p m) \<noteq> Panic"
  by (auto simp: new_stream_shared_def mpsc_channel_def mux_wf_def wf_cells_def unat_eq_0 Let_def)

lemma send_to_user_ok: "snd (send_stream_to_user s m) \<noteq> Ready Panic" "snd (send_bind_to_user r m) \<noteq> Ready Panic"
  by (auto simp: send_stream_to_user_def send_bind_to_user_def split: prod.splits poll.splits outcome.splits option.splits)

lemma resume_send_ok: "snd (resume_send m) \<noteq> Ready Panic"
  by (auto simp: resume_send_def send_to_user_ok split: option.split suspended.split)

lemma con_recv_ok: "mux_wf m \<Longrightarrow> snd (con_recv_new_stream i h p n m) \<noteq> Ready Panic"
  using new_stream_shared_ok [of m i n h p]
  by (auto simp: con_recv_new_stream_def send_to_user_ok split: prod.splits outcome.splits bool.splits)

lemma recv_ack_ok: "mux_wf m \<Longrightarrow> snd (recv_ack i n m) \<noteq> Panic"
  using new_stream_shared_ok [of m i n "[]" 0]
  by (auto simp: recv_ack_def ack_recv_new_stream_def Let_def split: prod.splits outcome.splits option.splits flow_slot.splits)

lemma recv_rest_ok: "snd (recv_datagram i d m) \<noteq> Panic" "snd (recv_bind i p ignore m) \<noteq> Ready Panic"
  by (auto simp: recv_datagram_def recv_bind_def send_to_user_ok Let_def split: prod.splits outcome.splits option.splits try_send_error.splits)

lemma process_frame_ok: "mux_wf m \<Longrightarrow> snd (process_frame f ignore m) \<noteq> Ready Panic"
  by (simp add: process_frame_def con_recv_ok recv_ack_ok recv_rest_ok split: payload.split)

lemma process_message_ok: "mux_wf m \<Longrightarrow> snd (process_message msg ignore m) \<noteq> Ready Panic"
  using process_frame_ok [of m _ ignore] frame_decode_never_panics
  by (auto simp: process_message_def split: message.split outcome.splits prod.splits poll.splits) (metis snd_conv)+

lemma process_ws_next_ok: "mux_wf m \<Longrightarrow> fst (snd (process_ws_next inb m)) \<noteq> Ready Panic"
proof (induction inb m rule: process_ws_next.induct)
  case (2 r rest m)
  show ?case
  proof (cases r)
    case (Inr msg)
    obtain m' p where pm: "process_message msg False m = (m', p)" by fastforce
    with "2.prems" mux_wf_process_message [of m msg False] process_message_ok [of m msg False] have "mux_wf m'" "p \<noteq> Ready Panic" by simp_all
    with pm Inr "2.IH" show ?thesis by (auto split: poll.split outcome.split)
  qed simp
qed simp

lemma wind_down_dispatch_ok: "mux_wf m \<Longrightarrow> fst (snd (wind_down_dispatch inb m)) \<noteq> Ready Panic"
proof (induction inb m rule: wind_down_dispatch.induct)
  case (2 r rest m)
  show ?case
  proof (cases r)
    case (Inr msg)
    obtain m' p where pm: "process_message msg True m = (m', p)" by fastforce
    with "2.prems" mux_wf_process_message [of m msg True] process_message_ok [of m msg True] have "mux_wf m'" "p \<noteq> Ready Panic" by simp_all
    with pm Inr "2.IH" show ?thesis by (auto split: poll.split outcome.split)
  qed simp
qed simp

lemma start_finish_ok:
  assumes "mux_wf m" and "res \<noteq> Panic"
  shows "fst (snd (snd (start_finish rs cl branch res inb w m))) \<noteq> Ready Panic"
proof -
  have "fst (snd (snd (wind_down rs cl drain inb w (cancel_suspended m)))) \<noteq> Ready Panic" for drain
    using mux_wf_flush [OF mux_wf_stop_writers [OF mux_wf_cancel_suspended [OF assms(1)]], of rs cl drain w]
    by (simp add: wind_down_def Let_def case_prod_beta wind_down_dispatch_ok)
  with assms(2) show ?thesis by (auto simp: start_finish_def split: prod.splits poll.splits outcome.splits) (metis fst_conv snd_conv)+
qed

lemma dropped_ports_ok: "snd (process_dropped_ports_task m) \<noteq> Ready Panic"
proof (induction m rule: process_dropped_ports_task.induct)
  case (1 m)
  then show ?case by (subst process_dropped_ports_task.simps) (auto split: prod.splits poll.splits option.splits)
qed

section \<open>Streams and the user\<close>

lemma panic_conv [simp]: "map_err f r = Panic \<longleftrightarrow> r = Panic" "ok_or e x \<noteq> Panic"
  by (cases r; simp) (cases x; simp)

lemma poll_read_ok: "snd (snd (poll_read n s m)) \<noteq> Ready Panic"
  by (auto simp: poll_read_def poll_fill_buf_def increment_psh_recvd_since_def consume_def Let_def split: prod.splits poll.splits option.splits)

lemma poll_write_ok: "snd (poll_write k data s m) \<noteq> Ready Panic"
  by (auto simp: poll_write_def poll_obtain_write_permission_def Let_def split: prod.splits poll.splits bool.splits)

lemma poll_shutdown_ok: "snd (poll_shutdown s m) \<noteq> Ready Panic"
  by (auto simp: poll_shutdown_def shutdown_inner_def Let_def split: prod.splits bool.splits)

lemma send_datagram_ok: "snd (send_datagram dg m) \<noteq> Panic"
  by (cases "255 < length (dg_target_host dg)") (simp add: send_datagram_def, simp add: send_datagram_open)

lemma oneshot_poll_ok: "snd (oneshot_poll c) \<noteq> Ready Panic"
  by (simp add: oneshot_poll_def split: option.split)

lemma opening_ok: "poll_new_stream_channel host port draws fut m = Some (m', draws', fut', r) \<Longrightarrow> r \<noteq> Ready Panic"
  by (auto simp: poll_new_stream_channel_def poll_wait_def new_stream_attempt_def Let_def
      split: new_stream_future.splits prod.splits option.splits poll.splits outcome.splits if_splits bool.splits)

lemma request_bind_ok: "request_bind host port ty draws m = Some (m', draws', r) \<Longrightarrow> r \<noteq> Panic"
  by (auto simp: request_bind_def Let_def split: prod.splits option.splits bool.splits)

lemma poll_bind_ok: "snd (poll_bind bf m) \<noteq> Ready Panic"
  using oneshot_poll_ok by (cases bf) (auto simp: Let_def case_prod_beta split: poll.splits)

lemma accepting_ok:
  "snd (accept_stream_channel m) \<noteq> Ready Panic" "snd (get_datagram m) \<noteq> Ready Panic" "snd (next_bind_request m) \<noteq> Ready Panic"
  "snd (bind_reply br acc m) \<noteq> Panic"
  by (auto simp: accept_stream_channel_def get_datagram_def next_bind_request_def bind_reply_def ok_or_closed_def Let_def
      split: prod.splits option.splits poll.splits bool.splits)



end
