(* ===== verification/Rust_Net.thy ===== *)
theory Rust_Net
  imports Rust_Strings
begin

text \<open>
  The part of \<open>std::net\<close> the sources use: addresses, their octets and their text. An IPv4 address
  prints as four decimal numbers; an IPv6 address prints as the standard library does: an address that maps an
  IPv4 address as \<open>::ffff:\<close> and that address, any other as eight hexadecimal segments in which the first longest
  run of two or more zero segments is written as two colons.
\<close>

section \<open>Addresses\<close>

datatype ip_addr = IpV4 u32 | IpV6 u128

text \<open>\<open>SocketAddr\<close>; the version 6 variant carries its flow information and scope too.\<close>

datatype socket_addr = SocketV4 u32 u16 | SocketV6 u128 u16 u32 u32

primrec sa_ip :: "socket_addr \<Rightarrow> ip_addr" where
  "sa_ip (SocketV4 ip port) = IpV4 ip"
| "sa_ip (SocketV6 ip port flowinfo scope) = IpV6 ip"

primrec sa_port :: "socket_addr \<Rightarrow> u16" where
  "sa_port (SocketV4 ip port) = port"
| "sa_port (SocketV6 ip port flowinfo scope) = port"

text \<open>\<open>SocketAddr::from((ip, port))\<close>.\<close>

primrec sa_from :: "ip_addr \<Rightarrow> u16 \<Rightarrow> socket_addr" where
  "sa_from (IpV4 ip) port = SocketV4 ip port"
| "sa_from (IpV6 ip) port = SocketV6 ip port 0 0"

section \<open>Text\<close>

definition str_bytes :: "string \<Rightarrow> bytes" where
  "str_bytes s = map of_char s"

fun intersperse_join :: "string \<Rightarrow> string list \<Rightarrow> string" where
  "intersperse_join sep [] = []"
| "intersperse_join sep [x] = x"
| "intersperse_join sep (x # xs) = x @ sep @ intersperse_join sep xs"

definition show_ipv4_octets :: "bytes \<Rightarrow> string" where
  "show_ipv4_octets bs = intersperse_join ''.'' (map (\<lambda>b. show_nat (unat b)) bs)"

definition show_ipv4 :: "u32 \<Rightarrow> string" where
  "show_ipv4 w = show_ipv4_octets (put_u32 w)"

definition hex_digit :: "u16 \<Rightarrow> char" where
  "hex_digit n = (if n < 10 then char_of (48 + uint n) else char_of (87 + uint n))"

text \<open>The four hexadecimal digits of a segment, without leading zeros but for the last.\<close>

definition show_hex :: "u16 \<Rightarrow> string" where
  "show_hex w =
     (let ds = map (\<lambda>n. take_bit 4 (drop_bit n w)) [12, 8, 4] @ [take_bit 4 w]; zs = takeWhile (\<lambda>d. d = 0) ds
      in map hex_digit (if length zs = 4 then [0] else drop (length zs) ds))"

text \<open>The eight segments of the sixteen octets of an address.\<close>

fun segments :: "bytes \<Rightarrow> u16 list" where
  "segments (hi # lo # bs) = (256 * ucast hi + ucast lo) # segments bs"
| "segments bs = []"

text \<open>The loop that finds the longest run of zero segments: index, current run, longest run.\<close>

fun longest_zeroes :: "nat \<Rightarrow> nat \<times> nat \<Rightarrow> nat \<times> nat \<Rightarrow> u16 list \<Rightarrow> nat \<times> nat" where
  "longest_zeroes i cur longest [] = longest"
| "longest_zeroes i cur longest (s # ss) =
     (if s = 0 then
        let cur' = (if snd cur = 0 then i else fst cur, Suc (snd cur))
        in longest_zeroes (Suc i) cur' (if snd longest < snd cur' then cur' else longest) ss
      else longest_zeroes (Suc i) (0, 0) longest ss)"

definition show_segments :: "u16 list \<Rightarrow> string" where
  "show_segments ss = intersperse_join '':'' (map (\<lambda>s. show_hex s) ss)"

definition show_ipv6_octets :: "bytes \<Rightarrow> string" where
  "show_ipv6_octets bs =
     (let ss = segments bs in
      if take 6 ss = [0, 0, 0, 0, 0, 0xffff] then ''::ffff:'' @ show_ipv4_octets (drop 12 bs)
      else let (start, len) = longest_zeroes 0 (0, 0) (0, 0) ss
           in if 1 < len then show_segments (take start ss) @ ''::'' @ show_segments (drop (start + len) ss)
              else show_segments ss)"

definition show_ipv6 :: "u128 \<Rightarrow> string" where
  "show_ipv6 w = show_ipv6_octets (put_u128 w)"

primrec show_ip :: "ip_addr \<Rightarrow> string" where
  "show_ip (IpV4 w) = show_ipv4 w"
| "show_ip (IpV6 w) = show_ipv6 w"

lemma show_ipv6_examples:
  "show_ipv6_octets [0x20, 1, 0x0d, 0xb8, 0, 0, 0, 0, 0, 0, 0, 0, 0, 0, 0, 1] = ''2001:db8::1''"
  "show_ipv6_octets (replicate 15 0 @ [1]) = ''::1''"
  "show_ipv6_octets (replicate 16 0) = ''::''"
  "show_ipv6_octets (replicate 10 0 @ [0xff, 0xff, 127, 0, 0, 1]) = ''::ffff:127.0.0.1''"
  by code_simp+

end
