(* ===== verification/Rust_Parse.thy ===== *)
theory Rust_Parse
  imports Rust_Net
begin

text \<open>
  More of Rust's standard library, as the server and the command line use it: validity of UTF-8
  (\<open>str::from_utf8\<close>), parsing of addresses (\<open>IpAddr::from_str\<close>, a recursive descent over the text that
  gives back the rest), comparison and trimming of text. Theory \<open>Ip_Text\<close> shows that a printed address is parsed back.
\<close>

section \<open>UTF-8\<close>

definition utf8_cont :: "u8 \<Rightarrow> bool" where
  "utf8_cont b \<longleftrightarrow> 0x80 \<le> b \<and> b \<le> 0xBF"

text \<open>The second octet of a sequence of three or four octets depends on the first.\<close>

definition utf8_second3 :: "u8 \<Rightarrow> u8 \<Rightarrow> bool" where
  "utf8_second3 a b \<longleftrightarrow>
     (if a = 0xE0 then 0xA0 \<le> b \<and> b \<le> 0xBF else if a = 0xED then 0x80 \<le> b \<and> b \<le> 0x9F else utf8_cont b)"

definition utf8_second4 :: "u8 \<Rightarrow> u8 \<Rightarrow> bool" where
  "utf8_second4 a b \<longleftrightarrow>
     (if a = 0xF0 then 0x90 \<le> b \<and> b \<le> 0xBF else if a = 0xF4 then 0x80 \<le> b \<and> b \<le> 0x8F else utf8_cont b)"

fun utf8_valid :: "bytes \<Rightarrow> bool" where
  "utf8_valid [] \<longleftrightarrow> True"
| "utf8_valid (a # bs) \<longleftrightarrow>
     (if a < 0x80 then utf8_valid bs
      else if 0xC2 \<le> a \<and> a \<le> 0xDF then
        (case bs of b # rest \<Rightarrow> utf8_cont b \<and> utf8_valid rest | _ \<Rightarrow> False)
      else if 0xE0 \<le> a \<and> a \<le> 0xEF then
        (case bs of b # c # rest \<Rightarrow> utf8_second3 a b \<and> utf8_cont c \<and> utf8_valid rest | _ \<Rightarrow> False)
      else if 0xF0 \<le> a \<and> a \<le> 0xF4 then
        (case bs of b # c # d # rest \<Rightarrow> utf8_second4 a b \<and> utf8_cont c \<and> utf8_cont d \<and> utf8_valid rest | _ \<Rightarrow> False)
      else False)"

declare utf8_valid.simps [simp del]

lemma utf8_valid_Nil [simp]: "utf8_valid []"
  by (simp add: utf8_valid.simps)

lemma utf8_valid_ascii [simp]: "a < 0x80 \<Longrightarrow> utf8_valid (a # bs) \<longleftrightarrow> utf8_valid bs"
  by (simp add: utf8_valid.simps)

lemma ascii_utf8_valid: "list_all (\<lambda>b. b < 0x80) bs \<Longrightarrow> utf8_valid bs"
  by (induction bs) auto

text \<open>\<open>str::from_utf8\<close>: the text whose octets these are.\<close>

definition bytes_str :: "bytes \<Rightarrow> string" where
  "bytes_str bs = map (\<lambda>b. char_of (unat b)) bs"

definition from_utf8 :: "'e \<Rightarrow> bytes \<Rightarrow> ('e, string) outcome" where
  "from_utf8 e bs = (if utf8_valid bs then Ok (bytes_str bs) else Err e)"

lemma unat_of_char [simp]: "unat (of_char c :: u8) = of_char c"
proof -
  have "unat (of_char c :: u8) = unat (of_nat (of_char c) :: u8)" by (simp only: of_nat_of_char)
  also have "\<dots> = of_char c mod 2 ^ LENGTH(8)" by (rule unat_of_nat)
  also have "\<dots> = of_char c" by simp
  finally show ?thesis .
qed

lemma bytes_str_bytes [simp]: "bytes_str (str_bytes s) = s"
  by (induction s) (simp_all add: bytes_str_def str_bytes_def)

lemma str_bytes_str [simp]: "str_bytes (bytes_str bs) = bs"
proof (induction bs)
  case (Cons b bs)
  have "(of_char (char_of (unat b) :: char) :: u8) = of_nat (of_char (char_of (unat b) :: char))"
    by (rule of_nat_of_char [symmetric])
  also have "\<dots> = b" by (simp del: of_nat_of_char add: mod_less)
  finally show ?case using Cons by (simp add: bytes_str_def str_bytes_def)
qed (simp add: bytes_str_def str_bytes_def)

section \<open>Text\<close>

text \<open>\<open>str::starts_with\<close> on a prefix, \<open>trim\<close>, \<open>eq_ignore_ascii_case\<close> on octets.\<close>

definition has_prefix :: "string \<Rightarrow> string \<Rightarrow> bool" where
  "has_prefix p s \<longleftrightarrow> take (length p) s = p"

text \<open>The characters with the Unicode property \<open>White_Space\<close>, encoded.\<close>

definition white_space :: "string list" where
  "white_space = map (map char_of) ([[n]. n \<leftarrow> [32, 9, 10, 11, 12, 13 :: nat]] @ [[0xC2, 0x85], [0xC2, 0xA0], [0xE1, 0x9A, 0x80]]
     @ [[0xE2, 0x80, n]. n \<leftarrow> [0x80, 0x81, 0x82, 0x83, 0x84, 0x85, 0x86, 0x87, 0x88, 0x89, 0x8A, 0xA8, 0xA9, 0xAF]]
     @ [[0xE2, 0x81, 0x9F], [0xE3, 0x80, 0x80]])"

function strip_prefixes :: "string list \<Rightarrow> string \<Rightarrow> string" where
  "strip_prefixes ws s = (case find (\<lambda>w. w \<noteq> [] \<and> has_prefix w s) ws of
       None \<Rightarrow> s
     | Some w \<Rightarrow> strip_prefixes ws (drop (length w) s))"
  by pat_completeness auto

termination
proof (relation "measure (\<lambda>(ws, s). length s)")
  fix ws s w
  assume "find (\<lambda>w. w \<noteq> [] \<and> has_prefix w s) ws = Some w"
  then have "w \<noteq> []" "take (length w) s = w" by (auto simp: find_Some_iff has_prefix_def)
  then show "((ws, drop (length w) s), ws, s) \<in> measure (\<lambda>(ws, s). length s)" by (cases s) auto
qed simp

declare strip_prefixes.simps [simp del]

definition trim :: "string \<Rightarrow> string" where
  "trim s = rev (strip_prefixes (map rev white_space) (rev (strip_prefixes white_space s)))"

definition ascii_lower :: "u8 \<Rightarrow> u8" where
  "ascii_lower b = (if 65 \<le> b \<and> b \<le> 90 then b + 32 else b)"

definition eq_ignore_ascii_case :: "bytes \<Rightarrow> bytes \<Rightarrow> bool" where
  "eq_ignore_ascii_case a b \<longleftrightarrow> map ascii_lower a = map ascii_lower b"

lemma eq_ignore_ascii_case_refl [simp]: "eq_ignore_ascii_case a a"
  by (simp add: eq_ignore_ascii_case_def)

section \<open>Parsing addresses\<close>

text \<open>The number that octets denote, most significant first, computed on words.\<close>

definition be_word :: "bytes \<Rightarrow> 'a::len word" where
  "be_word bs = foldl (\<lambda>acc b. 256 * acc + ucast b) 0 bs"

lemma be_word_be_val: "be_word bs = be_val bs"
proof -
  have "foldl (\<lambda>acc b. 256 * acc + ucast b) (word_of_nat n) bs
      = (word_of_nat (foldl (\<lambda>acc b. 256 * acc + unat b) n bs) :: 'a word)" for n
  proof (induction bs arbitrary: n)
    case (Cons b bs)
    have "256 * word_of_nat n + ucast b = (word_of_nat (256 * n + unat b) :: 'a word)"
      by simp
    then show ?case by (simp only: foldl_Cons Cons)
  qed simp
  from this [of 0] show ?thesis by (simp add: be_word_def be_val_def be_nat_def)
qed

text \<open>
  The parser of \<open>core::net\<close>: a reader takes a text and gives a value and the rest of the text, or fails. Numbers are
  bounded by their type, by a number of digits and, in an IPv4 address, may not have leading zeros.
\<close>

type_synonym 'a reader = "string \<Rightarrow> ('a \<times> string) option"

definition digit_of :: "int \<Rightarrow> char \<Rightarrow> int option" where
  "digit_of radix c =
     (let n = of_char c :: int;
          d = (if 48 \<le> n \<and> n \<le> 57 then n - 48 else if 97 \<le> n \<and> n \<le> 122 then n - 87
               else if 65 \<le> n \<and> n \<le> 90 then n - 55 else radix)
      in if d < radix then Some d else None)"

fun read_digits :: "int \<Rightarrow> int \<Rightarrow> nat \<Rightarrow> nat \<Rightarrow> int \<Rightarrow> string \<Rightarrow> (nat \<times> int \<times> string) option" where
  "read_digits radix mx max_digits count acc [] = Some (count, acc, [])"
| "read_digits radix mx max_digits count acc (c # cs) = (case digit_of radix c of
       None \<Rightarrow> Some (count, acc, c # cs)
     | Some d \<Rightarrow>
         if mx < acc * radix + d \<or> max_digits < count + 1 then None
         else read_digits radix mx max_digits (count + 1) (acc * radix + d) cs)"

definition read_number :: "int \<Rightarrow> int \<Rightarrow> nat \<Rightarrow> bool \<Rightarrow> int reader" where
  "read_number radix mx max_digits allow_zero_prefix s =
     (case read_digits radix mx max_digits 0 0 s of
        None \<Rightarrow> None
      | Some (count, n, rest) \<Rightarrow>
          if count = 0 then None
          else if \<not> allow_zero_prefix \<and> starts_with CHR ''0'' s \<and> 1 < count then None
          else Some (n, rest))"

definition read_given_char :: "char \<Rightarrow> unit reader" where
  "read_given_char c s = (if starts_with c s then Some ((), tl s) else None)"

definition read_separator :: "char \<Rightarrow> nat \<Rightarrow> 'a reader \<Rightarrow> 'a reader" where
  "read_separator sep index inner s =
     (if 0 < index then Option.bind (read_given_char sep s) (\<lambda>(_, s). inner s) else inner s)"

primrec read_octets :: "nat \<Rightarrow> nat \<Rightarrow> bytes reader" where
  "read_octets 0 i s = Some ([], s)"
| "read_octets (Suc n) i s =
     Option.bind (read_separator CHR ''.'' i (read_number 10 255 3 False) s) (\<lambda>(b, s).
     Option.bind (read_octets n (Suc i) s) (\<lambda>(bs, s). Some (word_of_int b # bs, s)))"

definition read_ipv4_addr :: "u32 reader" where
  "read_ipv4_addr s = map_option (\<lambda>(bs, rest). (be_word bs, rest)) (read_octets 4 0 s)"

text \<open>
  \<open>read_groups\<close> with \<open>n\<close> groups left to fill, from index \<open>i\<close> on; the Boolean says that the last two groups came from an
  IPv4 address, which is tried where two groups are left.
\<close>

primrec read_groups :: "nat \<Rightarrow> nat \<Rightarrow> string \<Rightarrow> u16 list \<times> bool \<times> string" where
  "read_groups 0 i s = ([], False, s)"
| "read_groups (Suc n) i s =
     (case (if 0 < n then read_separator CHR '':'' i read_ipv4_addr s else None) of
        Some (v4_addr, rest) \<Rightarrow> (segments (put_u32 v4_addr), True, rest)
      | None \<Rightarrow>
          (case read_separator CHR '':'' i (read_number 16 65535 4 True) s of
             None \<Rightarrow> ([], False, s)
           | Some (g, rest) \<Rightarrow>
               (case read_groups n (Suc i) rest of (gs, v4, rest) \<Rightarrow> (word_of_int g # gs, v4, rest))))"

definition join_segments :: "u16 list \<Rightarrow> u128" where
  "join_segments ss = be_word (concat (map put_u16 ss))"

definition read_ipv6_addr :: "u128 reader" where
  "read_ipv6_addr s =
     (case read_groups 8 0 s of
        (head, head_ipv4, s) \<Rightarrow>
          if length head = 8 then Some (join_segments head, s)
          else if head_ipv4 then None
          else
            Option.bind (read_given_char CHR '':'' s) (\<lambda>(_, s).
            Option.bind (read_given_char CHR '':'' s) (\<lambda>(_, s).
            (case read_groups (8 - (length head + 1)) 0 s of
               (tail, _, s) \<Rightarrow>
                 Some (join_segments (head @ replicate (8 - length head - length tail) 0 @ tail), s)))))"

definition read_ip_addr :: "ip_addr reader" where
  "read_ip_addr s = (case read_ipv4_addr s of
       Some (w, rest) \<Rightarrow> Some (IpV4 w, rest)
     | None \<Rightarrow> map_option (\<lambda>(w, rest). (IpV6 w, rest)) (read_ipv6_addr s))"

text \<open>\<open>IpAddr::from_str\<close>: the whole text has to be read.\<close>

definition parse_ip :: "string \<Rightarrow> ip_addr option" where
  "parse_ip s = (case read_ip_addr s of Some (a, []) \<Rightarrow> Some a | _ \<Rightarrow> None)"

lemma parse_ip_examples:
  "parse_ip ''127.0.0.1'' = Some (IpV4 0x7f000001)"
  "parse_ip ''::1'' = Some (IpV6 1)"
  "parse_ip ''::'' = Some (IpV6 0)"
  "parse_ip ''2001:db8::1'' = Some (IpV6 0x20010db8000000000000000000000001)"
  "parse_ip ''::ffff:127.0.0.1'' = Some (IpV6 0xffff7f000001)"
  "parse_ip ''1.2.3'' = None"
  "parse_ip ''01.2.3.4'' = None"
  "parse_ip ''256.2.3.4'' = None"
  "parse_ip ''localhost'' = None"
  "parse_ip ''[::1]'' = None"
  "parse_ip [] = None"
  by code_simp+

end
