(* ===== verification/Ip_Text.thy ===== *)
theory Ip_Text
  imports Rust_Parse
begin

text \<open>
  Printing an address and parsing the text gives the address back, for every IPv4 and IPv6 address: the texts that \<open>Display\<close> of
  \<open>IpAddr\<close> writes, with the longest run of zero segments left out, are exactly recovered by \<open>FromStr\<close>.
\<close>

section \<open>Numbers\<close>

text \<open>A number ends where the text ends or no digit follows.\<close>

definition stops :: "int \<Rightarrow> string \<Rightarrow> bool" where
  "stops radix rest \<longleftrightarrow> (case rest of [] \<Rightarrow> True | c # _ \<Rightarrow> digit_of radix c = None)"

lemma stops_simps [simp]: "stops r []" "stops 10 (CHR ''.'' # s)" "stops 16 (CHR '':'' # s)" "stops 10 (CHR '':'' # s)"
  by (simp_all add: stops_def digit_of_def)

lemma read_digits_append:
  "read_digits r mx k c a xs = Some (c', a', []) \<Longrightarrow> stops r rest \<Longrightarrow> read_digits r mx k c a (xs @ rest) = Some (c', a', rest)"
proof (induction r mx k c a xs rule: read_digits.induct)
  case (1 r mx k c a)
  then show ?case by (cases rest) (auto simp: stops_def)
qed (auto split: option.splits if_splits)

text \<open>Digits denote a number; while it fits, the intermediate values do too.\<close>

definition num_val :: "int \<Rightarrow> int \<Rightarrow> int list \<Rightarrow> int" where
  "num_val r a ds = foldl (\<lambda>a d. a * r + d) a ds"

lemma num_val_simps [simp]: "num_val r a [] = a" "num_val r a (d # ds) = num_val r (a * r + d) ds"
  by (simp_all add: num_val_def)

lemma num_val_ge: "1 \<le> r \<Longrightarrow> 0 \<le> a \<Longrightarrow> list_all (\<lambda>d. 0 \<le> d) ds \<Longrightarrow> a \<le> num_val r a ds"
proof (induction ds arbitrary: a)
  case (Cons d ds)
  then have "a \<le> a * r" using mult_left_mono [of 1 r a] by simp
  moreover have "a * r + d \<le> num_val r (a * r + d) ds" using Cons calculation by simp
  ultimately show ?case using Cons.prems by simp
qed simp

lemma read_digits_value:
  "map (digit_of r) cs = map Some ds \<Longrightarrow> list_all (\<lambda>d. 0 \<le> d) ds \<Longrightarrow> 1 \<le> r \<Longrightarrow> 0 \<le> a \<Longrightarrow> num_val r a ds \<le> mx \<Longrightarrow> c + length ds \<le> k
   \<Longrightarrow> read_digits r mx k c a cs = Some (c + length ds, num_val r a ds, [])"
proof (induction cs arbitrary: ds a c)
  case (Cons ch cs)
  then obtain d ds' where ds: "ds = d # ds'" "digit_of r ch = Some d" "map (digit_of r) cs = map Some ds'" by (cases ds) auto
  then have "0 \<le> a * r + d" "a * r + d \<le> num_val r (a * r + d) ds'" using Cons.prems by (auto intro: num_val_ge)
  with Cons ds show ?case by simp
qed simp

lemma list_all_upt: "list_all P [0..<n] \<Longrightarrow> k < n \<Longrightarrow> P k"
  by (simp add: list_all_iff)

lemma decimal_digits: "list_all (\<lambda>d :: nat. digit_of 10 (char_of (48 + d)) = Some (int d) \<and> (char_of (48 + d) = CHR ''0'' \<longleftrightarrow> d = 0)) [0..<10]"
  by code_simp

lemma digit_dec: "d < 10 \<Longrightarrow> digit_of 10 (char_of (48 + d)) = Some (int d)" "d < 10 \<Longrightarrow> char_of (48 + d) = CHR ''0'' \<longleftrightarrow> d = 0" for d :: nat
  using list_all_upt [OF decimal_digits, of d] by simp_all

lemma show_nat_small:
  "n < 10 \<Longrightarrow> show_nat n = [char_of (48 + n)]"
  "10 \<le> n \<Longrightarrow> n < 100 \<Longrightarrow> show_nat n = [char_of (48 + n div 10), char_of (48 + n mod 10)]"
  "100 \<le> n \<Longrightarrow> n < 1000 \<Longrightarrow> show_nat n = [char_of (48 + n div 10 div 10), char_of (48 + n div 10 mod 10), char_of (48 + n mod 10)]"
proof -
  show one: "show_nat n = [char_of (48 + n)]" if "n < 10" for n using that by (simp add: show_nat.simps [of n])
  show two: "show_nat n = [char_of (48 + n div 10), char_of (48 + n mod 10)]" if "10 \<le> n" "n < 100" for n
    using that one [of "n div 10"] by (simp add: show_nat.simps [of n])
  assume "100 \<le> n" "n < 1000"
  then have "10 \<le> n div 10" "n div 10 < 100" by auto
  from two [OF this] \<open>100 \<le> n\<close> show "show_nat n = [char_of (48 + n div 10 div 10), char_of (48 + n div 10 mod 10), char_of (48 + n mod 10)]"
    by (simp add: show_nat.simps [of n])
qed

lemma int_digits: "int n = int (n div 10) * 10 + int (n mod 10)"
  using div_mult_mod_eq [of n 10] by (metis of_nat_add of_nat_mult of_nat_numeral)

lemma octet_digits:
  assumes "n \<le> 255"
  shows "read_digits 10 255 3 0 0 (show_nat n) = Some (length (show_nat n), int n, [])
    \<and> (starts_with CHR ''0'' (show_nat n) \<longrightarrow> length (show_nat n) = 1)"
proof -
  consider "n < 10" | "10 \<le> n" "n < 100" | "100 \<le> n" by linarith
  then have "\<exists>ds. map (digit_of 10) (show_nat n) = map Some ds \<and> list_all (\<lambda>d. 0 \<le> d) ds \<and> num_val 10 0 ds = int n \<and> length ds \<le> 3
      \<and> (starts_with CHR ''0'' (show_nat n) \<longrightarrow> length (show_nat n) = 1)"
  proof cases
    case 1
    then show ?thesis by (intro exI [of _ "[int n]"]) (simp add: show_nat_small digit_dec)
  next
    case 2
    then have "n div 10 < 10" "0 < n div 10" by (simp_all add: less_mult_imp_div_less div_greater_zero_iff)
    with 2 int_digits [of n] show ?thesis by (intro exI [of _ "[int (n div 10), int (n mod 10)]"]) (simp add: show_nat_small digit_dec starts_with_def)
  next
    case 3
    then have "n div 10 div 10 < 10" "0 < n div 10 div 10"
      using assms by (simp_all add: less_mult_imp_div_less div_greater_zero_iff flip: div_mult2_eq)
    with 3 assms int_digits [of n] int_digits [of "n div 10"] show ?thesis
      by (intro exI [of _ "[int (n div 10 div 10), int (n div 10 mod 10), int (n mod 10)]"])
        (simp add: show_nat_small digit_dec starts_with_def)
  qed
  then obtain ds where ds: "map (digit_of 10) (show_nat n) = map Some ds" "list_all (\<lambda>d. 0 \<le> d) ds" "num_val 10 0 ds = int n"
    "length ds \<le> 3" "starts_with CHR ''0'' (show_nat n) \<longrightarrow> length (show_nat n) = 1" by blast
  moreover have "length (show_nat n) = length ds" using arg_cong [OF ds(1), of length] by simp
  ultimately show ?thesis using read_digits_value [OF ds(1,2), of 0 255 0 3] assms by simp
qed

lemma unat_octet_le: "unat (b :: u8) \<le> 255"
  using unsigned_less [of b, where ?'a = nat] by (simp add: less_Suc_eq_le [symmetric])

lemma read_octet: "stops 10 rest \<Longrightarrow> read_number 10 255 3 False (show_nat (unat (b :: u8)) @ rest) = Some (uint b, rest)"
  using octet_digits [of "unat b"] unat_octet_le [of b] read_digits_append [of 10 255 3 0 0 "show_nat (unat b)" "length (show_nat (unat b))" "uint b" rest]
  by (cases "show_nat (unat b)") (auto simp: read_number_def starts_with_def)

lemma digit_hex: "n < 16 \<Longrightarrow> digit_of 16 (hex_digit (n :: u16)) = Some (uint n)"
proof -
  have all: "list_all (\<lambda>k. digit_of 16 (hex_digit (word_of_nat k)) = Some (int k)) [0..<16]" by code_simp
  assume "n < 16"
  then have "unat n < 16" by (simp add: word_less_nat_alt)
  from list_all_upt [OF all this] show ?thesis by simp
qed

lemma nibble: "take_bit 4 (w :: u16) < 16"
  by (simp add: take_bit_eq_mod word_less_nat_alt unat_mod)

lemma show_hex_cases:
  fixes w :: u16
  defines "d \<equiv> \<lambda>n. take_bit 4 (drop_bit n w)"
  obtains "show_hex w = map hex_digit [d 12, d 8, d 4, d 0]" | "d 12 = 0" "show_hex w = map hex_digit [d 8, d 4, d 0]"
    | "d 12 = 0" "d 8 = 0" "show_hex w = map hex_digit [d 4, d 0]" | "d 12 = 0" "d 8 = 0" "d 4 = 0" "show_hex w = [hex_digit (d 0)]"
proof -
  have "show_hex w = (if d 12 \<noteq> 0 then map hex_digit [d 12, d 8, d 4, d 0] else if d 8 \<noteq> 0 then map hex_digit [d 8, d 4, d 0]
      else if d 4 \<noteq> 0 then map hex_digit [d 4, d 0] else [hex_digit (d 0)])"
    by (simp add: show_hex_def d_def)
  with that show ?thesis by (auto split: if_splits)
qed

lemma hex_value:
  fixes w :: u16
  defines "u \<equiv> \<lambda>n. uint (take_bit 4 (drop_bit n w))"
  shows "((u 12 * 16 + u 8) * 16 + u 4) * 16 + u 0 = uint w"
proof -
  have "u n = take_bit 4 (drop_bit n (uint w))" for n unfolding u_def by (rule bit_eqI) (auto simp: bit_simps bit_uint_iff)
  then have u: "u n = uint w div 2 ^ n mod 16" for n by (simp add: take_bit_eq_mod drop_bit_eq_div)
  have "uint w div 4096 < 16" "0 \<le> uint w div 4096" using uint_lt2p [of w] by (simp_all add: pos_imp_zdiv_nonneg_iff)
  then have "uint w div 4096 mod 16 = uint w div 4096" by simp
  moreover have "uint w div 256 = uint w div 16 div 16" "uint w div 4096 = uint w div 16 div 16 div 16" by (simp_all add: zdiv_zmult2_eq [symmetric])
  ultimately show ?thesis unfolding u by simp
qed

text \<open>A segment is read back from its hexadecimal digits.\<close>

lemma read_segment: "stops 16 rest \<Longrightarrow> read_number 16 65535 4 True (show_hex w @ rest) = Some (uint w, rest)"
proof -
  assume rest: "stops 16 rest"
  let ?d = "\<lambda>n. take_bit 4 (drop_bit n w)"
  have dig: "digit_of 16 (hex_digit (?d n)) = Some (uint (?d n))" for n by (rule digit_hex [OF nibble])
  have dig0: "digit_of 16 (hex_digit (take_bit 4 w)) = Some (uint (take_bit 4 w))" by (rule digit_hex [OF nibble])
  have "\<exists>ds. map (digit_of 16) (show_hex w) = map Some ds \<and> list_all (\<lambda>d. 0 \<le> d) ds \<and> num_val 16 0 ds = uint w \<and> 1 \<le> length ds \<and> length ds \<le> 4"
  proof (cases w rule: show_hex_cases)
    case 1
    then show ?thesis using hex_value [of w]
      by (intro exI [of _ "[uint (?d 12), uint (?d 8), uint (?d 4), uint (?d 0)]"]) (simp add: dig dig0)
  next
    case 2
    then show ?thesis using hex_value [of w] by (intro exI [of _ "[uint (?d 8), uint (?d 4), uint (?d 0)]"]) (simp add: dig dig0)
  next
    case 3
    then show ?thesis using hex_value [of w] by (intro exI [of _ "[uint (?d 4), uint (?d 0)]"]) (simp add: dig dig0)
  next
    case 4
    then show ?thesis using hex_value [of w] by (intro exI [of _ "[uint (?d 0)]"]) (simp add: dig dig0)
  qed
  then obtain ds where ds: "map (digit_of 16) (show_hex w) = map Some ds" "list_all (\<lambda>d. 0 \<le> d) ds" "num_val 16 0 ds = uint w"
    "1 \<le> length ds" "length ds \<le> 4" by blast
  have "uint w \<le> 65535" using uint_lt2p [of w] by simp
  with ds have "read_digits 16 65535 4 0 0 (show_hex w) = Some (length ds, uint w, [])" using read_digits_value [OF ds(1,2), of 0 65535 0 4] by simp
  from read_digits_append [OF this rest] ds(4) show ?thesis by (cases ds) (simp_all add: read_number_def)
qed

section \<open>Version 4\<close>

lemma read_dot [simp]: "read_given_char c (c # s) = Some ((), s)"
  by (simp add: read_given_char_def starts_with_def)

lemma read_octets_show:
  assumes "stops 10 rest"
  shows "read_octets (length bs) (Suc i) (concat (map (\<lambda>b. CHR ''.'' # show_nat (unat b)) bs) @ rest) = Some (bs, rest)"
  using assms
proof (induction bs arbitrary: i)
  case (Cons b bs)
  have "stops 10 (concat (map (\<lambda>b. CHR ''.'' # show_nat (unat b)) bs) @ rest)" using Cons.prems by (cases bs) simp_all
  with Cons read_octet [of _ b] show ?case by (simp add: read_separator_def)
qed simp

lemma intersperse_concat: "intersperse_join sep (x # xs) = x @ concat (map (\<lambda>y. sep @ y) xs)"
  by (induction xs arbitrary: x) simp_all

lemma read_ipv4_show:
  assumes "length bs = 4" and "stops 10 rest"
  shows "read_ipv4_addr (show_ipv4_octets bs @ rest) = Some (be_word bs, rest)"
proof -
  obtain b bs' where bs: "bs = b # bs'" "length bs' = 3" using assms(1) by (cases bs) auto
  let ?tail = "concat (map (\<lambda>b. CHR ''.'' # show_nat (unat b)) bs') @ rest"
  have split: "show_ipv4_octets bs @ rest = show_nat (unat b) @ ?tail"
    by (simp add: show_ipv4_octets_def bs intersperse_concat o_def)
  have "stops 10 ?tail" using bs(2) by (cases bs') simp_all
  from read_octet [OF this, of b] have "read_separator CHR ''.'' 0 (read_number 10 255 3 False) (show_nat (unat b) @ ?tail) = Some (uint b, ?tail)"
    by (simp add: read_separator_def)
  moreover have "read_octets 3 (Suc 0) ?tail = Some (bs', rest)" using read_octets_show [OF assms(2), of bs' 0] bs(2) by simp
  ultimately have "read_octets (Suc 3) 0 (show_nat (unat b) @ ?tail) = Some (bs, rest)"
    by (simp only: read_octets.simps(2) Option.bind.bind_lunit prod.case word_of_int_uint bs(1))
  then show ?thesis unfolding split by (simp add: read_ipv4_addr_def)
qed

lemma be_word_u32: "be_word (put_u32 w) = w" and be_word_u128: "be_word (put_u128 x) = x"
  by (simp_all add: be_word_be_val put_u32_def put_u128_def be_val_put_be)

lemma parse_show_ipv4: "parse_ip (show_ipv4 w) = Some (IpV4 w)"
  using read_ipv4_show [of "put_u32 w" "[]"] by (simp add: parse_ip_def read_ip_addr_def show_ipv4_def be_word_u32)

section \<open>Version 6\<close>

text \<open>A text without dots is no version 4 address.\<close>

lemma read_number_suffix: "read_number r mx k z s = Some (v, rest) \<Longrightarrow> set rest \<subseteq> set s"
proof -
  have "read_digits r mx k c a s = Some (c', v, rest) \<Longrightarrow> set rest \<subseteq> set s" for c a c'
    by (induction r mx k c a s rule: read_digits.induct) (auto split: option.splits if_splits)
  from this [of 0 0] show "read_number r mx k z s = Some (v, rest) \<Longrightarrow> set rest \<subseteq> set s"
    by (auto simp: read_number_def split: option.splits if_splits)
qed

lemma no_dot_no_ipv4: "CHR ''.'' \<notin> set s \<Longrightarrow> read_ipv4_addr s = None"
proof (rule ccontr)
  assume dot: "CHR ''.'' \<notin> set s" and "read_ipv4_addr s \<noteq> None"
  then obtain v rest where "read_number 10 255 3 False s = Some (v, rest)" "starts_with CHR ''.'' rest"
    by (auto simp: read_ipv4_addr_def read_separator_def eval_nat_numeral read_given_char_def bind_eq_Some_conv split: if_splits)
  with read_number_suffix [of 10 255 3 False s v rest] dot show False by (cases rest) (auto simp: starts_with_def)
qed

text \<open>The run of zero segments that is left out.\<close>

definition zero_run :: "u16 list \<Rightarrow> nat \<times> nat \<Rightarrow> bool" where
  "zero_run ss r \<longleftrightarrow> fst r + snd r \<le> length ss \<and> (\<forall>k < snd r. ss ! (fst r + k) = 0)"

lemma longest_zeroes_run:
  "zero_run (zs @ ss) longest \<Longrightarrow> zero_run (zs @ ss) cur \<Longrightarrow> snd cur = 0 \<or> fst cur + snd cur = length zs
   \<Longrightarrow> zero_run (zs @ ss) (longest_zeroes (length zs) cur longest ss)"
proof (induction ss arbitrary: zs cur longest)
  case (Cons s ss)
  let ?cur = "(if snd cur = 0 then length zs else fst cur, Suc (snd cur))"
  have step: "zero_run ((zs @ [s]) @ ss) (longest_zeroes (length (zs @ [s])) cur' longest' ss)"
    if "zero_run (zs @ s # ss) longest'" "zero_run (zs @ s # ss) cur'" "snd cur' = 0 \<or> fst cur' + snd cur' = length (zs @ [s])" for cur' longest'
    using that by (intro Cons.IH) simp_all
  show ?case
  proof (cases "s = 0")
    case True
    have "zero_run (zs @ s # ss) ?cur"
      using Cons.prems(2,3) True by (auto simp: zero_run_def nth_append less_Suc_eq)
    then show ?thesis using step [of "if snd longest < snd ?cur then ?cur else longest" ?cur] Cons.prems True by (auto simp: Let_def)
  next
    case False
    then show ?thesis using step [of longest "(0, 0)"] Cons.prems(1) by (simp add: zero_run_def)
  qed
qed simp

lemma zero_run_split: "zero_run ss (a, l) \<Longrightarrow> take a ss @ replicate l 0 @ drop (a + l) ss = ss"
  by (rule nth_equalityI) (auto simp: zero_run_def nth_append min_def)

text \<open>Groups of segments.\<close>

definition group_tail :: "u16 list \<Rightarrow> string" where
  "group_tail ss = concat (map (\<lambda>s. CHR '':'' # show_hex s) ss)"

lemma group_tail_Nil [simp]: "group_tail [] = []"
  and group_tail_Cons: "group_tail (s # ss) = CHR '':'' # show_hex s @ group_tail ss"
  by (simp_all add: group_tail_def)

lemma show_segments_Cons: "show_segments (s # ss) = show_hex s @ group_tail ss"
  by (simp add: show_segments_def group_tail_def intersperse_concat o_def)

lemma hex_no_dot: "CHR ''.'' \<notin> set (show_hex w)"
proof -
  have all: "list_all (\<lambda>k. hex_digit (word_of_nat k) \<noteq> CHR ''.'') [0..<16]" by code_simp
  have "hex_digit n \<noteq> CHR ''.''" if "n < 16" for n
    using list_all_upt [OF all, of "unat n"] that by (simp add: word_less_nat_alt)
  note nd = this [OF nibble]
  show ?thesis by (cases w rule: show_hex_cases) (simp_all add: nd nd [symmetric])
qed

lemma segments_no_dot: "CHR ''.'' \<notin> set (group_tail ss)" "CHR ''.'' \<notin> set (show_segments ss)"
proof -
  show "CHR ''.'' \<notin> set (group_tail ss)" for ss using hex_no_dot by (auto simp: group_tail_def)
  then show "CHR ''.'' \<notin> set (show_segments ss)" using hex_no_dot by (cases ss) (simp_all add: show_segments_Cons, simp add: show_segments_def)
qed

text \<open>Where the groups end: at the end of the text or at two colons.\<close>

definition group_end :: "string \<Rightarrow> bool" where
  "group_end rest \<longleftrightarrow> CHR ''.'' \<notin> set rest \<and> (rest = [] \<or> (\<exists>s. rest = CHR '':'' # CHR '':'' # s))"

lemma group_end_stop: "group_end rest \<Longrightarrow> read_groups n i rest = ([], False, rest)"
proof (cases n)
  case (Suc k)
  assume e: "group_end rest"
  have none: "read_number 16 65535 4 True (CHR '':'' # s) = None" "read_number 16 65535 4 True [] = None" for s
    by (simp_all add: read_number_def digit_of_def)
  have "read_separator CHR '':'' i read_ipv4_addr rest = None"
    using e no_dot_no_ipv4 by (auto simp: group_end_def read_separator_def read_given_char_def starts_with_def)
  moreover have "read_separator CHR '':'' i (read_number 16 65535 4 True) rest = None"
    using e none by (auto simp: group_end_def read_separator_def read_given_char_def starts_with_def)
  ultimately show ?thesis by (simp add: Suc)
qed simp

lemma read_group_tail:
  assumes "group_end rest" and "length ss \<le> n"
  shows "read_groups n (Suc i) (group_tail ss @ rest) = (ss, False, rest)"
  using assms(2)
proof (induction ss arbitrary: n i)
  case Nil
  then show ?case using group_end_stop [OF assms(1)] by (simp add: group_tail_def)
next
  case (Cons s ss)
  then obtain k where n: "n = Suc k" "length ss \<le> k" by (cases n) auto
  let ?rest = "group_tail ss @ rest"
  have stop: "stops 16 ?rest" using assms(1) by (cases ss) (auto simp: group_tail_def group_end_def)
  have "CHR ''.'' \<notin> set (show_hex s @ ?rest)" using assms(1) hex_no_dot segments_no_dot by (auto simp: group_end_def)
  then have "read_ipv4_addr (show_hex s @ ?rest) = None" by (rule no_dot_no_ipv4)
  with read_segment [OF stop, of s] Cons.IH [OF n(2), of "Suc i"] n show ?case
    by (simp add: group_tail_Cons read_separator_def del: read_groups.simps) (cases k; simp add: read_separator_def)
qed

lemma read_groups_show:
  assumes "group_end rest" and "length ss \<le> n"
  shows "read_groups n 0 (show_segments ss @ rest) = (ss, False, rest)"
proof (cases ss)
  case Nil
  then show ?thesis using group_end_stop [OF assms(1)] by (simp add: show_segments_def)
next
  case (Cons s ss')
  then obtain k where n: "n = Suc k" "length ss' \<le> k" using assms(2) by (cases n) auto
  let ?rest = "group_tail ss' @ rest"
  have stop: "stops 16 ?rest" using assms(1) by (cases ss') (auto simp: group_tail_def group_end_def)
  have "CHR ''.'' \<notin> set (show_hex s @ ?rest)" using assms(1) hex_no_dot segments_no_dot by (auto simp: group_end_def)
  then have "read_ipv4_addr (show_hex s @ ?rest) = None" by (rule no_dot_no_ipv4)
  with read_segment [OF stop, of s] read_group_tail [OF assms(1) n(2), of 0] n show ?thesis
    by (simp add: Cons show_segments_Cons del: read_groups.simps) (cases k; simp add: read_separator_def)
qed


text \<open>An address is its segments.\<close>

lemma put_segment: "put_u16 (256 * ucast hi + ucast lo) = [hi, lo]"
proof -
  have "(256 * ucast hi + ucast lo :: u16) = be_word [hi, lo]" by (simp add: be_word_def)
  then show ?thesis unfolding put_u16_def by (simp only: be_word_be_val) (simp add: put_be_be_val)
qed

lemma concat_segments: "even (length bs) \<Longrightarrow> concat (map put_u16 (segments bs)) = bs"
  by (induction bs rule: segments.induct) (simp_all add: put_segment)

lemma length_segments: "length (segments bs) = length bs div 2"
  by (induction bs rule: segments.induct) simp_all

lemma segments_drop: "segments (drop (2 * n) bs) = drop n (segments bs)"
proof (induction n arbitrary: bs)
  case (Suc n)
  then show ?case by (cases bs rule: segments.cases) simp_all
qed simp

lemma join_segments_show: "join_segments (segments (put_u128 w)) = w"
  by (simp add: join_segments_def concat_segments be_word_u128)

text \<open>The three forms of a version 6 address: eight segments, a run left out, and a mapped version 4 address.\<close>

lemma read_full:
  assumes "length ss = 8"
  shows "read_ipv6_addr (show_segments ss) = Some (join_segments ss, [])"
  using read_groups_show [of "[]" ss 8] assms by (simp add: read_ipv6_addr_def group_end_def)

lemma read_elided:
  assumes "length hs + l + length ts = 8" and "1 < l"
  shows "read_ipv6_addr (show_segments hs @ ''::'' @ show_segments ts) = Some (join_segments (hs @ replicate l 0 @ ts), [])"
proof -
  have "group_end (''::'' @ show_segments ts)" using segments_no_dot(2) by (simp add: group_end_def)
  from read_groups_show [OF this, of hs 8] assms
  have "read_groups 8 0 (show_segments hs @ ''::'' @ show_segments ts) = (hs, False, ''::'' @ show_segments ts)" by simp
  moreover have "read_groups (8 - (length hs + 1)) 0 (show_segments ts @ []) = (ts, False, [])"
    using assms by (intro read_groups_show) (auto simp: group_end_def)
  moreover have "8 - length hs - length ts = l" "length hs \<noteq> 8" using assms by auto
  ultimately show ?thesis by (simp add: read_ipv6_addr_def del: append_assoc)
qed

lemma colon_no_group: "read_ipv4_addr (CHR '':'' # s) = None" "read_number 16 65535 4 True (CHR '':'' # s) = None"
  by (simp_all add: read_ipv4_addr_def read_separator_def eval_nat_numeral read_number_def digit_of_def)

lemma read_mapped:
  assumes "length bs = 4"
  shows "read_ipv6_addr (''::ffff:'' @ show_ipv4_octets bs) = Some (join_segments ([0, 0, 0, 0, 0, 0xffff] @ segments bs), [])"
proof -
  let ?v4 = "show_ipv4_octets bs"
  have head: "read_groups 8 0 (''::ffff:'' @ ?v4) = ([], False, ''::ffff:'' @ ?v4)"
    using read_groups.simps(2) [of 7 0] colon_no_group by (simp add: read_separator_def)
  have "read_ipv4_addr (?v4 @ []) = Some (be_word bs, [])" using assms by (intro read_ipv4_show) simp_all
  moreover have "put_u32 (be_word bs) = bs" using assms by (simp add: be_word_be_val put_u32_def put_be_be_val)
  ultimately have v4: "read_groups (Suc 5) (Suc 0) (CHR '':'' # ?v4) = (segments bs, True, [])"
    by (simp only: read_groups.simps(2)) (simp add: read_separator_def)
  have "read_ipv4_addr (''ffff:'' @ ?v4) = None"
    by (simp add: read_ipv4_addr_def read_separator_def eval_nat_numeral read_number_def digit_of_def)
  moreover have "read_number 16 65535 4 True (''ffff:'' @ ?v4) = Some (65535, CHR '':'' # ?v4)"
    by (simp add: read_number_def digit_of_def)
  ultimately have tail: "read_groups (Suc (Suc 5)) 0 (''ffff:'' @ ?v4) = (0xffff # segments bs, True, [])"
    using v4 by (subst read_groups.simps(2)) (simp add: read_separator_def del: read_groups.simps)
  have "length (segments bs) = 2" using assms by (simp add: length_segments)
  then show ?thesis using head tail by (simp add: read_ipv6_addr_def numeral_nat del: read_groups.simps)
qed

text \<open>Whatever form is chosen, the text is read as the address.\<close>

lemma read_show_ipv6: "read_ipv6_addr (show_ipv6 w) = Some (w, []) \<and> read_ipv4_addr (show_ipv6 w) = None"
proof -
  let ?bs = "put_u128 w" let ?ss = "segments ?bs"
  have len: "length ?bs = 16" "length ?ss = 8" by (simp_all add: length_segments put_u128_def)
  obtain a l where run: "longest_zeroes 0 (0, 0) (0, 0) ?ss = (a, l)" by force
  then have "zero_run ?ss (a, l)" using longest_zeroes_run [of "[]" ?ss "(0, 0)" "(0, 0)"] by (simp add: zero_run_def)
  note split = zero_run_split [OF this] and bound = this [unfolded zero_run_def]
  consider "take 6 ?ss = [0, 0, 0, 0, 0, 0xffff]" | "take 6 ?ss \<noteq> [0, 0, 0, 0, 0, 0xffff]" "1 < l"
    | "take 6 ?ss \<noteq> [0, 0, 0, 0, 0, 0xffff]" "\<not> 1 < l" by blast
  then show ?thesis
  proof cases
    case 1
    then have "[0, 0, 0, 0, 0, 0xffff] @ segments (drop 12 ?bs) = ?ss"
      using append_take_drop_id [of 6 ?ss] segments_drop [of 6 ?bs] by simp
    with 1 len show ?thesis using read_mapped [of "drop 12 ?bs"] colon_no_group(1)
      by (simp add: show_ipv6_def show_ipv6_octets_def join_segments_show)
  next
    case 2
    then have shown: "show_ipv6 w = show_segments (take a ?ss) @ ''::'' @ show_segments (drop (a + l) ?ss)"
      using run by (simp add: show_ipv6_def show_ipv6_octets_def Let_def)
    have "CHR ''.'' \<notin> set (show_ipv6 w)" unfolding shown using segments_no_dot(2) by simp
    moreover have "read_ipv6_addr (show_ipv6 w) = Some (join_segments (take a ?ss @ replicate l 0 @ drop (a + l) ?ss), [])"
      unfolding shown using 2 len bound by (intro read_elided) simp_all
    ultimately show ?thesis by (simp only: split join_segments_show no_dot_no_ipv4 simp_thms)
  next
    case 3
    then have "show_ipv6 w = show_segments ?ss" using run by (simp add: show_ipv6_def show_ipv6_octets_def)
    with read_full [OF len(2)] show ?thesis by (simp add: join_segments_show no_dot_no_ipv4 segments_no_dot)
  qed
qed

theorem parse_show_ip: "parse_ip (show_ip a) = Some a"
  by (cases a) (simp_all add: parse_show_ipv4, simp add: parse_ip_def read_ip_addr_def read_show_ipv6)

end
