(* ===== verification/Socks_Wire.thy ===== *)
theory Socks_Wire
  imports Rust_Net
begin

text \<open>
  \<open>src/src/client/handle_remote/socks/v4.rs\<close> and \<open>v5.rs\<close>: reading and writing the messages of the SOCKS protocols,
  and the UDP relay header of \<open>socks/mod.rs\<close>. A client connection is a record: the octets the client sends
  before its side ends (by closing or with an error), how many octets it still takes before writes fail, and the
  octets written to it so far. An operation is a function of the connection that returns an outcome; \<open>sbind\<close>
  is the sequencing with the \<open>?\<close> operator.
\<close>

section \<open>Errors and connections\<close>

datatype fatal_error = ClientIo io_error | RequestStream | SendDatagram | MainLoopExitWithoutSendingStream

datatype socks_error =
    SocksWrite io_error
  | SocksVersion u8
  | InvalidCommand u8
  | AddressType u8
  | ProcessSocksRequest string io_error
  | ParseAssociate
  | OtherAuth
  | Fatal fatal_error

text \<open>What a handler asks of the rest of the program, in order.\<close>

datatype socks_event = RequestChannel bytes u16 | StartCopy bytes | SpawnRelay socket_addr | AbortRelay

record sconn =
  s_in :: bytes
  s_end :: "io_error option"
  s_room :: nat
  s_werr :: io_error
  s_flush_err :: "io_error option"
  s_out :: bytes
  s_log :: "socks_event list"

type_synonym 'a sop = "sconn \<Rightarrow> sconn \<times> (socks_error, 'a) outcome"

definition sbind :: "'a sop \<Rightarrow> ('a \<Rightarrow> 'b sop) \<Rightarrow> 'b sop" where
  "sbind m f c = (case m c of (c', Ok x) \<Rightarrow> f x c' | (c', Err e) \<Rightarrow> (c', Err e) | (c', Panic) \<Rightarrow> (c', Panic))"

definition sret :: "'a \<Rightarrow> 'a sop" where
  "sret x c = (c, Ok x)"

definition sfail :: "socks_error \<Rightarrow> 'a sop" where
  "sfail e c = (c, Err e)"

definition slog :: "socks_event \<Rightarrow> unit sop" where
  "slog ev c = (c\<lparr>s_log := s_log c @ [ev]\<rparr>, Ok ())"

text \<open>\<open>map_err(|e| Error::ProcessSocksRequest(what, e))\<close> around an operation on the connection.\<close>

definition ctx :: "string \<Rightarrow> (sconn \<Rightarrow> sconn \<times> (io_error, 'a) outcome) \<Rightarrow> 'a sop" where
  "ctx what m c = (let (c', r) = m c in (c', map_err (ProcessSocksRequest what) r))"

section \<open>Reading and writing a connection\<close>

text \<open>\<open>read_exact\<close> takes what there is and fails when the input ends before the buffer is full.\<close>

definition read_exact :: "nat \<Rightarrow> sconn \<Rightarrow> sconn \<times> (io_error, bytes) outcome" where
  "read_exact n c =
     (if n \<le> length (s_in c) then (c\<lparr>s_in := drop n (s_in c)\<rparr>, Ok (take n (s_in c)))
      else (c\<lparr>s_in := []\<rparr>, Err (case s_end c of None \<Rightarrow> UnexpectedEof | Some e \<Rightarrow> e)))"

definition read_be :: "nat \<Rightarrow> sconn \<Rightarrow> sconn \<times> (io_error, 'a::len word) outcome" where
  "read_be n c = (let (c', r) = read_exact n c in (c', obind r (\<lambda>bs. Ok (be_val bs))))"

definition read_u8 :: "sconn \<Rightarrow> sconn \<times> (io_error, u8) outcome" where "read_u8 = read_be 1"
definition read_u16 :: "sconn \<Rightarrow> sconn \<times> (io_error, u16) outcome" where "read_u16 = read_be 2"
definition read_u32 :: "sconn \<Rightarrow> sconn \<times> (io_error, u32) outcome" where "read_u32 = read_be 4"

text \<open>
  \<open>read_until(0, ..)\<close>: the octets up to and including the delimiter, or all of them when the client closes
  before sending it.
\<close>

definition read_until :: "u8 \<Rightarrow> sconn \<Rightarrow> sconn \<times> (io_error, bytes) outcome" where
  "read_until d c =
     (if d \<in> set (s_in c) then
        let pre = takeWhile (\<lambda>b. b \<noteq> d) (s_in c) @ [d]
        in (c\<lparr>s_in := drop (length pre) (s_in c)\<rparr>, Ok pre)
      else (c\<lparr>s_in := []\<rparr>, case s_end c of None \<Rightarrow> Ok (s_in c) | Some e \<Rightarrow> Err e))"

definition write_all :: "bytes \<Rightarrow> sconn \<Rightarrow> sconn \<times> (io_error, unit) outcome" where
  "write_all bs c =
     (if length bs \<le> s_room c then (c\<lparr>s_room := s_room c - length bs, s_out := s_out c @ bs\<rparr>, Ok ())
      else (c\<lparr>s_room := 0, s_out := s_out c @ take (s_room c) bs\<rparr>, Err (s_werr c)))"

definition flush_conn :: "sconn \<Rightarrow> sconn \<times> (io_error, unit) outcome" where
  "flush_conn c = (c, case s_flush_err c of None \<Rightarrow> Ok () | Some e \<Rightarrow> Err e)"

text \<open>\<open>Vec::pop\<close>.\<close>

definition pop :: "bytes \<Rightarrow> bytes" where
  "pop bs = butlast bs"

text \<open>A reply: written in one piece and flushed.\<close>

definition write_flush :: "string \<Rightarrow> bytes \<Rightarrow> unit sop" where
  "write_flush what bs = sbind (ctx what (write_all bs)) (\<lambda>_. ctx ''flush'' flush_conn)"

section \<open>SOCKS 4 and 4a\<close>

definition v4_read_request :: "(u8 \<times> bytes \<times> u16) sop" where
  "v4_read_request =
     sbind (ctx ''read command'' read_u8) (\<lambda>command.
     sbind (ctx ''read port'' read_u16) (\<lambda>rport.
     sbind (ctx ''read ip'' read_u32) (\<lambda>ip.
     sbind (ctx ''read user id'' (read_until 0)) (\<lambda>user_id.
     sbind (if drop_bit 24 ip = 0
            then sbind (ctx ''read domain'' (read_until 0)) (\<lambda>domain. sret (pop domain))
            else sret (str_bytes (show_ipv4 ip))) (\<lambda>rhost.
     sret (command, rhost, rport))))))"

definition v4_write_response :: "u8 \<Rightarrow> unit sop" where
  "v4_write_response response = write_flush ''write response'' [0x00, response, 0x00, 0x00, 0x00, 0x00, 0x00, 0x00]"

section \<open>SOCKS 5\<close>

definition read_auth_methods :: "bytes sop" where
  "read_auth_methods =
     sbind (ctx ''read number of methods'' read_u8) (\<lambda>num_methods.
     ctx ''read methods'' (read_exact (unat num_methods)))"

definition write_auth_method :: "u8 \<Rightarrow> unit sop" where
  "write_auth_method meth = write_flush ''write auth method'' [0x05, meth]"

definition read_address :: "bytes sop" where
  "read_address =
     sbind (ctx ''read address type'' read_u8) (\<lambda>address_type.
     if address_type = 0x01 then
       sbind (ctx ''read address'' (read_exact 4)) (\<lambda>addr. sret (str_bytes (show_ipv4_octets addr)))
     else if address_type = 0x03 then
       sbind (ctx ''read domain length'' read_u8) (\<lambda>len.
       sbind (ctx ''read domain address'' (read_exact (unat len))) (\<lambda>addr. sret addr))
     else if address_type = 0x04 then
       sbind (ctx ''read address'' (read_exact 16)) (\<lambda>addr. sret (str_bytes (show_ipv6_octets addr)))
     else
       sbind (write_flush ''write unsupported address type''
                [0x05, 0x08, 0x00, 0x01, 0x00, 0x00, 0x00, 0x00, 0x00, 0x00]) (\<lambda>_.
       sfail (AddressType address_type)))"

definition v5_read_request :: "(u8 \<times> bytes \<times> u16) sop" where
  "v5_read_request =
     sbind (ctx ''read version'' read_u8) (\<lambda>version.
     if version \<noteq> 0x05 then sfail (SocksVersion version)
     else
     sbind (ctx ''read command'' read_u8) (\<lambda>command.
     sbind (ctx ''read reserved'' read_u8) (\<lambda>reserved.
     sbind read_address (\<lambda>address.
     sbind (ctx ''read port'' read_u16) (\<lambda>port.
     sret (command, address, port))))))"

text \<open>
  The reply is built in a buffer of fixed size; \<open>copy_from_slice\<close> into a range of it replaces that range.
\<close>

definition copy_from_slice :: "nat \<Rightarrow> bytes \<Rightarrow> bytes \<Rightarrow> bytes" where
  "copy_from_slice i src buf = take i buf @ src @ drop (i + length src) buf"

definition v5_response_bytes :: "u8 \<Rightarrow> socket_addr \<Rightarrow> bytes" where
  "v5_response_bytes response loc =
     (let buf = (case sa_ip loc of
              IpV4 ip \<Rightarrow> copy_from_slice 4 (put_u32 ip) ((replicate (4 + 4 + 2) 0)[3 := 0x01])
            | IpV6 ip \<Rightarrow> copy_from_slice 4 (put_u128 ip) ((replicate (4 + 16 + 2) 0)[3 := 0x04]));
          buf = buf[0 := 0x05, 1 := response, 2 := 0x00]
      in copy_from_slice (length buf - 2) (put_u16 (sa_port loc)) buf)"

definition v5_write_response :: "u8 \<Rightarrow> socket_addr \<Rightarrow> unit sop" where
  "v5_write_response response loc = write_flush ''write response'' (v5_response_bytes response loc)"

definition write_response_unspecified :: "u8 \<Rightarrow> unit sop" where
  "write_response_unspecified response =
     write_flush ''write response'' [0x05, response, 0x00, 0x01, 0x00, 0x00, 0x00, 0x00, 0x00, 0x00]"

section \<open>The header of relayed datagrams\<close>

text \<open>
  \<open>handle_udp_relay_header\<close> after a datagram \<open>buf\<close> came from \<open>addr\<close>: the target, its port, the data and the sender,
  or nothing for a datagram that is dropped.
\<close>

definition relay_target :: "u8 \<Rightarrow> bytes \<Rightarrow> (socks_error, (bytes \<times> u16 \<times> bytes) option) outcome" where
  "relay_target atyp buf =
     (if atyp = 0x01 then
        if length buf < 6 then Err ParseAssociate
        else obind (buf_get get_u32 buf) (\<lambda>(addr, buf). obind (buf_get get_u16 buf) (\<lambda>(port, buf).
             Ok (Some (str_bytes (show_ipv4 addr), port, buf))))
      else if atyp = 0x03 then
        if length buf < 1 then Err ParseAssociate
        else obind (buf_get get_u8 buf) (\<lambda>(n, buf).
             if length buf < unat n + 2 then Err ParseAssociate
             else obind (split_to (unat n) buf) (\<lambda>(dst, buf). obind (buf_get get_u16 buf) (\<lambda>(port, buf).
                  Ok (Some (dst, port, buf)))))
      else if atyp = 0x04 then
        if length buf < 18 then Err ParseAssociate
        else obind (buf_get get_u128 buf) (\<lambda>(addr, buf). obind (buf_get get_u16 buf) (\<lambda>(port, buf).
             Ok (Some (str_bytes (show_ipv6 addr), port, buf))))
      else Ok None)"

definition handle_udp_relay_header ::
  "bytes \<Rightarrow> socket_addr \<Rightarrow> (socks_error, (bytes \<times> u16 \<times> bytes \<times> ip_addr \<times> u16) option) outcome" where
  "handle_udp_relay_header buf addr =
     (if length buf < 4 then Err ParseAssociate
      else
      obind (buf_get get_u16 buf) (\<lambda>(reserved, buf).
      obind (buf_get get_u8 buf) (\<lambda>(frag, buf).
      if frag \<noteq> 0 then Ok None
      else
      obind (buf_get get_u8 buf) (\<lambda>(atyp, buf).
      obind (relay_target atyp buf) (\<lambda>t.
      Ok (map_option (\<lambda>(dst, port, data). (dst, port, data, sa_ip addr, sa_port addr)) t))))))"

text \<open>\<open>send_udp_relay_response\<close>: the datagram it sends to \<open>target\<close>.\<close>

definition udp_relay_response :: "socket_addr \<Rightarrow> bytes \<Rightarrow> bytes" where
  "udp_relay_response target data =
     replicate 3 0
     @ (case sa_ip target of IpV4 ip \<Rightarrow> put_u32 ip @ [0x01] | IpV6 ip \<Rightarrow> put_u128 ip @ [0x04])
     @ put_u16 (sa_port target) @ data"

end
