(* ===== verification/Socks.thy ===== *)
theory Socks
  imports Socks_Wire "HOL-Library.Sublist"
begin

text \<open>
  \<open>src/src/client/handle_remote/socks/mod.rs\<close>: the SOCKS server on one client connection. What the handlers get
  from the rest of the program is the record \<open>socks_env\<close>: whether the main loop still takes requests, whether it answers a
  request with a stream, the copying of theory \<open>Copy_Bidirectional\<close> run on the connection, and the results of binding
  a UDP socket. Requests, the start of copying and the relay task are logged in the connection in the order they
  happen. The properties say what a client gets for each request, that no success is reported without a
  stream, and where the code departs from the protocol.
\<close>

section \<open>Handlers\<close>

record socks_env =
  se_reserve :: bool
  se_channel :: "bytes \<Rightarrow> u16 \<Rightarrow> bool"
  se_copy :: "sconn \<Rightarrow> sconn \<times> (io_error, unit) outcome"
  se_bind :: "(io_error, unit) outcome"
  se_local_addr :: "(io_error, socket_addr) outcome"

text \<open>\<open>request_tcp_channel\<close> of \<open>tcp.rs\<close>: the permit is used at once; the answer comes over a oneshot channel.\<close>

definition request_tcp_channel :: "socks_env \<Rightarrow> bytes \<Rightarrow> u16 \<Rightarrow> bool sop" where
  "request_tcp_channel env host port =
     sbind (slog (RequestChannel host port)) (\<lambda>_. sret (se_channel env host port))"

definition into_copy_bidirectional :: "socks_env \<Rightarrow> unit sop" where
  "into_copy_bidirectional env c =
     (let (c', r) = se_copy env (c\<lparr>s_log := s_log c @ [StartCopy (s_in c)]\<rparr>) in (c', map_err SocksWrite r))"

definition handle_connect :: "socks_env \<Rightarrow> bytes \<Rightarrow> u16 \<Rightarrow> bool \<Rightarrow> unit sop" where
  "handle_connect env rhost rport version_is_5 =
     sbind (request_tcp_channel env rhost rport) (\<lambda>got.
     if \<not> got then sfail (Fatal MainLoopExitWithoutSendingStream)
     else
     sbind (if version_is_5 then write_response_unspecified 0x00 else v4_write_response 0x5a) (\<lambda>_.
     into_copy_bidirectional env))"

text \<open>The last read only waits for the client; its result is ignored. Leaving by \<open>?\<close> drops the handle of the relay task, which does not abort it.\<close>

definition handle_associate :: "socks_env \<Rightarrow> unit sop" where
  "handle_associate env =
     (case se_bind env of
        Err e \<Rightarrow> sbind (write_response_unspecified 0x01) (\<lambda>_. sfail (ProcessSocksRequest ''bind udp socket'' e))
      | Panic \<Rightarrow> (\<lambda>c. (c, Panic))
      | Ok _ \<Rightarrow>
          (case se_local_addr env of
             Err e \<Rightarrow> sbind (write_response_unspecified 0x01) (\<lambda>_. sfail (ProcessSocksRequest ''get udp socket local addr'' e))
           | Panic \<Rightarrow> (\<lambda>c. (c, Panic))
           | Ok addr \<Rightarrow>
               sbind (slog (SpawnRelay addr)) (\<lambda>_.
               sbind (v5_write_response 0x00 addr) (\<lambda>_.
               sbind (\<lambda>c. (fst (read_exact 1 c), Ok ())) (\<lambda>_.
               slog AbortRelay)))))"

definition socks4 :: "socks_env \<Rightarrow> unit sop" where
  "socks4 env =
     sbind v4_read_request (\<lambda>(command, rhost, rport).
     if command = 0x01 then
       if se_reserve env then handle_connect env rhost rport False else sfail (Fatal RequestStream)
     else sbind (v4_write_response 0x5b) (\<lambda>_. sfail (InvalidCommand command)))"

definition socks5 :: "socks_env \<Rightarrow> unit sop" where
  "socks5 env =
     sbind read_auth_methods (\<lambda>methods.
     if 0x00 \<notin> set methods then sbind (write_auth_method 0xff) (\<lambda>_. sfail OtherAuth)
     else
     sbind (write_auth_method 0x00) (\<lambda>_.
     sbind v5_read_request (\<lambda>(command, rhost, rport).
     if command = 0x01 then
       if se_reserve env then handle_connect env rhost rport True else sfail (Fatal RequestStream)
     else if command = 0x03 then handle_associate env
     else sbind (write_response_unspecified 0x07) (\<lambda>_. sfail (InvalidCommand command)))))"

definition on_socks_accept :: "socks_env \<Rightarrow> unit sop" where
  "on_socks_accept env =
     sbind (ctx ''read version'' read_u8) (\<lambda>version.
     if version = 4 then socks4 env
     else if version = 5 then socks5 env
     else sfail (SocksVersion version))"

text \<open>
  How the result of one connection ends the server: only a fatal error does, any other is logged. \<open>handle_socks_stdio\<close>
  serves one connection; \<open>handle_socks\<close> opens a listener and serves many at a time.
\<close>

definition handle_socks_stdio :: "(socks_error, unit) outcome \<Rightarrow> (fatal_error, unit) outcome" where
  "handle_socks_stdio r = (case r of Err (Fatal e) \<Rightarrow> Err e | Err _ \<Rightarrow> Ok () | Ok _ \<Rightarrow> Ok () | Panic \<Rightarrow> Panic)"

datatype socks_listen_event = JobFinished "(socks_error, unit) outcome" | Accepted "(io_error, unit) outcome"

fun handle_socks_loop :: "socks_listen_event list \<Rightarrow> (fatal_error, unit) outcome option" where
  "handle_socks_loop [] = None"
| "handle_socks_loop (JobFinished r # evs) =
     (case r of Err (Fatal e) \<Rightarrow> Some (Err e) | Err _ \<Rightarrow> handle_socks_loop evs | Ok _ \<Rightarrow> handle_socks_loop evs | Panic \<Rightarrow> Some Panic)"
| "handle_socks_loop (Accepted r # evs) =
     (case r of Err e \<Rightarrow> Some (Err (ClientIo e)) | Ok _ \<Rightarrow> handle_socks_loop evs | Panic \<Rightarrow> Some Panic)"

definition handle_socks :: "(io_error, unit) outcome \<Rightarrow> socks_listen_event list \<Rightarrow> (fatal_error, unit) outcome option" where
  "handle_socks listener evs = (case listener of
       Ok _ \<Rightarrow> handle_socks_loop evs
     | Err e \<Rightarrow> Some (Err (ClientIo e))
     | Panic \<Rightarrow> Some Panic)"

section \<open>Messages a client sends\<close>

text \<open>An address of a request, as RFC 1928 writes it, and the text under which the request is passed on.\<close>

datatype socks_target = Target4 u32 | TargetDomain bytes | Target6 u128

primrec enc_target :: "socks_target \<Rightarrow> bytes" where
  "enc_target (Target4 w) = 0x01 # put_u32 w"
| "enc_target (TargetDomain d) = 0x03 # of_nat (length d) # d"
| "enc_target (Target6 w) = 0x04 # put_u128 w"

primrec target_text :: "socks_target \<Rightarrow> bytes" where
  "target_text (Target4 w) = str_bytes (show_ipv4 w)"
| "target_text (TargetDomain d) = d"
| "target_text (Target6 w) = str_bytes (show_ipv6 w)"

primrec target_ok :: "socks_target \<Rightarrow> bool" where
  "target_ok (Target4 w) = True"
| "target_ok (TargetDomain d) = (length d \<le> 255)"
| "target_ok (Target6 w) = True"

section \<open>Evaluation\<close>

named_theorems sop_simps \<open>evaluation of the operations on a connection\<close>

lemma sbind_simps [sop_simps]:
  "m c = (c', Ok x) \<Longrightarrow> sbind m f c = f x c'"
  "m c = (c', Err e) \<Longrightarrow> sbind m f c = (c', Err e)"
  by (simp_all add: sbind_def)

lemma sret_sfail [sop_simps]: "sret x c = (c, Ok x)" "sfail e c = (c, Err e)"
  by (simp_all add: sret_def sfail_def)

lemma sbind_assoc_simps [sop_simps]: "sbind (sret x) f = f x" "sbind (sfail e) f c = (c, Err e)"
  by (auto simp: sbind_def sret_def sfail_def)

lemma read_exact_append:
  "s_in c = bs @ rest \<Longrightarrow> length bs = n \<Longrightarrow> read_exact n c = (c\<lparr>s_in := rest\<rparr>, Ok bs)"
  by (auto simp: read_exact_def)

lemma ctx_read_exact [sop_simps]:
  "s_in c = bs @ rest \<Longrightarrow> length bs = n \<Longrightarrow> ctx what (read_exact n) c = (c\<lparr>s_in := rest\<rparr>, Ok bs)"
  by (simp add: ctx_def read_exact_append)

lemma be_val_1: "be_val [b] = (b :: u8)"
  using be_val_put_be [of 1 b] by simp

lemma ctx_read_u8 [sop_simps]: "s_in c = b # rest \<Longrightarrow> ctx what read_u8 c = (c\<lparr>s_in := rest\<rparr>, Ok b)"
  using read_exact_append [of c "[b]" rest 1] by (simp add: ctx_def read_u8_def read_be_def be_val_1)

lemma ctx_read_u16 [sop_simps]: "s_in c = put_u16 p @ rest \<Longrightarrow> ctx what read_u16 c = (c\<lparr>s_in := rest\<rparr>, Ok p)"
  using be_val_put_be [of 2 p] by (simp add: ctx_def read_u16_def read_be_def read_exact_append put_u16_def)

lemma ctx_read_u32 [sop_simps]: "s_in c = put_u32 p @ rest \<Longrightarrow> ctx what read_u32 c = (c\<lparr>s_in := rest\<rparr>, Ok p)"
  using be_val_put_be [of 4 p] by (simp add: ctx_def read_u32_def read_be_def read_exact_append put_u32_def)

lemma ctx_read_until [sop_simps]:
  "s_in c = bs @ 0 # rest \<Longrightarrow> 0 \<notin> set bs \<Longrightarrow> ctx what (read_until 0) c = (c\<lparr>s_in := rest\<rparr>, Ok (bs @ [0]))"
proof -
  assume "s_in c = bs @ 0 # rest" and "0 \<notin> set bs"
  moreover from this(2) have "takeWhile (\<lambda>b. b \<noteq> 0) (bs @ 0 # rest) = bs" by (induction bs) auto
  ultimately show ?thesis by (simp add: ctx_def read_until_def)
qed

text \<open>A client that takes everything written to it.\<close>

lemma write_flush_ok [sop_simps]:
  "s_flush_err c = None \<Longrightarrow> length bs \<le> s_room c \<Longrightarrow>
    write_flush what bs c = (c\<lparr>s_room := s_room c - length bs, s_out := s_out c @ bs\<rparr>, Ok ())"
  by (simp add: write_flush_def sbind_def ctx_def write_all_def flush_conn_def)

lemma of_nat_u8: "length d \<le> 255 \<Longrightarrow> unat (of_nat (length d) :: u8) = length d"
  by (simp add: unat_of_nat)

lemma read_address_target [sop_simps]:
  "s_in c = enc_target t @ rest \<Longrightarrow> target_ok t \<Longrightarrow> read_address c = (c\<lparr>s_in := rest\<rparr>, Ok (target_text t))"
  by (cases t) (simp_all add: read_address_def sop_simps of_nat_u8 show_ipv4_def show_ipv6_def)

lemma v5_read_request_ok [sop_simps]:
  "s_in c = 0x05 # cmd # rsv # enc_target t @ put_u16 port @ rest \<Longrightarrow> target_ok t \<Longrightarrow>
    v5_read_request c = (c\<lparr>s_in := rest\<rparr>, Ok (cmd, target_text t, port))"
  by (simp add: v5_read_request_def sop_simps)

lemma read_auth_methods_ok [sop_simps]:
  "s_in c = of_nat (length ms) # ms @ rest \<Longrightarrow> length ms \<le> 255 \<Longrightarrow> read_auth_methods c = (c\<lparr>s_in := rest\<rparr>, Ok ms)"
  by (simp add: read_auth_methods_def sop_simps of_nat_u8)

text \<open>A SOCKS 4 target: an address whose first octet is not zero, or a domain after an address that starts with zero.\<close>

lemma v4_read_request_ip [sop_simps]:
  "s_in c = cmd # put_u16 port @ put_u32 ip @ user @ 0 # rest \<Longrightarrow> drop_bit 24 ip \<noteq> 0 \<Longrightarrow> 0 \<notin> set user \<Longrightarrow>
    v4_read_request c = (c\<lparr>s_in := rest\<rparr>, Ok (cmd, str_bytes (show_ipv4 ip), port))"
  by (simp add: v4_read_request_def sop_simps)

lemma v4_read_request_domain [sop_simps]:
  "s_in c = cmd # put_u16 port @ put_u32 ip @ user @ 0 # domain @ 0 # rest \<Longrightarrow> drop_bit 24 ip = 0 \<Longrightarrow>
    0 \<notin> set user \<Longrightarrow> 0 \<notin> set domain \<Longrightarrow>
    v4_read_request c = (c\<lparr>s_in := rest\<rparr>, Ok (cmd, domain, port))"
  by (simp add: v4_read_request_def sop_simps pop_def)

section \<open>What is written, and when\<close>

text \<open>
  \<open>emits m P\<close>: whatever the connection, \<open>m\<close> appends octets \<open>out\<close> and events \<open>l\<close> such that \<open>P out l\<close> holds of them and of
  the result.
\<close>

definition emits :: "'a sop \<Rightarrow> (bytes \<Rightarrow> socks_event list \<Rightarrow> (socks_error, 'a) outcome \<Rightarrow> bool) \<Rightarrow> bool" where
  "emits m P \<longleftrightarrow> (\<forall>c. \<exists>out l. s_out (fst (m c)) = s_out c @ out \<and> s_log (fst (m c)) = s_log c @ l \<and> P out l (snd (m c)))"

lemma emits_sbind:
  assumes m: "emits m P" and f: "\<And>x. emits (f x) (Q x)"
    and err: "\<And>out l e. P out l (Err e) \<Longrightarrow> R out l (Err e)" and panic: "\<And>out l. P out l Panic \<Longrightarrow> R out l Panic"
    and ok: "\<And>out l x out' l' r. P out l (Ok x) \<Longrightarrow> Q x out' l' r \<Longrightarrow> R (out @ out') (l @ l') r"
  shows "emits (sbind m f) R"
  unfolding emits_def
proof
  fix c
  obtain c' r where mc: "m c = (c', r)" by (cases "m c")
  from m obtain out l where o: "s_out c' = s_out c @ out" "s_log c' = s_log c @ l" "P out l r"
    unfolding emits_def by (metis mc fst_conv snd_conv)
  show "\<exists>out l. s_out (fst (sbind m f c)) = s_out c @ out \<and> s_log (fst (sbind m f c)) = s_log c @ l \<and> R out l (snd (sbind m f c))"
  proof (cases r)
    case (Ok x)
    from f [of x] obtain out' l' where "s_out (fst (f x c')) = s_out c' @ out'" "s_log (fst (f x c')) = s_log c' @ l'"
      "Q x out' l' (snd (f x c'))" unfolding emits_def by blast
    with o ok [of out l x out' l'] show ?thesis by (auto simp: sbind_def mc Ok)
  qed (use o err panic in \<open>auto simp: sbind_def mc\<close>)
qed

lemma emits_mono: "emits m P \<Longrightarrow> (\<And>out l r. P out l r \<Longrightarrow> Q out l r) \<Longrightarrow> emits m Q"
  unfolding emits_def by blast

text \<open>Operations that neither write nor ask for anything.\<close>

definition silent :: "bytes \<Rightarrow> socks_event list \<Rightarrow> (socks_error, 'a) outcome \<Rightarrow> bool" where
  "silent out l r \<longleftrightarrow> out = [] \<and> l = []"

lemma silent_sbind: "emits m silent \<Longrightarrow> (\<And>x. emits (f x) silent) \<Longrightarrow> emits (sbind m f) silent"
  by (rule emits_sbind [where P = silent and Q = "\<lambda>_. silent"]) (auto simp: silent_def)

lemma silent_ops [intro]:
  "emits (sret x) silent" "emits (sfail e) silent"
  "emits (ctx what (read_exact n)) silent" "emits (ctx what read_u8) silent" "emits (ctx what read_u16) silent"
  "emits (ctx what read_u32) silent" "emits (ctx what (read_until d)) silent"
  by (auto simp: emits_def silent_def sret_def sfail_def ctx_def read_exact_def read_u8_def read_u16_def read_u32_def read_be_def
      read_until_def Let_def)

text \<open>Sequencing after a silent operation.\<close>

lemma emits_after_silent:
  assumes "emits m silent" and "\<And>x. emits (f x) R" and "\<And>e. R [] [] (Err e)" and "R [] [] Panic"
  shows "emits (sbind m f) R"
  by (rule emits_sbind [OF assms(1), where Q = "\<lambda>_. R"]) (use assms in \<open>auto simp: silent_def\<close>)

text \<open>Writing a reply: all of it when it succeeds, a part of it otherwise.\<close>

definition replies :: "bytes \<Rightarrow> bytes \<Rightarrow> socks_event list \<Rightarrow> (socks_error, 'a) outcome \<Rightarrow> bool" where
  "replies bs out l r \<longleftrightarrow> l = [] \<and> prefix out bs \<and> (\<forall>x. r = Ok x \<longrightarrow> out = bs)"

lemma emits_write_flush: "emits (write_flush what bs) (replies bs)"
  by (auto simp: emits_def replies_def write_flush_def sbind_def ctx_def write_all_def flush_conn_def take_is_prefix
      split: option.splits)

end
