(* ===== verification/Client_Udp.thy ===== *)
theory Client_Udp
  imports Mux_State Rust_Net Timing Socks_Wire
begin

text \<open>
  The UDP clients of \<open>src/src/client/mod.rs\<close>: the two maps that give every local UDP peer a client identifier, how
  they are extended, pruned and used to route replies, and the UDP forwarders of
  \<open>src/src/client/handle_remote/udp.rs\<close>. The maps are association lists; instants are nanoseconds; the random
  generator's draws are an argument, and \<open>None\<close> means that the loop over them still runs.
\<close>

section \<open>Data\<close>

definition UDP_PRUNE_TIMEOUT :: duration where
  "UDP_PRUNE_TIMEOUT = Duration (10 * 1000000000)"

text \<open>A bound socket: its identity, and what \<open>local_addr\<close> answers (\<open>None\<close> for an error).\<close>

record udp_socket =
  us_id :: nat
  us_local_addr :: "socket_addr option"

record client_entry =
  peer_addr :: socket_addr
  our_addr :: socket_addr
  ce_socket :: udp_socket
  ce_socks5 :: bool
  expires :: nat

record client_id_maps =
  client_id_map :: "(u32 \<times> client_entry) list"
  client_addr_map :: "((socket_addr \<times> socket_addr) \<times> u32) list"

definition client_id_maps_new :: client_id_maps where
  "client_id_maps_new = \<lparr>client_id_map = [], client_addr_map = []\<rparr>"

definition client_entry_new :: "nat \<Rightarrow> socket_addr \<Rightarrow> socket_addr \<Rightarrow> udp_socket \<Rightarrow> bool \<Rightarrow> client_entry" where
  "client_entry_new now peer our sock s5 =
     \<lparr>peer_addr = peer, our_addr = our, ce_socket = sock, ce_socks5 = s5,
      expires = now + as_nanos UDP_PRUNE_TIMEOUT\<rparr>"

definition refresh :: "nat \<Rightarrow> client_entry \<Rightarrow> client_entry" where
  "refresh now e = e\<lparr>expires := now + as_nanos UDP_PRUNE_TIMEOUT\<rparr>"

section \<open>Operations on the maps\<close>

definition add_udp_client ::
  "nat \<Rightarrow> u32 list \<Rightarrow> socket_addr \<Rightarrow> udp_socket \<Rightarrow> bool \<Rightarrow> client_id_maps
   \<Rightarrow> (unit, client_id_maps \<times> u32 list \<times> u32) outcome option" where
  "add_udp_client now draws addr sock s5 m =
     (case us_local_addr sock of
        None \<Rightarrow> Some Panic
      | Some our \<Rightarrow>
          (case map_of (client_addr_map m) (addr, our) of
             Some client_id \<Rightarrow>
               (case map_of (client_id_map m) client_id of
                  None \<Rightarrow> Some Panic
                | Some e \<Rightarrow>
                    Some (Ok (m\<lparr>client_id_map := AList.update client_id (refresh now e) (client_id_map m)\<rparr>,
                              draws, client_id)))
           | None \<Rightarrow>
               (case next_available_key draws (client_id_map m) of
                  None \<Rightarrow> None
                | Some (client_id, draws) \<Rightarrow>
                    Some (Ok (m\<lparr>client_id_map := AList.update client_id (client_entry_new now addr our sock s5) (client_id_map m),
                                client_addr_map := AList.update (addr, our) client_id (client_addr_map m)\<rparr>,
                              draws, client_id)))))"

text \<open>The closure of \<open>retain\<close>, run on the entries one after the other.\<close>

fun retain_clients ::
  "nat \<Rightarrow> (u32 \<times> client_entry) list \<Rightarrow> ((socket_addr \<times> socket_addr) \<times> u32) list
   \<Rightarrow> (unit, (u32 \<times> client_entry) list \<times> ((socket_addr \<times> socket_addr) \<times> u32) list) outcome" where
  "retain_clients now [] addrs = Ok ([], addrs)"
| "retain_clients now ((i, e) # es) addrs =
     (if now < expires e then
        obind (retain_clients now es addrs) (\<lambda>(es, addrs). Ok ((i, e) # es, addrs))
      else if map_of addrs (peer_addr e, our_addr e) = None then Panic
      else retain_clients now es (AList.delete (peer_addr e, our_addr e) addrs))"

definition prune_udp_clients :: "nat \<Rightarrow> client_id_maps \<Rightarrow> (unit, client_id_maps) outcome" where
  "prune_udp_clients now m =
     obind (retain_clients now (client_id_map m) (client_addr_map m)) (\<lambda>(es, addrs).
     Ok \<lparr>client_id_map = es, client_addr_map = addrs\<rparr>)"

text \<open>\<open>send_datagram_reply\<close>: where the octets go. The result of the write itself is the caller's log message only.\<close>

datatype reply_route = ToStdout bytes | ToSocket udp_socket socket_addr bytes

definition send_datagram_reply :: "client_id_maps \<Rightarrow> u32 \<Rightarrow> bytes \<Rightarrow> reply_route option" where
  "send_datagram_reply m client_id data =
     (if client_id = 0 then Some (ToStdout data)
      else case map_of (client_id_map m) client_id of
        None \<Rightarrow> None
      | Some info \<Rightarrow>
          Some (ToSocket (ce_socket info) (peer_addr info)
            (if ce_socks5 info then udp_relay_response (peer_addr info) data else data)))"

section \<open>Forwarders\<close>

text \<open>
  One iteration of a forwarding loop: it is done, it waits for room in the channel to the main loop with the
  datagram in hand, or it leaves the loop with an error. A poll of the waiting send is \<open>forward_poll\<close>.
\<close>

datatype 'e iteration = IterDone | IterWait datagram | IterFail 'e | IterPanic

record udp_resources =
  ur_maps :: client_id_maps
  ur_datagram_tx :: "datagram chan"

definition forward_poll :: "'e \<Rightarrow> datagram \<Rightarrow> udp_resources \<Rightarrow> udp_resources \<times> 'e iteration" where
  "forward_poll failed dg h =
     (case poll_send dg (ur_datagram_tx h) of
        (ch, Pending) \<Rightarrow> (h, IterWait dg)
      | (ch, Ready (Ok _)) \<Rightarrow> (h\<lparr>ur_datagram_tx := ch\<rparr>, IterDone)
      | (ch, Ready _) \<Rightarrow> (h, IterFail failed))"

text \<open>The end of an iteration that received \<open>data\<close> from \<open>addr\<close>: register the client, send the datagram.\<close>

definition forward_from ::
  "'e \<Rightarrow> nat \<Rightarrow> u32 list \<Rightarrow> udp_socket \<Rightarrow> bool \<Rightarrow> bytes \<Rightarrow> u16 \<Rightarrow> bytes \<Rightarrow> socket_addr \<Rightarrow> udp_resources
   \<Rightarrow> (udp_resources \<times> u32 list \<times> 'e iteration) option" where
  "forward_from failed now draws sock s5 host port data addr h =
     (case add_udp_client now draws addr sock s5 (ur_maps h) of
        None \<Rightarrow> None
      | Some (Ok (m, draws, client_id)) \<Rightarrow>
          (case forward_poll failed
                  \<lparr>dg_flow_id = client_id, dg_target_host = host, dg_target_port = port, dg_data = data\<rparr>
                  (h\<lparr>ur_maps := m\<rparr>) of
             (h, it) \<Rightarrow> Some (h, draws, it))
      | Some _ \<Rightarrow> Some (h, draws, IterPanic))"

definition handle_udp_iter ::
  "nat \<Rightarrow> u32 list \<Rightarrow> udp_socket \<Rightarrow> string \<Rightarrow> u16 \<Rightarrow> (io_error, bytes \<times> socket_addr) outcome \<Rightarrow> udp_resources
   \<Rightarrow> (udp_resources \<times> u32 list \<times> fatal_error iteration) option" where
  "handle_udp_iter now draws sock rhost rport recv h =
     (case recv of
        Ok (data, addr) \<Rightarrow> forward_from SendDatagram now draws sock False (str_bytes rhost) rport data addr h
      | Err e \<Rightarrow> Some (h, draws, IterFail (ClientIo e))
      | Panic \<Rightarrow> Some (h, draws, IterPanic))"

text \<open>\<open>handle_udp_stdio\<close>: a line of standard input, without an entry in the maps and with client identifier zero.\<close>

definition handle_udp_stdio_iter ::
  "string \<Rightarrow> u16 \<Rightarrow> (io_error, bytes) outcome \<Rightarrow> udp_resources \<Rightarrow> udp_resources \<times> fatal_error iteration" where
  "handle_udp_stdio_iter rhost rport line h =
     (case line of
        Ok data \<Rightarrow> forward_poll SendDatagram
          \<lparr>dg_flow_id = 0, dg_target_host = str_bytes rhost, dg_target_port = rport, dg_data = data\<rparr> h
      | Err e \<Rightarrow> (h, IterFail (ClientIo e))
      | Panic \<Rightarrow> (h, IterPanic))"

text \<open>
  \<open>udp_relay\<close> of \<open>socks/mod.rs\<close>: a datagram without a usable header is skipped, one too short for its header ends
  the relay.
\<close>

definition udp_relay_iter ::
  "nat \<Rightarrow> u32 list \<Rightarrow> udp_socket \<Rightarrow> (io_error, bytes \<times> socket_addr) outcome \<Rightarrow> udp_resources
   \<Rightarrow> (udp_resources \<times> u32 list \<times> socks_error iteration) option" where
  "udp_relay_iter now draws sock recv h =
     (case recv of
        Ok (buf, addr) \<Rightarrow>
          (case handle_udp_relay_header buf addr of
             Ok (Some (host, port, data, src, sport)) \<Rightarrow>
               forward_from (Fatal SendDatagram) now draws sock True host port data (sa_from src sport) h
           | Ok None \<Rightarrow> Some (h, draws, IterDone)
           | Err e \<Rightarrow> Some (h, draws, IterFail e)
           | Panic \<Rightarrow> Some (h, draws, IterPanic))
      | Err e \<Rightarrow> Some (h, draws, IterFail (SocksWrite e))
      | Panic \<Rightarrow> Some (h, draws, IterPanic))"

end
