(* ===== verification/Client_Udp_Properties.thy ===== *)
theory Client_Udp_Properties
  imports Client_Udp
begin

text \<open>
  The two maps of UDP clients stay inverse to each other, so no \<open>expect\<close> on them fires, and a reply reaches the
  peer whose datagram registered the client for as long as the entry lives. What the forwarders rely on is the
  locale \<open>registry\<close>.
\<close>

section \<open>The invariant of the maps\<close>

text \<open>On the two maps as functions: they are inverse, every socket is bound to its address, zero is no identifier.\<close>

definition inverse_maps :: "(u32 \<rightharpoonup> client_entry) \<Rightarrow> (socket_addr \<times> socket_addr \<rightharpoonup> u32) \<Rightarrow> bool" where
  "inverse_maps ids addrs \<longleftrightarrow>
     (\<forall>i e. ids i = Some e \<longrightarrow>
        addrs (peer_addr e, our_addr e) = Some i \<and> us_local_addr (ce_socket e) = Some (our_addr e) \<and> i \<noteq> 0)
     \<and> (\<forall>k i. addrs k = Some i \<longrightarrow> (\<exists>e. ids i = Some e \<and> k = (peer_addr e, our_addr e)))"

lemma inverse_maps_id:
  assumes "inverse_maps ids addrs" and "ids i = Some e"
  shows "addrs (peer_addr e, our_addr e) = Some i" "us_local_addr (ce_socket e) = Some (our_addr e)" "i \<noteq> 0"
  using assms by (auto simp: inverse_maps_def)

lemma inverse_maps_addr:
  assumes "inverse_maps ids addrs" and "addrs k = Some i"
  obtains e where "ids i = Some e" and "k = (peer_addr e, our_addr e)"
  using assms unfolding inverse_maps_def by blast

lemma inverse_maps_refresh:
  assumes "inverse_maps ids addrs" and "ids i = Some e"
  shows "inverse_maps (ids(i \<mapsto> refresh now e)) addrs"
  unfolding inverse_maps_def
proof (intro conjI allI impI)
  fix j e' assume "(ids(i \<mapsto> refresh now e)) j = Some e'"
  with assms show "addrs (peer_addr e', our_addr e') = Some j" "us_local_addr (ce_socket e') = Some (our_addr e')" "j \<noteq> 0"
    by (auto simp: refresh_def dest: inverse_maps_id split: if_splits)
next
  fix k j assume "addrs k = Some j"
  then obtain e' where "ids j = Some e'" "k = (peer_addr e', our_addr e')" by (rule inverse_maps_addr [OF assms(1)])
  with assms(2) show "\<exists>e''. (ids(i \<mapsto> refresh now e)) j = Some e'' \<and> k = (peer_addr e'', our_addr e'')"
    by (cases "j = i") (auto simp: refresh_def)
qed

lemma inverse_maps_insert:
  assumes inv: "inverse_maps ids addrs" and i: "ids i = None" "i \<noteq> 0"
    and k: "addrs (peer_addr e, our_addr e) = None" and sock: "us_local_addr (ce_socket e) = Some (our_addr e)"
  shows "inverse_maps (ids(i \<mapsto> e)) (addrs((peer_addr e, our_addr e) \<mapsto> i))"
  unfolding inverse_maps_def
proof (intro conjI allI impI)
  fix j e' assume j: "(ids(i \<mapsto> e)) j = Some e'"
  show "(addrs((peer_addr e, our_addr e) \<mapsto> i)) (peer_addr e', our_addr e') = Some j"
  proof (cases "j = i")
    case False
    with j have "addrs (peer_addr e', our_addr e') = Some j" by (auto dest: inverse_maps_id [OF inv])
    with k show ?thesis by auto
  qed (use j in auto)
  show "us_local_addr (ce_socket e') = Some (our_addr e')" "j \<noteq> 0"
    using j i sock by (auto dest: inverse_maps_id [OF inv] split: if_splits)
next
  fix q j assume q: "(addrs((peer_addr e, our_addr e) \<mapsto> i)) q = Some j"
  show "\<exists>e'. (ids(i \<mapsto> e)) j = Some e' \<and> q = (peer_addr e', our_addr e')"
  proof (cases "q = (peer_addr e, our_addr e)")
    case False
    with q have "addrs q = Some j" by simp
    then obtain e' where "ids j = Some e'" "q = (peer_addr e', our_addr e')" by (rule inverse_maps_addr [OF inv])
    with i show ?thesis by auto
  qed (use q in auto)
qed

text \<open>Removing the entries that fail a test, with their addresses.\<close>

lemma inverse_maps_restrict:
  assumes inv: "inverse_maps ids addrs"
    and ids': "\<And>i. ids' i = (case ids i of Some e \<Rightarrow> if P e then Some e else None | None \<Rightarrow> None)"
    and addrs': "\<And>k. addrs' k = (if \<exists>i e. ids i = Some e \<and> \<not> P e \<and> k = (peer_addr e, our_addr e) then None else addrs k)"
  shows "inverse_maps ids' addrs'"
  unfolding inverse_maps_def
proof (intro conjI allI impI)
  fix i e assume "ids' i = Some e"
  then have e: "ids i = Some e" "P e" by (auto simp: ids' split: option.splits if_splits)
  note id = inverse_maps_id [OF inv e(1)]
  show "us_local_addr (ce_socket e) = Some (our_addr e)" "i \<noteq> 0" using id by auto
  have "P e'" if "ids j = Some e'" "(peer_addr e, our_addr e) = (peer_addr e', our_addr e')" for j e'
  proof -
    from that id(1) inverse_maps_id(1) [OF inv that(1)] have "i = j" by simp
    with that e show ?thesis by simp
  qed
  with id(1) show "addrs' (peer_addr e, our_addr e) = Some i" by (auto simp: addrs')
next
  fix k i assume "addrs' k = Some i"
  then have k: "addrs k = Some i" and n: "\<And>j e. ids j = Some e \<Longrightarrow> k = (peer_addr e, our_addr e) \<Longrightarrow> P e"
    by (auto simp: addrs' split: if_splits)
  from inverse_maps_addr [OF inv k] obtain e where "ids i = Some e" "k = (peer_addr e, our_addr e)" .
  with n show "\<exists>e. ids' i = Some e \<and> k = (peer_addr e, our_addr e)" by (auto simp: ids')
qed

definition maps_ok :: "client_id_maps \<Rightarrow> bool" where
  "maps_ok m \<longleftrightarrow>
     distinct (map fst (client_id_map m)) \<and> distinct (map fst (client_addr_map m))
     \<and> inverse_maps (map_of (client_id_map m)) (map_of (client_addr_map m))"

lemma maps_ok_inverse: "maps_ok m \<Longrightarrow> inverse_maps (map_of (client_id_map m)) (map_of (client_addr_map m))"
  by (simp add: maps_ok_def)

lemma maps_ok_new: "maps_ok client_id_maps_new"
  by (simp add: maps_ok_def client_id_maps_new_def inverse_maps_def)

lemma next_key_fresh:
  "next_available_key draws mp = Some (i, rest) \<Longrightarrow> draws_ok draws \<Longrightarrow> map_of mp i = None \<and> i \<noteq> 0"
  by (induction draws mp rule: next_available_key.induct)
    (auto simp: draws_ok_def KEY_MIN_def split: if_splits)

section \<open>Registration\<close>

text \<open>The two ways a registration succeeds.\<close>

lemma add_known:
  assumes "maps_ok m" and "us_local_addr sock = Some our" and "map_of (client_addr_map m) (addr, our) = Some i"
  shows "\<exists>e. map_of (client_id_map m) i = Some e \<and> peer_addr e = addr \<and> our_addr e = our
    \<and> add_udp_client now draws addr sock s5 m =
        Some (Ok (m\<lparr>client_id_map := AList.update i (refresh now e) (client_id_map m)\<rparr>, draws, i))"
proof -
  from inverse_maps_addr [OF maps_ok_inverse [OF assms(1)] assms(3)] obtain e
    where "map_of (client_id_map m) i = Some e" "(addr, our) = (peer_addr e, our_addr e)" .
  with assms show ?thesis by (simp add: add_udp_client_def del: map_of_eq_Some_iff)
qed

lemma add_unknown:
  assumes "us_local_addr sock = Some our" and "map_of (client_addr_map m) (addr, our) = None"
  shows "add_udp_client now draws addr sock s5 m =
    (case next_available_key draws (client_id_map m) of
       None \<Rightarrow> None
     | Some (i, rest) \<Rightarrow>
         Some (Ok (m\<lparr>client_id_map := AList.update i (client_entry_new now addr our sock s5) (client_id_map m),
                     client_addr_map := AList.update (addr, our) i (client_addr_map m)\<rparr>, rest, i)))"
  using assms by (simp add: add_udp_client_def)

lemma maps_ok_refresh:
  "maps_ok m \<Longrightarrow> map_of (client_id_map m) i = Some e \<Longrightarrow>
    maps_ok (m\<lparr>client_id_map := AList.update i (refresh now e) (client_id_map m)\<rparr>)"
  by (simp add: maps_ok_def update_conv' distinct_update inverse_maps_refresh del: map_of_eq_Some_iff)

lemma maps_ok_insert:
  assumes "maps_ok m" and "map_of (client_id_map m) i = None" "i \<noteq> 0"
    and "map_of (client_addr_map m) (addr, our) = None" and "us_local_addr sock = Some our"
  shows "maps_ok (m\<lparr>client_id_map := AList.update i (client_entry_new now addr our sock s5) (client_id_map m),
      client_addr_map := AList.update (addr, our) i (client_addr_map m)\<rparr>)"
  using assms inverse_maps_insert [OF maps_ok_inverse [OF assms(1)] assms(2,3), of "client_entry_new now addr our sock s5"]
  by (simp add: maps_ok_def update_conv' distinct_update client_entry_new_def del: map_of_eq_Some_iff)

text \<open>What registering promises, on every branch.\<close>

lemma add_spec:
  assumes ok: "maps_ok m" and sock: "us_local_addr sock = Some our" and ds: "draws_ok draws"
    and add: "add_udp_client now draws addr sock s5 m = Some r"
  obtains m' rest i e where "r = Ok (m', rest, i)" and "maps_ok m'"
    and "map_of (client_id_map m') i = Some e" and "peer_addr e = addr" and "our_addr e = our"
    and "expires e = now + as_nanos UDP_PRUNE_TIMEOUT" and "i \<noteq> 0"
    and "\<And>j. j \<noteq> i \<Longrightarrow> map_of (client_id_map m') j = map_of (client_id_map m) j"
    and "map_of (client_addr_map m) (addr, our) = Some i \<or>
      map_of (client_addr_map m) (addr, our) = None \<and> map_of (client_id_map m) i = None"
proof (cases "map_of (client_addr_map m) (addr, our)")
  case (Some i)
  from add_known [OF ok sock Some] obtain e where e: "map_of (client_id_map m) i = Some e" "peer_addr e = addr" "our_addr e = our"
    and r: "add_udp_client now draws addr sock s5 m =
        Some (Ok (m\<lparr>client_id_map := AList.update i (refresh now e) (client_id_map m)\<rparr>, draws, i))" by blast
  show thesis
    by (rule that [of "m\<lparr>client_id_map := AList.update i (refresh now e) (client_id_map m)\<rparr>" draws i "refresh now e"])
      (use add r e maps_ok_refresh [OF ok e(1)] inverse_maps_id(3) [OF maps_ok_inverse [OF ok] e(1)] Some in \<open>auto simp: update_conv' refresh_def\<close>)
next
  case None
  from add add_unknown [OF sock None] obtain i rest where k: "next_available_key draws (client_id_map m) = Some (i, rest)"
    and r: "r = Ok (m\<lparr>client_id_map := AList.update i (client_entry_new now addr our sock s5) (client_id_map m),
                     client_addr_map := AList.update (addr, our) i (client_addr_map m)\<rparr>, rest, i)"
    by (auto split: option.splits)
  from next_key_fresh [OF k ds] have i: "map_of (client_id_map m) i = None" "i \<noteq> 0" by auto
  show thesis
    by (rule that [of _ rest i "client_entry_new now addr our sock s5", OF r])
      (use i None maps_ok_insert [OF ok i None sock] in \<open>auto simp: update_conv' client_entry_new_def\<close>)
qed

section \<open>Pruning\<close>

lemma retain_spec:
  assumes "\<And>i e. (i, e) \<in> set es \<Longrightarrow> map_of addrs (peer_addr e, our_addr e) = Some i"
    and "distinct (map fst es)" and "distinct (map fst addrs)"
  shows "\<exists>addrs'. retain_clients now es addrs = Ok (filter (\<lambda>(i, e). now < expires e) es, addrs')
    \<and> distinct (map fst addrs')
    \<and> map_of addrs' = (\<lambda>k. if \<exists>(i, e)\<in>set es. \<not> now < expires e \<and> k = (peer_addr e, our_addr e) then None else map_of addrs k)"
  using assms
proof (induction now es addrs rule: retain_clients.induct)
  case (1 now addrs)
  then show ?case by simp
next
  case (2 now i e es addrs)
  let ?k = "(peer_addr e, our_addr e)"
  have k: "map_of addrs ?k = Some i" using "2.prems"(1) by simp
  show ?case
  proof (cases "now < expires e")
    case True
    have "\<exists>addrs'. retain_clients now es addrs = Ok (filter (\<lambda>(i, e). now < expires e) es, addrs')
      \<and> distinct (map fst addrs')
      \<and> map_of addrs' = (\<lambda>k. if \<exists>(i, e)\<in>set es. \<not> now < expires e \<and> k = (peer_addr e, our_addr e) then None else map_of addrs k)"
      by (rule "2.IH"(1) [OF True]) (use "2.prems" in auto)
    then show ?thesis using True by auto
  next
    case False
    have ne: "(peer_addr e', our_addr e') \<noteq> ?k" if "(j, e') \<in> set es" for j e'
    proof
      assume "(peer_addr e', our_addr e') = ?k"
      with "2.prems"(1) [of j e'] that k have "j = i" by auto
      with that "2.prems"(2) show False by force
    qed
    have "\<exists>addrs'. retain_clients now es (AList.delete ?k addrs) = Ok (filter (\<lambda>(i, e). now < expires e) es, addrs')
      \<and> distinct (map fst addrs')
      \<and> map_of addrs' = (\<lambda>k. if \<exists>(i, e)\<in>set es. \<not> now < expires e \<and> k = (peer_addr e, our_addr e) then None
          else map_of (AList.delete ?k addrs) k)"
    proof (rule "2.IH"(2) [OF False])
      show "map_of addrs ?k \<noteq> None" using k by simp
      show "\<And>j e'. (j, e') \<in> set es \<Longrightarrow> map_of (AList.delete ?k addrs) (peer_addr e', our_addr e') = Some j"
        using ne "2.prems"(1) by (fastforce simp: delete_conv')
      show "distinct (map fst es)" using "2.prems"(2) by simp
      show "distinct (map fst (AList.delete ?k addrs))" using "2.prems"(3) by (rule distinct_delete)
    qed
    then show ?thesis using False k by (fastforce simp: delete_conv')
  qed
qed

lemma map_of_filter_snd:
  "distinct (map fst xs) \<Longrightarrow>
    map_of (filter (\<lambda>(k, v). P v) xs) k = (case map_of xs k of Some v \<Rightarrow> if P v then Some v else None | None \<Rightarrow> None)"
proof (induction xs)
  case (Cons x xs)
  have "map_of (filter (\<lambda>(k, v). P v) xs) (fst x) = None"
    using Cons.prems by (auto simp: map_of_eq_None_iff)
  with Cons show ?case by (cases x) auto
qed simp

lemma prune_spec:
  assumes ok: "maps_ok m"
  shows "\<exists>m'. prune_udp_clients now m = Ok m' \<and> maps_ok m'
    \<and> client_id_map m' = filter (\<lambda>(i, e). now < expires e) (client_id_map m)
    \<and> map_of (client_addr_map m') = (\<lambda>k. if \<exists>(i, e)\<in>set (client_id_map m). \<not> now < expires e \<and> k = (peer_addr e, our_addr e)
        then None else map_of (client_addr_map m) k)"
proof -
  let ?es = "client_id_map m" and ?as = "client_addr_map m"
  let ?es' = "filter (\<lambda>(i, e). now < expires e) ?es"
  from ok have dist: "distinct (map fst ?es)" "distinct (map fst ?as)" by (simp_all add: maps_ok_def)
  have inv: "map_of ?as (peer_addr e, our_addr e) = Some i" if "(i, e) \<in> set ?es" for i e
    using map_of_is_SomeI [OF dist(1) that] by (rule inverse_maps_id(1) [OF maps_ok_inverse [OF ok]])
  from retain_spec [OF inv dist, of now] obtain as' where r: "retain_clients now ?es ?as = Ok (?es', as')"
    and d': "distinct (map fst as')"
    and as': "map_of as' = (\<lambda>k. if \<exists>(i, e)\<in>set ?es. \<not> now < expires e \<and> k = (peer_addr e, our_addr e) then None else map_of ?as k)"
    by blast
  have "inverse_maps (map_of ?es') (map_of as')"
  proof (rule inverse_maps_restrict [OF maps_ok_inverse [OF ok]])
    show "map_of ?es' i = (case map_of ?es i of Some e \<Rightarrow> if now < expires e then Some e else None | None \<Rightarrow> None)" for i
      by (rule map_of_filter_snd [OF dist(1)])
    show "map_of as' k = (if \<exists>i e. map_of ?es i = Some e \<and> \<not> now < expires e \<and> k = (peer_addr e, our_addr e)
        then None else map_of ?as k)" for k
      unfolding as' using dist(1) by auto
  qed
  with r d' distinct_map_filter [OF dist(1)] as' show ?thesis by (simp add: prune_udp_clients_def maps_ok_def)
qed

section \<open>Runs\<close>

text \<open>
  The maps over time: the clock advances, forwarders register clients, the prune task removes old entries. A
  forwarder always registers with a bound socket, and the generator draws from its documented range.
\<close>

inductive udp_step :: "nat \<times> client_id_maps \<Rightarrow> nat \<times> client_id_maps \<Rightarrow> bool" where
  udp_tick: "t \<le> t' \<Longrightarrow> udp_step (t, m) (t', m)"
| udp_add: "us_local_addr sock = Some our \<Longrightarrow> draws_ok draws \<Longrightarrow>
    add_udp_client t draws addr sock s5 m = Some (Ok (m', rest, i)) \<Longrightarrow> udp_step (t, m) (t, m')"
| udp_prune: "prune_udp_clients t m = Ok m' \<Longrightarrow> udp_step (t, m) (t, m')"

inductive_cases udp_stepE: "udp_step s s'"

definition udp_init :: "nat \<times> client_id_maps \<Rightarrow> bool" where
  "udp_init s \<longleftrightarrow> snd s = client_id_maps_new"

lemma maps_ok_step: "maps_ok (snd s) \<Longrightarrow> udp_step s s' \<Longrightarrow> maps_ok (snd s')"
  by (erule udp_stepE) (auto elim: add_spec dest: prune_spec [where now = "fst s"])

interpretation udp_run: step_system udp_init udp_step "\<lambda>s. maps_ok (snd s)"
  by unfold_locales (simp_all add: udp_init_def maps_ok_new maps_ok_step)

text \<open>An entry that outlives \<open>t\<close>: it belongs to the peer and stays until then.\<close>

definition entry_until :: "nat \<Rightarrow> u32 \<Rightarrow> socket_addr \<Rightarrow> socket_addr \<Rightarrow> client_id_maps \<Rightarrow> bool" where
  "entry_until t i addr our m \<longleftrightarrow>
     (case map_of (client_id_map m) i of None \<Rightarrow> False
      | Some e \<Rightarrow> peer_addr e = addr \<and> our_addr e = our \<and> t \<le> expires e)"

lemma entry_until_iff: "entry_until t i addr our m \<longleftrightarrow>
    (\<exists>e. map_of (client_id_map m) i = Some e \<and> peer_addr e = addr \<and> our_addr e = our \<and> t \<le> expires e)"
  by (simp add: entry_until_def del: map_of_eq_Some_iff split: option.split)

lemma entry_until_step:
  assumes st: "udp_step (t, m) (t', m')" and ok: "maps_ok m" and t': "t' < T" and T: "T \<le> t + as_nanos UDP_PRUNE_TIMEOUT"
    and e: "entry_until T i addr our m"
  shows "entry_until T i addr our m'"
  using st
proof cases
  case udp_tick
  with e show ?thesis by simp
next
  case (udp_add sock our' draws addr' s5 rest j)
  from e obtain e0 where e0: "map_of (client_id_map m) i = Some e0" "peer_addr e0 = addr" "our_addr e0 = our" "T \<le> expires e0"
    by (auto simp: entry_until_iff)
  from add_spec [OF ok udp_add(2,3,4)] obtain e1 where e1: "map_of (client_id_map m') j = Some e1" "peer_addr e1 = addr'"
    "our_addr e1 = our'" "expires e1 = t + as_nanos UDP_PRUNE_TIMEOUT"
    and other: "\<And>k. k \<noteq> j \<Longrightarrow> map_of (client_id_map m') k = map_of (client_id_map m) k"
    and which: "map_of (client_addr_map m) (addr', our') = Some j \<or> map_of (client_id_map m) j = None"
    by (metis outcome.inject(1) prod.inject)
  show ?thesis
  proof (cases "i = j")
    case True
    with which e0 have "map_of (client_addr_map m) (addr', our') = Some i" by auto
    from inverse_maps_addr [OF maps_ok_inverse [OF ok] this] e0 have "addr' = addr" "our' = our" by auto
    with e1 True T show ?thesis by (auto simp: entry_until_iff)
  next
    case False
    with other e0 show ?thesis by (auto simp: entry_until_iff)
  qed
next
  case udp_prune
  from e obtain e0 where e0: "map_of (client_id_map m) i = Some e0" "peer_addr e0 = addr" "our_addr e0 = our" "T \<le> expires e0"
    by (auto simp: entry_until_iff)
  from prune_spec [OF ok, of t] udp_prune have "client_id_map m' = filter (\<lambda>(i, e). t < expires e) (client_id_map m)" by auto
  moreover have "distinct (map fst (client_id_map m))" using ok by (simp add: maps_ok_def)
  ultimately have "map_of (client_id_map m') i = Some e0" using e0 t' udp_prune
    by (simp add: map_of_filter_snd del: map_of_eq_Some_iff)
  with e0 show ?thesis by (auto simp: entry_until_iff)
qed

lemma udp_step_time: "udp_step s s' \<Longrightarrow> fst s \<le> fst s'"
  by (erule udp_stepE) auto

lemma udp_steps_time: "udp_step\<^sup>*\<^sup>* s s' \<Longrightarrow> fst s \<le> fst s'"
  by (induction rule: rtranclp_induct) (auto dest: udp_step_time)

lemma entry_until_steps:
  assumes "udp_step\<^sup>*\<^sup>* s s'" and "maps_ok (snd s)" and "fst s' < T" and "T \<le> fst s + as_nanos UDP_PRUNE_TIMEOUT"
    and "entry_until T i addr our (snd s)"
  shows "entry_until T i addr our (snd s')"
  using assms
proof (induction rule: rtranclp_induct)
  case (step u v)
  have tu: "fst s \<le> fst u" using step.hyps(1) by (rule udp_steps_time)
  have uv: "fst u \<le> fst v" using step.hyps(2) by (rule udp_step_time)
  have ok: "maps_ok (snd u)" using step.hyps(1) step.prems(1) by (rule udp_run.steps_inv)
  have eu: "entry_until T i addr our (snd u)" using step.IH step.prems uv by simp
  show ?case
    by (rule entry_until_step [of "fst u" "snd u" "fst v" "snd v"]) (use step.hyps(2) step.prems ok eu tu in auto)
qed simp

section \<open>The interface the forwarders use\<close>

text \<open>
  A registry hands out an identifier for the key of a request and routes the identifier back to that key;
  registering never disturbs the route of another identifier, and distinct keys have distinct identifiers.
\<close>

locale registry =
  fixes register :: "'r \<Rightarrow> 's \<Rightarrow> ('s \<times> 'i) option" and route :: "'s \<Rightarrow> 'i \<Rightarrow> 'k option" and key :: "'r \<Rightarrow> 'k"
    and ok :: "'s \<Rightarrow> bool" and valid :: "'r \<Rightarrow> bool"
  assumes register_ok: "ok s \<Longrightarrow> valid r \<Longrightarrow> register r s = Some (s', i) \<Longrightarrow> ok s'"
    and register_routes: "ok s \<Longrightarrow> valid r \<Longrightarrow> register r s = Some (s', i) \<Longrightarrow> route s' i = Some (key r)"
    and register_keeps: "ok s \<Longrightarrow> valid r \<Longrightarrow> register r s = Some (s', i) \<Longrightarrow> route s j = Some k \<Longrightarrow> route s' j = Some k"
begin

lemma register_distinct:
  "ok s \<Longrightarrow> valid r \<Longrightarrow> register r s = Some (s', i) \<Longrightarrow> route s j = Some k \<Longrightarrow> k \<noteq> key r \<Longrightarrow> i \<noteq> j"
  using register_routes register_keeps by (metis option.inject)

text \<open>Two registrations in a row: both identifiers route, and they agree exactly when the keys do not differ.\<close>

lemma register_two:
  assumes "ok s" "valid r" "valid r'" and "register r s = Some (s1, i)" "register r' s1 = Some (s2, j)"
  shows "route s2 i = Some (key r) \<and> route s2 j = Some (key r') \<and> (key r \<noteq> key r' \<longrightarrow> i \<noteq> j)"
proof -
  have o1: "ok s1" using assms(1,2,4) by (rule register_ok)
  have r1: "route s1 i = Some (key r)" using assms(1,2,4) by (rule register_routes)
  have "route s2 i = Some (key r)" using o1 assms(3,5) r1 by (rule register_keeps)
  moreover have "route s2 j = Some (key r')" using o1 assms(3,5) by (rule register_routes)
  ultimately show ?thesis by auto
qed

end

text \<open>A request of a forwarder: the time, the draws, the peer, the socket and whether it is a SOCKS relay.\<close>

definition reg_add :: "nat \<times> u32 list \<times> socket_addr \<times> udp_socket \<times> bool \<Rightarrow> client_id_maps \<Rightarrow> (client_id_maps \<times> u32) option" where
  "reg_add r m = (case r of (now, draws, addr, sock, s5) \<Rightarrow>
     (case add_udp_client now draws addr sock s5 m of Some (Ok (m', rest, i)) \<Rightarrow> Some (m', i) | _ \<Rightarrow> None))"

definition reg_route :: "client_id_maps \<Rightarrow> u32 \<Rightarrow> (socket_addr \<times> socket_addr option) option" where
  "reg_route m i = (case send_datagram_reply m i [] of
       Some (ToSocket sock peer _) \<Rightarrow> Some (peer, us_local_addr sock)
     | _ \<Rightarrow> None)"

definition reg_key :: "nat \<times> u32 list \<times> socket_addr \<times> udp_socket \<times> bool \<Rightarrow> socket_addr \<times> socket_addr option" where
  "reg_key r = (case r of (now, draws, addr, sock, s5) \<Rightarrow> (addr, us_local_addr sock))"

definition reg_valid :: "nat \<times> u32 list \<times> socket_addr \<times> udp_socket \<times> bool \<Rightarrow> bool" where
  "reg_valid r = (case r of (now, draws, addr, sock, s5) \<Rightarrow> us_local_addr sock \<noteq> None \<and> draws_ok draws)"

lemma reg_route_iff:
  assumes "maps_ok m"
  shows "reg_route m i = Some k \<longleftrightarrow> (\<exists>e. map_of (client_id_map m) i = Some e \<and> k = (peer_addr e, Some (our_addr e)))"
  using inverse_maps_id [OF maps_ok_inverse [OF assms], of i]
  by (cases "map_of (client_id_map m) i") (auto simp: reg_route_def send_datagram_reply_def simp del: map_of_eq_Some_iff)

lemma reg_add_spec:
  assumes "maps_ok m" and "reg_valid (now, draws, addr, sock, s5)" and "reg_add (now, draws, addr, sock, s5) m = Some (m', i)"
  obtains e where "maps_ok m'" and "map_of (client_id_map m') i = Some e" and "peer_addr e = addr"
    and "us_local_addr sock = Some (our_addr e)" and "expires e = now + as_nanos UDP_PRUNE_TIMEOUT"
    and "\<And>j. j \<noteq> i \<Longrightarrow> map_of (client_id_map m') j = map_of (client_id_map m) j"
    and "map_of (client_id_map m) i = None \<or> map_of (client_addr_map m) (addr, our_addr e) = Some i"
proof -
  from assms(2) obtain our where sock: "us_local_addr sock = Some our" and ds: "draws_ok draws" by (auto simp: reg_valid_def)
  from assms(3) obtain rest where add: "add_udp_client now draws addr sock s5 m = Some (Ok (m', rest, i))"
    by (auto simp: reg_add_def split: option.splits outcome.splits)
  from add_spec [OF assms(1) sock ds add] that sock show thesis by (metis outcome.inject(1) prod.inject)
qed

interpretation udp_reg: registry reg_add reg_route reg_key maps_ok reg_valid
proof unfold_locales
  fix m m' :: client_id_maps and r :: "nat \<times> u32 list \<times> socket_addr \<times> udp_socket \<times> bool" and i j k
  obtain now draws addr sock s5 where r: "r = (now, draws, addr, sock, s5)" by (cases r)
  assume ok: "maps_ok m" and v: "reg_valid r" and a: "reg_add r m = Some (m', i)"
  from reg_add_spec [OF ok v [unfolded r] a [unfolded r]] obtain e
    where e: "maps_ok m'" "map_of (client_id_map m') i = Some e" "peer_addr e = addr" "us_local_addr sock = Some (our_addr e)"
      and other: "\<And>j. j \<noteq> i \<Longrightarrow> map_of (client_id_map m') j = map_of (client_id_map m) j"
      and old: "map_of (client_id_map m) i = None \<or> map_of (client_addr_map m) (addr, our_addr e) = Some i" by metis
  show "maps_ok m'" by (rule e(1))
  show "reg_route m' i = Some (reg_key r)"
    unfolding reg_route_iff [OF e(1)] using e by (auto simp: r reg_key_def simp del: map_of_eq_Some_iff)
  assume "reg_route m j = Some k"
  then obtain e0 where e0: "map_of (client_id_map m) j = Some e0" "k = (peer_addr e0, Some (our_addr e0))"
    unfolding reg_route_iff [OF ok] by blast
  show "reg_route m' j = Some k"
  proof (cases "j = i")
    case True
    with old e0 have "map_of (client_addr_map m) (addr, our_addr e) = Some i" by auto
    from inverse_maps_addr [OF maps_ok_inverse [OF ok] this] e0 True have "(addr, our_addr e) = (peer_addr e0, our_addr e0)" by auto
    with True e e0 show ?thesis unfolding reg_route_iff [OF e(1)] by auto
  next
    case False
    with other e0 show ?thesis unfolding reg_route_iff [OF e(1)] by auto
  qed
qed

section \<open>Properties\<close>

text \<open>
  C34: in every state the UDP client maps can reach, by registering clients, by pruning and by the passing of time,
  they are inverse to each other, and neither operation can panic: the \<open>expect\<close> calls about inconsistent maps never
  fire.
\<close>

theorem udp_maps_consistent:
  assumes "reach udp_init udp_step (t, m)"
  shows "maps_ok m \<and> prune_udp_clients t' m \<noteq> Panic
    \<and> (us_local_addr sock \<noteq> None \<and> draws_ok draws \<longrightarrow> add_udp_client t' draws addr sock s5 m \<noteq> Some Panic)"
proof (intro conjI impI)
  show ok: "maps_ok m" using udp_run.reach_inv [OF assms] by simp
  from prune_spec [OF ok, of t'] show "prune_udp_clients t' m \<noteq> Panic" by auto
  assume "us_local_addr sock \<noteq> None \<and> draws_ok draws"
  then show "add_udp_client t' draws addr sock s5 m \<noteq> Some Panic"
    by (metis add_spec [OF ok] not_None_eq outcome.distinct(3))
qed

definition sock0 :: udp_socket where
  "sock0 = \<lparr>us_id = 0, us_local_addr = Some (SocketV4 0x7f000001 53)\<rparr>"

definition maps1 :: client_id_maps where
  "maps1 = \<lparr>client_id_map = [(7, client_entry_new 5 (SocketV4 0x7f000001 9000) (SocketV4 0x7f000001 53) sock0 False)],
     client_addr_map = [((SocketV4 0x7f000001 9000, SocketV4 0x7f000001 53), 7)]\<rparr>"

lemma add_maps1: "add_udp_client 5 [7] (SocketV4 0x7f000001 9000) sock0 False client_id_maps_new = Some (Ok (maps1, [], 7))"
  by (simp add: add_udp_client_def sock0_def client_id_maps_new_def maps1_def)

lemma reach_maps1: "reach udp_init udp_step (5, maps1)"
proof (rule reach_step)
  show "reach udp_init udp_step (5, client_id_maps_new)" by (rule reach_init) (simp add: udp_init_def)
  show "udp_step (5, client_id_maps_new) (5, maps1)"
    by (rule udp_add [OF _ _ add_maps1]) (simp_all add: sock0_def draws_ok_def KEY_MIN_def KEY_MAX_def)
qed

theorem udp_maps_consistent_witness:
  "maps_ok maps1 \<and> prune_udp_clients 6 maps1 \<noteq> Panic
   \<and> add_udp_client 6 [9] (SocketV4 1 2) sock0 True maps1 \<noteq> Some Panic"
  using udp_maps_consistent [OF reach_maps1, of 6 sock0 "[9]" "SocketV4 1 2" True]
  by (simp add: sock0_def draws_ok_def KEY_MIN_def KEY_MAX_def)

text \<open>
  C35: a registration at time \<open>t\<close> returns an identifier under which replies reach the registering peer, from a socket
  bound to the address the peer sent to, until the prune timeout has passed: whatever other clients register and
  however often the maps are pruned before \<open>t\<close> plus ten seconds.
\<close>

theorem udp_reply_routed:
  assumes "maps_ok m" and "us_local_addr sock = Some our" and "draws_ok draws"
    and "add_udp_client t draws addr sock s5 m = Some (Ok (m1, rest, i))"
    and "udp_step\<^sup>*\<^sup>* (t, m1) (t', m2)" and "t' < t + as_nanos UDP_PRUNE_TIMEOUT"
  shows "\<exists>sock' octets. send_datagram_reply m2 i data = Some (ToSocket sock' addr octets) \<and> us_local_addr sock' = Some our
    \<and> (octets = data \<or> octets = udp_relay_response addr data)"
proof -
  from add_spec [OF assms(1,2,3,4)] obtain e where ok1: "maps_ok m1" and e: "map_of (client_id_map m1) i = Some e"
    "peer_addr e = addr" "our_addr e = our" "expires e = t + as_nanos UDP_PRUNE_TIMEOUT" "i \<noteq> 0"
    by (metis outcome.inject(1) prod.inject)
  then have "entry_until (t + as_nanos UDP_PRUNE_TIMEOUT) i addr our m1" by (auto simp: entry_until_iff)
  with entry_until_steps [OF assms(5)] ok1 assms(6) have "entry_until (t + as_nanos UDP_PRUNE_TIMEOUT) i addr our m2" by simp
  then obtain e2 where e2: "map_of (client_id_map m2) i = Some e2" "peer_addr e2 = addr" "our_addr e2 = our"
    by (auto simp: entry_until_iff)
  have "maps_ok m2" using udp_run.steps_inv [OF assms(5)] ok1 by simp
  from inverse_maps_id(2) [OF maps_ok_inverse [OF this] e2(1)] e2 e(5) show ?thesis
    by (auto simp: send_datagram_reply_def simp del: map_of_eq_Some_iff)
qed

theorem udp_reply_routed_witness:
  "\<exists>sock' octets. send_datagram_reply maps1 7 [1, 2] = Some (ToSocket sock' (SocketV4 0x7f000001 9000) octets)
     \<and> us_local_addr sock' = Some (SocketV4 0x7f000001 53)
     \<and> (octets = [1, 2] \<or> octets = udp_relay_response (SocketV4 0x7f000001 9000) [1, 2])"
proof (rule udp_reply_routed [OF maps_ok_new _ _ add_maps1])
  show "us_local_addr sock0 = Some (SocketV4 0x7f000001 53)" by (simp add: sock0_def)
  show "draws_ok [7]" by (simp add: draws_ok_def KEY_MIN_def KEY_MAX_def)
  show "udp_step\<^sup>*\<^sup>* (5, maps1) (6, maps1)" by (rule r_into_rtranclp) (simp add: udp_tick)
  show "6 < 5 + as_nanos UDP_PRUNE_TIMEOUT" by (simp add: UDP_PRUNE_TIMEOUT_def)
qed

text \<open>
  Pruning removes exactly the entries whose time has come, with exactly their addresses, and keeps every other
  entry as it is.
\<close>

theorem udp_prune_exact:
  assumes "maps_ok m"
  obtains m' where "prune_udp_clients now m = Ok m'"
    and "client_id_map m' = filter (\<lambda>(i, e). now < expires e) (client_id_map m)"
    and "\<And>k. map_of (client_addr_map m') k =
      (if \<exists>(i, e)\<in>set (client_id_map m). expires e \<le> now \<and> k = (peer_addr e, our_addr e) then None
       else map_of (client_addr_map m) k)"
  using prune_spec [OF assms, of now] by (auto simp: not_less)

theorem udp_prune_exact_witness:
  "\<exists>m'. prune_udp_clients (5 + as_nanos UDP_PRUNE_TIMEOUT) maps1 = Ok m' \<and> client_id_map m' = []"
proof -
  have "maps_ok maps1" using udp_run.reach_inv [OF reach_maps1] by simp
  from udp_prune_exact [OF this, of "5 + as_nanos UDP_PRUNE_TIMEOUT"] obtain m'
    where "prune_udp_clients (5 + as_nanos UDP_PRUNE_TIMEOUT) maps1 = Ok m'"
      "client_id_map m' = filter (\<lambda>(i, e). 5 + as_nanos UDP_PRUNE_TIMEOUT < expires e) (client_id_map maps1)" by metis
  then show ?thesis by (simp add: maps1_def client_entry_new_def)
qed

text \<open>
  Registering the same peer on the same socket address again gives the same identifier with its time renewed;
  any other pair of peer and socket address gets an identifier no entry has, never zero (the identifier of standard
  input). Entries of other clients are untouched.
\<close>

theorem add_udp_client_ids:
  assumes "maps_ok m" and "us_local_addr sock = Some our" and "draws_ok draws"
    and "add_udp_client now draws addr sock s5 m = Some (Ok (m', rest, i))"
  shows "map_of (client_addr_map m) (addr, our) = Some i
      \<or> map_of (client_addr_map m) (addr, our) = None \<and> map_of (client_id_map m) i = None"
    and "i \<noteq> 0" and "map_of (client_addr_map m') (addr, our) = Some i"
    and "j \<noteq> i \<Longrightarrow> map_of (client_id_map m') j = map_of (client_id_map m) j"
    and "\<exists>e. map_of (client_id_map m') i = Some e \<and> expires e = now + as_nanos UDP_PRUNE_TIMEOUT"
proof -
  from add_spec [OF assms] obtain e where ok: "maps_ok m'" and e: "map_of (client_id_map m') i = Some e"
    "peer_addr e = addr" "our_addr e = our" "expires e = now + as_nanos UDP_PRUNE_TIMEOUT" "i \<noteq> 0"
    and other: "\<And>j. j \<noteq> i \<Longrightarrow> map_of (client_id_map m') j = map_of (client_id_map m) j"
    and which: "map_of (client_addr_map m) (addr, our) = Some i
      \<or> map_of (client_addr_map m) (addr, our) = None \<and> map_of (client_id_map m) i = None"
    by (metis outcome.inject(1) prod.inject)
  show "map_of (client_addr_map m) (addr, our) = Some i
      \<or> map_of (client_addr_map m) (addr, our) = None \<and> map_of (client_id_map m) i = None" by (rule which)
  show "i \<noteq> 0" by (rule e(5))
  show "map_of (client_addr_map m') (addr, our) = Some i"
    using inverse_maps_id(1) [OF maps_ok_inverse [OF ok] e(1)] e by simp
  show "j \<noteq> i \<Longrightarrow> map_of (client_id_map m') j = map_of (client_id_map m) j" by (rule other)
  show "\<exists>e. map_of (client_id_map m') i = Some e \<and> expires e = now + as_nanos UDP_PRUNE_TIMEOUT" using e by blast
qed

theorem add_udp_client_ids_witness:
  "(7 :: u32) \<noteq> 0 \<and> map_of (client_addr_map maps1) (SocketV4 0x7f000001 9000, SocketV4 0x7f000001 53) = Some 7"
proof -
  have s: "us_local_addr sock0 = Some (SocketV4 0x7f000001 53)" by (simp add: sock0_def)
  have d: "draws_ok [7]" by (simp add: draws_ok_def KEY_MIN_def KEY_MAX_def)
  show ?thesis
    using add_udp_client_ids(2) [OF maps_ok_new s d add_maps1] add_udp_client_ids(3) [OF maps_ok_new s d add_maps1] by blast
qed

end
