(* ===== verification/Socks_Properties.thy ===== *)
theory Socks_Properties
  imports Socks Client_Udp_Properties
begin

text \<open>
  The properties of the SOCKS server: what a client receives and what is requested for it, for well-formed requests
  and for any input; the relay of datagrams with its header; and the places where the code departs from RFC 1928.
\<close>

section \<open>Traces of a connection\<close>

definition unspec_reply :: "u8 \<Rightarrow> bytes" where
  "unspec_reply code = [0x05, code, 0x00, 0x01, 0x00, 0x00, 0x00, 0x00, 0x00, 0x00]"

definition v4_reply :: "u8 \<Rightarrow> bytes" where
  "v4_reply code = [0x00, code, 0x00, 0x00, 0x00, 0x00, 0x00, 0x00]"

text \<open>Everything the server may say to a client it does not serve.\<close>

definition refusals :: "bytes list" where
  "refusals = [[0x05, 0xff], [0x05, 0x00] @ unspec_reply 0x07, [0x05, 0x00] @ unspec_reply 0x08,
     [0x05, 0x00] @ unspec_reply 0x01, v4_reply 0x5b]"

text \<open>
  What may happen on a connection: a refusal; a request the main loop does not answer, with no reply to it; a request
  it answers, the success reply and then copying; or a relay, with its address as the reply.
\<close>

definition safe_trace :: "socks_env \<Rightarrow> bytes \<Rightarrow> socks_event list \<Rightarrow> bool" where
  "safe_trace env out l \<longleftrightarrow>
     (l = [] \<and> (\<exists>f\<in>set refusals. prefix out f))
     \<or> (\<exists>h p. l = [RequestChannel h p] \<and> \<not> se_channel env h p \<and> (out = [] \<or> out = [0x05, 0x00]))
     \<or> (\<exists>h p. l = [RequestChannel h p] \<and> se_channel env h p
          \<and> (prefix out ([0x05, 0x00] @ unspec_reply 0x00) \<or> prefix out (v4_reply 0x5a)))
     \<or> (\<exists>h p i. l = [RequestChannel h p, StartCopy i] \<and> se_channel env h p
          \<and> (prefix ([0x05, 0x00] @ unspec_reply 0x00) out \<or> prefix (v4_reply 0x5a) out))
     \<or> (\<exists>a. se_local_addr env = Ok a \<and> (l = [SpawnRelay a] \<or> l = [SpawnRelay a, AbortRelay])
          \<and> prefix out ([0x05, 0x00] @ v5_response_bytes 0x00 a))"

text \<open>Copying writes what comes from the stream and requests nothing.\<close>

definition copy_ok :: "socks_env \<Rightarrow> bool" where
  "copy_ok env \<longleftrightarrow> (\<forall>c. \<exists>out. s_out (fst (se_copy env c)) = s_out c @ out \<and> s_log (fst (se_copy env c)) = s_log c)"

text \<open>\<open>tail_ok env pre out l\<close>: a trace that is safe once \<open>pre\<close> was written before it.\<close>

definition tail_ok :: "socks_env \<Rightarrow> bytes \<Rightarrow> bytes \<Rightarrow> socks_event list \<Rightarrow> (socks_error, 'a) outcome \<Rightarrow> bool" where
  "tail_ok env pre out l r \<longleftrightarrow> safe_trace env (pre @ out) l"

lemma refusal_tail:
  "f \<in> set refusals \<Longrightarrow> prefix (pre @ out) f \<Longrightarrow> tail_ok env pre out [] r"
  by (auto simp: tail_ok_def safe_trace_def)

lemma tail_ok_empty: "tail_ok env [] [] [] r" "tail_ok env [0x05, 0x00] [] [] r"
  by (auto simp: tail_ok_def safe_trace_def refusals_def unspec_reply_def)

lemma emits_reply_fail:
  assumes "emits (write_flush what bs) (replies bs)" and "pre @ bs \<in> set refusals"
  shows "emits (sbind (write_flush what bs) (\<lambda>_. sfail e)) (tail_ok env pre)"
  by (rule emits_sbind [OF emits_write_flush, where Q = "\<lambda>_. silent"])
    (use assms(2) in \<open>auto simp: silent_def replies_def intro: refusal_tail\<close>)

lemma emits_slog: "emits (slog ev) (\<lambda>out l r. out = [] \<and> l = [ev] \<and> r = Ok ())"
  by (auto simp: emits_def slog_def)

lemma emits_copy:
  assumes "copy_ok env"
  shows "emits (into_copy_bidirectional env) (\<lambda>out l r. \<exists>i. l = [StartCopy i])"
  unfolding emits_def
proof
  fix c :: sconn
  let ?c = "c\<lparr>s_log := s_log c @ [StartCopy (s_in c)]\<rparr>"
  from assms obtain out where "s_out (fst (se_copy env ?c)) = s_out ?c @ out" "s_log (fst (se_copy env ?c)) = s_log ?c"
    unfolding copy_ok_def by blast
  then show "\<exists>out l. s_out (fst (into_copy_bidirectional env c)) = s_out c @ out
      \<and> s_log (fst (into_copy_bidirectional env c)) = s_log c @ l \<and> (\<exists>i. l = [StartCopy i])"
    by (auto simp: into_copy_bidirectional_def split: prod.splits)
qed

lemma emits_request:
  "emits (request_tcp_channel env h p) (\<lambda>out l r. out = [] \<and> l = [RequestChannel h p] \<and> r = Ok (se_channel env h p))"
  by (auto simp: emits_def request_tcp_channel_def sbind_def slog_def sret_def)

text \<open>The success reply and copying, after a stream was obtained.\<close>

lemma emits_success:
  assumes "copy_ok env"
  shows "emits (sbind (write_flush what bs) (\<lambda>_. into_copy_bidirectional env))
    (\<lambda>out l r. l = [] \<and> prefix out bs \<or> (\<exists>i. l = [StartCopy i]) \<and> prefix bs out)"
  by (rule emits_sbind [OF emits_write_flush emits_copy [OF assms]]) (auto simp: replies_def)

lemma emits_connect:
  assumes "copy_ok env" and "if v5 then pre = [0x05, 0x00] else pre = []"
  shows "emits (handle_connect env h p v5) (tail_ok env pre)"
  unfolding handle_connect_def
proof (rule emits_sbind [OF emits_request])
  fix got
  show "emits (if \<not> got then sfail (Fatal MainLoopExitWithoutSendingStream)
      else sbind (if v5 then write_response_unspecified 0x00 else v4_write_response 0x5a) (\<lambda>_. into_copy_bidirectional env))
    (\<lambda>out l r. if got then l = [] \<and> prefix out (if v5 then unspec_reply 0x00 else v4_reply 0x5a)
         \<or> (\<exists>i. l = [StartCopy i]) \<and> prefix (if v5 then unspec_reply 0x00 else v4_reply 0x5a) out
       else out = [] \<and> l = [])"
    using emits_success [OF assms(1)] silent_ops(2) [unfolded silent_def]
    by (auto simp: write_response_unspecified_def v4_write_response_def unspec_reply_def v4_reply_def)
qed (use assms(2) in \<open>auto simp: tail_ok_def safe_trace_def split: if_splits\<close>)

lemma emits_associate: "emits (handle_associate env) (tail_ok env [0x05, 0x00])"
proof -
  have fail: "emits (sbind (write_response_unspecified 0x01) (\<lambda>_. sfail e)) (tail_ok env [0x05, 0x00])" for e
    unfolding write_response_unspecified_def
    by (rule emits_reply_fail [OF emits_write_flush]) (simp add: refusals_def unspec_reply_def)
  have relay: "emits (sbind (slog (SpawnRelay a)) (\<lambda>_. sbind (v5_write_response 0x00 a) (\<lambda>_.
      sbind (\<lambda>c. (fst (read_exact 1 c), Ok ())) (\<lambda>_. slog AbortRelay)))) (tail_ok env [0x05, 0x00])"
    if a: "se_local_addr env = Ok a" for a
  proof (rule emits_sbind [OF emits_slog])
    have wait: "emits (sbind (\<lambda>c. (fst (read_exact 1 c), Ok ())) (\<lambda>_. slog AbortRelay)) (\<lambda>out l r. out = [] \<and> l = [AbortRelay])"
      by (auto simp: emits_def sbind_def slog_def read_exact_def)
    show "emits (sbind (v5_write_response 0x00 a) (\<lambda>_. sbind (\<lambda>c. (fst (read_exact 1 c), Ok ())) (\<lambda>_. slog AbortRelay)))
      (\<lambda>out l r. prefix out (v5_response_bytes 0x00 a) \<and> (l = [] \<or> l = [AbortRelay]))"
      unfolding v5_write_response_def by (rule emits_sbind [OF emits_write_flush wait]) (auto simp: replies_def)
  qed (use a in \<open>auto simp: tail_ok_def safe_trace_def\<close>)
  show ?thesis
    using fail relay tail_ok_empty(2)
    by (auto simp: handle_associate_def emits_def split: outcome.splits)
qed

lemma emits_v4_read_request: "emits v4_read_request silent"
  unfolding v4_read_request_def by (auto intro!: silent_sbind)

lemma emits_read_auth_methods: "emits read_auth_methods silent"
  unfolding read_auth_methods_def by (auto intro!: silent_sbind)

text \<open>Reading a request of version 5 writes only the reply about an unknown address type, and then fails.\<close>

definition request_reply :: "bytes \<Rightarrow> socks_event list \<Rightarrow> (socks_error, 'a) outcome \<Rightarrow> bool" where
  "request_reply out l r \<longleftrightarrow> l = [] \<and> prefix out (unspec_reply 0x08) \<and> (\<forall>x. r = Ok x \<longrightarrow> out = [])"

lemma request_reply_silent: "silent out l r \<Longrightarrow> request_reply out l r"
  by (simp add: silent_def request_reply_def)

lemma emits_read_address: "emits read_address request_reply"
proof -
  have bad: "emits (sbind (write_flush what (unspec_reply 0x08)) (\<lambda>_. sfail e)) request_reply" for what e
    by (rule emits_sbind [OF emits_write_flush, where Q = "\<lambda>_ out l r. silent out l r \<and> (\<exists>e. r = Err e)"])
      (auto simp: emits_def sfail_def silent_def request_reply_def replies_def)
  have good: "emits m silent \<Longrightarrow> emits m request_reply" for m :: "bytes sop"
    by (rule emits_mono [OF _ request_reply_silent])
  show ?thesis unfolding read_address_def
    by (rule emits_after_silent)
      (auto intro!: good silent_sbind bad [unfolded unspec_reply_def] simp: request_reply_def)
qed

lemma emits_v5_read_request: "emits v5_read_request request_reply"
proof -
  have port: "emits (sbind read_address (\<lambda>address. sbind (ctx w read_u16) (\<lambda>port. sret (command, address, port)))) request_reply"
    for w and command :: u8
    by (rule emits_sbind [OF emits_read_address, where Q = "\<lambda>_. silent"])
      (auto intro!: silent_sbind simp: request_reply_def silent_def)
  show ?thesis unfolding v5_read_request_def
    by (intro emits_after_silent; (auto simp: request_reply_def)?)
      (auto intro!: emits_after_silent port emits_mono [OF silent_ops(2) request_reply_silent] simp: request_reply_def)
qed

lemma emits_socks4: "copy_ok env \<Longrightarrow> emits (socks4 env) (tail_ok env [])"
  unfolding socks4_def
proof (rule emits_after_silent [OF emits_v4_read_request])
  fix x :: "u8 \<times> bytes \<times> u16"
  assume c: "copy_ok env"
  have bad: "emits (sbind (v4_write_response 0x5b) (\<lambda>_. sfail e)) (tail_ok env [])" for e
    unfolding v4_write_response_def
    by (rule emits_reply_fail [OF emits_write_flush]) (simp add: refusals_def v4_reply_def)
  have none: "emits (sfail e) (tail_ok env [])" for e
    by (rule emits_mono [OF silent_ops(2)]) (simp add: silent_def tail_ok_empty)
  show "emits (case x of (command, rhost, rport) \<Rightarrow>
      if command = 0x01 then if se_reserve env then handle_connect env rhost rport False else sfail (Fatal RequestStream)
      else sbind (v4_write_response 0x5b) (\<lambda>_. sfail (InvalidCommand command))) (tail_ok env [])"
    using bad none emits_connect [OF c] by (auto split: prod.split)
qed (simp_all add: tail_ok_empty)

lemma emits_socks5: assumes c: "copy_ok env" shows "emits (socks5 env) (tail_ok env [])"
proof -
  let ?req = "\<lambda>(command, rhost, rport). if command = 0x01 then
       if se_reserve env then handle_connect env rhost rport True else sfail (Fatal RequestStream)
     else if command = 0x03 then handle_associate env
     else sbind (write_response_unspecified 0x07) (\<lambda>_. sfail (InvalidCommand command))"
  have none: "emits (sfail e) (tail_ok env [0x05, 0x00])" for e
    by (rule emits_mono [OF silent_ops(2)]) (simp add: silent_def tail_ok_empty)
  have bad: "emits (sbind (write_response_unspecified 0x07) (\<lambda>_. sfail e)) (tail_ok env [0x05, 0x00])" for e
    unfolding write_response_unspecified_def
    by (rule emits_reply_fail [OF emits_write_flush]) (simp add: refusals_def unspec_reply_def)
  have req: "emits (?req x) (tail_ok env [0x05, 0x00])" for x
    using none bad emits_associate emits_connect [OF c, of True] by (auto split: prod.split)
  have unknown: "prefix out (unspec_reply 8) \<Longrightarrow> tail_ok env [0x05, 0x00] out [] r" for out r
    by (rule refusal_tail [of "[0x05, 0x00] @ unspec_reply 8"]) (simp_all add: refusals_def)
  have rest: "emits (sbind v5_read_request ?req) (tail_ok env [0x05, 0x00])"
    by (rule emits_sbind [OF emits_v5_read_request req]) (auto simp: request_reply_def intro: unknown)
  have greet: "emits (sbind (write_auth_method 0x00) (\<lambda>_. sbind v5_read_request ?req)) (tail_ok env [])"
    unfolding write_auth_method_def
  proof (rule emits_sbind [OF emits_write_flush rest])
    have part: "safe_trace env out []" if "prefix out [0x05, 0x00]" for out
      using that by (auto simp: safe_trace_def refusals_def unspec_reply_def prefix_Cons)
    show "\<And>out l e. replies [0x05, 0x00] out l (Err e) \<Longrightarrow> tail_ok env [] out l (Err e)" by (simp add: replies_def tail_ok_def part)
    show "\<And>out l. replies [0x05, 0x00] out l Panic \<Longrightarrow> tail_ok env [] out l Panic" by (simp add: replies_def tail_ok_def part)
  qed (auto simp: replies_def tail_ok_def)
  have noauth: "emits (sbind (write_auth_method 0xff) (\<lambda>_. sfail OtherAuth)) (tail_ok env [])"
    unfolding write_auth_method_def
    by (rule emits_reply_fail [OF emits_write_flush]) (simp add: refusals_def)
  show ?thesis unfolding socks5_def
    by (rule emits_after_silent [OF emits_read_auth_methods]) (use greet noauth in \<open>auto simp: tail_ok_empty\<close>)
qed

lemma emits_on_socks_accept: "copy_ok env \<Longrightarrow> emits (on_socks_accept env) (tail_ok env [])"
  unfolding on_socks_accept_def
  by (rule emits_after_silent [OF silent_ops(4)])
    (auto simp: tail_ok_empty emits_socks4 emits_socks5 silent_def intro: emits_mono [OF silent_ops(2)])

lemma relay_target_ok:
  "target_ok t \<Longrightarrow> hd (enc_target t) = atyp \<Longrightarrow>
    relay_target atyp (tl (enc_target t) @ put_u16 port @ data) = Ok (Some (target_text t, port, data))"
  by (cases t) (auto simp: relay_target_def of_nat_u8 split_to_def)

lemma relay_target_no_panic: "relay_target atyp buf \<noteq> Panic"
proof -
  have "buf_get get_u16 (drop (unat n) bs) \<noteq> Panic" if "\<not> length bs < unat n + 2" for n :: u8 and bs
    using that by (simp add: wire_simps)
  then show ?thesis
    by (auto simp: relay_target_def outcome_simps wire_simps split_to_def split: if_splits)
qed

lemma v5_response_layout:
  "v5_response_bytes code a =
     [0x05, code, 0x00] @ enc_target (case sa_ip a of IpV4 w \<Rightarrow> Target4 w | IpV6 w \<Rightarrow> Target6 w) @ put_u16 (sa_port a)"
proof -
  have "copy_from_slice n src buf = take n buf @ src" if "n + length src = length buf" for n src buf
    using that by (simp add: copy_from_slice_def)
  then show ?thesis
    by (cases a) (simp_all add: v5_response_bytes_def copy_from_slice_def numeral_eq_Suc)
qed

lemma forward_poll_cases:
  "forward_poll failed dg h =
     (if \<not> ch_rx_open (ur_datagram_tx h) then (h, IterFail failed)
      else if ch_full (ur_datagram_tx h) then (h, IterWait dg)
      else (h\<lparr>ur_datagram_tx := ch_push dg (ur_datagram_tx h)\<rparr>, IterDone))"
  by (simp add: forward_poll_def poll_send_def)

section \<open>Properties\<close>

text \<open>
  C31: whatever a client sends and however its connection fails, the server sends a success reply only after the main
  loop answered its one request with a stream, starts copying only after the complete success reply, and announces
  a relay only when the relay runs. Otherwise the client receives a refusal or part of one.
\<close>

theorem socks_reply_safety:
  assumes "copy_ok env" and "on_socks_accept env c = (c', r)"
  obtains out l where "s_out c' = s_out c @ out" and "s_log c' = s_log c @ l" and "safe_trace env out l"
  using emits_on_socks_accept [OF assms(1)] assms(2) that
  unfolding emits_def tail_ok_def by (metis append_Nil fst_conv)

text \<open>An environment for examples: the main loop answers, copying echoes nothing.\<close>

definition env0 :: socks_env where
  "env0 = \<lparr>se_reserve = True, se_channel = (\<lambda>h p. p \<noteq> 0), se_copy = (\<lambda>c. (c, Ok ())), se_bind = Ok (),
     se_local_addr = Ok (SocketV4 0x7f000001 4000)\<rparr>"

definition conn0 :: "bytes \<Rightarrow> sconn" where
  "conn0 i = \<lparr>s_in = i, s_end = None, s_room = 100, s_werr = BrokenPipe, s_flush_err = None, s_out = [], s_log = []\<rparr>"

lemma copy_ok_env0: "copy_ok env0"
  by (simp add: copy_ok_def env0_def)

theorem socks_reply_safety_witness:
  "\<exists>l. safe_trace env0 (s_out (fst (on_socks_accept env0 (conn0 [4, 2, 0, 80, 1, 2, 3, 4, 0])))) l"
proof -
  let ?c = "conn0 [4, 2, 0, 80, 1, 2, 3, 4, 0]"
  obtain c' r where a: "on_socks_accept env0 ?c = (c', r)" by (cases "on_socks_accept env0 ?c")
  from socks_reply_safety [OF copy_ok_env0 a] obtain out l where "s_out c' = s_out ?c @ out" "safe_trace env0 out l" by metis
  with a show ?thesis by (auto simp: conn0_def)
qed

text \<open>
  C32: a SOCKS 5 client that offers to go without authentication and asks to connect gets exactly one stream request, for
  the target it named (an address in its usual text form) and its port; it receives the method choice and the
  success reply, and every octet behind its request is handed to the copying. Without a stream it gets no reply to its
  request, and the error is fatal to the listener.
\<close>

theorem socks5_connect:
  assumes "target_ok t" and "length methods \<le> 255" and "0x00 \<in> set methods" and "se_reserve env"
    and "12 \<le> s_room c" and "s_flush_err c = None"
    and "s_in c = 0x05 # of_nat (length methods) # methods @ 0x05 # 0x01 # rsv # enc_target t @ put_u16 port @ rest"
  shows "on_socks_accept env c =
    (if se_channel env (target_text t) port then
       (let (c', r) = se_copy env (c\<lparr>s_in := rest, s_room := s_room c - 12,
              s_out := s_out c @ [0x05, 0x00] @ unspec_reply 0x00,
              s_log := s_log c @ [RequestChannel (target_text t) port, StartCopy rest]\<rparr>)
        in (c', map_err SocksWrite r))
     else (c\<lparr>s_in := rest, s_room := s_room c - 2, s_out := s_out c @ [0x05, 0x00],
             s_log := s_log c @ [RequestChannel (target_text t) port]\<rparr>,
           Err (Fatal MainLoopExitWithoutSendingStream)))"
  using assms
  by (simp add: on_socks_accept_def socks5_def handle_connect_def request_tcp_channel_def slog_def write_auth_method_def
      write_response_unspecified_def into_copy_bidirectional_def unspec_reply_def sop_simps numeral_eq_Suc)

theorem socks5_connect_witness:
  "snd (on_socks_accept env0 (conn0 (0x05 # 1 # [0] @ 0x05 # 0x01 # 0 # enc_target (TargetDomain [104, 105]) @ put_u16 80 @ [1, 2]))) = Ok ()
   \<and> s_log (fst (on_socks_accept env0 (conn0 (0x05 # 1 # [0] @ 0x05 # 0x01 # 0 # enc_target (TargetDomain [104, 105]) @ put_u16 80 @ [1, 2]))))
     = [RequestChannel [104, 105] 80, StartCopy [1, 2]]"
  using socks5_connect [of "TargetDomain [104, 105]" "[0]" env0
      "conn0 (0x05 # 1 # [0] @ 0x05 # 0x01 # 0 # enc_target (TargetDomain [104, 105]) @ put_u16 80 @ [1, 2])" 0 80 "[1, 2]"]
  by (simp add: conn0_def env0_def)

text \<open>
  The same for SOCKS 4 and 4a: the target is the address, or the domain when the address is of the form 0.x.y.z; the
  user name is skipped and the reply is the one of version 4.
\<close>

theorem socks4_connect:
  assumes "0 \<notin> set user" and "0 \<notin> set domain" and "se_reserve env" and "8 \<le> s_room c" and "s_flush_err c = None"
    and "s_in c = 0x04 # 0x01 # put_u16 port @ put_u32 ip @ user @ 0 # (if drop_bit 24 ip = 0 then domain @ [0] else []) @ rest"
    and host: "host = (if drop_bit 24 ip = 0 then domain else str_bytes (show_ipv4 ip))"
  shows "on_socks_accept env c =
    (if se_channel env host port then
       (let (c', r) = se_copy env (c\<lparr>s_in := rest, s_room := s_room c - 8, s_out := s_out c @ v4_reply 0x5a,
              s_log := s_log c @ [RequestChannel host port, StartCopy rest]\<rparr>)
        in (c', map_err SocksWrite r))
     else (c\<lparr>s_in := rest, s_log := s_log c @ [RequestChannel host port]\<rparr>, Err (Fatal MainLoopExitWithoutSendingStream)))"
  using assms
  by (cases "drop_bit 24 ip = 0")
    (simp_all add: on_socks_accept_def socks4_def handle_connect_def request_tcp_channel_def slog_def v4_write_response_def
      into_copy_bidirectional_def v4_reply_def sop_simps numeral_eq_Suc)

theorem socks4_connect_witness:
  "s_log (fst (on_socks_accept env0 (conn0 (0x04 # 0x01 # put_u16 80 @ put_u32 1 @ [9] @ 0 # ([104] @ [0]) @ [7]))))
     = [RequestChannel [104] 80, StartCopy [7]]"
  using socks4_connect [of "[9]" "[104]" env0 "conn0 (0x04 # 0x01 # put_u16 80 @ put_u32 1 @ [9] @ 0 # ([104] @ [0]) @ [7])" 80 1 "[7]" "[104]"]
  by (simp add: conn0_def env0_def drop_bit_eq_div)

text \<open>
  A SOCKS 4a client that closes its side before the terminator of the domain is not refused: the server takes the
  end of the input for the terminator, drops the last octet of the domain as if it were one, and goes on with that other
  host.
\<close>

theorem socks4_truncated_domain:
  assumes "0 \<notin> set user" and "0 \<notin> set domain" and "drop_bit 24 ip = 0" and "s_end c = None"
    and "s_in c = cmd # put_u16 port @ put_u32 ip @ user @ 0 # domain"
  shows "v4_read_request c = (c\<lparr>s_in := []\<rparr>, Ok (cmd, butlast domain, port))"
proof -
  have r: "ctx what (read_until 0) k = (k\<lparr>s_in := []\<rparr>, Ok domain)" if "s_in k = domain" "s_end k = None" for what k
    using that assms(2) by (simp add: ctx_def read_until_def)
  show ?thesis using assms by (simp add: v4_read_request_def pop_def r sop_simps)
qed

theorem socks4_truncated_domain_witness:
  "snd (v4_read_request (conn0 (0x01 # put_u16 80 @ put_u32 1 @ [] @ 0 # [104, 105]))) = Ok (1, [104], 80)"
  using socks4_truncated_domain [of "[]" "[104, 105]" 1 "conn0 (0x01 # put_u16 80 @ put_u32 1 @ [] @ 0 # [104, 105])" 1 80]
  by (simp add: conn0_def drop_bit_eq_div)

text \<open>
  A relayed datagram with a well-formed header is parsed into exactly the target, the port and the data it carries,
  with the sender's address. A fragment and an unknown address type are dropped without an error, and nothing
  panics whatever the datagram.
\<close>

theorem relay_header_roundtrip:
  "(target_ok t \<longrightarrow>
      handle_udp_relay_header (put_u16 rsv @ 0 # enc_target t @ put_u16 port @ data) addr =
        Ok (Some (target_text t, port, data, sa_ip addr, sa_port addr)))
    \<and> (frag \<noteq> 0 \<longrightarrow> handle_udp_relay_header (put_u16 rsv @ frag # b # rest) addr = Ok None)
    \<and> (atyp \<notin> {1, 3, 4} \<longrightarrow> handle_udp_relay_header (put_u16 rsv @ 0 # atyp # rest) addr = Ok None)
    \<and> handle_udp_relay_header buf addr \<noteq> Panic"
proof (intro conjI impI)
  assume t: "target_ok t"
  obtain atyp b where e: "enc_target t = atyp # b" by (cases t) auto
  then show "handle_udp_relay_header (put_u16 rsv @ 0 # enc_target t @ put_u16 port @ data) addr =
      Ok (Some (target_text t, port, data, sa_ip addr, sa_port addr))"
    using relay_target_ok [OF t, of atyp port data] by (simp add: handle_udp_relay_header_def)
next
  show "handle_udp_relay_header buf addr \<noteq> Panic"
    by (auto simp: handle_udp_relay_header_def outcome_simps wire_simps relay_target_no_panic)
qed (simp_all add: handle_udp_relay_header_def relay_target_def)

theorem relay_header_roundtrip_witness:
  "handle_udp_relay_header (put_u16 0 @ 0 # enc_target (TargetDomain [104, 105]) @ put_u16 53 @ [1, 2, 3]) (SocketV4 9 10) =
     Ok (Some ([104, 105], 53, [1, 2, 3], IpV4 9, 10))
   \<and> handle_udp_relay_header (put_u16 0 @ 1 # 1 # []) (SocketV4 9 10) = Ok None
   \<and> handle_udp_relay_header (put_u16 0 @ 0 # 2 # []) (SocketV4 9 10) = Ok None"
  using relay_header_roundtrip [of "TargetDomain [104, 105]" 0 53 "[1, 2, 3]" "SocketV4 9 10" 1 1 "[]" 2 "[]"]
  by simp

text \<open>
  The header the server puts in front of a reply is not a relay header: the address comes before its type. Read back
  by the server's own parser, a reply from an IPv4 address whose first octet is not 1, 3 or 4 is dropped, whatever
  its data, while the layout of RFC 1928 would be parsed.
\<close>

theorem relay_response_malformed:
  assumes "ucast (drop_bit 24 ip) \<notin> {1, 3, 4 :: u8}"
  shows "handle_udp_relay_header (udp_relay_response (SocketV4 ip port) data) addr = Ok None
    \<and> handle_udp_relay_header (put_u16 0 @ 0 # enc_target (Target4 ip) @ put_u16 port @ data) addr =
      Ok (Some (str_bytes (show_ipv4 ip), port, data, sa_ip addr, sa_port addr))"
proof
  have "udp_relay_response (SocketV4 ip port) data =
      put_u16 0 @ 0 # ucast (drop_bit 24 ip) # put_be 3 ip @ 1 # put_u16 port @ data"
    by (simp add: udp_relay_response_def put_u32_def put_u16_def numeral_eq_Suc)
  with assms show "handle_udp_relay_header (udp_relay_response (SocketV4 ip port) data) addr = Ok None"
    by (simp add: handle_udp_relay_header_def relay_target_def)
  show "handle_udp_relay_header (put_u16 0 @ 0 # enc_target (Target4 ip) @ put_u16 port @ data) addr =
      Ok (Some (str_bytes (show_ipv4 ip), port, data, sa_ip addr, sa_port addr))"
    by (simp add: handle_udp_relay_header_def relay_target_def)
qed

theorem relay_response_malformed_witness:
  "handle_udp_relay_header (udp_relay_response (SocketV4 0x7f000001 9000) [1, 2]) (SocketV4 5 6) = Ok None"
  using relay_response_malformed [of "0x7f000001" 9000 "[1, 2]" "SocketV4 5 6"] by (simp add: drop_bit_eq_div)

text \<open>
  When the reply to a UDP association cannot be written, the handler leaves with the error and the relay it spawned
  keeps running: nothing aborts it.
\<close>

theorem associate_relay_leaks:
  assumes "se_bind env = Ok ()" and "se_local_addr env = Ok a" and "s_room c < length (v5_response_bytes 0x00 a)"
  shows "s_log (fst (handle_associate env c)) = s_log c @ [SpawnRelay a]"
    and "snd (handle_associate env c) = Err (ProcessSocksRequest ''write response'' (s_werr c))"
  using assms
  by (simp_all add: handle_associate_def sbind_def slog_def v5_write_response_def write_flush_def ctx_def write_all_def)

theorem associate_relay_leaks_witness:
  "s_log (fst (handle_associate env0 (conn0 []\<lparr>s_room := 0\<rparr>))) = [SpawnRelay (SocketV4 0x7f000001 4000)]"
  using associate_relay_leaks(1) [of env0 "SocketV4 0x7f000001 4000" "conn0 []\<lparr>s_room := 0\<rparr>"]
  by (simp add: env0_def conn0_def v5_response_bytes_def copy_from_slice_def)

text \<open>
  A successful UDP association replies with the address of the relay socket in the layout of RFC 1928, and the relay
  lives exactly until the client sends something or its connection ends.
\<close>

theorem socks5_associate:
  assumes "se_bind env = Ok ()" and "se_local_addr env = Ok a" and "24 \<le> s_room c" and "s_flush_err c = None"
  shows "handle_associate env c =
    (let c1 = fst (read_exact 1 c); reply = [0x05, 0x00, 0x00]
           @ enc_target (case sa_ip a of IpV4 w \<Rightarrow> Target4 w | IpV6 w \<Rightarrow> Target6 w) @ put_u16 (sa_port a)
     in (c1\<lparr>s_room := s_room c - length reply, s_out := s_out c @ reply, s_log := s_log c @ [SpawnRelay a, AbortRelay]\<rparr>, Ok ()))"
proof -
  let ?reply = "v5_response_bytes 0x00 a"
  have len: "length ?reply \<le> s_room c" using assms(3) by (cases a) (simp_all add: v5_response_layout)
  have w: "v5_write_response 0x00 a (c\<lparr>s_log := l\<rparr>) =
      (c\<lparr>s_log := l, s_room := s_room c - length ?reply, s_out := s_out c @ ?reply\<rparr>, Ok ())" for l
    using len assms(4) by (simp add: v5_write_response_def write_flush_ok)
  show ?thesis using assms(1,2)
    by (simp add: handle_associate_def sbind_def slog_def w read_exact_def Let_def) (simp add: v5_response_layout)
qed

theorem socks5_associate_witness:
  "s_log (fst (handle_associate env0 (conn0 []))) = [SpawnRelay (SocketV4 0x7f000001 4000), AbortRelay]"
  using socks5_associate [of env0 "SocketV4 0x7f000001 4000" "conn0 []"]
  by (simp add: env0_def conn0_def Let_def)

text \<open>
  A datagram with a well-formed header that arrives at a SOCKS relay is queued for the multiplexor with its
  target, port and data, under a client identifier that routes replies back to the sender over a socket bound to the
  relay's address.
\<close>

theorem relay_forwards:
  assumes "maps_ok (ur_maps h)" and "us_local_addr sock \<noteq> None" and "draws_ok draws" and "target_ok t"
    and "ch_rx_open (ur_datagram_tx h)" and "\<not> ch_full (ur_datagram_tx h)"
    and "udp_relay_iter now draws sock (Ok (put_u16 rsv @ 0 # enc_target t @ put_u16 port @ data, addr)) h = Some (h', rest, it)"
  shows "\<exists>i. it = IterDone \<and> maps_ok (ur_maps h') \<and> reg_route (ur_maps h') i = Some (sa_from (sa_ip addr) (sa_port addr), us_local_addr sock)
    \<and> ch_queue (ur_datagram_tx h') = ch_queue (ur_datagram_tx h)
        @ [\<lparr>dg_flow_id = i, dg_target_host = target_text t, dg_target_port = port, dg_data = data\<rparr>]"
proof -
  let ?peer = "sa_from (sa_ip addr) (sa_port addr)"
  obtain atyp b where e: "enc_target t = atyp # b" by (cases t) auto
  then have hdr: "handle_udp_relay_header (put_u16 rsv @ 0 # enc_target t @ put_u16 port @ data) addr =
      Ok (Some (target_text t, port, data, sa_ip addr, sa_port addr))"
    using relay_target_ok [OF assms(4), of atyp port data] by (simp add: handle_udp_relay_header_def)
  from assms(2) obtain our where our: "us_local_addr sock = Some our" by auto
  from assms(7) hdr have fwd: "forward_from (Fatal SendDatagram) now draws sock True (target_text t) port data ?peer h = Some (h', rest, it)"
    by (simp add: udp_relay_iter_def)
  then obtain r where r: "add_udp_client now draws ?peer sock True (ur_maps h) = Some r"
    by (auto simp: forward_from_def split: option.splits)
  from add_spec [OF assms(1) our assms(3) r] obtain m' ds i where m': "r = Ok (m', ds, i)" by metis
  then have reg: "reg_add (now, draws, ?peer, sock, True) (ur_maps h) = Some (m', i)" by (simp add: reg_add_def r)
  have v: "reg_valid (now, draws, ?peer, sock, True)" using assms(2,3) by (simp add: reg_valid_def)
  from udp_reg.register_ok [OF assms(1) v reg] udp_reg.register_routes [OF assms(1) v reg] fwd assms(5,6)
  show ?thesis by (auto simp: forward_from_def r m' forward_poll_cases reg_key_def ch_push_def)
qed

definition relay0 :: udp_resources where
  "relay0 = \<lparr>ur_maps = client_id_maps_new,
     ur_datagram_tx = \<lparr>ch_queue = [], ch_cap = Some 64, ch_rx_open = True, ch_tx_alive = True\<rparr>\<rparr>"

theorem relay_forwards_witness:
  "\<exists>h' rest it. udp_relay_iter 0 [7] sock0 (Ok (put_u16 0 @ 0 # enc_target (TargetDomain [104]) @ put_u16 53 @ [1, 2, 3], SocketV4 9 10)) relay0
     = Some (h', rest, it) \<and> (\<exists>i. it = IterDone \<and> maps_ok (ur_maps h')
       \<and> reg_route (ur_maps h') i = Some (sa_from (IpV4 9) 10, us_local_addr sock0))"
proof -
  let ?p = "Ok (put_u16 0 @ 0 # enc_target (TargetDomain [104]) @ put_u16 53 @ [1, 2, 3], SocketV4 9 10)"
  have ok: "maps_ok (ur_maps relay0)" "us_local_addr sock0 \<noteq> None" "draws_ok [7]" "target_ok (TargetDomain [104])"
    "ch_rx_open (ur_datagram_tx relay0)" "\<not> ch_full (ur_datagram_tx relay0)"
    by (simp_all add: relay0_def maps_ok_new sock0_def draws_ok_def KEY_MIN_def KEY_MAX_def ch_full_def)
  obtain h' rest it where r: "udp_relay_iter 0 [7] sock0 ?p relay0 = Some (h', rest, it)"
    by (auto simp: udp_relay_iter_def handle_udp_relay_header_def relay_target_def split_to_def forward_from_def add_udp_client_def
        sock0_def relay0_def client_id_maps_new_def forward_poll_cases ch_full_def)
  from relay_forwards [OF ok r] r show ?thesis by auto
qed

text \<open>
  At the end of standard input a UDP forwarder on it does not stop: an end of file reads as an empty line, so every
  further iteration queues another empty datagram, as long as the main loop makes room.
\<close>

theorem udp_stdio_eof_floods:
  assumes "ch_rx_open (ur_datagram_tx h)" and "ch_cap (ur_datagram_tx h) = Some k" and "length (ch_queue (ur_datagram_tx h)) + n \<le> k"
  shows "((\<lambda>h. fst (handle_udp_stdio_iter rhost rport (Ok []) h)) ^^ n) h = h\<lparr>ur_datagram_tx := (ur_datagram_tx h)
      \<lparr>ch_queue := ch_queue (ur_datagram_tx h) @ replicate n
         \<lparr>dg_flow_id = 0, dg_target_host = str_bytes rhost, dg_target_port = rport, dg_data = []\<rparr>\<rparr>\<rparr>"
  using assms(3)
proof (induction n)
  case (Suc n)
  then show ?case using assms(1,2)
    by (simp add: handle_udp_stdio_iter_def forward_poll_cases ch_full_def ch_push_def replicate_append_same)
qed simp

theorem udp_stdio_eof_floods_witness:
  "length (ch_queue (ur_datagram_tx (((\<lambda>h. fst (handle_udp_stdio_iter ''a'' 1 (Ok []) h)) ^^ 3) relay0))) = 3"
  using udp_stdio_eof_floods [of relay0 64 3 "''a''" 1] by (simp add: relay0_def)

end
