(* ===== verification/Server_Forward.thy ===== *)
theory Server_Forward
  imports Rust_Parse Client_Udp Copy_Bidirectional
begin

text \<open>
  The forwarders of \<open>src/src/server/forwarder.rs\<close>: a task per UDP client that sends its datagrams from a socket of its own and
  returns the answers, and a task per stream that connects to the target and copies. The resolver and the sockets of the
  operating system are the fields of \<open>net_env\<close>.
\<close>

datatype forward_error = ForwardIo io_error | ForwardHost

text \<open>Where a socket sends: to a resolved address, or to a host and port that \<open>send_to\<close> resolves.\<close>

datatype net_target = ToAddr socket_addr | ToHost string u16

record net_env =
  ne_lookup :: "string \<Rightarrow> u16 \<Rightarrow> (io_error, socket_addr list) outcome"
  ne_bind :: "nat \<Rightarrow> socket_addr \<Rightarrow> (io_error, udp_socket) outcome"
  ne_send :: "udp_socket \<Rightarrow> bytes \<Rightarrow> net_target \<Rightarrow> (io_error, unit) outcome"

section \<open>Binding a socket\<close>

text \<open>The wildcard address of the target's family.\<close>

primrec unspecified_for :: "socket_addr \<Rightarrow> socket_addr" where
  "unspecified_for (SocketV4 ip port) = SocketV4 0 0"
| "unspecified_for (SocketV6 ip port flowinfo scope) = SocketV6 0 0 0 0"

text \<open>The loop of \<open>bind_for_target\<close>: \<open>k\<close> counts the calls of \<open>bind\<close>.\<close>

fun bind_loop ::
  "net_env \<Rightarrow> nat \<Rightarrow> io_error option \<Rightarrow> socket_addr list \<Rightarrow> (forward_error, udp_socket \<times> socket_addr) outcome" where
  "bind_loop env k last_err [] = Err (ForwardIo (case last_err of None \<Rightarrow> InvalidInput | Some e \<Rightarrow> e))"
| "bind_loop env k last_err (target # targets) = (case ne_bind env k (unspecified_for target) of
       Ok socket \<Rightarrow> obind (expect (us_local_addr socket)) (\<lambda>_. Ok (socket, target))
     | Err e \<Rightarrow> bind_loop env (Suc k) (Some e) targets
     | Panic \<Rightarrow> Panic)"

definition bind_for_target :: "net_env \<Rightarrow> string \<Rightarrow> u16 \<Rightarrow> (forward_error, udp_socket \<times> socket_addr) outcome" where
  "bind_for_target env host port =
     obind (map_err ForwardIo (ne_lookup env host port)) (\<lambda>targets. bind_loop env 0 None targets)"

section \<open>The UDP forwarder\<close>

text \<open>
  A forwarder is where it starts (with its first datagram), in its loop (with its socket) or at its end. Its channel from
  the main loop is part of it; \<open>uf_sent\<close> records the datagrams the network accepted. The host and port of its first datagram
  go into all answers.
\<close>

datatype forward_point =
    ForwardStart datagram
  | ForwardLoop udp_socket
  | ForwardEnd "(forward_error, unit) outcome"

record udp_forwarder =
  uf_flow_id :: u32
  uf_host :: bytes
  uf_port :: u16
  uf_rx :: "datagram chan"
  uf_point :: forward_point
  uf_sent :: "(bytes \<times> net_target) list"

definition INCOMING_DATAGRAM_BUFFER_SIZE :: nat where "INCOMING_DATAGRAM_BUFFER_SIZE = 64"
definition MAX_UDP_PACKET_SIZE :: nat where "MAX_UDP_PACKET_SIZE = 65536"

definition udp_forward_on :: "datagram \<Rightarrow> datagram chan \<Rightarrow> udp_forwarder" where
  "udp_forward_on first rx =
     \<lparr>uf_flow_id = dg_flow_id first, uf_host = dg_target_host first, uf_port = dg_target_port first, uf_rx = rx,
      uf_point = ForwardStart first, uf_sent = []\<rparr>"

text \<open>Returning drops the receiver.\<close>

definition end_forward :: "(forward_error, unit) outcome \<Rightarrow> udp_forwarder \<Rightarrow> udp_forwarder" where
  "end_forward r f = f\<lparr>uf_point := ForwardEnd r, uf_rx := drop_rx (uf_rx f)\<rparr>"

text \<open>From the start to the loop.\<close>

definition udp_forward_start :: "net_env \<Rightarrow> udp_forwarder \<Rightarrow> udp_forwarder" where
  "udp_forward_start env f = (case uf_point f of
       ForwardStart first \<Rightarrow>
         (case obind (from_utf8 ForwardHost (uf_host f)) (\<lambda>rhost.
               obind (bind_for_target env rhost (uf_port f)) (\<lambda>(socket, target).
               obind (map_err ForwardIo (ne_send env socket (dg_data first) (ToAddr target))) (\<lambda>_. Ok (socket, target)))) of
            Ok (socket, target) \<Rightarrow>
              f\<lparr>uf_point := ForwardLoop socket, uf_sent := uf_sent f @ [(dg_data first, ToAddr target)]\<rparr>
          | Err e \<Rightarrow> end_forward (Err e) f
          | Panic \<Rightarrow> end_forward Panic f)
     | _ \<Rightarrow> f)"

text \<open>
  The branches of its \<open>select!\<close>: the socket received octets, the main loop sent a datagram, or the timer of this round
  expired. A branch whose pattern does not match changes nothing. \<open>tx\<close> is the channel to the main loop.
\<close>

datatype forward_event = SocketReceived bytes | DatagramFromMux | PruneTimeout

definition answer_frame :: "udp_forwarder \<Rightarrow> bytes \<Rightarrow> datagram" where
  "answer_frame f buf = \<lparr>dg_flow_id = uf_flow_id f, dg_target_host = uf_host f, dg_target_port = uf_port f,
     dg_data = take MAX_UDP_PACKET_SIZE buf\<rparr>"

definition udp_forward_step ::
  "net_env \<Rightarrow> forward_event \<Rightarrow> udp_forwarder \<Rightarrow> datagram chan \<Rightarrow> udp_forwarder \<times> datagram chan" where
  "udp_forward_step env ev f tx = (case uf_point f of
       ForwardLoop socket \<Rightarrow>
         (case ev of
            SocketReceived buf \<Rightarrow>
              (case try_send (answer_frame f buf) tx of
                 (tx, Err Closed) \<Rightarrow> (end_forward (Ok ()) f, tx)
               | (tx, _) \<Rightarrow> (f, tx))
          | DatagramFromMux \<Rightarrow>
              (case poll_recv (uf_rx f) of
                 (rx, Ready (Some dg)) \<Rightarrow>
                   (case obind (from_utf8 ForwardHost (dg_target_host dg)) (\<lambda>host.
                         obind (map_err ForwardIo (ne_send env socket (dg_data dg) (ToHost host (dg_target_port dg)))) (\<lambda>_. Ok host)) of
                      Ok host \<Rightarrow>
                        (f\<lparr>uf_rx := rx, uf_sent := uf_sent f @ [(dg_data dg, ToHost host (dg_target_port dg))]\<rparr>, tx)
                    | Err e \<Rightarrow> (end_forward (Err e) (f\<lparr>uf_rx := rx\<rparr>), tx)
                    | Panic \<Rightarrow> (end_forward Panic (f\<lparr>uf_rx := rx\<rparr>), tx))
               | _ \<Rightarrow> (f, tx))
          | PruneTimeout \<Rightarrow> (end_forward (Ok ()) f, tx))
     | _ \<Rightarrow> (f, tx))"

section \<open>The TCP forwarder\<close>

text \<open>
  \<open>tcp_forwarder_on_channel\<close> up to the copying, given what connecting and \<open>peer_addr\<close> return. Returning early drops the
  stream.
\<close>

definition tcp_forwarder_on_channel ::
  "(string \<Rightarrow> u16 \<Rightarrow> (io_error, 'o) outcome) \<Rightarrow> ('o \<Rightarrow> (io_error, socket_addr) outcome) \<Rightarrow> mux_stream \<Rightarrow> mux
   \<Rightarrow> mux \<times> (forward_error, 'o copy_bidirectional) outcome" where
  "tcp_forwarder_on_channel connect peer s m =
     (case obind (from_utf8 ForwardHost (ms_dest_host s)) (\<lambda>rhost.
           obind (map_err ForwardIo (connect rhost (ms_dest_port s))) (\<lambda>rstream.
           obind (map_err ForwardIo (peer rstream)) (\<lambda>_. Ok rstream))) of
        Ok rstream \<Rightarrow> (m, Ok (into_copy_bidirectional_with_buf s rstream m))
      | Err e \<Rightarrow> (drop_stream s m, Err e)
      | Panic \<Rightarrow> (drop_stream s m, Panic))"

end
