(* ===== verification/Socks_Targets.thy ===== *)
theory Socks_Targets
  imports Ip_Text Socks_Properties Server_Forward
begin

text \<open>
  The address a SOCKS client names crosses the tunnel as text: the client side prints it, the server side decodes the
  octets as UTF-8 and resolves them. The resolver is \<open>ne_lookup\<close>; that it takes the text of an address for that address, as
  \<open>ToSocketAddrs\<close> documents, is its contract here.
\<close>

section \<open>The text of an address\<close>

definition ascii_text :: "string \<Rightarrow> bool" where
  "ascii_text s \<longleftrightarrow> list_all (\<lambda>c. (of_char c :: nat) < 128) s"

lemma ascii_text_simps [simp]:
  "ascii_text []" "ascii_text (c # s) \<longleftrightarrow> (of_char c :: nat) < 128 \<and> ascii_text s" "ascii_text (s @ t) \<longleftrightarrow> ascii_text s \<and> ascii_text t"
  by (simp_all add: ascii_text_def)

lemma ascii_text_utf8: "ascii_text s \<Longrightarrow> utf8_valid (str_bytes s)"
  by (rule ascii_utf8_valid) (simp add: ascii_text_def str_bytes_def list_all_iff word_less_nat_alt)

lemma ascii_intersperse: "ascii_text sep \<Longrightarrow> (\<And>x. x \<in> set xs \<Longrightarrow> ascii_text x) \<Longrightarrow> ascii_text (intersperse_join sep xs)"
  by (induction sep xs rule: intersperse_join.induct) simp_all

lemma ascii_show_nat: "ascii_text (show_nat n)"
proof (induction n rule: show_nat.induct)
  case (1 n)
  then show ?case by (cases "n < 10") (simp_all add: show_nat.simps [of n])
qed

lemma ascii_show_hex: "ascii_text (show_hex w)"
proof -
  have all: "list_all (\<lambda>k. (of_char (hex_digit (word_of_nat k)) :: nat) < 128) [0..<16]" by code_simp
  have "(of_char (hex_digit n) :: nat) < 128" if "n < 16" for n
    using list_all_upt [OF all, of "unat n"] that by (simp add: word_less_nat_alt)
  note nd = this [OF nibble]
  show ?thesis by (cases w rule: show_hex_cases) (simp_all add: nd)
qed

lemma ascii_show_segments: "ascii_text (show_segments ss)" and ascii_show_octets: "ascii_text (show_ipv4_octets bs)"
  by (auto simp: show_segments_def show_ipv4_octets_def intro!: ascii_intersperse ascii_show_hex ascii_show_nat)

lemma ascii_show_ip: "ascii_text (show_ip a)"
  by (cases a)
    (simp_all add: show_ipv4_def show_ipv6_def show_ipv6_octets_def Let_def ascii_show_octets ascii_show_segments split: prod.split)

section \<open>From the request to the network\<close>

text \<open>The target of a request that names an address.\<close>

primrec address_target :: "ip_addr \<Rightarrow> socks_target" where
  "address_target (IpV4 w) = Target4 w"
| "address_target (IpV6 w) = Target6 w"

lemma address_target_simps [simp]: "target_ok (address_target a)" "target_text (address_target a) = str_bytes (show_ip a)"
  by (cases a; simp)+

text \<open>The octets of the host are valid UTF-8 and, decoded, parse as the address.\<close>

lemma host_decoded: "from_utf8 e (str_bytes (show_ip a)) = Ok (show_ip a)"
  by (simp add: from_utf8_def ascii_text_utf8 ascii_show_ip)

text \<open>What the resolver promises for the text of an address.\<close>

definition resolves_literals :: "net_env \<Rightarrow> bool" where
  "resolves_literals env \<longleftrightarrow> (\<forall>host a port. parse_ip host = Some a \<longrightarrow> ne_lookup env host port = Ok [sa_from a port])"

text \<open>
  C14: The address in a SOCKS request is the address the server contacts, for every IPv4 and IPv6 address. A SOCKS 5 request for
  an address is read as a host text that the server's forwarder decodes and that parses back to that very address; so does the
  address of a SOCKS 4 request whose first octet is not zero; and a relayed datagram for an address, handed to a UDP forwarder
  whose resolver takes the text of an address for that address and whose socket works, is sent, with exactly its data, to that
  address and port. This covers the compressed and the mapped forms in which IPv6 addresses are printed.
\<close>

theorem socks_address_reached:
  assumes "s_in c5 = 0x05 # cmd # rsv # enc_target (address_target a) @ put_u16 port @ rest"
    and "s_in c4 = cmd # put_u16 port @ put_u32 ip @ user @ 0 # rest" and "drop_bit 24 ip \<noteq> 0" and "0 \<notin> set user"
    and "resolves_literals env" and "ne_bind env 0 (unspecified_for (sa_from a port)) = Ok sock" and "us_local_addr sock \<noteq> None"
    and "ne_send env sock data (ToAddr (sa_from a port)) = Ok ()"
  shows "(\<exists>host s. v5_read_request c5 = (c5\<lparr>s_in := rest\<rparr>, Ok (cmd, host, port)) \<and> from_utf8 ForwardHost host = Ok s \<and> parse_ip s = Some a)
    \<and> (\<exists>host s. v4_read_request c4 = (c4\<lparr>s_in := rest\<rparr>, Ok (cmd, host, port)) \<and> from_utf8 ForwardHost host = Ok s \<and> parse_ip s = Some (IpV4 ip))
    \<and> (\<exists>host. handle_udp_relay_header (put_u16 rsv2 @ 0 # enc_target (address_target a) @ put_u16 port @ data) peer
          = Ok (Some (host, port, data, sa_ip peer, sa_port peer))
        \<and> udp_forward_start env (udp_forward_on \<lparr>dg_flow_id = i, dg_target_host = host, dg_target_port = port, dg_data = data\<rparr> rx)
          = (udp_forward_on \<lparr>dg_flow_id = i, dg_target_host = host, dg_target_port = port, dg_data = data\<rparr> rx)
              \<lparr>uf_point := ForwardLoop sock, uf_sent := [(data, ToAddr (sa_from a port))]\<rparr>)"
proof (intro conjI)
  show "\<exists>host s. v5_read_request c5 = (c5\<lparr>s_in := rest\<rparr>, Ok (cmd, host, port)) \<and> from_utf8 ForwardHost host = Ok s \<and> parse_ip s = Some a"
    using v5_read_request_ok [OF assms(1)] by (auto simp: host_decoded parse_show_ip)
  show "\<exists>host s. v4_read_request c4 = (c4\<lparr>s_in := rest\<rparr>, Ok (cmd, host, port)) \<and> from_utf8 ForwardHost host = Ok s \<and> parse_ip s = Some (IpV4 ip)"
    using v4_read_request_ip [OF assms(2-4)] host_decoded [of ForwardHost "IpV4 ip"] by (auto simp: parse_show_ipv4)
  obtain atyp b where e: "enc_target (address_target a) = atyp # b" by (cases a) auto
  have hdr: "handle_udp_relay_header (put_u16 rsv2 @ 0 # enc_target (address_target a) @ put_u16 port @ data) peer
      = Ok (Some (str_bytes (show_ip a), port, data, sa_ip peer, sa_port peer))"
    using relay_target_ok [of "address_target a" atyp port data] e by (simp add: handle_udp_relay_header_def)
  have "bind_for_target env (show_ip a) port = Ok (sock, sa_from a port)"
    using assms(5-7) parse_show_ip by (auto simp: resolves_literals_def bind_for_target_def expect_def)
  with hdr assms(8) show "\<exists>host. handle_udp_relay_header (put_u16 rsv2 @ 0 # enc_target (address_target a) @ put_u16 port @ data) peer
          = Ok (Some (host, port, data, sa_ip peer, sa_port peer))
        \<and> udp_forward_start env (udp_forward_on \<lparr>dg_flow_id = i, dg_target_host = host, dg_target_port = port, dg_data = data\<rparr> rx)
          = (udp_forward_on \<lparr>dg_flow_id = i, dg_target_host = host, dg_target_port = port, dg_data = data\<rparr> rx)
              \<lparr>uf_point := ForwardLoop sock, uf_sent := [(data, ToAddr (sa_from a port))]\<rparr>"
    by (intro exI [of _ "str_bytes (show_ip a)"]) (simp add: udp_forward_start_def udp_forward_on_def host_decoded)
qed

text \<open>A resolver that knows only literals, and a network that accepts everything.\<close>

definition literal_env :: net_env where
  "literal_env = \<lparr>ne_lookup = (\<lambda>host port. case parse_ip host of Some a \<Rightarrow> Ok [sa_from a port] | None \<Rightarrow> Err InvalidInput),
     ne_bind = (\<lambda>k a. Ok \<lparr>us_id = k, us_local_addr = Some a\<rparr>), ne_send = (\<lambda>_ _ _. Ok ())\<rparr>"

theorem socks_address_reached_witness:
  "(\<exists>host s. snd (v5_read_request (conn0 (0x05 # 1 # 0 # enc_target (Target6 1) @ put_u16 80 @ [7]))) = Ok (1, host, 80)
      \<and> from_utf8 ForwardHost host = Ok s \<and> parse_ip s = Some (IpV6 1))
   \<and> (\<exists>host. handle_udp_relay_header (put_u16 0 @ 0 # enc_target (Target6 1) @ put_u16 80 @ [8]) (SocketV4 9 10) = Ok (Some (host, 80, [8], IpV4 9, 10))
      \<and> uf_sent (udp_forward_start literal_env (udp_forward_on
          \<lparr>dg_flow_id = 3, dg_target_host = host, dg_target_port = 80, dg_data = [8]\<rparr> mpsc_unbounded)) = [([8], ToAddr (SocketV6 1 80 0 0))])"
proof -
  let ?c5 = "conn0 (0x05 # 1 # 0 # enc_target (Target6 1) @ put_u16 80 @ [7])"
  let ?c4 = "conn0 (1 # put_u16 80 @ put_u32 0x7f000001 @ [] @ 0 # [7])"
  let ?sock = "\<lparr>us_id = 0, us_local_addr = Some (SocketV6 0 0 0 0)\<rparr>"
  have "resolves_literals literal_env" by (simp add: resolves_literals_def literal_env_def)
  then have all: "(\<exists>host s. v5_read_request ?c5 = (?c5\<lparr>s_in := [7]\<rparr>, Ok (1, host, 80)) \<and> from_utf8 ForwardHost host = Ok s \<and> parse_ip s = Some (IpV6 1))
    \<and> (\<exists>host s. v4_read_request ?c4 = (?c4\<lparr>s_in := [7]\<rparr>, Ok (1, host, 80)) \<and> from_utf8 ForwardHost host = Ok s \<and> parse_ip s = Some (IpV4 0x7f000001))
    \<and> (\<exists>host. handle_udp_relay_header (put_u16 0 @ 0 # enc_target (Target6 1) @ put_u16 80 @ [8]) (SocketV4 9 10) = Ok (Some (host, 80, [8], IpV4 9, 10))
      \<and> udp_forward_start literal_env (udp_forward_on \<lparr>dg_flow_id = 3, dg_target_host = host, dg_target_port = 80, dg_data = [8]\<rparr> mpsc_unbounded)
        = (udp_forward_on \<lparr>dg_flow_id = 3, dg_target_host = host, dg_target_port = 80, dg_data = [8]\<rparr> mpsc_unbounded)
            \<lparr>uf_point := ForwardLoop ?sock, uf_sent := [([8], ToAddr (SocketV6 1 80 0 0))]\<rparr>)"
    using socks_address_reached [of ?c5 1 0 "IpV6 1" 80 "[7]" ?c4 "0x7f000001" "[]" literal_env ?sock "[8]" 0 "SocketV4 9 10" 3 mpsc_unbounded]
    by (simp add: conn0_def literal_env_def)
  then show ?thesis by fastforce
qed

end
