(* ===== verification/Server_Websocket.thy ===== *)
theory Server_Websocket
  imports Server_Forward Multiplexor
begin

text \<open>
  One tunnel on the server, \<open>handle_websocket\<close> of \<open>src/src/server/websocket.rs\<close>: the multiplexor, the map from flow
  identifiers to the channels of UDP forwarders, the set of jobs, and the channel by which forwarders return answers.
  Forwarders and their channels live in a store; the map holds their index, so a forwarder and the map share the channel.
\<close>

definition BIND_BUFFER_SIZE :: nat where "BIND_BUFFER_SIZE = 16"

record server_conn =
  sv_mux :: mux
  sv_clients :: "(u32 \<times> nat) list"
  sv_fwds :: "udp_forwarder list"
  sv_streams :: "mux_stream list"
  sv_jobs :: nat
  sv_datagrams :: "datagram chan"

definition handle_websocket_new :: "bool \<Rightarrow> (unit, server_conn) outcome" where
  "handle_websocket_new reverse =
     obind (bind_buffer_size (if reverse then BIND_BUFFER_SIZE else 0) options_new) (\<lambda>options.
     obind (multiplexor_new (Some options)) (\<lambda>mux.
     obind (mpsc_channel INCOMING_DATAGRAM_BUFFER_SIZE) (\<lambda>ch.
     Ok \<lparr>sv_mux = mux, sv_clients = [], sv_fwds = [], sv_streams = [], sv_jobs = 0, sv_datagrams = ch\<rparr>)))"

text \<open>
  A datagram for forwarder \<open>k\<close>: a full channel drops it; a closed one, of a forwarder that has ended, drops it and forgets the
  client. \<open>new_forwarder\<close> makes a channel and spawns.
\<close>

definition send_to_forwarder :: "nat \<Rightarrow> datagram \<Rightarrow> server_conn \<Rightarrow> server_conn" where
  "send_to_forwarder k dg s =
     (case try_send dg (uf_rx (sv_fwds s ! k)) of
        (ch, Err Closed) \<Rightarrow> s\<lparr>sv_clients := AList.delete (dg_flow_id dg) (sv_clients s)\<rparr>
      | (ch, Err Full) \<Rightarrow> s
      | (ch, _) \<Rightarrow> s\<lparr>sv_fwds := (sv_fwds s)[k := (sv_fwds s ! k)\<lparr>uf_rx := ch\<rparr>]\<rparr>)"

definition new_forwarder :: "datagram \<Rightarrow> server_conn \<Rightarrow> (unit, server_conn) outcome" where
  "new_forwarder dg s =
     obind (mpsc_channel INCOMING_DATAGRAM_BUFFER_SIZE) (\<lambda>ch.
     Ok (s\<lparr>sv_clients := AList.update (dg_flow_id dg) (length (sv_fwds s)) (sv_clients s),
           sv_fwds := sv_fwds s @ [udp_forward_on dg ch], sv_jobs := Suc (sv_jobs s)\<rparr>))"

text \<open>The branches of the \<open>select!\<close>; \<open>JobEnded\<close> carries whether the task panicked.\<close>

datatype server_event =
    JobEnded bool
  | StreamAccepted
  | DatagramFromPeer
  | AnswerReady
  | ServerElse

definition server_branch_enabled :: "server_event \<Rightarrow> server_conn \<Rightarrow> bool" where
  "server_branch_enabled ev s = (case ev of
       JobEnded p \<Rightarrow> 0 < sv_jobs s
     | StreamAccepted \<Rightarrow> (case snd (accept_stream_channel (sv_mux s)) of Ready (Ok _) \<Rightarrow> True | _ \<Rightarrow> False)
     | DatagramFromPeer \<Rightarrow> (case snd (get_datagram (sv_mux s)) of Ready (Ok _) \<Rightarrow> True | _ \<Rightarrow> False)
     | AnswerReady \<Rightarrow> (case snd (poll_recv (sv_datagrams s)) of Ready (Some _) \<Rightarrow> True | _ \<Rightarrow> False)
     | ServerElse \<Rightarrow>
         sv_jobs s = 0
         \<and> (case snd (accept_stream_channel (sv_mux s)) of Ready (Err _) \<Rightarrow> True | _ \<Rightarrow> False)
         \<and> (case snd (get_datagram (sv_mux s)) of Ready (Err _) \<Rightarrow> True | _ \<Rightarrow> False)
         \<and> snd (poll_recv (sv_datagrams s)) = Ready None)"

text \<open>One iteration; \<open>None\<close> means that the loop goes on, \<open>Some\<close> that the function returns or panics.\<close>

definition server_loop_step :: "server_event \<Rightarrow> server_conn \<Rightarrow> server_conn \<times> (unit, unit) outcome option" where
  "server_loop_step ev s = (case ev of
       JobEnded panicked \<Rightarrow> (s\<lparr>sv_jobs := sv_jobs s - 1\<rparr>, if panicked then Some Panic else None)
     | StreamAccepted \<Rightarrow>
         (case accept_stream_channel (sv_mux s) of
            (m, Ready (Ok stream)) \<Rightarrow>
              (s\<lparr>sv_mux := m, sv_streams := sv_streams s @ [stream], sv_jobs := Suc (sv_jobs s)\<rparr>, None)
          | _ \<Rightarrow> (s, None))
     | DatagramFromPeer \<Rightarrow>
         (case get_datagram (sv_mux s) of
            (m, Ready (Ok dg)) \<Rightarrow>
              (case map_of (sv_clients s) (dg_flow_id dg) of
                 Some k \<Rightarrow> (send_to_forwarder k dg (s\<lparr>sv_mux := m\<rparr>), None)
               | None \<Rightarrow>
                   (case new_forwarder dg (s\<lparr>sv_mux := m\<rparr>) of
                      Ok s \<Rightarrow> (s, None)
                    | _ \<Rightarrow> (s, Some Panic)))
          | _ \<Rightarrow> (s, None))
     | AnswerReady \<Rightarrow>
         (case poll_recv (sv_datagrams s) of
            (ch, Ready (Some dg)) \<Rightarrow>
              (case send_datagram dg (sv_mux s) of
                 (m, Panic) \<Rightarrow> (s\<lparr>sv_datagrams := ch, sv_mux := m\<rparr>, Some Panic)
               | (m, _) \<Rightarrow> (s\<lparr>sv_datagrams := ch, sv_mux := m\<rparr>, None))
          | _ \<Rightarrow> (s, None))
     | ServerElse \<Rightarrow> (s, Some (Ok ())))"

text \<open>The tasks of the forwarders.\<close>

definition forwarder_start :: "net_env \<Rightarrow> nat \<Rightarrow> server_conn \<Rightarrow> server_conn" where
  "forwarder_start env k s = s\<lparr>sv_fwds := (sv_fwds s)[k := udp_forward_start env (sv_fwds s ! k)]\<rparr>"

definition forwarder_step :: "net_env \<Rightarrow> forward_event \<Rightarrow> nat \<Rightarrow> server_conn \<Rightarrow> server_conn" where
  "forwarder_step env ev k s =
     (case udp_forward_step env ev (sv_fwds s ! k) (sv_datagrams s) of
        (f, tx) \<Rightarrow> s\<lparr>sv_fwds := (sv_fwds s)[k := f], sv_datagrams := tx\<rparr>)"

end
