(* ===== verification/Server_Properties.thy ===== *)
theory Server_Properties
  imports Server_Websocket Mux_Lifecycle "HOL-Library.Sublist"
begin

text \<open>
  The UDP side of a tunnel on the server. The specification is a table of sessions, one per flow identifier, each with a
  target and a queue of datagrams (\<open>nat_step\<close>); the model with its map, store of forwarders and channels refines it
  (\<open>srv_step\<close>, abstraction \<open>nat_of\<close>). On the specification we prove what users of UDP care about: for each flow, what is sent to the
  network is a subsequence of what arrived.
\<close>

section \<open>The specification\<close>

record session =
  ss_host :: bytes
  ss_port :: u16
  ss_queue :: "datagram list"

type_synonym nat_table = "u32 \<Rightarrow> session option"

datatype nat_label =
    Quiet
  | Arrived datagram
  | ToNet u32 "bytes \<times> net_target"
  | Answered datagram
  | Ended u32

text \<open>Octets and a target that stand for a datagram; \<open>resolves\<close> says which addresses a name may stand for.\<close>

definition carries :: "(string \<Rightarrow> u16 \<Rightarrow> socket_addr \<Rightarrow> bool) \<Rightarrow> datagram \<Rightarrow> bytes \<times> net_target \<Rightarrow> bool" where
  "carries resolves dg p \<longleftrightarrow> fst p = dg_data dg \<and> utf8_valid (dg_target_host dg) \<and>
     (case snd p of
        ToHost h port \<Rightarrow> h = bytes_str (dg_target_host dg) \<and> port = dg_target_port dg
      | ToAddr a \<Rightarrow> resolves (bytes_str (dg_target_host dg)) (dg_target_port dg) a)"

inductive nat_step ::
  "(string \<Rightarrow> u16 \<Rightarrow> socket_addr \<Rightarrow> bool) \<Rightarrow> nat_label \<Rightarrow> nat_table \<Rightarrow> nat_table \<Rightarrow> bool" for resolves where
  nat_quiet: "nat_step resolves Quiet n n"
| nat_create: "n (dg_flow_id dg) = None \<Longrightarrow> nat_step resolves (Arrived dg) n
    (n(dg_flow_id dg \<mapsto> \<lparr>ss_host = dg_target_host dg, ss_port = dg_target_port dg, ss_queue = [dg]\<rparr>))"
| nat_queue: "n (dg_flow_id dg) = Some ss \<Longrightarrow>
    nat_step resolves (Arrived dg) n (n(dg_flow_id dg \<mapsto> ss\<lparr>ss_queue := ss_queue ss @ [dg]\<rparr>))"
| nat_drop_full: "n (dg_flow_id dg) = Some ss \<Longrightarrow> INCOMING_DATAGRAM_BUFFER_SIZE \<le> length (ss_queue ss) \<Longrightarrow>
    nat_step resolves (Arrived dg) n n"
| nat_drop_ended: "n (dg_flow_id dg) = None \<Longrightarrow> nat_step resolves (Arrived dg) n n"
| nat_send: "n i = Some ss \<Longrightarrow> ss_queue ss = dg # q \<Longrightarrow> carries resolves dg p \<Longrightarrow>
    nat_step resolves (ToNet i p) n (n(i \<mapsto> ss\<lparr>ss_queue := q\<rparr>))"
| nat_answer: "n i = Some ss \<Longrightarrow> nat_step resolves
    (Answered \<lparr>dg_flow_id = i, dg_target_host = ss_host ss, dg_target_port = ss_port ss, dg_data = d\<rparr>) n n"
| nat_end: "n i \<noteq> None \<Longrightarrow> nat_step resolves (Ended i) n (n(i := None))"

primrec arrived_of :: "u32 \<Rightarrow> nat_label list \<Rightarrow> datagram list" where
  "arrived_of i [] = []"
| "arrived_of i (l # ls) = (case l of Arrived dg \<Rightarrow> if dg_flow_id dg = i then [dg] else [] | _ \<Rightarrow> []) @ arrived_of i ls"

primrec sent_of :: "u32 \<Rightarrow> nat_label list \<Rightarrow> (bytes \<times> net_target) list" where
  "sent_of i [] = []"
| "sent_of i (l # ls) = (case l of ToNet j p \<Rightarrow> if j = i then [p] else [] | _ \<Rightarrow> []) @ sent_of i ls"

lemma arrived_of_append [simp]: "arrived_of i (xs @ ys) = arrived_of i xs @ arrived_of i ys"
  by (induction xs) simp_all

lemma sent_of_append [simp]: "sent_of i (xs @ ys) = sent_of i xs @ sent_of i ys"
  by (induction xs) simp_all

definition queue_of :: "nat_table \<Rightarrow> u32 \<Rightarrow> datagram list" where
  "queue_of n i = (case n i of None \<Rightarrow> [] | Some ss \<Rightarrow> ss_queue ss)"

lemma nat_step_queue:
  "nat_step resolves l m u \<Longrightarrow> sent_of i [l] = [] \<Longrightarrow> subseq (queue_of u i) (queue_of m i @ arrived_of i [l])"
  by (induction rule: nat_step.induct) (auto simp: queue_of_def split: option.split if_splits)

lemma nat_step_sent:
  "nat_step resolves l m u \<Longrightarrow> sent_of i [l] = p # ps \<Longrightarrow>
   ps = [] \<and> arrived_of i [l] = [] \<and> (\<exists>dg. carries resolves dg p \<and> queue_of m i = dg # queue_of u i)"
  by (induction rule: nat_step.induct) (auto simp: queue_of_def split: option.split if_splits)

text \<open>On the specification: some subsequence of the arrived datagrams was sent, and what is queued comes behind it.\<close>

lemma nat_run_subsequence:
  "run (nat_step resolves) n ls n' \<Longrightarrow> n = Map.empty \<Longrightarrow>
   \<exists>dgs. subseq (dgs @ queue_of n' i) (arrived_of i ls) \<and> list_all2 (carries resolves) dgs (sent_of i ls)"
proof (induction rule: run.induct)
  case (run_start n)
  then show ?case by (auto simp: queue_of_def)
next
  case (run_step n ls m l u)
  then obtain dgs where sub: "subseq (dgs @ queue_of m i) (arrived_of i ls)"
    and sent: "list_all2 (carries resolves) dgs (sent_of i ls)" by blast
  show ?case
  proof (cases "sent_of i [l]")
    case Nil
    from nat_step_queue [OF run_step.hyps(2) Nil]
    have "subseq (dgs @ queue_of u i) (dgs @ queue_of m i @ arrived_of i [l])" by (simp only: subseq_append')
    also have "subseq \<dots> (arrived_of i ls @ arrived_of i [l])"
      using list_emb_append_mono [OF sub, of "arrived_of i [l]" "arrived_of i [l]"] by simp
    finally show ?thesis using sent Nil by (intro exI [of _ dgs]) (simp only: arrived_of_append sent_of_append append_Nil2)
  next
    case (Cons p ps)
    from nat_step_sent [OF run_step.hyps(2) Cons] obtain dg where *: "ps = []" "arrived_of i [l] = []"
      "carries resolves dg p" "queue_of m i = dg # queue_of u i" by blast
    then have "subseq ((dgs @ [dg]) @ queue_of u i) (arrived_of i ls)" using sub by simp
    moreover have "list_all2 (carries resolves) (dgs @ [dg]) (sent_of i ls @ [p])"
      using sent *(3) by (simp add: list_all2_appendI)
    ultimately show ?thesis using * Cons
      by (intro exI [of _ "dgs @ [dg]"]) (simp only: arrived_of_append sent_of_append append_Nil2)
  qed
qed

section \<open>The model as a step relation\<close>

text \<open>The session a forwarder stands for: none once it has ended.\<close>

definition session_of :: "udp_forwarder \<Rightarrow> session option" where
  "session_of f = (case uf_point f of
       ForwardStart dg \<Rightarrow> Some \<lparr>ss_host = uf_host f, ss_port = uf_port f, ss_queue = dg # ch_queue (uf_rx f)\<rparr>
     | ForwardLoop _ \<Rightarrow> Some \<lparr>ss_host = uf_host f, ss_port = uf_port f, ss_queue = ch_queue (uf_rx f)\<rparr>
     | ForwardEnd _ \<Rightarrow> None)"

definition nat_of :: "server_conn \<Rightarrow> nat_table" where
  "nat_of s i = (case map_of (sv_clients s) i of None \<Rightarrow> None | Some k \<Rightarrow> session_of (sv_fwds s ! k))"

definition loop_label :: "server_event \<Rightarrow> server_conn \<Rightarrow> nat_label" where
  "loop_label ev s = (case ev of
       DatagramFromPeer \<Rightarrow> (case snd (get_datagram (sv_mux s)) of Ready (Ok dg) \<Rightarrow> Arrived dg | _ \<Rightarrow> Quiet)
     | _ \<Rightarrow> Quiet)"

text \<open>What an observer sees of a forwarder's step: a datagram on the network, an answer queued, or its end.\<close>

definition forward_label :: "udp_forwarder \<Rightarrow> udp_forwarder \<Rightarrow> datagram chan \<Rightarrow> datagram chan \<Rightarrow> nat_label" where
  "forward_label f f' tx tx' =
     (if uf_sent f' \<noteq> uf_sent f then ToNet (uf_flow_id f) (last (uf_sent f'))
      else if ch_queue tx' \<noteq> ch_queue tx then Answered (last (ch_queue tx'))
      else if session_of f \<noteq> None \<and> session_of f' = None then Ended (uf_flow_id f)
      else Quiet)"

definition lookup_sound :: "(string \<Rightarrow> u16 \<Rightarrow> socket_addr \<Rightarrow> bool) \<Rightarrow> net_env \<Rightarrow> bool" where
  "lookup_sound resolves env \<longleftrightarrow>
     (\<forall>h p as a. ne_lookup env h p = Ok as \<longrightarrow> a \<in> set as \<longrightarrow> resolves h p a)"

inductive srv_step ::
  "(string \<Rightarrow> u16 \<Rightarrow> socket_addr \<Rightarrow> bool) \<Rightarrow> nat_label \<Rightarrow> server_conn \<Rightarrow> server_conn \<Rightarrow> bool" for resolves where
  srv_mux: "mux_step (sv_mux s) m \<Longrightarrow> srv_step resolves Quiet s (s\<lparr>sv_mux := m\<rparr>)"
| srv_loop: "server_branch_enabled ev s \<Longrightarrow> server_loop_step ev s = (t, None) \<Longrightarrow> srv_step resolves (loop_label ev s) s t"
| srv_start: "lookup_sound resolves env \<Longrightarrow> k < length (sv_fwds s) \<Longrightarrow> t = forwarder_start env k s \<Longrightarrow>
    srv_step resolves (forward_label (sv_fwds s ! k) (sv_fwds t ! k) (sv_datagrams s) (sv_datagrams t)) s t"
| srv_forward: "k < length (sv_fwds s) \<Longrightarrow> t = forwarder_step env ev k s \<Longrightarrow>
    srv_step resolves (forward_label (sv_fwds s ! k) (sv_fwds t ! k) (sv_datagrams s) (sv_datagrams t)) s t"

definition srv_init :: "server_conn \<Rightarrow> bool" where
  "srv_init s \<longleftrightarrow> (\<exists>reverse. handle_websocket_new reverse = Ok s)"

section \<open>The invariant\<close>

text \<open>
  A forwarder's channel accepts exactly while it has not ended. Every entry of the map is a forwarder of that flow, every
  forwarder that has not ended is in the map, so a flow has at most one. The answer channel stays open for ever, since
  the loop itself keeps a sender.
\<close>

definition fwd_ok :: "udp_forwarder \<Rightarrow> bool" where
  "fwd_ok f \<longleftrightarrow> (ch_rx_open (uf_rx f) \<longleftrightarrow> session_of f \<noteq> None)
     \<and> ch_cap (uf_rx f) = Some INCOMING_DATAGRAM_BUFFER_SIZE
     \<and> (\<forall>dg. uf_point f = ForwardStart dg \<longrightarrow> dg_target_host dg = uf_host f \<and> dg_target_port dg = uf_port f)"

definition answers_ok :: "datagram chan \<Rightarrow> bool" where
  "answers_ok ch \<longleftrightarrow> ch_rx_open ch \<and> ch_tx_alive ch \<and> ch_cap ch = Some INCOMING_DATAGRAM_BUFFER_SIZE
     \<and> length (ch_queue ch) \<le> INCOMING_DATAGRAM_BUFFER_SIZE"

definition srv_inv :: "server_conn \<Rightarrow> bool" where
  "srv_inv s \<longleftrightarrow> mux_wf (sv_mux s) \<and> answers_ok (sv_datagrams s)
     \<and> (\<forall>i k. map_of (sv_clients s) i = Some k \<longrightarrow> k < length (sv_fwds s) \<and> uf_flow_id (sv_fwds s ! k) = i)
     \<and> (\<forall>k < length (sv_fwds s). fwd_ok (sv_fwds s ! k)
         \<and> (session_of (sv_fwds s ! k) \<noteq> None \<longrightarrow> map_of (sv_clients s) (uf_flow_id (sv_fwds s ! k)) = Some k))"

lemma srv_invD:
  assumes "srv_inv s"
  shows "mux_wf (sv_mux s)" "answers_ok (sv_datagrams s)"
    "map_of (sv_clients s) i = Some k \<Longrightarrow> k < length (sv_fwds s)"
    "map_of (sv_clients s) i = Some k \<Longrightarrow> uf_flow_id (sv_fwds s ! k) = i"
    "k < length (sv_fwds s) \<Longrightarrow> fwd_ok (sv_fwds s ! k)"
    "k < length (sv_fwds s) \<Longrightarrow> session_of (sv_fwds s ! k) \<noteq> None \<Longrightarrow>
       map_of (sv_clients s) (uf_flow_id (sv_fwds s ! k)) = Some k"
  using assms unfolding srv_inv_def by blast+

text \<open>Replacing one forwarder by a later state of itself.\<close>

definition fwd_later :: "udp_forwarder \<Rightarrow> udp_forwarder \<Rightarrow> bool" where
  "fwd_later f f' \<longleftrightarrow> fwd_ok f' \<and> uf_flow_id f' = uf_flow_id f \<and> (session_of f = None \<longrightarrow> session_of f' = None)"

lemma replace_forwarder_inv:
  assumes "srv_inv s" and "k < length (sv_fwds s)" and "fwd_later (sv_fwds s ! k) f'" and "answers_ok tx"
  shows "srv_inv (s\<lparr>sv_fwds := (sv_fwds s)[k := f'], sv_datagrams := tx\<rparr>)"
proof -
  note inv = srv_invD [OF assms(1)]
  have upd: "(sv_fwds s)[k := f'] ! j = (if j = k then f' else sv_fwds s ! j)" if "j < length (sv_fwds s)" for j
    using that by simp
  have f': "fwd_ok f'" "uf_flow_id f' = uf_flow_id (sv_fwds s ! k)" "session_of f' \<noteq> None \<Longrightarrow> session_of (sv_fwds s ! k) \<noteq> None"
    using assms(3) unfolding fwd_later_def by auto
  have "fwd_ok ((sv_fwds s)[k := f'] ! j)
      \<and> (session_of ((sv_fwds s)[k := f'] ! j) \<noteq> None \<longrightarrow> map_of (sv_clients s) (uf_flow_id ((sv_fwds s)[k := f'] ! j)) = Some j)"
    if "j < length (sv_fwds s)" for j
    using f' inv(5) [OF that] inv(6) [OF that] unfolding upd [OF that] by (cases "j = k") simp_all
  moreover have "j < length (sv_fwds s) \<and> uf_flow_id ((sv_fwds s)[k := f'] ! j) = i" if "map_of (sv_clients s) i = Some j" for i j
    using f'(2) inv(3,4) [OF that] by (cases "j = k") simp_all
  ultimately show ?thesis using inv(1) assms(4) unfolding srv_inv_def by simp
qed

lemma replace_forwarder_nat:
  assumes "srv_inv s" and "k < length (sv_fwds s)" and "fwd_later (sv_fwds s ! k) f'"
  shows "nat_of (s\<lparr>sv_fwds := (sv_fwds s)[k := f'], sv_datagrams := tx\<rparr>) =
    (if session_of (sv_fwds s ! k) = None then nat_of s else (nat_of s)(uf_flow_id (sv_fwds s ! k) := session_of f'))"
proof (rule ext)
  fix i
  note inv = srv_invD [OF assms(1)]
  let ?t = "s\<lparr>sv_fwds := (sv_fwds s)[k := f'], sv_datagrams := tx\<rparr>"
  have later: "session_of (sv_fwds s ! k) = None \<Longrightarrow> session_of f' = None" using assms(3) unfolding fwd_later_def by blast
  show "nat_of ?t i =
    (if session_of (sv_fwds s ! k) = None then nat_of s else (nat_of s)(uf_flow_id (sv_fwds s ! k) := session_of f')) i"
  proof (cases "map_of (sv_clients s) i = Some k")
    case True
    with assms(2) inv(4) [OF True] later show ?thesis by (simp add: nat_of_def)
  next
    case False
    then have "nat_of ?t i = nat_of s i" by (auto simp: nat_of_def split: option.split)
    moreover have "uf_flow_id (sv_fwds s ! k) \<noteq> i" if "session_of (sv_fwds s ! k) \<noteq> None"
      using inv(6) [OF assms(2) that] False by blast
    ultimately show ?thesis by auto
  qed
qed

section \<open>What one forwarder does\<close>

text \<open>The four things a step of a forwarder can be.\<close>

inductive fwd_move ::
  "(string \<Rightarrow> u16 \<Rightarrow> socket_addr \<Rightarrow> bool) \<Rightarrow> udp_forwarder \<Rightarrow> datagram chan \<Rightarrow> udp_forwarder \<Rightarrow> datagram chan \<Rightarrow> bool"
  for resolves where
  move_idle: "fwd_move resolves f tx f tx"
| move_end: "session_of f \<noteq> None \<Longrightarrow> fwd_move resolves f tx (end_forward r f) tx"
| move_end_popped: "session_of f \<noteq> None \<Longrightarrow> ch_cap rx = ch_cap (uf_rx f) \<Longrightarrow>
    fwd_move resolves f tx (end_forward r (f\<lparr>uf_rx := rx\<rparr>)) tx"
| move_send: "session_of f = Some ss \<Longrightarrow> ss_queue ss = dg # q \<Longrightarrow> session_of f' = Some (ss\<lparr>ss_queue := q\<rparr>) \<Longrightarrow>
    carries resolves dg p \<Longrightarrow> uf_sent f' = uf_sent f @ [p] \<Longrightarrow> uf_flow_id f' = uf_flow_id f \<Longrightarrow> fwd_ok f' \<Longrightarrow>
    fwd_move resolves f tx f' tx"
| move_answer: "session_of f \<noteq> None \<Longrightarrow> \<not> ch_full tx \<Longrightarrow> fwd_move resolves f tx f (ch_push (answer_frame f buf) tx)"

lemma session_of_end [simp]: "session_of (end_forward r f) = None"
  by (simp add: session_of_def end_forward_def)

lemma end_forward_simps [simp]:
  "uf_flow_id (end_forward r f) = uf_flow_id f" "uf_sent (end_forward r f) = uf_sent f"
  by (simp_all add: end_forward_def)

lemma fwd_ok_end: "ch_cap (uf_rx f) = Some INCOMING_DATAGRAM_BUFFER_SIZE \<Longrightarrow> fwd_ok (end_forward r f)"
  by (simp add: fwd_ok_def end_forward_def session_of_def drop_rx_def)

lemma fwd_ok_cap: "fwd_ok f \<Longrightarrow> ch_cap (uf_rx f) = Some INCOMING_DATAGRAM_BUFFER_SIZE"
  by (simp add: fwd_ok_def)

lemma bind_loop_target: "bind_loop env k e targets = Ok (sock, a) \<Longrightarrow> a \<in> set targets"
  by (induction env k e targets rule: bind_loop.induct) (auto simp: outcome_simps split: outcome.splits)

lemma bind_for_target_resolves:
  "lookup_sound resolves env \<Longrightarrow> bind_for_target env h p = Ok (sock, a) \<Longrightarrow> resolves h p a"
  by (cases "ne_lookup env h p")
    (auto simp: bind_for_target_def lookup_sound_def dest: bind_loop_target)

lemma from_utf8_Ok [simp]: "from_utf8 e bs = Ok h \<longleftrightarrow> utf8_valid bs \<and> h = bytes_str bs"
  by (auto simp: from_utf8_def)

lemma udp_forward_start_move:
  assumes "fwd_ok f" and "lookup_sound resolves env"
  shows "fwd_move resolves f tx (udp_forward_start env f) tx"
proof (cases "uf_point f")
  case (ForwardStart first)
  let ?r = "obind (from_utf8 ForwardHost (uf_host f)) (\<lambda>rhost.
       obind (bind_for_target env rhost (uf_port f)) (\<lambda>(socket, target).
       obind (map_err ForwardIo (ne_send env socket (dg_data first) (ToAddr target))) (\<lambda>_. Ok (socket, target))))"
  have live: "session_of f = Some \<lparr>ss_host = uf_host f, ss_port = uf_port f, ss_queue = first # ch_queue (uf_rx f)\<rparr>"
    by (simp add: session_of_def ForwardStart)
  show ?thesis
  proof (cases ?r)
    case (Ok st)
    obtain socket target where st: "st = (socket, target)" by (cases st)
    from Ok have v: "utf8_valid (uf_host f)" "bind_for_target env (bytes_str (uf_host f)) (uf_port f) = Ok (socket, target)"
      by (auto simp: outcome_simps st split: prod.splits)
    let ?f = "f\<lparr>uf_point := ForwardLoop socket, uf_sent := uf_sent f @ [(dg_data first, ToAddr target)]\<rparr>"
    have "udp_forward_start env f = ?f" using Ok by (simp add: udp_forward_start_def ForwardStart st)
    moreover have "carries resolves first (dg_data first, ToAddr target)"
      using assms v bind_for_target_resolves [OF assms(2) v(2)] ForwardStart by (simp add: carries_def fwd_ok_def)
    moreover have "fwd_ok ?f" using assms(1) ForwardStart by (simp add: fwd_ok_def session_of_def)
    ultimately show ?thesis
      using live by (auto intro!: move_send simp: session_of_def)
  next
    case (Err e)
    then show ?thesis using live by (simp add: udp_forward_start_def ForwardStart move_end)
  next
    case Panic
    then show ?thesis using live by (simp add: udp_forward_start_def ForwardStart move_end)
  qed
qed (simp_all add: udp_forward_start_def move_idle)

text \<open>A datagram taken from the main loop: it is sent, or the forwarder ends.\<close>

lemma forward_taken_move:
  assumes "fwd_ok f" and "uf_point f = ForwardLoop socket" and "ch_queue (uf_rx f) = dg # q"
    and "udp_forward_step env DatagramFromMux f tx = (f', tx')"
  shows "fwd_move resolves f tx f' tx'"
proof -
  let ?rx = "(uf_rx f)\<lparr>ch_queue := q\<rparr>"
  let ?r = "obind (from_utf8 ForwardHost (dg_target_host dg)) (\<lambda>host.
     obind (map_err ForwardIo (ne_send env socket (dg_data dg) (ToHost host (dg_target_port dg)))) (\<lambda>_. Ok host))"
  have live: "session_of f = Some \<lparr>ss_host = uf_host f, ss_port = uf_port f, ss_queue = ch_queue (uf_rx f)\<rparr>"
    by (simp add: session_of_def assms(2))
  have recv: "poll_recv (uf_rx f) = (?rx, Ready (Some dg))" by (rule mpsc.recv_item [OF assms(3)])
  show ?thesis
  proof (cases ?r)
    case (Ok host)
    then have h: "utf8_valid (dg_target_host dg)" "host = bytes_str (dg_target_host dg)" by (auto simp: outcome_simps)
    let ?f = "f\<lparr>uf_rx := ?rx, uf_sent := uf_sent f @ [(dg_data dg, ToHost host (dg_target_port dg))]\<rparr>"
    have "f' = ?f" "tx' = tx" using Ok assms(2,4) by (simp_all add: udp_forward_step_def recv)
    moreover have "carries resolves dg (dg_data dg, ToHost host (dg_target_port dg))" using h by (simp add: carries_def)
    moreover have "fwd_ok ?f" using assms(1,2) by (simp add: fwd_ok_def session_of_def)
    ultimately show ?thesis using live assms(2,3) by (auto intro!: move_send simp: session_of_def)
  qed (use assms(2,4) live in \<open>auto simp: udp_forward_step_def recv intro: move_end_popped\<close>)
qed

lemma udp_forward_step_move:
  assumes "fwd_ok f" and "answers_ok tx" and "udp_forward_step env ev f tx = (f', tx')"
  shows "fwd_move resolves f tx f' tx'"
proof (cases "uf_point f")
  case (ForwardLoop socket)
  have live: "session_of f = Some \<lparr>ss_host = uf_host f, ss_port = uf_port f, ss_queue = ch_queue (uf_rx f)\<rparr>"
    by (simp add: session_of_def ForwardLoop)
  show ?thesis
  proof (cases ev)
    case (SocketReceived buf)
    with assms(2,3) live show ?thesis
      by (auto simp: udp_forward_step_def ForwardLoop try_send_def answers_ok_def intro: move_idle move_answer split: if_splits)
  next
    case PruneTimeout
    with assms(3) live show ?thesis by (auto simp: udp_forward_step_def ForwardLoop intro: move_end)
  next
    case DatagramFromMux
    show ?thesis
    proof (cases "ch_queue (uf_rx f)")
      case Nil
      with assms(3) DatagramFromMux show ?thesis
        by (auto simp: udp_forward_step_def ForwardLoop poll_recv_def intro: move_idle split: if_splits)
    next
      case (Cons dg q)
      with assms(1,3) ForwardLoop DatagramFromMux show ?thesis using forward_taken_move by blast
    qed
  qed
qed (use assms(3) in \<open>auto simp: udp_forward_step_def intro: move_idle\<close>)

section \<open>Every step keeps the invariant and is a step of the specification\<close>

lemma fwd_move_later: "fwd_move resolves f tx f' tx' \<Longrightarrow> fwd_ok f \<Longrightarrow> fwd_later f f'"
  by (induction rule: fwd_move.induct) (auto simp: fwd_later_def fwd_ok_cap intro!: fwd_ok_end)

lemma fwd_move_answers: "fwd_move resolves f tx f' tx' \<Longrightarrow> answers_ok tx \<Longrightarrow> answers_ok tx'"
  by (induction rule: fwd_move.induct) (auto simp: answers_ok_def ch_push_def ch_full_def)

lemma fwd_move_refines:
  assumes "srv_inv s" and "k < length (sv_fwds s)" and move: "fwd_move resolves (sv_fwds s ! k) (sv_datagrams s) f' tx'"
  defines "t \<equiv> s\<lparr>sv_fwds := (sv_fwds s)[k := f'], sv_datagrams := tx'\<rparr>"
  shows "srv_inv t \<and> nat_step resolves (forward_label (sv_fwds s ! k) f' (sv_datagrams s) tx') (nat_of s) (nat_of t)"
proof
  let ?f = "sv_fwds s ! k" and ?i = "uf_flow_id (sv_fwds s ! k)"
  note inv = srv_invD [OF assms(1)]
  have later: "fwd_later ?f f'" by (rule fwd_move_later [OF move inv(5) [OF assms(2)]])
  show "srv_inv t" unfolding t_def
    by (rule replace_forwarder_inv [OF assms(1,2) later fwd_move_answers [OF move inv(2)]])
  have t: "nat_of t = (if session_of ?f = None then nat_of s else (nat_of s)(?i := session_of f'))"
    unfolding t_def by (rule replace_forwarder_nat [OF assms(1,2) later])
  have n: "nat_of s ?i = session_of ?f" if "session_of ?f \<noteq> None"
    using inv(6) [OF assms(2) that] by (simp add: nat_of_def)
  have same: "nat_of t = nat_of s" if "f' = ?f" using t n that by (cases "session_of ?f") (simp_all add: fun_upd_idem)
  from move show "nat_step resolves (forward_label ?f f' (sv_datagrams s) tx') (nat_of s) (nat_of t)"
  proof (cases rule: fwd_move.cases)
    case move_idle
    then show ?thesis using same by (auto simp: forward_label_def nat_quiet)
  next
    case (move_end r)
    then show ?thesis using t n by (auto simp: forward_label_def nat_end)
  next
    case (move_end_popped rx r)
    then show ?thesis using t n by (auto simp: forward_label_def nat_end)
  next
    case (move_send ss dg q p)
    then have "nat_of t = (nat_of s)(?i \<mapsto> ss\<lparr>ss_queue := q\<rparr>)" "nat_of s ?i = Some ss" using t n by simp_all
    with move_send show ?thesis by (simp add: forward_label_def nat_send)
  next
    case (move_answer buf)
    then obtain ss where ss: "session_of ?f = Some ss" by blast
    then have "uf_host ?f = ss_host ss" "uf_port ?f = ss_port ss" by (auto simp: session_of_def split: forward_point.splits)
    then have "answer_frame ?f buf = \<lparr>dg_flow_id = ?i, dg_target_host = ss_host ss, dg_target_port = ss_port ss,
        dg_data = take MAX_UDP_PACKET_SIZE buf\<rparr>" by (simp add: answer_frame_def)
    with move_answer ss n same show ?thesis
      by (simp add: forward_label_def ch_push_def nat_answer)
  qed
qed

lemma srv_same_forwarders:
  assumes "sv_clients t = sv_clients s" and "sv_fwds t = sv_fwds s"
  shows "nat_of t = nat_of s" and "srv_inv s \<Longrightarrow> mux_wf (sv_mux t) \<Longrightarrow> answers_ok (sv_datagrams t) \<Longrightarrow> srv_inv t"
  using assms by (simp_all add: nat_of_def srv_inv_def fun_eq_iff cong: option.case_cong)

text \<open>Forgetting a client whose forwarder has ended.\<close>

lemma forget_client:
  assumes "srv_inv s" and "map_of (sv_clients s) i = Some k" and "session_of (sv_fwds s ! k) = None"
  shows "srv_inv (s\<lparr>sv_clients := AList.delete i (sv_clients s)\<rparr>) \<and> nat_of (s\<lparr>sv_clients := AList.delete i (sv_clients s)\<rparr>) = nat_of s"
proof
  note inv = srv_invD [OF assms(1)]
  have "map_of (AList.delete i (sv_clients s)) (uf_flow_id (sv_fwds s ! j)) = Some j"
    if "j < length (sv_fwds s)" "session_of (sv_fwds s ! j) \<noteq> None" for j
    using inv(6) [OF that] that assms(2,3) by (auto simp: AList.delete_conv')
  moreover have "j < length (sv_fwds s) \<and> uf_flow_id (sv_fwds s ! j) = i'" if "map_of (AList.delete i (sv_clients s)) i' = Some j" for i' j
    using that inv(3,4) [of i' j] by (simp add: AList.delete_conv' split: if_splits)
  ultimately show "srv_inv (s\<lparr>sv_clients := AList.delete i (sv_clients s)\<rparr>)" using inv(1,2,5) unfolding srv_inv_def by simp
  show "nat_of (s\<lparr>sv_clients := AList.delete i (sv_clients s)\<rparr>) = nat_of s"
    using assms(2,3) by (auto simp: nat_of_def fun_eq_iff AList.delete_conv' split: option.split)
qed

lemma send_to_forwarder_refines:
  assumes "srv_inv s" and k: "map_of (sv_clients s) (dg_flow_id dg) = Some k"
  shows "srv_inv (send_to_forwarder k dg s) \<and> nat_step resolves (Arrived dg) (nat_of s) (nat_of (send_to_forwarder k dg s))"
proof -
  let ?f = "sv_fwds s ! k" and ?i = "dg_flow_id dg"
  note inv = srv_invD [OF assms(1)]
  have len: "k < length (sv_fwds s)" and i: "uf_flow_id ?f = ?i" by (rule inv(3) [OF k], rule inv(4) [OF k])
  have ok: "fwd_ok ?f" by (rule inv(5) [OF len])
  have n: "nat_of s ?i = session_of ?f" by (simp add: nat_of_def k)
  consider (closed) "\<not> ch_rx_open (uf_rx ?f)" | (full) "ch_rx_open (uf_rx ?f)" "ch_full (uf_rx ?f)"
    | (room) "ch_rx_open (uf_rx ?f)" "\<not> ch_full (uf_rx ?f)" by blast
  then show ?thesis
  proof cases
    case closed
    then have dead: "session_of ?f = None" using ok by (simp add: fwd_ok_def)
    let ?t = "s\<lparr>sv_clients := AList.delete ?i (sv_clients s)\<rparr>"
    have t: "send_to_forwarder k dg s = ?t" using closed by (simp add: send_to_forwarder_def try_send_def)
    with forget_client [OF assms(1) k dead] show ?thesis using nat_drop_ended [of "nat_of s" dg resolves] n dead by simp
  next
    case full
    then obtain ss where ss: "session_of ?f = Some ss" using ok by (auto simp: fwd_ok_def)
    moreover have "INCOMING_DATAGRAM_BUFFER_SIZE \<le> length (ss_queue ss)"
      using full ss ok by (auto simp: fwd_ok_def ch_full_def session_of_def split: forward_point.splits)
    moreover have "send_to_forwarder k dg s = s" using full by (simp add: send_to_forwarder_def try_send_def)
    ultimately show ?thesis using assms(1) n nat_drop_full [of "nat_of s" dg ss resolves] by simp
  next
    case room
    then obtain ss where ss: "session_of ?f = Some ss" using ok by (auto simp: fwd_ok_def)
    let ?g = "?f\<lparr>uf_rx := ch_push dg (uf_rx ?f)\<rparr>"
    let ?t = "s\<lparr>sv_fwds := (sv_fwds s)[k := ?g], sv_datagrams := sv_datagrams s\<rparr>"
    have g: "session_of ?g = Some (ss\<lparr>ss_queue := ss_queue ss @ [dg]\<rparr>)"
      using ss by (auto simp: session_of_def ch_push_def split: forward_point.splits)
    then have "fwd_later ?f ?g" using ok ss by (simp add: fwd_later_def fwd_ok_def ch_push_def)
    note * = replace_forwarder_inv [OF assms(1) len this inv(2)] replace_forwarder_nat [OF assms(1) len this, of "sv_datagrams s"]
    have "send_to_forwarder k dg s = ?t" using room by (simp add: send_to_forwarder_def try_send_def)
    with * show ?thesis using ss g i n nat_queue [of "nat_of s" dg ss resolves] by simp
  qed
qed

lemma new_forwarder_refines:
  assumes "srv_inv s" and none: "map_of (sv_clients s) (dg_flow_id dg) = None" and new: "new_forwarder dg s = Ok t"
  shows "srv_inv t \<and> nat_step resolves (Arrived dg) (nat_of s) (nat_of t)"
proof -
  let ?i = "dg_flow_id dg" and ?n = "length (sv_fwds s)"
  note inv = srv_invD [OF assms(1)]
  let ?ch = "\<lparr>ch_queue = [], ch_cap = Some INCOMING_DATAGRAM_BUFFER_SIZE, ch_rx_open = True, ch_tx_alive = True\<rparr>"
  let ?f = "udp_forward_on dg ?ch"
  have f: "session_of ?f = Some \<lparr>ss_host = dg_target_host dg, ss_port = dg_target_port dg, ss_queue = [dg]\<rparr>"
    "uf_flow_id ?f = ?i" "fwd_ok ?f"
    by (simp_all add: session_of_def udp_forward_on_def fwd_ok_def)
  have t: "sv_mux t = sv_mux s" "sv_datagrams t = sv_datagrams s" "sv_fwds t = sv_fwds s @ [?f]"
    "map_of (sv_clients t) = (map_of (sv_clients s))(?i \<mapsto> ?n)"
    using new by (auto simp: new_forwarder_def mpsc_channel_def INCOMING_DATAGRAM_BUFFER_SIZE_def AList.update_conv')
  have dead: "session_of (sv_fwds s ! j) = None" if "j < ?n" "uf_flow_id (sv_fwds s ! j) = ?i" for j
    using inv(6) [OF that(1)] that none by (cases "session_of (sv_fwds s ! j)") auto
  have "nat_of t = (nat_of s)(?i \<mapsto> \<lparr>ss_host = dg_target_host dg, ss_port = dg_target_port dg, ss_queue = [dg]\<rparr>)"
    using f(1) inv(3) by (auto simp: nat_of_def t nth_append fun_eq_iff split: option.split)
  moreover have "nat_of s ?i = None" by (simp add: nat_of_def none)
  moreover have "srv_inv t"
  proof -
    have "fwd_ok (sv_fwds t ! j) \<and> (session_of (sv_fwds t ! j) \<noteq> None \<longrightarrow> map_of (sv_clients t) (uf_flow_id (sv_fwds t ! j)) = Some j)"
      if "j < length (sv_fwds t)" for j
    proof (cases "j < ?n")
      case True
      then show ?thesis using inv(5,6) [OF True] dead [OF True] by (auto simp: t nth_append)
    next
      case False
      with that have "j = ?n" by (simp add: t)
      then show ?thesis using f by (simp add: t)
    qed
    moreover have "j < length (sv_fwds t) \<and> uf_flow_id (sv_fwds t ! j) = i'" if "map_of (sv_clients t) i' = Some j" for i' j
    proof (cases "i' = ?i")
      case True
      with that have "j = ?n" by (simp add: t)
      with True f(2) show ?thesis by (simp add: t)
    next
      case False
      with that have "map_of (sv_clients s) i' = Some j" by (simp add: t)
      from inv(3,4) [OF this] show ?thesis by (simp add: t nth_append)
    qed
    ultimately show ?thesis using inv(1,2) unfolding srv_inv_def t(1,2) by blast
  qed
  ultimately show ?thesis using nat_create [of "nat_of s" dg resolves] by simp
qed

lemma new_forwarder_Ok: "\<exists>t. new_forwarder dg s = Ok t"
  by (simp add: new_forwarder_def mpsc_channel_def INCOMING_DATAGRAM_BUFFER_SIZE_def)

lemma poll_recv_answers: "answers_ok ch \<Longrightarrow> answers_ok (fst (poll_recv ch))"
  by (auto simp: answers_ok_def poll_recv_def split: list.split)

lemma datagram_step_refines:
  assumes "srv_inv s" and "server_loop_step DatagramFromPeer s = (t, None)"
  shows "srv_inv t \<and> nat_step resolves (loop_label DatagramFromPeer s) (nat_of s) (nat_of t)"
proof -
  obtain m r where g: "get_datagram (sv_mux s) = (m, r)" by (cases "get_datagram (sv_mux s)")
  show ?thesis
  proof (cases "\<exists>dg. r = Ready (Ok dg)")
    case True
    then obtain dg where r: "r = Ready (Ok dg)" ..
    let ?s = "s\<lparr>sv_mux := m\<rparr>"
    have wf: "mux_wf m" using mux_wf_get_datagram [of "sv_mux s"] srv_invD(1) [OF assms(1)] g by simp
    have s: "srv_inv ?s" "nat_of ?s = nat_of s"
      using srv_same_forwarders [of ?s s] assms(1) wf srv_invD(2) [OF assms(1)] by simp_all
    have l: "loop_label DatagramFromPeer s = Arrived dg" by (simp add: loop_label_def g r)
    show ?thesis
    proof (cases "map_of (sv_clients s) (dg_flow_id dg)")
      case None
      then obtain u where u: "new_forwarder dg ?s = Ok u" using new_forwarder_Ok by blast
      with assms(2) None have "t = u" by (simp add: server_loop_step_def g r)
      with new_forwarder_refines [OF s(1) _ u, of resolves] None s(2) l show ?thesis by simp
    next
      case (Some k)
      with assms(2) have "t = send_to_forwarder k dg ?s" by (simp add: server_loop_step_def g r)
      with send_to_forwarder_refines [OF s(1), of dg k resolves] Some s(2) l show ?thesis by simp
    qed
  qed (use assms in \<open>auto simp: server_loop_step_def loop_label_def g nat_quiet split: poll.splits outcome.splits\<close>)
qed

lemma loop_step_refines:
  assumes "srv_inv s" and "server_loop_step ev s = (t, None)"
  shows "srv_inv t \<and> nat_step resolves (loop_label ev s) (nat_of s) (nat_of t)"
proof (cases ev)
  case (JobEnded p)
  with assms show ?thesis
    using srv_same_forwarders [of t s] srv_invD(1,2) [OF assms(1)]
    by (auto simp: server_loop_step_def loop_label_def nat_quiet split: if_splits)
next
  case StreamAccepted
  with assms show ?thesis
    using srv_same_forwarders [of t s] srv_invD(1,2) [OF assms(1)] mux_wf_accept [of "sv_mux s"]
    by (auto simp: server_loop_step_def loop_label_def nat_quiet split: prod.splits poll.splits outcome.splits)
next
  case DatagramFromPeer
  with assms show ?thesis using datagram_step_refines by blast
next
  case AnswerReady
  have wf: "mux_wf m" if "send_datagram dg (sv_mux s) = (m, r)" for dg m r
    using mux_wf_send_datagram [OF srv_invD(1) [OF assms(1)], of dg] that by simp
  have ch: "answers_ok ch" if "poll_recv (sv_datagrams s) = (ch, r)" for ch r
    using poll_recv_answers [OF srv_invD(2) [OF assms(1)]] that by simp
  have "t = s \<or> (\<exists>ch m. t = s\<lparr>sv_datagrams := ch, sv_mux := m\<rparr> \<and> mux_wf m \<and> answers_ok ch)"
    using assms(2) by (auto simp: server_loop_step_def AnswerReady dest: wf ch
      split: prod.splits poll.splits outcome.splits option.splits)
  then show ?thesis
    using srv_same_forwarders [of t s] assms(1) by (auto simp: loop_label_def AnswerReady nat_quiet)
next
  case ServerElse
  with assms(2) show ?thesis by (simp add: server_loop_step_def)
qed

lemma srv_step_refines:
  assumes "srv_inv s" and "srv_step resolves l s t"
  shows "srv_inv t \<and> nat_step resolves l (nat_of s) (nat_of t)"
  using assms(2)
proof (cases rule: srv_step.cases)
  case (srv_mux m)
  then show ?thesis
    using srv_same_forwarders [of t s] assms(1) mux_step_wf [OF srv_invD(1) [OF assms(1)]] srv_invD(2) [OF assms(1)]
    by (simp add: nat_quiet)
next
  case (srv_loop ev)
  then show ?thesis using loop_step_refines [OF assms(1)] by simp
next
  case (srv_start env k)
  from udp_forward_start_move [OF srv_invD(5) [OF assms(1) srv_start(3)] srv_start(2)]
  have "fwd_move resolves (sv_fwds s ! k) (sv_datagrams s) (udp_forward_start env (sv_fwds s ! k)) (sv_datagrams s)" .
  from fwd_move_refines [OF assms(1) srv_start(3) this] srv_start show ?thesis
    by (simp add: forwarder_start_def)
next
  case (srv_forward k env ev)
  obtain f tx where step: "udp_forward_step env ev (sv_fwds s ! k) (sv_datagrams s) = (f, tx)" by fastforce
  from fwd_move_refines [OF assms(1) srv_forward(2)
      udp_forward_step_move [OF srv_invD(5) [OF assms(1) srv_forward(2)] srv_invD(2) [OF assms(1)] step, of resolves]]
    srv_forward step show ?thesis by (simp add: forwarder_step_def)
qed

lemma srv_init_inv: "srv_init s \<Longrightarrow> srv_inv s \<and> nat_of s = Map.empty"
proof -
  assume "srv_init s"
  then obtain n opts m where o1: "bind_buffer_size n options_new = Ok opts"
    and m: "multiplexor_new (Some opts) = Ok m"
    and s: "s = \<lparr>sv_mux = m, sv_clients = [], sv_fwds = [], sv_streams = [], sv_jobs = 0,
      sv_datagrams = \<lparr>ch_queue = [], ch_cap = Some INCOMING_DATAGRAM_BUFFER_SIZE, ch_rx_open = True, ch_tx_alive = True\<rparr>\<rparr>"
    by (auto simp: srv_init_def handle_websocket_new_def outcome_simps mpsc_channel_def split: if_splits)
  from o1 have "opt_rwnd opts \<noteq> 0"
    using options_new_ok by (auto simp: bind_buffer_size_def options_ok_def)
  with m have "mux_wf m" by (auto intro: multiplexor_new_wf)
  then show ?thesis by (auto simp: srv_inv_def s answers_ok_def nat_of_def)
qed

interpretation srv: refinement srv_init "srv_step resolves" srv_inv "nat_step resolves" nat_of for resolves
proof
  show "srv_init s \<Longrightarrow> srv_inv s" for s using srv_init_inv by blast
  show "srv_inv s \<Longrightarrow> srv_step resolves l s t \<Longrightarrow> srv_inv t" for s l t using srv_step_refines by blast
  show "srv_inv s \<Longrightarrow> srv_step resolves l s t \<Longrightarrow> nat_step resolves l (nat_of s) (nat_of t)" for s l t
    using srv_step_refines by blast
qed

section \<open>Properties\<close>

lemma send_datagram_no_panic [simp]: "send_datagram dg m \<noteq> (m', Panic)"
  by (auto simp: send_datagram_def finalize_datagram split: prod.splits bool.splits if_splits)

lemma new_forwarder_no_panic [simp]: "new_forwarder dg u \<noteq> Panic" "new_forwarder dg u \<noteq> Err e"
  using new_forwarder_Ok [of dg u] by auto

lemma server_loop_no_panic: "ev \<noteq> JobEnded True \<Longrightarrow> ev = ServerElse \<or> snd (server_loop_step ev t) = None"
  by (auto simp: server_loop_step_def
    split: server_event.splits prod.splits poll.splits outcome.splits option.splits if_splits)

text \<open>
  C12: In every interleaving of the server's loop, the multiplexor and the UDP forwarders of a tunnel, the server
  behaves like a table of sessions: each observable step (a datagram arriving, one sent to the network, an answer queued, a
  session ending) is a step of the specification \<open>nat_step\<close>, which starts from the empty table.
\<close>

theorem server_udp_refines:
  assumes "srv_init s" and "run (srv_step resolves) s ls t"
  shows "run (nat_step resolves) Map.empty ls (nat_of t)"
  using srv.run_refines [OF assms(2,1)] srv_init_inv [OF assms(1)] by simp

text \<open>
  Per flow, the datagrams the server sends to the network are a subsequence of those that arrived from the client for that
  flow: nothing is invented, repeated, reordered or sent under another flow, and each goes to the host and port it names.
\<close>

theorem server_udp_in_order:
  assumes "srv_init s" and "run (srv_step resolves) s ls t"
  shows "\<exists>dgs. subseq dgs (arrived_of i ls) \<and> list_all2 (carries resolves) dgs (sent_of i ls)"
proof -
  have "run (nat_step resolves) Map.empty ls (nat_of t)"
    using srv.run_refines [OF assms(2,1)] srv_init_inv [OF assms(1)] by simp
  from nat_run_subsequence [OF this refl, of i] obtain dgs
    where "subseq (dgs @ queue_of (nat_of t) i) (arrived_of i ls)" "list_all2 (carries resolves) dgs (sent_of i ls)" by blast
  moreover have "subseq dgs (dgs @ queue_of (nat_of t) i)" using subseq_append' [of dgs "[]"] by simp
  ultimately show ?thesis using subseq_order.trans by blast
qed

text \<open>
  C23: In every reachable state the map and the forwarders agree: a flow has at most one running forwarder and it is the one in
  the map; and no branch of the loop panics, except for a forwarder task that itself panicked.
\<close>

theorem server_clients_consistent:
  assumes "srv_init s" and "run (srv_step resolves) s ls t"
  shows "(\<forall>j k. j < length (sv_fwds t) \<and> k < length (sv_fwds t) \<and> session_of (sv_fwds t ! j) \<noteq> None
        \<and> session_of (sv_fwds t ! k) \<noteq> None \<and> uf_flow_id (sv_fwds t ! j) = uf_flow_id (sv_fwds t ! k) \<longrightarrow> j = k)
    \<and> (\<forall>k < length (sv_fwds t). session_of (sv_fwds t ! k) \<noteq> None \<longrightarrow>
        map_of (sv_clients t) (uf_flow_id (sv_fwds t ! k)) = Some k \<and> ch_rx_open (uf_rx (sv_fwds t ! k)))
    \<and> (\<forall>ev. ev \<noteq> JobEnded True \<longrightarrow> snd (server_loop_step ev t) \<noteq> Some Panic)"
proof -
  have inv: "srv_inv t" using srv.run_refines [OF assms(2,1)] by blast
  note D = srv_invD [OF inv]
  have opened: "ch_rx_open (uf_rx (sv_fwds t ! k))" if "k < length (sv_fwds t)" "session_of (sv_fwds t ! k) \<noteq> None" for k
    using D(5) [OF that(1)] that(2) by (simp add: fwd_ok_def)
  have unique: "j = k" if "j < length (sv_fwds t)" "k < length (sv_fwds t)" "session_of (sv_fwds t ! j) \<noteq> None"
    "session_of (sv_fwds t ! k) \<noteq> None" "uf_flow_id (sv_fwds t ! j) = uf_flow_id (sv_fwds t ! k)" for j k
    using D(6) [OF that(1,3)] D(6) [OF that(2,4)] that(5) by (metis option.inject)
  show ?thesis
  proof (intro conjI allI impI)
    fix k assume "k < length (sv_fwds t)" "session_of (sv_fwds t ! k) \<noteq> None"
    then show "map_of (sv_clients t) (uf_flow_id (sv_fwds t ! k)) = Some k" "ch_rx_open (uf_rx (sv_fwds t ! k))"
      by (rule D(6), rule opened)
  next
    fix ev assume "ev \<noteq> JobEnded True"
    from server_loop_no_panic [OF this, of t] show "snd (server_loop_step ev t) \<noteq> Some Panic"
      by (auto simp: server_loop_step_def [of ServerElse])
  qed (use unique in blast)
qed

text \<open>
  The loop of a tunnel never returns, since the \<open>else\<close> branch needs the answer channel to end and the loop itself keeps a
  sender of it: also once the connection is gone, when nothing is queued and no job is left, no branch can ever be
  taken, and the task with everything it holds stays.
\<close>

theorem server_loop_never_returns:
  assumes "srv_init s" and "run (srv_step resolves) s ls t"
  shows "\<not> server_branch_enabled ServerElse t
    \<and> (\<forall>ev. server_branch_enabled ev t \<and> ev \<noteq> JobEnded True \<longrightarrow> snd (server_loop_step ev t) = None)
    \<and> (sv_jobs t = 0 \<and> ch_queue (con_recv (sv_mux t)) = [] \<and> ch_queue (datagram_ch (sv_mux t)) = [] \<and> ch_queue (sv_datagrams t) = [] \<longrightarrow>
        (\<forall>ev. \<not> server_branch_enabled ev (t\<lparr>sv_mux := task_exit (sv_mux t)\<rparr>)))"
proof -
  have inv: "srv_inv t" using srv.run_refines [OF assms(2,1)] by blast
  have ch: "ch_rx_open (sv_datagrams t)" "ch_tx_alive (sv_datagrams t)"
    using srv_invD(2) [OF inv] by (simp_all add: answers_ok_def)
  have pend: "snd (poll_recv (sv_datagrams t)) \<noteq> Ready None"
    using ch by (auto simp: poll_recv_def split: list.split)
  have else_off: "\<not> server_branch_enabled ServerElse t" using pend by (simp add: server_branch_enabled_def)
  then have "snd (server_loop_step ev t) = None" if "server_branch_enabled ev t" "ev \<noteq> JobEnded True" for ev
    using server_loop_no_panic [OF that(2)] that(1) by blast
  moreover have "\<not> server_branch_enabled ev (t\<lparr>sv_mux := task_exit (sv_mux t)\<rparr>)"
    if "sv_jobs t = 0" "ch_queue (con_recv (sv_mux t)) = []" "ch_queue (datagram_ch (sv_mux t)) = []" "ch_queue (sv_datagrams t) = []" for ev
    using that ch by (cases ev) (auto simp: server_branch_enabled_def accept_stream_channel_def get_datagram_def task_exit_def
      drop_tx_def poll_recv_def ok_or_closed_def)
  ultimately show ?thesis using else_off by blast
qed

section \<open>Witnesses\<close>

text \<open>A datagram arrives, a forwarder is created for it, and it sends the datagram to the address the resolver names.\<close>

definition srv0 :: server_conn where
  "srv0 = \<lparr>sv_mux = \<lparr>flows = [], tx_frame = mpsc_unbounded, dropped_ports = mpsc_unbounded,
       con_recv = \<lparr>ch_queue = [], ch_cap = Some 16, ch_rx_open = True, ch_tx_alive = True\<rparr>,
       datagram_ch = \<lparr>ch_queue = [], ch_cap = Some 512, ch_rx_open = True, ch_tx_alive = True\<rparr>,
       bnd_request = None, cells = [], stream_os = [], bind_os = [], woken = [], susp = None, mux_rwnd = 512,
       mux_threshold = 256, mux_retries = 3\<rparr>,
     sv_clients = [], sv_fwds = [], sv_streams = [], sv_jobs = 0,
     sv_datagrams = \<lparr>ch_queue = [], ch_cap = Some 64, ch_rx_open = True, ch_tx_alive = True\<rparr>\<rparr>"

definition dns :: datagram where
  "dns = \<lparr>dg_flow_id = 7, dg_target_host = [104], dg_target_port = 53, dg_data = [1, 2, 3, 4]\<rparr>"

definition net0 :: net_env where
  "net0 = \<lparr>ne_lookup = (\<lambda>h p. Ok [SocketV4 9 p]), ne_bind = (\<lambda>k a. Ok \<lparr>us_id = k, us_local_addr = Some (SocketV4 1 2)\<rparr>),
     ne_send = (\<lambda>sock d t. Ok ())\<rparr>"

definition resolves0 :: "string \<Rightarrow> u16 \<Rightarrow> socket_addr \<Rightarrow> bool" where
  "resolves0 h p a \<longleftrightarrow> a = SocketV4 9 p"

definition srv1 :: server_conn where
  "srv1 = srv0\<lparr>sv_mux := (sv_mux srv0)\<lparr>datagram_ch := ch_push dns (datagram_ch (sv_mux srv0))\<rparr>\<rparr>"

definition srv2 :: server_conn where
  "srv2 = fst (server_loop_step DatagramFromPeer srv1)"

definition srv3 :: server_conn where
  "srv3 = forwarder_start net0 0 srv2"

lemma srv0_init: "handle_websocket_new False = Ok srv0"
  by (simp add: srv0_def handle_websocket_new_def bind_buffer_size_def options_new_def multiplexor_new_def mpsc_channel_def
    INCOMING_DATAGRAM_BUFFER_SIZE_def BIND_BUFFER_SIZE_def)

lemma srv0_simps: "sv_clients srv0 = []" "sv_fwds srv0 = []" "sv_jobs srv0 = 0"
  "sv_datagrams srv0 = \<lparr>ch_queue = [], ch_cap = Some 64, ch_rx_open = True, ch_tx_alive = True\<rparr>"
  "datagram_ch (sv_mux srv0) = \<lparr>ch_queue = [], ch_cap = Some 512, ch_rx_open = True, ch_tx_alive = True\<rparr>"
  "ch_queue (con_recv (sv_mux srv0)) = []"
  by (simp_all add: srv0_def)

lemma srv2_simps: "sv_fwds srv2 = [udp_forward_on dns \<lparr>ch_queue = [], ch_cap = Some 64, ch_rx_open = True, ch_tx_alive = True\<rparr>]"
  "server_loop_step DatagramFromPeer srv1 = (srv2, None)" "server_branch_enabled DatagramFromPeer srv1"
  "loop_label DatagramFromPeer srv1 = Arrived dns" "sv_datagrams srv2 = sv_datagrams srv0"
  by (simp_all add: srv2_def srv1_def srv0_simps server_loop_step_def get_datagram_def poll_recv_def ch_push_def ok_or_closed_def
    new_forwarder_def mpsc_channel_def INCOMING_DATAGRAM_BUFFER_SIZE_def server_branch_enabled_def loop_label_def)

lemma srv3_simps: "sv_fwds srv3 ! 0 = (udp_forward_on dns \<lparr>ch_queue = [], ch_cap = Some 64, ch_rx_open = True, ch_tx_alive = True\<rparr>)
     \<lparr>uf_point := ForwardLoop \<lparr>us_id = 0, us_local_addr = Some (SocketV4 1 2)\<rparr>, uf_sent := [([1, 2, 3, 4], ToAddr (SocketV4 9 53))]\<rparr>"
  "sv_datagrams srv3 = sv_datagrams srv2"
  by (simp_all add: srv3_def forwarder_start_def srv2_simps udp_forward_start_def udp_forward_on_def from_utf8_def dns_def net0_def
    bind_for_target_def)

lemma run_srv3: "run (srv_step resolves0) srv0 [Quiet, Arrived dns, ToNet 7 ([1, 2, 3, 4], ToAddr (SocketV4 9 53))] srv3"
proof -
  have m: "process_message (Binary (finalized_bytes (fin (new_datagram_owned 7 [104] 53 [1, 2, 3, 4])))) False (sv_mux srv0) =
      ((sv_mux srv0)\<lparr>datagram_ch := ch_push dns (datagram_ch (sv_mux srv0))\<rparr>, Ready (Ok False))"
    using process_datagram [of dns False "sv_mux srv0"] by (simp add: dns_def srv0_simps ch_full_def)
  have 1: "srv_step resolves0 Quiet srv0 srv1"
    unfolding srv1_def using step_message [of "sv_mux srv0"] m by (metis fst_conv srv_mux)
  have 2: "srv_step resolves0 (Arrived dns) srv1 srv2"
    using srv_loop [OF srv2_simps(3,2)] srv2_simps(4) by simp
  have "lookup_sound resolves0 net0" by (simp add: lookup_sound_def resolves0_def net0_def)
  from srv_start [OF this _ refl, of 0 srv2]
  have 3: "srv_step resolves0 (ToNet 7 ([1, 2, 3, 4], ToAddr (SocketV4 9 53))) srv2 srv3"
    using srv3_simps by (simp add: srv2_simps flip: srv3_def) (simp add: forward_label_def udp_forward_on_def dns_def)
  have "run (srv_step resolves0) srv0 [] srv0" by (rule run.run_start)
  from run.run_step [OF this 1] have "run (srv_step resolves0) srv0 [Quiet] srv1" by simp
  from run.run_step [OF this 2] have "run (srv_step resolves0) srv0 [Quiet, Arrived dns] srv2" by simp
  from run.run_step [OF this 3] show ?thesis by simp
qed

lemma srv0_srv_init: "srv_init srv0"
  using srv0_init by (auto simp: srv_init_def)

theorem server_udp_refines_witness:
  "run (nat_step resolves0) Map.empty [Quiet, Arrived dns, ToNet 7 ([1, 2, 3, 4], ToAddr (SocketV4 9 53))] (nat_of srv3)"
  by (rule server_udp_refines [OF srv0_srv_init run_srv3])

theorem server_udp_in_order_witness:
  "\<exists>dgs. subseq dgs [dns] \<and> list_all2 (carries resolves0) dgs [([1, 2, 3, 4], ToAddr (SocketV4 9 53))]"
  using server_udp_in_order [OF srv0_srv_init run_srv3, of 7] by (simp add: dns_def)

theorem server_clients_consistent_witness:
  "snd (server_loop_step DatagramFromPeer srv3) \<noteq> Some Panic"
  using server_clients_consistent [OF srv0_srv_init run_srv3] by blast

theorem server_loop_never_returns_witness:
  "\<not> server_branch_enabled ServerElse srv3 \<and> (\<forall>ev. \<not> server_branch_enabled ev (srv0\<lparr>sv_mux := task_exit (sv_mux srv0)\<rparr>))"
  using server_loop_never_returns [OF srv0_srv_init run_srv3]
    server_loop_never_returns [OF srv0_srv_init run.run_start [of "srv_step resolves0"]] srv0_simps by simp

end
