(* ===== verification/Parse_Remote.thy ===== *)
theory Parse_Remote
  imports Rust_Strings
begin

text \<open>
  \<open>src/src/parse_remote.rs\<close>: the specification of a tunnel on the command line, its tokenizer, parser and
  printer. The feature \<open>default-is-ipv6\<close> is the Boolean argument \<open>v6\<close>. Slicing past the end of a
  string panics, as in Rust.
\<close>

section \<open>Data\<close>

definition default_host_local :: "bool \<Rightarrow> string" where
  "default_host_local v6 = (if v6 then ''::1'' else ''127.0.0.1'')"

definition default_host_unspec :: "bool \<Rightarrow> string" where
  "default_host_unspec v6 = (if v6 then ''::'' else ''0.0.0.0'')"

datatype local_spec = LocalInet string u16 | Stdio
datatype remote_spec = RemoteInet string u16 | Socks
datatype protocol = Tcp | Udp

record remote =
  local_addr :: local_spec
  remote_addr :: remote_spec
  rem_protocol :: protocol

datatype remote_error = RFormat | RProtocol | RHost | RPort parse_int_error | UdpSocks

definition show_protocol :: "protocol \<Rightarrow> string" where
  "show_protocol p = (case p of Tcp \<Rightarrow> ''tcp'' | Udp \<Rightarrow> ''udp'')"

definition protocol_from_str :: "string \<Rightarrow> (remote_error, protocol) outcome" where
  "protocol_from_str s =
     (let l = to_lowercase s in if l = ''tcp'' then Ok Tcp else if l = ''udp'' then Ok Udp else Err RProtocol)"

section \<open>Parsing\<close>

definition remove_brackets :: "string \<Rightarrow> string" where
  "remove_brackets s =
     (if starts_with CHR ''['' s \<and> ends_with CHR '']'' s then butlast (tl s) else s)"

function tokenize_remote :: "string \<Rightarrow> (remote_error, string list) outcome" where
  "tokenize_remote stuff =
     (if starts_with CHR ''['' stuff then
        (case find_char CHR '']'' stuff of
           None \<Rightarrow> Err RHost
         | Some pos \<Rightarrow>
             let end' = pos + 1; after = drop end' stuff
             in if after \<noteq> [] \<and> \<not> starts_with CHR '':'' after then Err RFormat
                else (case slice_from (end' + 1) stuff of
                    Ok stuff' \<Rightarrow> obind (tokenize_remote stuff') (\<lambda>ts. Ok (take end' stuff # ts))
                  | Err e \<Rightarrow> Err e
                  | Panic \<Rightarrow> Panic))
      else (case split_once CHR '':'' stuff of
          Some (token, rest) \<Rightarrow> obind (tokenize_remote rest) (\<lambda>ts. Ok (token # ts))
        | None \<Rightarrow> Ok [stuff]))"
  by pat_completeness auto

termination
proof (relation "measure length")
  fix stuff stuff' pos end' after
  assume "find_char CHR '']'' stuff = Some pos" "end' = pos + 1" "after = drop end' stuff"
    "slice_from (end' + 1) stuff = Ok stuff'"
  then show "(stuff', stuff) \<in> measure length" by (auto simp: slice_from_def split: if_splits)
next
  fix stuff p token rest
  assume "split_once CHR '':'' stuff = Some p" "(token, rest) = p"
  then show "(rest, stuff) \<in> measure length" using split_once_SomeD [of "CHR '':''" stuff token rest] by auto
qed simp

declare tokenize_remote.simps [simp del]

definition parse_port :: "string \<Rightarrow> (remote_error, u16) outcome" where
  "parse_port s = map_err RPort (parse_u16 s)"

text \<open>The match on the tokens; the arms are tried in the order of the source.\<close>

definition tokens_to_remote :: "bool \<Rightarrow> protocol \<Rightarrow> string list \<Rightarrow> (remote_error, remote) outcome" where
  "tokens_to_remote v6 proto tokens =
     (let mk = (\<lambda>l r. \<lparr>local_addr = l, remote_addr = r, rem_protocol = proto\<rparr>) in
      case tokens of
        [a] \<Rightarrow>
          if a = ''socks'' then Ok (mk (LocalInet (default_host_local v6) 1080) Socks)
          else obind (parse_port a) (\<lambda>p. obind (parse_port a) (\<lambda>q.
               Ok (mk (LocalInet (default_host_unspec v6) p) (RemoteInet (default_host_local v6) q))))
      | [a, b] \<Rightarrow>
          if a = ''stdio'' \<and> b = ''socks'' then Ok (mk Stdio Socks)
          else if b = ''socks'' then obind (parse_port a) (\<lambda>p. Ok (mk (LocalInet (default_host_local v6) p) Socks))
          else if a = ''stdio'' then obind (parse_port b) (\<lambda>p. Ok (mk Stdio (RemoteInet (default_host_local v6) p)))
          else obind (parse_port b) (\<lambda>p. obind (parse_port b) (\<lambda>q.
               Ok (mk (LocalInet (default_host_unspec v6) p) (RemoteInet (remove_brackets a) q))))
      | [a, b, c] \<Rightarrow>
          if a = ''stdio'' then obind (parse_port c) (\<lambda>p. Ok (mk Stdio (RemoteInet (remove_brackets b) p)))
          else if c = ''socks'' then obind (parse_port b) (\<lambda>p. Ok (mk (LocalInet (remove_brackets a) p) Socks))
          else obind (parse_port a) (\<lambda>p. obind (parse_port c) (\<lambda>q.
               Ok (mk (LocalInet (default_host_unspec v6) p) (RemoteInet (remove_brackets b) q))))
      | [a, b, c, d] \<Rightarrow>
          obind (parse_port b) (\<lambda>p. obind (parse_port d) (\<lambda>q.
          Ok (mk (LocalInet (remove_brackets a) p) (RemoteInet (remove_brackets c) q))))
      | _ \<Rightarrow> Err RFormat)"

definition remote_from_str :: "bool \<Rightarrow> string \<Rightarrow> (remote_error, remote) outcome" where
  "remote_from_str v6 s =
     obind (case rsplit_once CHR ''/'' s of
              Some (rest, proto) \<Rightarrow> obind (protocol_from_str proto) (\<lambda>p. Ok (rest, p))
            | None \<Rightarrow> Ok (s, Tcp)) (\<lambda>(rest, proto).
     obind (tokenize_remote rest) (\<lambda>tokens.
     obind (tokens_to_remote v6 proto tokens) (\<lambda>result.
     if remote_addr result = Socks \<and> rem_protocol result = Udp then Err UdpSocks else Ok result)))"

section \<open>Printing\<close>

definition show_host_port :: "string \<Rightarrow> u16 \<Rightarrow> string" where
  "show_host_port host port =
     (if CHR '':'' \<in> set host then ''['' @ host @ '']:'' @ show_u16 port else host @ '':'' @ show_u16 port)"

definition show_remote :: "remote \<Rightarrow> string" where
  "show_remote r =
     (case local_addr r of LocalInet host port \<Rightarrow> show_host_port host port | Stdio \<Rightarrow> ''stdio'')
     @ (case remote_addr r of RemoteInet host port \<Rightarrow> '':'' @ show_host_port host port | Socks \<Rightarrow> '':socks'')
     @ ''/'' @ show_protocol (rem_protocol r)"

section \<open>Tokens\<close>

text \<open>A token the printer writes: a bracketed host with a colon in it, or a string free of colons.\<close>

definition host_token :: "string \<Rightarrow> string" where
  "host_token h = (if CHR '':'' \<in> set h then ''['' @ h @ '']'' else h)"

definition host_ok :: "string \<Rightarrow> bool" where
  "host_ok h \<longleftrightarrow> (if CHR '':'' \<in> set h then CHR '']'' \<notin> set h else \<not> starts_with CHR ''['' h)"

lemma starts_with_simps [simp]: "starts_with c [] = False" "starts_with c (d # ds) = (d = c)"
  by (simp_all add: starts_with_def)

lemma find_char_bracket: "CHR '']'' \<notin> set h \<Longrightarrow> find_char CHR '']'' (CHR ''['' # h @ CHR '']'' # rest) = Some (Suc (length h))"
proof -
  assume h: "CHR '']'' \<notin> set h"
  then have "takeWhile (\<lambda>d. d \<noteq> CHR '']'') (h @ CHR '']'' # rest) = h"
    by (induction h) auto
  then show ?thesis by (simp add: find_char_def)
qed

lemma tokenize_bracket:
  assumes "CHR '']'' \<notin> set h"
  shows "tokenize_remote (CHR ''['' # h @ CHR '']'' # CHR '':'' # rest) =
      obind (tokenize_remote rest) (\<lambda>ts. Ok ((''['' @ h @ '']'') # ts))"
    and "tokenize_remote (CHR ''['' # h @ '']'') = Panic"
  using find_char_bracket [OF assms, of "CHR '':'' # rest"] find_char_bracket [OF assms, of "[]"]
  by (simp_all add: tokenize_remote.simps [of "CHR ''['' # _"] slice_from_def)

lemma tokenize_plain:
  assumes "CHR '':'' \<notin> set t" and "\<not> starts_with CHR ''['' t"
  shows "tokenize_remote (t @ CHR '':'' # rest) = obind (tokenize_remote rest) (\<lambda>ts. Ok (t # ts))"
    and "tokenize_remote t = Ok [t]"
proof -
  have "\<not> starts_with CHR ''['' (t @ CHR '':'' # rest)" using assms(2) by (cases t) auto
  with assms(1) show "tokenize_remote (t @ CHR '':'' # rest) = obind (tokenize_remote rest) (\<lambda>ts. Ok (t # ts))"
    by (subst tokenize_remote.simps) simp
  from assms show "tokenize_remote t = Ok [t]" by (subst tokenize_remote.simps) simp
qed

lemma tokenize_host:
  "host_ok h \<Longrightarrow> tokenize_remote (host_token h @ CHR '':'' # rest) = obind (tokenize_remote rest) (\<lambda>ts. Ok (host_token h # ts))"
  using tokenize_bracket(1) [of h rest] tokenize_plain(1) [of h rest]
  by (auto simp: host_ok_def host_token_def split: if_splits)

lemma show_u16_plain: "CHR '':'' \<notin> set (show_u16 p)" "\<not> starts_with CHR ''['' (show_u16 p)"
proof -
  have n: "c \<notin> set (show_u16 p)" if "to_digit c = None" for c
    using that show_nat_no_special by (simp add: show_u16_def)
  show "CHR '':'' \<notin> set (show_u16 p)" by (rule n) simp
  have "CHR ''['' \<notin> set (show_u16 p)" by (rule n) simp
  then show "\<not> starts_with CHR ''['' (show_u16 p)" by (cases "show_u16 p") auto
qed

lemma remove_brackets_host: "host_ok h \<Longrightarrow> remove_brackets (host_token h) = h"
  by (auto simp: host_ok_def host_token_def remove_brackets_def ends_with_def butlast_append split: if_splits)

lemma parse_port_show [simp]: "parse_port (show_u16 p) = Ok p"
  by (simp add: parse_port_def)

lemma parse_port_not_Panic [simp]: "parse_port s \<noteq> Panic"
  using parse_u16_not_Panic [of s] by (cases "parse_u16 s") (simp_all add: parse_port_def)

lemma show_host_port_token: "show_host_port h p = host_token h @ CHR '':'' # show_u16 p"
  by (simp add: show_host_port_def host_token_def)

lemma protocol_round: "protocol_from_str (show_protocol p) = Ok p" "CHR ''/'' \<notin> set (show_protocol p)"
  by (cases p; simp add: protocol_from_str_def show_protocol_def to_lowercase_def to_lower_def Let_def)+

lemma show_u16_not: "show_u16 p \<noteq> ''socks'' \<and> show_u16 p \<noteq> ''stdio''"
  using show_nat_no_special [of "CHR ''s''" "unat p"] by (auto simp: show_u16_def)

lemma tokenize_show_port: "tokenize_remote (show_u16 p @ CHR '':'' # rest) = obind (tokenize_remote rest) (\<lambda>ts. Ok (show_u16 p # ts))"
  "tokenize_remote (show_u16 p) = Ok [show_u16 p]"
  by (rule tokenize_plain [OF show_u16_plain])+

lemma tokenize_words:
  "tokenize_remote (CHR ''s'' # CHR ''t'' # CHR ''d'' # CHR ''i'' # CHR ''o'' # CHR '':'' # rest) = obind (tokenize_remote rest) (\<lambda>ts. Ok (''stdio'' # ts))"
  "tokenize_remote ''socks'' = Ok [''socks'']"
  using tokenize_plain(1) [of "''stdio''" rest] tokenize_plain(2) [of "''socks''"] by simp_all

definition local_tokens :: "local_spec \<Rightarrow> string list" where
  "local_tokens l = (case l of LocalInet h p \<Rightarrow> [host_token h, show_u16 p] | Stdio \<Rightarrow> [''stdio''])"

definition remote_tokens :: "remote_spec \<Rightarrow> string list" where
  "remote_tokens r = (case r of RemoteInet h p \<Rightarrow> [host_token h, show_u16 p] | Socks \<Rightarrow> [''socks''])"

definition local_ok :: "local_spec \<Rightarrow> bool" where
  "local_ok l = (case l of LocalInet h p \<Rightarrow> host_ok h | Stdio \<Rightarrow> True)"

definition remote_ok :: "remote_spec \<Rightarrow> bool" where
  "remote_ok r = (case r of RemoteInet h p \<Rightarrow> host_ok h | Socks \<Rightarrow> True)"

text \<open>What the printer writes before the protocol.\<close>

definition show_addrs :: "remote \<Rightarrow> string" where
  "show_addrs r =
     (case local_addr r of LocalInet host port \<Rightarrow> show_host_port host port | Stdio \<Rightarrow> ''stdio'')
     @ (case remote_addr r of RemoteInet host port \<Rightarrow> '':'' @ show_host_port host port | Socks \<Rightarrow> '':socks'')"

lemma tokenize_show:
  assumes "local_ok (local_addr r)" and "remote_ok (remote_addr r)"
  shows "tokenize_remote (show_addrs r) = Ok (local_tokens (local_addr r) @ remote_tokens (remote_addr r))"
  using assms
  by (auto simp: show_addrs_def local_tokens_def remote_tokens_def local_ok_def remote_ok_def show_host_port_token
      tokenize_host tokenize_show_port tokenize_words split: local_spec.splits remote_spec.splits)

lemma tokens_round:
  assumes "local_ok (local_addr r)" and "remote_ok (remote_addr r)"
    and "remote_addr r = Socks \<Longrightarrow> \<forall>p. local_addr r \<noteq> LocalInet ''stdio'' p"
  shows "tokens_to_remote v6 (rem_protocol r) (local_tokens (local_addr r) @ remote_tokens (remote_addr r)) = Ok r"
proof (cases "local_addr r"; cases "remote_addr r")
  fix h p assume r: "local_addr r = LocalInet h p" "remote_addr r = Socks"
  from assms(1) r have h: "host_ok h" by (simp add: local_ok_def)
  from assms(3) r have "h \<noteq> ''stdio''" by simp
  then have "host_token h \<noteq> ''stdio''" by (auto simp: host_token_def)
  with r h show ?thesis
    by (simp add: tokens_to_remote_def local_tokens_def remote_tokens_def remove_brackets_host)
qed (use assms in \<open>auto simp: tokens_to_remote_def local_tokens_def remote_tokens_def local_ok_def remote_ok_def
      remove_brackets_host show_u16_not\<close>)

lemma find_char_SomeD: assumes "find_char c s = Some pos" shows "pos < length s" and "s ! pos = c"
proof -
  from assms have pos: "pos = length (takeWhile (\<lambda>d. d \<noteq> c) s)" "c \<in> set s"
    by (auto simp: find_char_def Let_def split: if_splits)
  then show "pos < length s" by (metis (full_types) length_takeWhile_le linorder_neqE_nat not_less set_takeWhileD takeWhile_eq_all_conv takeWhile_eq_take take_all_iff)
  then show "s ! pos = c" using nth_length_takeWhile [of "\<lambda>d. d \<noteq> c" s] pos by simp
qed

text \<open>Joining the tokens with colons gives the text back: the tokenizer loses nothing.\<close>

fun join_tokens :: "string list \<Rightarrow> string" where
  "join_tokens [] = []"
| "join_tokens [t] = t"
| "join_tokens (t # ts) = t @ CHR '':'' # join_tokens ts"

lemma join_tokens_Cons: "ts \<noteq> [] \<Longrightarrow> join_tokens (t # ts) = t @ CHR '':'' # join_tokens ts"
  by (cases ts) auto

lemma bracket_rest:
  assumes "find_char CHR '']'' s = Some pos" and "starts_with CHR '':'' (drop (pos + 1) s)"
  shows "s = take (pos + 1) s @ CHR '':'' # drop (pos + 2) s"
proof -
  from assms(2) obtain t where t: "drop (pos + 1) s = CHR '':'' # t" by (cases "drop (pos + 1) s") auto
  then have "drop (pos + 2) s = t" by (metis add_Suc_right drop_Suc list.sel(3) tl_drop one_add_one plus_1_eq_Suc)
  with t show ?thesis by (metis append_take_drop_id)
qed

lemma tokenize_join: "tokenize_remote s = Ok ts \<Longrightarrow> ts \<noteq> [] \<and> join_tokens ts = s"
proof (induction s arbitrary: ts rule: tokenize_remote.induct)
  case (1 s)
  show ?case
  proof (cases "starts_with CHR ''['' s")
    case True
    with "1.prems" obtain pos where pos: "find_char CHR '']'' s = Some pos"
      by (auto simp: tokenize_remote.simps [of s] split: option.splits)
    with True "1.prems" obtain ts' where sl: "slice_from (pos + 1 + 1) s = (Ok (drop (pos + 2) s) :: (remote_error, string) outcome)"
      and st: "starts_with CHR '':'' (drop (pos + 1) s)"
      and ts: "tokenize_remote (drop (pos + 2) s) = Ok ts'" "ts = take (pos + 1) s # ts'"
      by (auto simp: tokenize_remote.simps [of s] slice_from_def outcome_simps split: if_splits)
    from "1.IH"(1) [OF True pos refl refl _ sl ts(1)] st have "ts' \<noteq> [] \<and> join_tokens ts' = drop (pos + 2) s"
      by auto
    with ts bracket_rest [OF pos st] show ?thesis by (simp add: join_tokens_Cons)
  next
    case False
    show ?thesis
    proof (cases "split_once CHR '':'' s")
      case None
      with False "1.prems" have "[s] = ts" by (simp add: tokenize_remote.simps [of s])
      then show ?thesis by (simp flip: \<open>[s] = ts\<close>)
    next
      case (Some p)
      obtain a b where p: "p = (a, b)" by (cases p)
      with False Some "1.prems" obtain ts' where "tokenize_remote b = Ok ts'" "ts = a # ts'"
        by (auto simp: tokenize_remote.simps [of s] outcome_simps)
      moreover from this(1) have "ts' \<noteq> [] \<and> join_tokens ts' = b"
        using "1.IH"(2) [OF False, of p a b ts'] Some p by blast
      moreover have "a @ CHR '':'' # b = s" using split_once_SomeD [of "CHR '':''" s a b] Some p by simp
      ultimately show ?thesis by (simp add: join_tokens_Cons)
    qed
  qed
qed

lemma ends_with_drop: "ends_with c (drop n s) \<Longrightarrow> ends_with c s"
  by (cases "n < length s") (auto simp: ends_with_def)

lemma tokenize_panic: "tokenize_remote s = Panic \<Longrightarrow> ends_with CHR '']'' s"
proof (induction s rule: tokenize_remote.induct)
  case (1 s)
  show ?case
  proof (cases "starts_with CHR ''['' s")
    case True
    with "1.prems" obtain pos where pos: "find_char CHR '']'' s = Some pos"
      by (auto simp: tokenize_remote.simps [of s] split: option.splits)
    then have at: "pos < length s" "s ! pos = CHR '']''" by (rule find_char_SomeD)+
    show ?thesis
    proof (cases "pos + 1 = length s")
      case last: True
      then have "s \<noteq> []" "length s - 1 = pos" by auto
      with at show ?thesis by (simp add: ends_with_def last_conv_nth)
    next
      case False
      with at True pos "1.prems" have sl: "slice_from (pos + 1 + 1) s = (Ok (drop (pos + 2) s) :: (remote_error, string) outcome)"
        and r: "tokenize_remote (drop (pos + 2) s) = Panic" and st: "starts_with CHR '':'' (drop (pos + 1) s)"
        by (auto simp: tokenize_remote.simps [of s] slice_from_def outcome_simps split: if_splits)
      from "1.IH"(1) [OF True pos refl refl _ sl r] st show ?thesis by (auto dest: ends_with_drop)
    qed
  next
    case False
    with "1.prems" obtain a b where ab: "split_once CHR '':'' s = Some (a, b)" "tokenize_remote b = Panic"
      by (auto simp: tokenize_remote.simps [of s] outcome_simps split: option.splits)
    with "1.IH"(2) [OF False, of "(a, b)" a b] split_once_SomeD [of "CHR '':''" s a b] show ?thesis
      by (auto simp: ends_with_def)
  qed
qed

lemma tokens_not_panic [simp]: "tokens_to_remote v6 proto ts \<noteq> Panic"
  by (auto simp: tokens_to_remote_def Let_def outcome_simps split: list.splits if_splits)

section \<open>Properties\<close>



text \<open>
  The parser panics on every remote that is one bracketed host, such as \<open>[::1]\<close>: the tokenizer accepts
  the end of the text after the bracket, then skips a colon that is not there by slicing past the end. This is the only
  panic: whenever the parser panics, the text in front of the protocol ends in a closing bracket.
\<close>

theorem remote_panics:
  "(CHR '']'' \<notin> set h \<and> CHR ''/'' \<notin> set h \<longrightarrow> remote_from_str v6 (''['' @ h @ '']'') = Panic)
    \<and> (remote_from_str v6 s = Panic \<longrightarrow>
      ends_with CHR '']'' (case rsplit_once CHR ''/'' s of Some (rest, proto) \<Rightarrow> rest | None \<Rightarrow> s))"
proof (intro conjI impI)
  assume "CHR '']'' \<notin> set h \<and> CHR ''/'' \<notin> set h"
  then have h: "CHR '']'' \<notin> set h" "CHR ''/'' \<notin> set h" by auto
  then have "rsplit_once CHR ''/'' (''['' @ h @ '']'') = None" by (simp add: rsplit_once_None_iff)
  with tokenize_bracket(2) [OF h(1)] show "remote_from_str v6 (''['' @ h @ '']'') = Panic"
    by (simp add: remote_from_str_def)
next
  assume "remote_from_str v6 s = Panic"
  then show "ends_with CHR '']'' (case rsplit_once CHR ''/'' s of Some (rest, proto) \<Rightarrow> rest | None \<Rightarrow> s)"
    by (auto simp: remote_from_str_def outcome_simps tokens_not_panic protocol_from_str_def Let_def
        split: option.splits prod.splits if_splits intro: tokenize_panic)
qed

theorem remote_panics_witness:
  "remote_from_str True ''[::1]'' = Panic \<and> ends_with CHR '']'' ''[::1]''"
proof -
  have r: "rsplit_once CHR ''/'' ''[::1]'' = None" by code_simp
  show ?thesis
    using remote_panics [of "''::1''" True "''[::1]''"] by (simp add: r)
qed

text \<open>
  The tokenizer loses nothing: joining the tokens of an accepted text with colons gives the text back, and an
  accepted text has at least one token.
\<close>

theorem remote_tokens_lossless: "tokenize_remote s = Ok ts \<Longrightarrow> ts \<noteq> [] \<and> join_tokens ts = s"
  by (rule tokenize_join)

theorem remote_tokens_lossless_witness:
  "tokenize_remote ''[::1]:80:a:1'' = Ok [''[::1]'', ''80'', ''a'', ''1''] \<and> join_tokens [''[::1]'', ''80'', ''a'', ''1''] = ''[::1]:80:a:1''"
proof -
  have t: "tokenize_remote ''[::1]:80:a:1'' = Ok [''[::1]'', ''80'', ''a'', ''1'']" by code_simp
  with remote_tokens_lossless [OF t] show ?thesis by blast
qed

end
