(* ===== verification/Tls_Config.thy ===== *)
theory Tls_Config
  imports Rust_Net
begin

text \<open>
  The TLS configuration of \<open>src/src/tls/mod.rs\<close> and \<open>src/src/tls/rustls.rs\<close>, with the system's certificate store
  (\<open>rustls-native-roots\<close>, the default feature). The file system, the PEM parser and rustls are the fields of \<open>tls_env\<close>:
  certificates and keys are byte strings, a root store is the list of the certificates in it.
\<close>

section \<open>Data\<close>

datatype tls_error =
    ReadCert io_error
  | EmptyClientCertStore
  | RustlsError nat
  | VerifierError nat
  | PrivateKeyNotSupported

type_synonym cert_chain = "bytes list"

text \<open>
  \<open>te_root_error\<close> is what \<open>RootCertStore::add\<close> returns for a certificate; \<open>add_parsable_certificates\<close> takes the certificates without
  error. \<open>te_native_certs\<close> is \<open>None\<close> where loading the system's certificates fails. \<open>te_webpki\<close> is rustls's verification of a
  chain for a server name against a store, \<open>te_signature\<close> of a handshake signature.
\<close>

record tls_env =
  te_read :: "string \<Rightarrow> (io_error, bytes) outcome"
  te_pem_certs :: "bytes \<Rightarrow> (io_error, cert_chain) outcome"
  te_pem_key :: "bytes \<Rightarrow> (io_error, bytes option) outcome"
  te_serialize_key :: "string \<Rightarrow> bytes"
  te_root_error :: "bytes \<Rightarrow> nat option"
  te_native_certs :: "bytes list option"
  te_build_verifier :: "bytes list \<Rightarrow> (nat, unit) outcome"
  te_single_cert :: "cert_chain \<Rightarrow> bytes \<Rightarrow> (nat, unit) outcome"
  te_client_auth_cert :: "cert_chain \<Rightarrow> bytes \<Rightarrow> (nat, unit) outcome"
  te_crypto_provider :: bool
  te_webpki :: "bytes list \<Rightarrow> cert_chain \<Rightarrow> string \<Rightarrow> (nat, unit) outcome"
  te_signature :: "bytes \<Rightarrow> bytes \<Rightarrow> bytes \<Rightarrow> (nat, unit) outcome"

record server_config =
  sc_certs :: cert_chain
  sc_key :: bytes
  sc_client_roots :: "bytes list option"
  sc_alpn :: "bytes list"

datatype server_verifier = WebPkiVerifier "bytes list" | EmptyVerifier

record client_config =
  cc_verifier :: server_verifier
  cc_client_auth :: "(cert_chain \<times> bytes) option"
  cc_alpn :: "bytes list"

definition TLS_ALPN :: "string list" where
  "TLS_ALPN = [''h2'', ''http/1.1'']"

section \<open>Loading\<close>

text \<open>The PEM certificates of a file are collected when it is read; their error is raised after the key has been read.\<close>

definition try_load_certificate ::
  "tls_env \<Rightarrow> string option \<Rightarrow> string option \<Rightarrow> (tls_error, (cert_chain \<times> bytes) option) outcome" where
  "try_load_certificate env tls_key tls_cert = (case (tls_key, tls_cert) of
       (Some key, Some cert) \<Rightarrow>
         obind (map_err ReadCert (te_read env cert)) (\<lambda>certs.
         obind (map_err ReadCert (te_read env key)) (\<lambda>key.
         obind (map_err ReadCert (te_pem_key env key)) (\<lambda>key.
         case key of
           None \<Rightarrow> Err PrivateKeyNotSupported
         | Some key \<Rightarrow> obind (map_err ReadCert (te_pem_certs env certs)) (\<lambda>certs. Ok (Some (certs, key))))))
     | _ \<Rightarrow> Ok None)"

definition load_ca_store :: "tls_env \<Rightarrow> string \<Rightarrow> (tls_error, bytes list) outcome" where
  "load_ca_store env ca_path =
     obind (map_err ReadCert (te_read env ca_path)) (\<lambda>client_ca.
     obind (map_err ReadCert (te_pem_certs env client_ca)) (\<lambda>certs.
     let store = filter (\<lambda>c. te_root_error env c = None) certs
     in if store = [] then Err EmptyClientCertStore else Ok store))"

primrec add_all :: "tls_env \<Rightarrow> bytes list \<Rightarrow> bytes list \<Rightarrow> (tls_error, bytes list) outcome" where
  "add_all env roots [] = Ok roots"
| "add_all env roots (c # cs) =
     (case te_root_error env c of None \<Rightarrow> add_all env (roots @ [c]) cs | Some e \<Rightarrow> Err (RustlsError e))"

definition get_system_certs :: "tls_env \<Rightarrow> (tls_error, bytes list) outcome" where
  "get_system_certs env = obind (expect (te_native_certs env)) (add_all env [])"

definition generate_rustls_rootcertstore :: "tls_env \<Rightarrow> string option \<Rightarrow> (tls_error, bytes list) outcome" where
  "generate_rustls_rootcertstore env custom_ca_path = (case custom_ca_path of
       Some p \<Rightarrow> load_ca_store env p
     | None \<Rightarrow> get_system_certs env)"

section \<open>Server\<close>

definition make_server_config_from_mem ::
  "tls_env \<Rightarrow> cert_chain \<Rightarrow> bytes \<Rightarrow> string option \<Rightarrow> (tls_error, server_config) outcome" where
  "make_server_config_from_mem env certs key client_ca_path =
     obind (case client_ca_path of
              Some p \<Rightarrow>
                obind (load_ca_store env p) (\<lambda>store.
                obind (map_err VerifierError (te_build_verifier env store)) (\<lambda>_. Ok (Some store)))
            | None \<Rightarrow> Ok None) (\<lambda>client_roots.
     obind (map_err RustlsError (te_single_cert env certs key)) (\<lambda>_.
     Ok \<lparr>sc_certs = certs, sc_key = key, sc_client_roots = client_roots,
         sc_alpn = [str_bytes ''h2'', str_bytes ''http/1.1'']\<rparr>))"

definition make_server_config ::
  "tls_env \<Rightarrow> string \<Rightarrow> string \<Rightarrow> string option \<Rightarrow> (tls_error, server_config) outcome" where
  "make_server_config env cert_path key_path client_ca_path =
     obind (try_load_certificate env (Some key_path) (Some cert_path)) (\<lambda>loaded.
     obind (expect loaded) (\<lambda>(certs, key). make_server_config_from_mem env certs key client_ca_path))"

definition make_server_config_from_rcgen_pem ::
  "tls_env \<Rightarrow> string \<Rightarrow> string \<Rightarrow> string option \<Rightarrow> (tls_error, server_config) outcome" where
  "make_server_config_from_rcgen_pem env certs keypair client_ca_path =
     obind (map_err ReadCert (te_pem_key env (te_serialize_key env keypair))) (\<lambda>key.
     obind (ok_or PrivateKeyNotSupported key) (\<lambda>key.
     obind (map_err ReadCert (te_pem_certs env (str_bytes certs))) (\<lambda>certs.
     make_server_config_from_mem env certs key client_ca_path)))"

text \<open>
  \<open>TlsIdentity\<close> is a shared cell: here its content. \<open>identity.store\<close> replaces it, only after the new configuration has been made.
\<close>

definition make_tls_identity ::
  "tls_env \<Rightarrow> string \<Rightarrow> string \<Rightarrow> string option \<Rightarrow> (tls_error, server_config) outcome" where
  "make_tls_identity env cert_path key_path client_ca_path = make_server_config env cert_path key_path client_ca_path"

definition make_tls_identity_from_rcgen_pem ::
  "tls_env \<Rightarrow> string \<Rightarrow> string \<Rightarrow> string option \<Rightarrow> (tls_error, server_config) outcome" where
  "make_tls_identity_from_rcgen_pem env certs keypair client_ca_path =
     make_server_config_from_rcgen_pem env certs keypair client_ca_path"

definition identity_store ::
  "(tls_error, server_config) outcome \<Rightarrow> server_config \<Rightarrow> server_config \<times> (tls_error, unit) outcome" where
  "identity_store new identity = (case new of
       Ok new \<Rightarrow> (new, Ok ())
     | Err e \<Rightarrow> (identity, Err e)
     | Panic \<Rightarrow> (identity, Panic))"

definition reload_tls_identity ::
  "tls_env \<Rightarrow> string \<Rightarrow> string \<Rightarrow> string option \<Rightarrow> server_config \<Rightarrow> server_config \<times> (tls_error, unit) outcome" where
  "reload_tls_identity env cert_path key_path client_ca_path =
     identity_store (make_server_config env cert_path key_path client_ca_path)"

definition reload_tls_identity_from_rcgen_pem ::
  "tls_env \<Rightarrow> string \<Rightarrow> string \<Rightarrow> string option \<Rightarrow> server_config \<Rightarrow> server_config \<times> (tls_error, unit) outcome" where
  "reload_tls_identity_from_rcgen_pem env certs keypair client_ca_path =
     identity_store (make_server_config_from_rcgen_pem env certs keypair client_ca_path)"

section \<open>Client\<close>

definition make_client_config ::
  "tls_env \<Rightarrow> string option \<Rightarrow> string option \<Rightarrow> string option \<Rightarrow> bool \<Rightarrow> string list option
   \<Rightarrow> (tls_error, client_config) outcome" where
  "make_client_config env cert_path key_path ca_path tls_skip_verify tls_alpn =
     obind (generate_rustls_rootcertstore env ca_path) (\<lambda>roots.
     obind (try_load_certificate env key_path cert_path) (\<lambda>client_certificate.
     obind (if tls_skip_verify then (if te_crypto_provider env then Ok EmptyVerifier else Panic)
            else Ok (WebPkiVerifier roots)) (\<lambda>verifier.
     obind (case client_certificate of
              Some (cert_chain, key_der) \<Rightarrow> map_err RustlsError (te_client_auth_cert env cert_chain key_der)
            | None \<Rightarrow> Ok ()) (\<lambda>_.
     Ok \<lparr>cc_verifier = verifier, cc_client_auth = client_certificate,
         cc_alpn = (case tls_alpn of None \<Rightarrow> [] | Some ps \<Rightarrow> map str_bytes ps)\<rparr>))))"

definition make_tls_connector ::
  "tls_env \<Rightarrow> string option \<Rightarrow> string option \<Rightarrow> string option \<Rightarrow> bool \<Rightarrow> (tls_error, client_config) outcome" where
  "make_tls_connector env tls_cert tls_key tls_ca tls_insecure =
     make_client_config env tls_cert tls_key tls_ca tls_insecure (Some TLS_ALPN)"

text \<open>The verifier of a configuration on a server's chain, and on a handshake signature (TLS 1.2 and 1.3 alike).\<close>

definition verify_server_cert :: "tls_env \<Rightarrow> server_verifier \<Rightarrow> cert_chain \<Rightarrow> string \<Rightarrow> (nat, unit) outcome" where
  "verify_server_cert env v chain server_name = (case v of
       WebPkiVerifier roots \<Rightarrow> te_webpki env roots chain server_name
     | EmptyVerifier \<Rightarrow> Ok ())"

definition verify_tls_signature :: "tls_env \<Rightarrow> server_verifier \<Rightarrow> bytes \<Rightarrow> bytes \<Rightarrow> bytes \<Rightarrow> (nat, unit) outcome" where
  "verify_tls_signature env v message cert dss = te_signature env message cert dss"

section \<open>Lemmas\<close>

lemma load_ca_store_Ok:
  "load_ca_store env p = Ok store \<longleftrightarrow>
     (\<exists>pem certs. te_read env p = Ok pem \<and> te_pem_certs env pem = Ok certs
        \<and> store = filter (\<lambda>c. te_root_error env c = None) certs \<and> store \<noteq> [])"
proof (cases "te_read env p")
  case (Ok pem)
  then show ?thesis by (cases "te_pem_certs env pem") (auto simp: load_ca_store_def Let_def)
qed (simp_all add: load_ca_store_def)

lemma add_all_Ok: "add_all env roots cs = Ok store \<longleftrightarrow> (\<forall>c\<in>set cs. te_root_error env c = None) \<and> store = roots @ cs"
  by (induction cs arbitrary: roots) (auto split: option.splits)

text \<open>A configuration that was asked to check clients against a store does so, and the store is not empty.\<close>

definition checks_clients :: "string option \<Rightarrow> server_config \<Rightarrow> bool" where
  "checks_clients client_ca c \<longleftrightarrow> (case sc_client_roots c of
       None \<Rightarrow> client_ca = None
     | Some store \<Rightarrow> client_ca \<noteq> None \<and> store \<noteq> [])"

lemma make_server_config_from_mem_checks:
  "make_server_config_from_mem env certs key ca = Ok c \<Longrightarrow> checks_clients ca c"
  by (auto simp: make_server_config_from_mem_def checks_clients_def load_ca_store_Ok outcome_simps split: option.splits)

lemma make_server_config_checks:
  "make_server_config env cert_path key_path ca = Ok c \<Longrightarrow> checks_clients ca c"
  by (auto simp: make_server_config_def outcome_simps make_server_config_from_mem_checks split: prod.splits)

lemma make_server_config_from_rcgen_pem_checks:
  "make_server_config_from_rcgen_pem env certs keypair ca = Ok c \<Longrightarrow> checks_clients ca c"
  by (auto simp: make_server_config_from_rcgen_pem_def outcome_simps make_server_config_from_mem_checks)

lemma identity_store_checks:
  assumes "\<And>c. new = Ok c \<Longrightarrow> checks_clients ca c" and "checks_clients ca identity"
  shows "checks_clients ca (fst (identity_store new identity))"
  using assms by (cases new) (simp_all add: identity_store_def)

end
