(* ===== verification/Client.thy ===== *)
theory Client
  imports Multiplexor Client_Udp Parse_Remote Tls_Config
begin

text \<open>
  The client of \<open>src/src/client\<close>: which errors lead to another attempt (\<open>maybe_retryable.rs\<close>), the retry loop and the
  handling of one connection (\<open>mod.rs\<close>), and the listeners (\<open>handle_remote\<close>). The WebSocket library's errors are data
  types with the variants the sources name. The results of the operating system, of the handshake and of the other
  tasks are arguments.
\<close>

section \<open>Errors\<close>

datatype protocol_error =
    ReceivedAfterClosing
  | ResetWithoutClosingHandshake
  | SendAfterClosing
  | HandshakeIncomplete
  | OtherProtocolError nat

datatype tungstenite_error =
    TungsteniteIo io_error
  | AlreadyClosed
  | ConnectionClosed
  | TungsteniteProtocol protocol_error
  | OtherTungstenite nat

datatype client_error =
    MaxRetryCountReached client_error
  | ParseRemote remote_error
  | RemoteHandlerExited fatal_error
  | Tungstenite tungstenite_error
  | Tls tls_error
  | MuxFailed mux_error
  | HandshakeTimeout
  | HandshakeCancelled
  | StreamRequestTimeout
  | RemoteDisconnected

definition io_retryable :: "io_error \<Rightarrow> bool" where
  "io_retryable e \<longleftrightarrow>
     e = AddrNotAvailable \<or> e = BrokenPipe \<or> e = ConnectionRefused \<or> e = ConnectionReset \<or> e = HostUnreachable
     \<or> e = NetworkUnreachable \<or> e = ConnectionAborted \<or> e = NotConnected \<or> e = AddrNotAvailable \<or> e = NetworkDown
     \<or> e = TimedOut \<or> e = UnexpectedEof"

definition protocol_retryable :: "protocol_error \<Rightarrow> bool" where
  "protocol_retryable e = (case e of
       ReceivedAfterClosing \<Rightarrow> True
     | ResetWithoutClosingHandshake \<Rightarrow> True
     | SendAfterClosing \<Rightarrow> True
     | HandshakeIncomplete \<Rightarrow> True
     | _ \<Rightarrow> False)"

definition tungstenite_retryable :: "tungstenite_error \<Rightarrow> bool" where
  "tungstenite_retryable e = (case e of
       TungsteniteIo io \<Rightarrow> io_retryable io
     | AlreadyClosed \<Rightarrow> True
     | ConnectionClosed \<Rightarrow> True
     | TungsteniteProtocol p \<Rightarrow> protocol_retryable p
     | _ \<Rightarrow> False)"

text \<open>\<open>downcast\<close> is \<open>downcast_ref\<close> on the boxed error of the WebSocket.\<close>

definition mux_retryable :: "(string \<Rightarrow> tungstenite_error option) \<Rightarrow> mux_error \<Rightarrow> bool" where
  "mux_retryable downcast e = (case e of
       SendStreamToClient \<Rightarrow> True
     | MuxClosed \<Rightarrow> True
     | WebSocketError s \<Rightarrow> (case downcast s of None \<Rightarrow> False | Some t \<Rightarrow> tungstenite_retryable t)
     | _ \<Rightarrow> False)"

definition retryable :: "(string \<Rightarrow> tungstenite_error option) \<Rightarrow> client_error \<Rightarrow> bool" where
  "retryable downcast e = (case e of
       Tungstenite t \<Rightarrow> tungstenite_retryable t
     | MuxFailed m \<Rightarrow> mux_retryable downcast m
     | HandshakeTimeout \<Rightarrow> True
     | StreamRequestTimeout \<Rightarrow> True
     | RemoteDisconnected \<Rightarrow> True
     | _ \<Rightarrow> False)"

section \<open>The retry loop\<close>

text \<open>
  One round of the loop of \<open>client_main_inner\<close>: the handshake failed, or it succeeded and \<open>on_connected\<close> returned. The
  Boolean of a round says whether the user presses Ctrl-C during the delay after it. The result is the list of
  delays and what the loop returned; \<open>None\<close> where it still runs after the given rounds.
\<close>

datatype attempt = HandshakeFailed client_error | Connected "(client_error, unit) outcome"

definition client_backoff :: "u64 \<Rightarrow> u32 \<Rightarrow> backoff" where
  "client_backoff max_retry_interval max_retry_count =
     backoff_new (from_millis 200) (from_millis max_retry_interval) 2 max_retry_count"

fun main_future ::
  "(string \<Rightarrow> tungstenite_error option) \<Rightarrow> backoff \<Rightarrow> (attempt \<times> bool) list
   \<Rightarrow> duration list \<times> (client_error, unit) outcome option" where
  "main_future dc b [] = ([], None)"
| "main_future dc b ((a, ctrl_c) # rounds) =
     (let (r, b) = (case a of
              HandshakeFailed e \<Rightarrow> (Err e, b)
            | Connected (Err e) \<Rightarrow> (Err e, backoff_reset b)
            | Connected r \<Rightarrow> (r, b))
      in case r of
           Ok _ \<Rightarrow> ([], Some (Ok ()))
         | Panic \<Rightarrow> ([], Some Panic)
         | Err e \<Rightarrow>
             if \<not> retryable dc e then ([], Some (Err e))
             else (case advance b of
                 Ok (b, Some current_retry_interval) \<Rightarrow>
                   if ctrl_c then ([current_retry_interval], Some (Err HandshakeCancelled))
                   else (case main_future dc b rounds of (ds, res) \<Rightarrow> (current_retry_interval # ds, res))
               | Ok (b, None) \<Rightarrow> ([], Some (Err (MaxRetryCountReached e)))
               | _ \<Rightarrow> ([], Some Panic)))"

text \<open>
  The listeners' side of \<open>client_main_inner\<close>: the results of the listeners in the order they end. The first failure ends the
  client, and so does the end of the last listener. The \<open>select!\<close> is biased: the listeners are asked before the retry loop.
\<close>

fun check_listeners :: "(fatal_error, unit) outcome list \<Rightarrow> (client_error, unit) outcome" where
  "check_listeners [] = Ok ()"
| "check_listeners (Ok _ # rs) = check_listeners rs"
| "check_listeners (Err e # rs) = Err (RemoteHandlerExited e)"
| "check_listeners (Panic # rs) = Panic"

definition client_main_inner ::
  "(fatal_error, unit) outcome list option \<Rightarrow> (string \<Rightarrow> tungstenite_error option) \<Rightarrow> u64 \<Rightarrow> u32 \<Rightarrow> (attempt \<times> bool) list
   \<Rightarrow> (client_error, unit) outcome option" where
  "client_main_inner listeners dc max_retry_interval max_retry_count rounds =
     (case listeners of
        Some rs \<Rightarrow> Some (check_listeners rs)
      | None \<Rightarrow> snd (main_future dc (client_backoff max_retry_interval max_retry_count) rounds))"

text \<open>\<open>prune_client_id_map_task\<close>: a tick of the interval prunes the maps.\<close>

primrec prune_client_id_map_task :: "nat list \<Rightarrow> client_id_maps \<Rightarrow> (unit, client_id_maps) outcome" where
  "prune_client_id_map_task [] m = Ok m"
| "prune_client_id_map_task (now # ticks) m = obind (prune_udp_clients now m) (prune_client_id_map_task ticks)"

section \<open>One connection\<close>

text \<open>
  A request of a listener: the oneshot it waits on, the host and the port. \<open>cs_taken\<close> and \<open>cs_answered\<close> record the
  requests taken out of the channel and the streams sent back; \<open>cs_replies\<close> records where datagrams went.
  \<open>cs_tasks\<close> counts the tasks of the multiplexor that have not been joined, and \<open>cs_no_signal\<close> says that listening for
  Ctrl-C failed.
\<close>

record stream_command =
  sc_tx :: nat
  sc_host :: bytes
  sc_port :: u16

record client_state =
  cs_mux :: mux
  cs_commands :: "stream_command chan"
  cs_failed :: "stream_command option"
  cs_datagrams :: "datagram chan"
  cs_maps :: client_id_maps
  cs_tasks :: nat
  cs_no_signal :: bool
  cs_taken :: "stream_command list"
  cs_answered :: "(stream_command \<times> mux_stream) list"
  cs_replies :: "reply_route list"

text \<open>
  \<open>get_send_stream_chan\<close>, given what \<open>channel_timeout.timeout(mux.new_stream_channel(..))\<close> returned.
\<close>

definition get_send_stream_chan ::
  "stream_command \<Rightarrow> (elapsed, (mux_error, mux_stream) outcome) outcome \<Rightarrow> client_state
   \<Rightarrow> client_state \<times> (client_error, unit) outcome" where
  "get_send_stream_chan sc result s = (case result of
       Ok (Ok stream) \<Rightarrow> (s\<lparr>cs_answered := cs_answered s @ [(sc, stream)]\<rparr>, Ok ())
     | Ok (Err e) \<Rightarrow> (s\<lparr>cs_failed := Some sc\<rparr>, Err (MuxFailed e))
     | Ok Panic \<Rightarrow> (s, Panic)
     | Err _ \<Rightarrow> (s\<lparr>cs_failed := Some sc\<rparr>, Err StreamRequestTimeout)
     | Panic \<Rightarrow> (s, Panic))"

text \<open>
  The branches of the \<open>select!\<close> in \<open>on_connected\<close>. While a stream is awaited the multiplexor moves on, so that branch
  carries the state it is in afterwards. \<open>CtrlC\<close> carries the results of the tasks that end after the multiplexor is
  dropped.
\<close>

datatype connected_event =
    TaskEnded "(mux_error, unit) outcome"
  | CommandReceived "(elapsed, (mux_error, mux_stream) outcome) outcome" mux
  | DatagramReceived
  | DatagramArrived
  | CtrlC "(mux_error, unit) outcome list"
  | AllDisabled

fun first_failure :: "(mux_error, unit) outcome list \<Rightarrow> (client_error, unit) outcome" where
  "first_failure [] = Ok ()"
| "first_failure (Ok _ # rs) = first_failure rs"
| "first_failure (Err e # rs) = Err (MuxFailed e)"
| "first_failure (Panic # rs) = Panic"

text \<open>Whether a branch can be taken: its future is ready and its pattern matches.\<close>

definition branch_enabled :: "connected_event \<Rightarrow> client_state \<Rightarrow> bool" where
  "branch_enabled ev s = (case ev of
       TaskEnded r \<Rightarrow> cs_tasks s > 0
     | CommandReceived r m \<Rightarrow> (case snd (poll_recv (cs_commands s)) of Ready (Some _) \<Rightarrow> True | _ \<Rightarrow> False)
     | DatagramReceived \<Rightarrow> (case snd (poll_recv (cs_datagrams s)) of Ready (Some _) \<Rightarrow> True | _ \<Rightarrow> False)
     | DatagramArrived \<Rightarrow> (case snd (get_datagram (cs_mux s)) of Ready (Ok _) \<Rightarrow> True | _ \<Rightarrow> False)
     | CtrlC rs \<Rightarrow> \<not> cs_no_signal s
     | AllDisabled \<Rightarrow>
         cs_tasks s = 0 \<and> cs_no_signal s \<and> snd (poll_recv (cs_commands s)) = Ready None \<and> snd (poll_recv (cs_datagrams s)) = Ready None
         \<and> (case snd (get_datagram (cs_mux s)) of Ready (Err _) \<Rightarrow> True | _ \<Rightarrow> False))"

text \<open>One iteration; \<open>None\<close> means that the loop goes on.\<close>

definition on_connected_step ::
  "connected_event \<Rightarrow> client_state \<Rightarrow> client_state \<times> (client_error, unit) outcome option" where
  "on_connected_step ev s = (case ev of
       TaskEnded r \<Rightarrow>
         (s\<lparr>cs_tasks := cs_tasks s - 1\<rparr>,
          case r of Ok _ \<Rightarrow> None | Err e \<Rightarrow> Some (Err (MuxFailed e)) | Panic \<Rightarrow> Some Panic)
     | CommandReceived result m \<Rightarrow>
         (case poll_recv (cs_commands s) of
            (ch, Ready (Some sc)) \<Rightarrow>
              (case get_send_stream_chan sc result
                      (s\<lparr>cs_commands := ch, cs_taken := cs_taken s @ [sc], cs_mux := m\<rparr>) of
                 (s, Ok _) \<Rightarrow> (s, None)
               | (s, r) \<Rightarrow> (s, Some r))
          | _ \<Rightarrow> (s, None))
     | DatagramReceived \<Rightarrow>
         (case poll_recv (cs_datagrams s) of
            (ch, Ready (Some dg)) \<Rightarrow>
              (case send_datagram dg (cs_mux s) of
                 (m, Panic) \<Rightarrow> (s\<lparr>cs_datagrams := ch, cs_mux := m\<rparr>, Some Panic)
               | (m, _) \<Rightarrow> (s\<lparr>cs_datagrams := ch, cs_mux := m\<rparr>, None))
          | _ \<Rightarrow> (s, None))
     | DatagramArrived \<Rightarrow>
         (case get_datagram (cs_mux s) of
            (m, Ready (Ok dg)) \<Rightarrow>
              (s\<lparr>cs_mux := m, cs_replies := cs_replies s @
                   (case send_datagram_reply (cs_maps s) (dg_flow_id dg) (dg_data dg) of None \<Rightarrow> [] | Some r \<Rightarrow> [r])\<rparr>, None)
          | _ \<Rightarrow> (s, None))
     | CtrlC rs \<Rightarrow> (s\<lparr>cs_mux := multiplexor_drop (cs_mux s)\<rparr>, Some (first_failure rs))
     | AllDisabled \<Rightarrow> (s, Some (Err RemoteDisconnected)))"

text \<open>
  The start of \<open>on_connected\<close> on a fresh multiplexor: a parked request goes first. \<open>first\<close> is the result for it.
\<close>

definition on_connected_start ::
  "mux \<Rightarrow> (elapsed, (mux_error, mux_stream) outcome) outcome \<Rightarrow> client_state
   \<Rightarrow> client_state \<times> (client_error, unit) outcome option" where
  "on_connected_start m first s =
     (let s = s\<lparr>cs_mux := m, cs_tasks := 1\<rparr>
      in case cs_failed s of
           None \<Rightarrow> (s, None)
         | Some sc \<Rightarrow>
             (case get_send_stream_chan sc first (s\<lparr>cs_failed := None\<rparr>) of
                (s, Ok _) \<Rightarrow> (s, None)
              | (s, r) \<Rightarrow> (s, Some r)))"

text \<open>A connection from its start: the branches taken, until one returns.\<close>

fun run_events :: "connected_event list \<Rightarrow> client_state \<Rightarrow> client_state \<times> (client_error, unit) outcome option" where
  "run_events [] s = (s, None)"
| "run_events (ev # evs) s =
     (if branch_enabled ev s then
        (case on_connected_step ev s of (s, None) \<Rightarrow> run_events evs s | (s, Some r) \<Rightarrow> (s, Some r))
      else run_events evs s)"

definition on_connected ::
  "mux \<Rightarrow> (elapsed, (mux_error, mux_stream) outcome) outcome \<Rightarrow> connected_event list \<Rightarrow> client_state
   \<Rightarrow> client_state \<times> (client_error, unit) outcome option" where
  "on_connected m first evs s =
     (case on_connected_start m first s of (s, None) \<Rightarrow> run_events evs s | (s, Some r) \<Rightarrow> (s, Some r))"

section \<open>Listeners\<close>

text \<open>The dispatch of \<open>handle_remote\<close>.\<close>

datatype handler =
    HandleTcp string u16 string u16
  | HandleUdp string u16 string u16
  | HandleTcpStdio string u16
  | HandleUdpStdio string u16
  | HandleSocks string u16
  | HandleSocksStdio

definition handle_remote :: "remote \<Rightarrow> handler" where
  "handle_remote r = (case (local_addr r, remote_addr r, rem_protocol r) of
       (LocalInet lhost lport, RemoteInet rhost rport, Tcp) \<Rightarrow> HandleTcp lhost lport rhost rport
     | (LocalInet lhost lport, RemoteInet rhost rport, Udp) \<Rightarrow> HandleUdp lhost lport rhost rport
     | (Stdio, RemoteInet rhost rport, Tcp) \<Rightarrow> HandleTcpStdio rhost rport
     | (Stdio, RemoteInet rhost rport, Udp) \<Rightarrow> HandleUdpStdio rhost rport
     | (LocalInet lhost lport, Socks, _) \<Rightarrow> HandleSocks lhost lport
     | (Stdio, Socks, _) \<Rightarrow> HandleSocksStdio)"

text \<open>
  One iteration of \<open>handle_tcp\<close>: a permit of the request channel, a connection, a stream for it. The first component is
  the request sent, if one is.
\<close>

definition handle_tcp_iter ::
  "string \<Rightarrow> u16 \<Rightarrow> bool \<Rightarrow> (io_error, unit) outcome \<Rightarrow> bool \<Rightarrow> (bytes \<times> u16) option \<times> (fatal_error, unit) outcome" where
  "handle_tcp_iter rhost rport reserve accept channel =
     (if \<not> reserve then (None, Err RequestStream)
      else case accept of
        Err e \<Rightarrow> (None, Err (ClientIo e))
      | Panic \<Rightarrow> (None, Panic)
      | Ok _ \<Rightarrow> (Some (str_bytes rhost, rport),
                 if channel then Ok () else Err MainLoopExitWithoutSendingStream))"

text \<open>\<open>handle_tcp\<close>: the listener must open; then the rounds of the loop, with the requests sent.\<close>

fun handle_tcp_loop ::
  "string \<Rightarrow> u16 \<Rightarrow> (bool \<times> (io_error, unit) outcome \<times> bool) list \<Rightarrow> (bytes \<times> u16) list \<times> (fatal_error, unit) outcome option" where
  "handle_tcp_loop rhost rport [] = ([], None)"
| "handle_tcp_loop rhost rport ((reserve, accept, channel) # rounds) =
     (case handle_tcp_iter rhost rport reserve accept channel of
        (req, Ok _) \<Rightarrow>
          (case handle_tcp_loop rhost rport rounds of
             (reqs, r) \<Rightarrow> ((case req of None \<Rightarrow> [] | Some q \<Rightarrow> [q]) @ reqs, r))
      | (req, r) \<Rightarrow> ((case req of None \<Rightarrow> [] | Some q \<Rightarrow> [q]), Some r))"

definition handle_tcp ::
  "(io_error, unit) outcome \<Rightarrow> string \<Rightarrow> u16 \<Rightarrow> (bool \<times> (io_error, unit) outcome \<times> bool) list
   \<Rightarrow> (bytes \<times> u16) list \<times> (fatal_error, unit) outcome option" where
  "handle_tcp listener rhost rport rounds = (case listener of
       Ok _ \<Rightarrow> handle_tcp_loop rhost rport rounds
     | Err e \<Rightarrow> ([], Some (Err (ClientIo e)))
     | Panic \<Rightarrow> ([], Some Panic))"

text \<open>
  The loop of \<open>handle_tcp_stdio\<close> over its rounds: whether there is a permit, whether a stream comes, how the copying ends.
\<close>

fun handle_tcp_stdio ::
  "(bool \<times> bool \<times> (io_error, unit) outcome) list \<Rightarrow> (fatal_error, unit) outcome option" where
  "handle_tcp_stdio [] = None"
| "handle_tcp_stdio ((reserve, channel, copied) # rounds) =
     (if \<not> reserve then Some (Err RequestStream)
      else if \<not> channel then Some (Err MainLoopExitWithoutSendingStream)
      else case copied of
        Ok _ \<Rightarrow> Some (Ok ())
      | Err e \<Rightarrow> if io_retryable e then handle_tcp_stdio rounds else Some (Err (ClientIo e))
      | Panic \<Rightarrow> Some Panic)"

end
