(* ===== verification/Client_Properties.thy ===== *)
theory Client_Properties
  imports Client
begin

text \<open>
  The properties of the client: the schedule of its retries, that requests of listeners survive lost connections, and
  what happens when the server closes the connection in an orderly way.
\<close>

section \<open>The retry loop\<close>

definition fail_round :: "client_error \<Rightarrow> attempt \<times> bool" where
  "fail_round e = (HandshakeFailed e, False)"

abbreviation retry_delay :: "u64 \<Rightarrow> nat \<Rightarrow> duration" where
  "retry_delay max_interval k \<equiv> delay (from_millis 200) (from_millis max_interval) 2 k"

abbreviation retry_at :: "u64 \<Rightarrow> u32 \<Rightarrow> nat \<Rightarrow> backoff \<Rightarrow> bool" where
  "retry_at max_interval mc k b \<equiv> backoff_at (from_millis 200) (from_millis max_interval) 2 mc k b"

lemma retry_fits: "as_nanos (from_millis mi) * unat (2 :: u32) \<le> DURATION_MAX"
  using unsigned_less [of mi, where ?'a = nat] by (simp add: from_millis_def DURATION_MAX_def)

lemma retry_at_new: "retry_at mi mc 0 (client_backoff mi mc)"
  unfolding client_backoff_def by (rule backoff_at_new)

lemma retry_at_reset: "retry_at mi mc k b \<Longrightarrow> backoff_reset b = client_backoff mi mc"
  unfolding client_backoff_def by (rule backoff_at_reset)

lemma retry_advance:
  assumes "retry_at mi mc k b"
  shows "allowed mc k \<Longrightarrow> \<exists>b'. advance b = Ok (b', Some (retry_delay mi k)) \<and> retry_at mi mc (Suc k) b'"
    and "\<not> allowed mc k \<Longrightarrow> advance b = Ok (b, None)"
  using advance_step [OF assms retry_fits] by auto

lemma main_future_fail:
  assumes "retry_at mi mc k b" and "retryable dc e" and "allowed mc k"
  obtains b' where "retry_at mi mc (Suc k) b'"
    and "main_future dc b (fail_round e # rounds) = (case main_future dc b' rounds of (ds, r) \<Rightarrow> (retry_delay mi k # ds, r))"
proof -
  from retry_advance(1) [OF assms(1,3)] obtain b' where "advance b = Ok (b', Some (retry_delay mi k))" "retry_at mi mc (Suc k) b'" by blast
  with assms(2) that show thesis by (simp add: fail_round_def)
qed

lemma main_future_stop:
  assumes "retry_at mi mc k b" and "retryable dc e" and "\<not> allowed mc k"
  shows "main_future dc b (fail_round e # rounds) = ([], Some (Err (MaxRetryCountReached e)))"
  using retry_advance(2) [OF assms(1,3)] assms(2) by (simp add: fail_round_def)

text \<open>A run of failed handshakes within the limit, followed by anything.\<close>

lemma main_future_fails:
  assumes "retry_at mi mc k b" and "\<forall>e\<in>set es. retryable dc e" and "mc = 0 \<or> k + length es \<le> unat mc"
  shows "\<exists>b'. retry_at mi mc (k + length es) b'
    \<and> main_future dc b (map fail_round es @ rounds) =
        (case main_future dc b' rounds of (ds, r) \<Rightarrow> (map (retry_delay mi) [k..<k + length es] @ ds, r))"
  using assms
proof (induction es arbitrary: k b)
  case Nil
  then show ?case by (auto split: prod.split)
next
  case (Cons e es)
  then have e: "retryable dc e" and al: "allowed mc k" by (auto simp: allowed_def)
  from main_future_fail [OF Cons.prems(1) e al, of "map fail_round es @ rounds"] obtain b1
    where b1: "retry_at mi mc (Suc k) b1"
      and run: "main_future dc b (fail_round e # map fail_round es @ rounds) =
        (case main_future dc b1 (map fail_round es @ rounds) of (ds, r) \<Rightarrow> (retry_delay mi k # ds, r))" .
  from Cons.IH [OF b1] Cons.prems obtain b2 where b2: "retry_at mi mc (Suc k + length es) b2"
    "main_future dc b1 (map fail_round es @ rounds) =
      (case main_future dc b2 rounds of (ds, r) \<Rightarrow> (map (retry_delay mi) [Suc k..<Suc k + length es] @ ds, r))" by auto
  have "[k..<k + length (e # es)] = k # [Suc k..<k + length (e # es)]" by (rule upt_conv_Cons) simp
  then have up: "[k..<k + length (e # es)] = k # [Suc k..<Suc k + length es]" by simp
  from b2 run up show ?case by (auto split: prod.split)
qed

lemma main_future_reset:
  "retry_at mi mc k b \<Longrightarrow>
    main_future dc b ((Connected (Err e), c) # rounds) = main_future dc (client_backoff mi mc) ((HandshakeFailed e, c) # rounds)"
  by (simp add: retry_at_reset)

text \<open>What the loop can return.\<close>

lemma main_future_result:
  assumes "retry_at mi mc k b" and "main_future dc b rounds = (ds, Some r)"
  shows "case r of Ok _ \<Rightarrow> Connected (Ok ()) \<in> fst ` set rounds | Panic \<Rightarrow> Connected Panic \<in> fst ` set rounds
    | Err e \<Rightarrow> \<not> retryable dc e"
  using assms
proof (induction rounds arbitrary: b k ds)
  case (Cons x rounds)
  obtain a c where x: "x = (a, c)" by (cases x)
  define b1 where "b1 = (case a of Connected (Err e) \<Rightarrow> client_backoff mi mc | _ \<Rightarrow> b)"
  have b1: "\<exists>k. retry_at mi mc k b1" using Cons.prems(1) retry_at_new by (auto simp: b1_def split: attempt.split outcome.split)
  show ?case
  proof (cases "\<exists>e. (a = HandshakeFailed e \<or> a = Connected (Err e)) \<and> retryable dc e")
    case True
    then obtain e where a: "a = HandshakeFailed e \<or> a = Connected (Err e)" and e: "retryable dc e" by blast
    have run: "main_future dc b ((a, c) # rounds) = main_future dc b1 ((HandshakeFailed e, c) # rounds)"
      using a Cons.prems(1) by (auto simp: b1_def retry_at_reset)
    from b1 obtain j where j: "retry_at mi mc j b1" by blast
    show ?thesis
    proof (cases "allowed mc j")
      case False
      with retry_advance(2) [OF j] e run Cons.prems(2) show ?thesis by (auto simp: x retryable_def)
    next
      case True
      with retry_advance(1) [OF j] obtain b2 where b2: "advance b1 = Ok (b2, Some (retry_delay mi j))" "retry_at mi mc (Suc j) b2" by blast
      show ?thesis
      proof (cases c)
        case True
        with b2 e run Cons.prems(2) show ?thesis by (auto simp: x retryable_def)
      next
        case False
        with b2 e run Cons.prems(2) obtain ds' where ds': "main_future dc b2 rounds = (ds', Some r)"
          by (auto simp: x split: prod.splits)
        from Cons.IH [OF b2(2) ds'] show ?thesis by (auto split: outcome.splits)
      qed
    qed
  next
    case False
    with Cons.prems(2) show ?thesis by (cases a) (auto simp: x split: outcome.splits if_splits)
  qed
qed simp

section \<open>Requests of listeners\<close>

text \<open>Every request taken was answered with a stream, but for the one that is parked.\<close>

definition accounted :: "client_state \<Rightarrow> bool" where
  "accounted s \<longleftrightarrow> cs_taken s = map fst (cs_answered s) @ (case cs_failed s of None \<Rightarrow> [] | Some sc \<Rightarrow> [sc])"

text \<open>The requests taken and still queued, in order.\<close>

definition all_requests :: "client_state \<Rightarrow> stream_command list" where
  "all_requests s = cs_taken s @ ch_queue (cs_commands s)"

lemma get_send_accounted:
  assumes "get_send_stream_chan sc res s = (s', r)" and "r \<noteq> Panic" and "cs_failed s = None"
    and "cs_taken s = map fst (cs_answered s) @ [sc]"
  shows "accounted s' \<and> (r = Ok () \<longrightarrow> cs_failed s' = None) \<and> cs_taken s' = cs_taken s \<and> cs_commands s' = cs_commands s"
  using assms by (auto simp: get_send_stream_chan_def accounted_def split: outcome.splits)

lemma get_send_panic: "get_send_stream_chan sc res s = (s', Panic) \<Longrightarrow> cs_taken s' = cs_taken s \<and> cs_commands s' = cs_commands s"
  by (auto simp: get_send_stream_chan_def split: outcome.splits)

lemma poll_recv_Some: "poll_recv c = (c', Ready (Some x)) \<Longrightarrow> ch_queue c = x # ch_queue c'"
  by (auto simp: poll_recv_def split: list.splits if_splits)

lemma step_accounted:
  assumes "on_connected_step ev s = (s', r)" and "r \<noteq> Some Panic" and "accounted s" and "cs_failed s = None"
  shows "accounted s' \<and> (r = None \<or> r = Some (Ok ()) \<longrightarrow> cs_failed s' = None) \<and> all_requests s' = all_requests s"
proof (cases ev)
  case (CommandReceived res m)
  show ?thesis
  proof (cases "poll_recv (cs_commands s)")
    case (Pair ch p)
    show ?thesis
    proof (cases "\<exists>sc. p = Ready (Some sc)")
      case True
      then obtain sc where p: "p = Ready (Some sc)" by blast
      let ?s = "s\<lparr>cs_commands := ch, cs_taken := cs_taken s @ [sc], cs_mux := m\<rparr>"
      obtain s1 r1 where g: "get_send_stream_chan sc res ?s = (s1, r1)" by (cases "get_send_stream_chan sc res ?s")
      have r1: "r1 \<noteq> Panic" and s1: "s1 = s'" and r: "r = (case r1 of Ok _ \<Rightarrow> None | _ \<Rightarrow> Some r1)"
        using assms(1,2) CommandReceived Pair p g by (auto simp: on_connected_step_def split: outcome.splits)
      have "accounted s1 \<and> (r1 = Ok () \<longrightarrow> cs_failed s1 = None) \<and> cs_taken s1 = cs_taken ?s \<and> cs_commands s1 = cs_commands ?s"
        by (rule get_send_accounted [OF g r1]) (use assms(3,4) in \<open>simp_all add: accounted_def\<close>)
      with s1 r p Pair poll_recv_Some [of "cs_commands s" ch sc] show ?thesis
        by (auto simp: all_requests_def split: outcome.splits)
    next
      case False
      with assms CommandReceived Pair show ?thesis
        by (auto simp: on_connected_step_def split: poll.splits option.splits)
    qed
  qed
qed (use assms in \<open>auto simp: on_connected_step_def accounted_def all_requests_def
      split: prod.splits poll.splits option.splits outcome.splits\<close>)

lemma run_accounted:
  "run_events evs s = (s', r) \<Longrightarrow> r \<noteq> Some Panic \<Longrightarrow> accounted s \<Longrightarrow> cs_failed s = None \<Longrightarrow>
    accounted s' \<and> (r = None \<or> r = Some (Ok ()) \<longrightarrow> cs_failed s' = None) \<and> all_requests s' = all_requests s"
proof (induction evs s rule: run_events.induct)
  case (2 ev evs s)
  show ?case
  proof (cases "branch_enabled ev s")
    case True
    obtain s1 r1 where st: "on_connected_step ev s = (s1, r1)" by (cases "on_connected_step ev s")
    have "r1 \<noteq> Some Panic" using "2.prems"(1,2) True st by (auto split: option.splits)
    note ok = step_accounted [OF st this "2.prems"(3,4)]
    show ?thesis
    proof (cases r1)
      case None
      with True st "2.prems" "2.IH"(1) ok show ?thesis by auto
    next
      case (Some x)
      with True st "2.prems" ok show ?thesis by auto
    qed
  next
    case False
    with "2.prems" "2.IH"(2) show ?thesis by simp
  qed
qed auto

lemma start_accounted:
  assumes "on_connected_start m first s = (s', r)" and "r \<noteq> Some Panic" and "accounted s"
  shows "accounted s' \<and> (r = None \<longrightarrow> cs_failed s' = None) \<and> all_requests s' = all_requests s"
proof (cases "cs_failed s")
  case None
  with assms show ?thesis by (auto simp: on_connected_start_def accounted_def all_requests_def)
next
  case (Some sc)
  let ?s = "s\<lparr>cs_mux := m, cs_tasks := 1, cs_failed := None\<rparr>"
  obtain s1 r1 where g: "get_send_stream_chan sc first ?s = (s1, r1)" by (cases "get_send_stream_chan sc first ?s")
  have r1: "r1 \<noteq> Panic" and s1: "s1 = s'" and r: "r = (case r1 of Ok _ \<Rightarrow> None | _ \<Rightarrow> Some r1)"
    using assms(1,2) Some g by (auto simp: on_connected_start_def split: outcome.splits)
  have "accounted s1 \<and> (r1 = Ok () \<longrightarrow> cs_failed s1 = None) \<and> cs_taken s1 = cs_taken ?s \<and> cs_commands s1 = cs_commands ?s"
    by (rule get_send_accounted [OF g r1]) (use assms(3) Some in \<open>simp_all add: accounted_def\<close>)
  with s1 r show ?thesis by (auto simp: all_requests_def split: outcome.splits)
qed

lemma on_connected_accounted:
  assumes "on_connected m first evs s = (s', r)" and "r \<noteq> Some Panic" and "accounted s"
  shows "accounted s' \<and> (r = None \<or> r = Some (Ok ()) \<longrightarrow> cs_failed s' = None) \<and> all_requests s' = all_requests s"
proof -
  obtain s1 r1 where st: "on_connected_start m first s = (s1, r1)" by (cases "on_connected_start m first s")
  have "r1 \<noteq> Some Panic" using assms(1,2) st by (auto simp: on_connected_def split: option.splits)
  note ok = start_accounted [OF st this assms(3)]
  have notok: "r1 \<noteq> Some (Ok ())" using st
    by (auto simp: on_connected_start_def Let_def split: option.splits outcome.splits prod.splits)
  show ?thesis
  proof (cases r1)
    case None
    with st assms ok run_accounted [of evs s1 s' r] show ?thesis by (auto simp: on_connected_def)
  next
    case (Some x)
    with st assms ok notok show ?thesis by (auto simp: on_connected_def)
  qed
qed

section \<open>An orderly close by the server\<close>

text \<open>
  The state after the multiplexor's task returned without an error, with its channels closed, while the listeners still
  hold the sending ends of the request channels.
\<close>

definition closed_mux :: "mux \<Rightarrow> bool" where
  "closed_mux m \<longleftrightarrow> \<not> ch_rx_open (tx_frame m) \<and> ch_queue (datagram_ch m) = [] \<and> \<not> ch_tx_alive (datagram_ch m)"

definition stalled :: "client_state \<Rightarrow> bool" where
  "stalled s \<longleftrightarrow> closed_mux (cs_mux s) \<and> cs_tasks s = 0 \<and> ch_queue (cs_commands s) = [] \<and> ch_tx_alive (cs_commands s)
     \<and> ch_rx_open (cs_commands s)"

lemma send_datagram_closed:
  assumes "closed_mux m"
  shows "fst (send_datagram dg m) = m" and "snd (send_datagram dg m) \<noteq> Panic"
proof -
  have f: "finalize (new_datagram_owned i h p d) = Some (fin (new_datagram_owned i h p d))" if "length h \<le> 255" for i h p d
    by (rule finalize_fin) (use that in \<open>simp add: new_datagram_owned_def host_fits_def\<close>)
  have "tx_send ff m = (m, False)" for ff
    using assms by (simp add: tx_send_def chan_send_def closed_mux_def)
  then show "fst (send_datagram dg m) = m" "snd (send_datagram dg m) \<noteq> Panic"
    by (simp_all add: send_datagram_def f not_less)
qed

lemma stalled_step:
  assumes "stalled s" and "branch_enabled ev s" and "\<forall>rs. ev \<noteq> CtrlC rs"
  shows "\<exists>s'. on_connected_step ev s = (s', None) \<and> stalled s' \<and> cs_mux s' = cs_mux s \<and> cs_replies s' = cs_replies s"
proof (cases ev)
  case DatagramReceived
  with assms(2) obtain ch dg where r: "poll_recv (cs_datagrams s) = (ch, Ready (Some dg))"
    by (cases "poll_recv (cs_datagrams s)") (auto simp: branch_enabled_def split: poll.splits option.splits)
  from send_datagram_closed [of "cs_mux s" dg] assms(1) obtain res where "send_datagram dg (cs_mux s) = (cs_mux s, res)" "res \<noteq> Panic"
    by (cases "send_datagram dg (cs_mux s)") (auto simp: stalled_def)
  with DatagramReceived r assms(1) show ?thesis
    by (cases res) (auto simp: on_connected_step_def stalled_def)
qed (use assms in \<open>auto simp: branch_enabled_def stalled_def closed_mux_def poll_recv_def get_datagram_def ok_or_closed_def\<close>)

lemma stalled_run:
  "stalled s \<Longrightarrow> list_all (\<lambda>ev. \<forall>rs. ev \<noteq> CtrlC rs) evs \<Longrightarrow>
    \<exists>s'. run_events evs s = (s', None) \<and> cs_mux s' = cs_mux s \<and> cs_replies s' = cs_replies s"
proof (induction evs arbitrary: s)
  case (Cons ev evs)
  show ?case
  proof (cases "branch_enabled ev s")
    case True
    with stalled_step [OF Cons.prems(1) True] Cons.prems obtain s1
      where "on_connected_step ev s = (s1, None)" "stalled s1" "cs_mux s1 = cs_mux s" "cs_replies s1 = cs_replies s" by auto
    moreover from this Cons.IH [of s1] Cons.prems(2) obtain s' where "run_events evs s1 = (s', None)" "cs_mux s' = cs_mux s1" "cs_replies s' = cs_replies s1" by auto
    ultimately show ?thesis using True by auto
  next
    case False
    with Cons show ?thesis by simp
  qed
qed simp

section \<open>Properties\<close>

text \<open>
  C37: consecutive failed handshakes are retried after delays of 200 milliseconds, doubled each time and capped by the
  maximal interval. With a positive retry count the client gives up with the error of the attempt after that many
  retries; with a count of zero it never does. Once a connection was established the schedule starts over.
\<close>

theorem retry_schedule:
  assumes "\<forall>e\<in>set es. retryable dc e" and "mc = 0 \<or> length es \<le> unat mc" and "retryable dc e"
  shows "main_future dc (client_backoff mi mc) (map fail_round es) = (map (retry_delay mi) [0..<length es], None)
    \<and> (mc \<noteq> 0 \<and> length es = unat mc \<longrightarrow>
      main_future dc (client_backoff mi mc) (map fail_round es @ fail_round e # rounds) =
        (map (retry_delay mi) [0..<length es], Some (Err (MaxRetryCountReached e))))
    \<and> main_future dc (client_backoff mi mc) (map fail_round es @ (Connected (Err e), c) # rounds) =
      (case main_future dc (client_backoff mi mc) ((HandshakeFailed e, c) # rounds) of
         (ds, r) \<Rightarrow> (map (retry_delay mi) [0..<length es] @ ds, r))"
proof (intro conjI impI)
  have run: "\<exists>b'. retry_at mi mc (length es) b'
      \<and> main_future dc (client_backoff mi mc) (map fail_round es @ rounds) =
          (case main_future dc b' rounds of (ds, r) \<Rightarrow> (map (retry_delay mi) [0..<length es] @ ds, r))" for rounds
    using main_future_fails [OF retry_at_new assms(1), of mc mi rounds] assms(2) by simp
  show "main_future dc (client_backoff mi mc) (map fail_round es) = (map (retry_delay mi) [0..<length es], None)"
    using run [of "[]"] by auto
  show "main_future dc (client_backoff mi mc) (map fail_round es @ (Connected (Err e), c) # rounds) =
      (case main_future dc (client_backoff mi mc) ((HandshakeFailed e, c) # rounds) of
         (ds, r) \<Rightarrow> (map (retry_delay mi) [0..<length es] @ ds, r))"
    using run [of "(Connected (Err e), c) # rounds"] main_future_reset by metis
  assume "mc \<noteq> 0 \<and> length es = unat mc"
  then have "\<not> allowed mc (length es)" by (simp add: allowed_def)
  with run [of "fail_round e # rounds"] main_future_stop [OF _ assms(3)]
  show "main_future dc (client_backoff mi mc) (map fail_round es @ fail_round e # rounds) =
        (map (retry_delay mi) [0..<length es], Some (Err (MaxRetryCountReached e)))" by fastforce
qed

theorem retry_schedule_witness:
  "main_future (\<lambda>_. None) (client_backoff 500 2) (map fail_round [HandshakeTimeout, RemoteDisconnected] @ [fail_round HandshakeTimeout]) =
     ([from_millis 200, from_millis 400], Some (Err (MaxRetryCountReached HandshakeTimeout)))"
  using retry_schedule [of "[HandshakeTimeout, RemoteDisconnected]" "\<lambda>_. None" 2 HandshakeTimeout 500 "[]"]
  by (simp add: retryable_def delay_def from_millis_def)

text \<open>
  The retry loop returns success only when a connection ended on the user's request, and returns an error only when it is
  not one to retry: an error of the kind that another attempt may cure never ends the client. It panics only if
  handling a connection does.
\<close>

theorem retry_result:
  assumes "main_future dc (client_backoff mi mc) rounds = (ds, Some r)"
  shows "case r of Ok _ \<Rightarrow> Connected (Ok ()) \<in> fst ` set rounds | Panic \<Rightarrow> Connected Panic \<in> fst ` set rounds
    | Err e \<Rightarrow> \<not> retryable dc e"
  using retry_at_new assms by (rule main_future_result)

theorem retry_result_witness: "\<not> retryable (\<lambda>_. None) (MuxFailed TextMessage)"
proof -
  have "main_future (\<lambda>_. None) (client_backoff 500 2) [(HandshakeFailed (MuxFailed TextMessage), False)] =
      ([], Some (Err (MuxFailed TextMessage)))" by (simp add: retryable_def mux_retryable_def)
  from retry_result [OF this] show ?thesis by simp
qed


definition chan0 :: "'a list \<Rightarrow> 'a chan" where
  "chan0 xs = \<lparr>ch_queue = xs, ch_cap = None, ch_rx_open = True, ch_tx_alive = True\<rparr>"

definition mux_idle :: mux where
  "mux_idle = \<lparr>flows = [], tx_frame = chan0 [], dropped_ports = chan0 [], con_recv = chan0 [], datagram_ch = chan0 [],
     bnd_request = None, cells = [], stream_os = [], bind_os = [], woken = [], susp = None, mux_rwnd = 4, mux_threshold = 2,
     mux_retries = 3\<rparr>"

definition client0 :: client_state where
  "client0 = \<lparr>cs_mux = mux_idle, cs_commands = chan0 [\<lparr>sc_tx = 0, sc_host = [104], sc_port = 80\<rparr>], cs_failed = None,
     cs_datagrams = chan0 [], cs_maps = client_id_maps_new, cs_tasks = 0, cs_no_signal = False,
     cs_taken = [], cs_answered = [], cs_replies = []\<rparr>"


text \<open>
  C38: when the server closes the connection in an orderly way, so that the multiplexor's task returns without an error, the
  client does not notice: unless a listener asks for a stream or the user presses Ctrl-C, its loop goes on for ever without
  returning, so no new connection is made, and every datagram to send is thrown away. The branch for a closed
  multiplexor cannot be taken, because the listeners keep the request channel open.
\<close>

theorem orderly_close_stalls:
  assumes "cs_mux s = task_exit m" and "ch_queue (datagram_ch m) = []" and "cs_tasks s = 1"
    and "ch_queue (cs_commands s) = []" and "ch_tx_alive (cs_commands s)" and "ch_rx_open (cs_commands s)"
    and "list_all (\<lambda>ev. \<forall>rs. ev \<noteq> CtrlC rs) evs"
  shows "\<exists>s'. run_events (TaskEnded (Ok ()) # evs) s = (s', None) \<and> cs_mux s' = cs_mux s \<and> cs_replies s' = cs_replies s"
proof -
  have "closed_mux (task_exit m)" using assms(2) by (simp add: closed_mux_def task_exit_def drop_rx_def drop_tx_def)
  then have "stalled (s\<lparr>cs_tasks := 0\<rparr>)" using assms by (simp add: stalled_def)
  from stalled_run [OF this assms(7)] assms(3) show ?thesis
    by (simp add: branch_enabled_def on_connected_step_def)
qed

definition client_closed :: client_state where
  "client_closed = client0\<lparr>cs_mux := task_exit mux_idle, cs_commands := chan0 [], cs_tasks := 1,
     cs_datagrams := chan0 [\<lparr>dg_flow_id = 1, dg_target_host = [104], dg_target_port = 53, dg_data = [1, 2, 3, 4]\<rparr>]\<rparr>"

theorem orderly_close_stalls_witness:
  "\<exists>s'. run_events [TaskEnded (Ok ()), DatagramReceived, AllDisabled] client_closed = (s', None) \<and> ch_queue (tx_frame (cs_mux s')) = []"
proof -
  have "\<exists>s'. run_events (TaskEnded (Ok ()) # [DatagramReceived, AllDisabled]) client_closed = (s', None)
      \<and> cs_mux s' = cs_mux client_closed \<and> cs_replies s' = cs_replies client_closed"
    by (rule orderly_close_stalls [of _ mux_idle]) (simp_all add: client_closed_def client0_def mux_idle_def chan0_def)
  then show ?thesis by (auto simp: client_closed_def client0_def task_exit_def mux_idle_def chan0_def drop_rx_def)
qed

text \<open>
  A remote that the parser accepts and that is handed to a SOCKS listener is a TCP remote, as the dispatch assumes; a
  remote with an address on both sides is handed to the listener of its protocol, with its addresses unchanged.
\<close>

theorem remote_dispatch:
  assumes "remote_from_str v6 s = Ok r"
  shows "handle_remote r = HandleSocks h p \<Longrightarrow> rem_protocol r = Tcp \<and> local_addr r = LocalInet h p"
    and "handle_remote r = HandleSocksStdio \<Longrightarrow> rem_protocol r = Tcp \<and> local_addr r = Stdio"
    and "handle_remote r = HandleTcp h p h' p' \<Longrightarrow>
      r = \<lparr>local_addr = LocalInet h p, remote_addr = RemoteInet h' p', rem_protocol = Tcp\<rparr>"
    and "handle_remote r = HandleUdp h p h' p' \<Longrightarrow>
      r = \<lparr>local_addr = LocalInet h p, remote_addr = RemoteInet h' p', rem_protocol = Udp\<rparr>"
proof -
  have udp: "\<not> (remote_addr r = Socks \<and> rem_protocol r = Udp)"
    using assms by (auto simp: remote_from_str_def outcome_simps split: if_splits)
  note sp = local_spec.splits remote_spec.splits protocol.splits
  show "handle_remote r = HandleSocks h p \<Longrightarrow> rem_protocol r = Tcp \<and> local_addr r = LocalInet h p"
    "handle_remote r = HandleSocksStdio \<Longrightarrow> rem_protocol r = Tcp \<and> local_addr r = Stdio"
    using udp by (cases "rem_protocol r"; auto simp: handle_remote_def split: sp)+
  show "handle_remote r = HandleTcp h p h' p' \<Longrightarrow>
      r = \<lparr>local_addr = LocalInet h p, remote_addr = RemoteInet h' p', rem_protocol = Tcp\<rparr>"
    "handle_remote r = HandleUdp h p h' p' \<Longrightarrow>
      r = \<lparr>local_addr = LocalInet h p, remote_addr = RemoteInet h' p', rem_protocol = Udp\<rparr>"
    by (cases r; auto simp: handle_remote_def split: sp)+
qed

theorem remote_dispatch_witness: "\<exists>r. remote_from_str False ''socks'' = Ok r \<and> rem_protocol r = Tcp"
proof -
  let ?r = "\<lparr>local_addr = LocalInet ''127.0.0.1'' 1080, remote_addr = Socks, rem_protocol = Tcp\<rparr>"
  have "rsplit_once CHR ''/'' ''socks'' = None" by code_simp
  then have r: "remote_from_str False ''socks'' = Ok ?r"
    by (simp add: remote_from_str_def tokenize_words tokens_to_remote_def default_host_local_def)
  from remote_dispatch(1) [OF r, of "''127.0.0.1''" 1080] r show ?thesis by (simp add: handle_remote_def)
qed

end
