(* ===== verification/Http_Service.thy ===== *)
theory Http_Service
  imports Rust_Parse Timing Frame
begin

text \<open>
  The HTTP service of \<open>src/src/server/service.rs\<close>. The types of the \<open>http\<close> crate are represented by what the code reads of
  them; its functions on URIs, the hash, the Base64 encoder and the client for the backend are parameters, the fields of
  the records \<open>uri_lib\<close> and \<open>http_env\<close>. A handler returns its response together with the upgrade task it spawned, if any.
\<close>

section \<open>Requests and responses\<close>

datatype http_method = GET | OtherMethod string

type_synonym headers = "(string \<times> bytes) list"

text \<open>\<open>HeaderMap::get\<close> gives the first value of a name; \<open>insert\<close> replaces all values of a name. Names are in lower case.\<close>

definition headers_get :: "headers \<Rightarrow> string \<Rightarrow> bytes option" where
  "headers_get hs name = map_of hs name"

definition headers_insert :: "string \<Rightarrow> bytes \<Rightarrow> headers \<Rightarrow> headers" where
  "headers_insert name v hs = filter (\<lambda>(n, _). n \<noteq> name) hs @ [(name, v)]"

record 'u http_request =
  rq_method :: http_method
  rq_uri :: 'u
  rq_headers :: headers
  rq_body :: bytes
  rq_on_upgrade :: bool

record http_response =
  rs_status :: nat
  rs_headers :: headers
  rs_body :: bytes

definition response_new :: "bytes \<Rightarrow> http_response" where
  "response_new body = \<lparr>rs_status = 200, rs_headers = [], rs_body = body\<rparr>"

text \<open>What the code uses of \<open>http::Uri\<close>: its parser, its parts, its path, the path of a path with query, and the builder.\<close>

record 'u uri_lib =
  uri_from_str :: "string \<Rightarrow> 'u option"
  uri_scheme :: "'u \<Rightarrow> string option"
  uri_authority :: "'u \<Rightarrow> string option"
  uri_path_and_query :: "'u \<Rightarrow> string option"
  uri_path :: "'u \<Rightarrow> string"
  pq_path :: "string \<Rightarrow> string"
  uri_build :: "string \<Rightarrow> string \<Rightarrow> string \<Rightarrow> 'u option"

text \<open>The rest: hash, encoder, the validity of a header value, the backend's answer with the outcome of collecting its body.\<close>

record 'u http_env =
  he_uri :: "'u uri_lib"
  he_sha1 :: "bytes \<Rightarrow> bytes"
  he_base64 :: "bytes \<Rightarrow> string"
  he_header_value :: "string \<Rightarrow> bytes option"
  he_request :: "'u http_request \<Rightarrow> (nat, http_response \<times> (nat, bytes) outcome) outcome"
  he_version :: string

section \<open>The service\<close>

definition UPGRADE :: bytes where "UPGRADE = str_bytes ''upgrade''"
definition WEBSOCKET :: bytes where "WEBSOCKET = str_bytes ''websocket''"
definition WANTED_PROTOCOL :: bytes where "WANTED_PROTOCOL = str_bytes PROTOCOL_VERSION"
definition WEBSOCKET_VERSION :: bytes where "WEBSOCKET_VERSION = str_bytes ''13''"

definition header_matches :: "bytes option \<Rightarrow> bytes \<Rightarrow> bool" where
  "header_matches given wanted = (case given of None \<Rightarrow> False | Some v \<Rightarrow> eq_ignore_ascii_case v wanted)"

definition make_sec_websocket_accept :: "'u http_env \<Rightarrow> bytes \<Rightarrow> ('e, bytes) outcome" where
  "make_sec_websocket_accept env key =
     expect (he_header_value env (he_base64 env (he_sha1 env (key @ str_bytes ''258EAFA5-E914-47DA-95CA-C5AB0DC85B11''))))"

datatype service_error = HttpError | HyperClientError nat | BodyError nat

record backend_url =
  bu_scheme :: string
  bu_authority :: string
  bu_path :: string

record service_state =
  st_backend :: "backend_url option"
  st_ws_psk :: "bytes option"
  st_not_found_resp :: string
  st_obfs :: bool
  st_reverse :: bool
  st_tls_timeout :: optional_duration
  st_http_timeout :: optional_duration

text \<open>The task spawned by an upgrade: once hyper hands the connection over, \<open>handle_websocket\<close> runs with this flag.\<close>

datatype upgrade_task = UpgradeTask (upgrade_reverse: bool)

type_synonym service_result = "(service_error, http_response) outcome \<times> upgrade_task option"

definition service_state_new ::
  "backend_url option \<Rightarrow> bytes option \<Rightarrow> string \<Rightarrow> bool \<Rightarrow> bool \<Rightarrow> optional_duration \<Rightarrow> optional_duration
   \<Rightarrow> (io_error, unit) outcome \<Rightarrow> (io_error, service_state) outcome" where
  "service_state_new backend ws_psk not_found_resp obfs reverse tls_timeout http_timeout connector =
     obind connector (\<lambda>_. Ok \<lparr>st_backend = backend, st_ws_psk = ws_psk, st_not_found_resp = not_found_resp, st_obfs = obfs,
       st_reverse = reverse, st_tls_timeout = tls_timeout, st_http_timeout = http_timeout\<rparr>)"

definition exec_request :: "'u http_env \<Rightarrow> 'u http_request \<Rightarrow> (service_error, http_response) outcome" where
  "exec_request env req =
     obind (map_err HyperClientError (he_request env req)) (\<lambda>(resp, body).
     obind (map_err BodyError body) (\<lambda>body. Ok (resp\<lparr>rs_body := body\<rparr>)))"

definition not_found_handler :: "service_state \<Rightarrow> (service_error, http_response) outcome" where
  "not_found_handler st = Ok \<lparr>rs_status = 404, rs_headers = [], rs_body = str_bytes (st_not_found_resp st)\<rparr>"

text \<open>The path of the request to the backend.\<close>

definition join_paths :: "string \<Rightarrow> string \<Rightarrow> string" where
  "join_paths base_path req_path_query =
     (if ends_with CHR ''/'' base_path \<and> starts_with CHR ''/'' req_path_query then base_path @ tl req_path_query
      else base_path @ req_path_query)"

definition backend_or_404_handler ::
  "'u http_env \<Rightarrow> service_state \<Rightarrow> 'u http_request \<Rightarrow> (service_error, http_response) outcome" where
  "backend_or_404_handler env st req = (case st_backend st of
       None \<Rightarrow> not_found_handler st
     | Some b \<Rightarrow>
         let lib = he_uri env;
             req_path_query = (case uri_path_and_query lib (rq_uri req) of None \<Rightarrow> uri_path lib (rq_uri req) | Some pq \<Rightarrow> pq);
             new_path = join_paths (pq_path lib (bu_path b)) req_path_query
         in case uri_build lib (bu_scheme b) (bu_authority b) new_path of
              None \<Rightarrow> Err HttpError
            | Some uri \<Rightarrow>
                (case exec_request env (req\<lparr>rq_uri := uri\<rparr>) of
                   Err e \<Rightarrow> not_found_handler st
                 | r \<Rightarrow> r))"

definition ws_handler :: "'u http_env \<Rightarrow> service_state \<Rightarrow> 'u http_request \<Rightarrow> bool \<Rightarrow> service_result" where
  "ws_handler env st req reverse =
     (let on_upgrade = rq_on_upgrade req;
          req = req\<lparr>rq_on_upgrade := False\<rparr>;
          headers = rq_headers req;
          connection = headers_get headers ''connection'';
          upgrade = headers_get headers ''upgrade'';
          sec_websocket_key = headers_get headers ''sec-websocket-key'';
          sec_websocket_protocol = headers_get headers ''sec-websocket-protocol'';
          sec_websocket_version = headers_get headers ''sec-websocket-version'';
          x_penguin_psk = headers_get headers ''x-penguin-psk'';
          refuse = (backend_or_404_handler env st req, None)
      in if rq_method req \<noteq> GET then refuse
         else if st_ws_psk st \<noteq> None \<and> x_penguin_psk \<noteq> st_ws_psk st then refuse
         else case sec_websocket_key of
           None \<Rightarrow> refuse
         | Some key \<Rightarrow>
             if \<not> header_matches connection UPGRADE
                \<or> \<not> header_matches upgrade WEBSOCKET
                \<or> \<not> header_matches sec_websocket_version WEBSOCKET_VERSION
                \<or> \<not> header_matches sec_websocket_protocol WANTED_PROTOCOL then refuse
             else if \<not> on_upgrade then refuse
             else (case make_sec_websocket_accept env key of
                 Ok sec_websocket_accept \<Rightarrow>
                   (Ok \<lparr>rs_status = 101,
                        rs_headers = [(''connection'', UPGRADE), (''upgrade'', WEBSOCKET),
                          (''sec-websocket-protocol'', WANTED_PROTOCOL), (''sec-websocket-accept'', sec_websocket_accept)],
                        rs_body = []\<rparr>, Some (UpgradeTask reverse))
               | Err e \<Rightarrow> (Err e, None)
               | Panic \<Rightarrow> (Panic, None)))"

text \<open>\<open>Service::call\<close>.\<close>

definition service_call :: "'u http_env \<Rightarrow> service_state \<Rightarrow> 'u http_request \<Rightarrow> service_result" where
  "service_call env st req =
     (let path = uri_path (he_uri env) (rq_uri req)
      in if path = ''/health'' \<and> \<not> st_obfs st then (Ok (response_new (str_bytes ''OK'')), None)
         else if path = ''/version'' \<and> \<not> st_obfs st then (Ok (response_new (str_bytes (he_version env))), None)
         else if path = ''/ws'' then ws_handler env st req (st_reverse st)
         else (backend_or_404_handler env st req, None))"

end
