(* ===== verification/Command_Line.thy ===== *)
theory Command_Line
  imports Http_Service Parse_Remote
begin

text \<open>
  The command line of \<open>src/src/arg.rs\<close>: the argument structures with their default values, and the parsers that clap calls
  for server URLs, backend URLs and headers. Clap itself is not modelled; what it enforces between arguments (\<open>requires\<close>,
  \<open>conflicts_with\<close>, default values) is the predicate \<open>server_args_ok\<close>. The parser of URIs and the validity of header names and
  values come from the \<open>http\<close> crate and are parameters. Options that exist for compatibility only and that nothing reads are left out.
\<close>

section \<open>Server and backend URLs\<close>

datatype server_url_error = ServerUrlParse | IncorrectScheme string | MissingHost | BuildUrl

definition known_scheme_prefix :: "string \<Rightarrow> bool" where
  "known_scheme_prefix url \<longleftrightarrow>
     has_prefix ''http://'' url \<or> has_prefix ''https://'' url \<or> has_prefix ''ws://'' url \<or> has_prefix ''wss://'' url"

definition server_url_from_str :: "'u uri_lib \<Rightarrow> string \<Rightarrow> (server_url_error, 'u) outcome" where
  "server_url_from_str lib url =
     obind (case uri_from_str lib url of
              Some u \<Rightarrow> Ok u
            | None \<Rightarrow>
                if \<not> known_scheme_prefix url then ok_or ServerUrlParse (uri_from_str lib (''ws://'' @ url))
                else Err ServerUrlParse) (\<lambda>url_parts.
     let old_scheme = (case uri_scheme lib url_parts of None \<Rightarrow> ''http'' | Some s \<Rightarrow> s) in
     obind (if old_scheme = ''http'' \<or> old_scheme = ''ws'' then Ok ''ws''
            else if old_scheme = ''https'' \<or> old_scheme = ''wss'' then Ok ''wss''
            else Err (IncorrectScheme old_scheme)) (\<lambda>new_scheme.
     obind (ok_or MissingHost (uri_authority lib url_parts)) (\<lambda>authority.
     ok_or BuildUrl (uri_build lib new_scheme authority
       (case uri_path_and_query lib url_parts of None \<Rightarrow> ''/'' | Some p \<Rightarrow> p)))))"

datatype backend_url_error = BackendUrlParse | MissingAuthority | InvalidScheme string

definition backend_url_from_str :: "'u uri_lib \<Rightarrow> string \<Rightarrow> (backend_url_error, backend_url) outcome" where
  "backend_url_from_str lib url =
     obind (ok_or BackendUrlParse (uri_from_str lib url)) (\<lambda>url_parts.
     let scheme = (case uri_scheme lib url_parts of None \<Rightarrow> ''http'' | Some s \<Rightarrow> s) in
     if scheme \<noteq> ''http'' \<and> scheme \<noteq> ''https'' then Err (InvalidScheme scheme)
     else obind (ok_or MissingAuthority (uri_authority lib url_parts)) (\<lambda>authority.
       Ok \<lparr>bu_scheme = scheme, bu_authority = authority,
           bu_path = (case uri_path_and_query lib url_parts of None \<Rightarrow> ''/'' | Some p \<Rightarrow> p)\<rparr>))"

definition show_backend_url :: "backend_url \<Rightarrow> string" where
  "show_backend_url b = bu_scheme b @ ''://'' @ bu_authority b @ bu_path b"

section \<open>Headers\<close>

datatype header_error = HeaderValueError | HeaderNameError | HeaderFormat string

record header =
  hd_name :: string
  hd_value :: bytes

text \<open>\<open>name_of\<close> and \<open>value_of\<close> are \<open>HeaderName::from_str\<close> and \<open>HeaderValue::from_str\<close>.\<close>

definition header_from_str ::
  "(string \<Rightarrow> string option) \<Rightarrow> (string \<Rightarrow> bytes option) \<Rightarrow> string \<Rightarrow> (header_error, header) outcome" where
  "header_from_str name_of value_of s =
     obind (ok_or (HeaderFormat s) (split_once CHR '':'' s)) (\<lambda>(name, v).
     obind (ok_or HeaderNameError (name_of name)) (\<lambda>name.
     obind (ok_or HeaderValueError (value_of (trim v))) (\<lambda>v.
     Ok \<lparr>hd_name = name, hd_value = v\<rparr>)))"

section \<open>Arguments\<close>

record 'u client_args =
  ca_server :: 'u
  ca_remote :: "remote list"
  ca_ws_psk :: "bytes option"
  ca_keepalive :: optional_duration
  ca_max_retry_count :: u32
  ca_max_retry_interval :: u64
  ca_handshake_timeout :: optional_duration
  ca_proxy :: "string option"
  ca_header :: "header list"
  ca_hostname :: "bytes option"
  ca_tls_ca :: "string option"
  ca_tls_skip_verify :: bool
  ca_tls_key :: "string option"
  ca_tls_cert :: "string option"
  ca_channel_timeout :: optional_duration

record server_args =
  sa_host :: "string list"
  sa_ports :: "u16 list"
  sa_backend :: "backend_url option"
  sa_obfs :: bool
  sa_not_found_resp :: string
  sa_ws_psk :: "bytes option"
  sa_reverse :: bool
  sa_tls_key :: "string option"
  sa_tls_cert :: "string option"
  sa_tls_ca :: "string option"
  sa_tls_domain :: "string list"
  sa_tls_acme_url :: string
  sa_tls_acme_email :: "string option"
  sa_tls_acme_accept_tos :: bool
  sa_tls_acme_challenge_helper :: "string option"
  sa_timeout :: optional_duration

text \<open>The values of an argument list that gives only what is required; \<open>acme_url\<close> is Let's Encrypt's production URL.\<close>

definition client_args_default :: "'u \<Rightarrow> remote list \<Rightarrow> 'u client_args" where
  "client_args_default server remote =
     \<lparr>ca_server = server, ca_remote = remote, ca_ws_psk = None, ca_keepalive = optional_from_secs 25, ca_max_retry_count = 0,
      ca_max_retry_interval = 300000, ca_handshake_timeout = optional_from_secs 10, ca_proxy = None, ca_header = [],
      ca_hostname = None, ca_tls_ca = None, ca_tls_skip_verify = False, ca_tls_key = None, ca_tls_cert = None,
      ca_channel_timeout = optional_from_secs 10\<rparr>"

definition server_args_default :: "string \<Rightarrow> server_args" where
  "server_args_default acme_url =
     \<lparr>sa_host = [''::''], sa_ports = [8080], sa_backend = None, sa_obfs = False, sa_not_found_resp = ''Not found'',
      sa_ws_psk = None, sa_reverse = False, sa_tls_key = None, sa_tls_cert = None, sa_tls_ca = None, sa_tls_domain = [],
      sa_tls_acme_url = acme_url, sa_tls_acme_email = None, sa_tls_acme_accept_tos = False,
      sa_tls_acme_challenge_helper = None, sa_timeout = optional_from_secs 60\<rparr>"

text \<open>What clap guarantees of the parsed arguments.\<close>

definition server_args_ok :: "server_args \<Rightarrow> bool" where
  "server_args_ok a \<longleftrightarrow> sa_host a \<noteq> [] \<and> sa_ports a \<noteq> []
     \<and> (sa_tls_key a \<noteq> None \<longleftrightarrow> sa_tls_cert a \<noteq> None)
     \<and> (sa_tls_domain a \<noteq> [] \<longrightarrow> sa_tls_key a = None \<and> sa_tls_cert a = None \<and> sa_tls_acme_accept_tos a
         \<and> sa_tls_acme_challenge_helper a \<noteq> None)"

section \<open>Start-up\<close>

text \<open>\<open>PenguinCli\<close> and its global cell; \<open>main\<close> picks the log level and the subcommand.\<close>

datatype 'u commands = ClientCommand "'u client_args" | ServerCommand server_args

record 'u penguin_cli =
  cli_subcommand :: "'u commands"
  cli_verbose :: u8
  cli_quiet :: u8

definition get_global :: "'u penguin_cli option \<Rightarrow> ('e, 'u penguin_cli) outcome" where
  "get_global args = expect args"

definition parse_global :: "'u penguin_cli \<Rightarrow> 'u penguin_cli option \<Rightarrow> ('e, 'u penguin_cli option) outcome" where
  "parse_global parsed args = (case args of None \<Rightarrow> Ok (Some parsed) | Some _ \<Rightarrow> Panic)"

datatype level_filter = LevelError | LevelWarn | LevelInfo | LevelDebug | LevelTrace

definition log_level :: "u8 \<Rightarrow> u8 \<Rightarrow> level_filter" where
  "log_level verbose quiet =
     (let level = (if verbose = 0 then LevelInfo else if verbose = 1 then LevelDebug else LevelTrace)
      in if quiet = 0 then level else if quiet = 1 then LevelWarn else LevelError)"

datatype ('c, 's) main_error = MainClient 'c | MainServer 's

text \<open>\<open>main\<close>, given what the two main functions return.\<close>

definition penguin_main ::
  "('u client_args \<Rightarrow> ('c, unit) outcome) \<Rightarrow> (server_args \<Rightarrow> ('s, unit) outcome) \<Rightarrow> 'u penguin_cli
   \<Rightarrow> level_filter \<times> (('c, 's) main_error, unit) outcome" where
  "penguin_main client_main server_main parsed =
     (log_level (cli_verbose parsed) (cli_quiet parsed),
      obind (parse_global parsed None) (\<lambda>args. obind (get_global args) (\<lambda>cli.
      case cli_subcommand cli of
        ClientCommand a \<Rightarrow> map_err MainClient (client_main a)
      | ServerCommand a \<Rightarrow> map_err MainServer (server_main a))))"

end
