(* ===== verification/Ws_Connect.thy ===== *)
theory Ws_Connect
  imports Command_Line Client
begin

text \<open>
  The two places where the WebSocket library is called: the adapter that makes its stream a \<open>WebSocket\<close> of the multiplexor
  (\<open>src/src/mux/ws.rs\<close>), and the handshake of the client (\<open>src/src/client/ws_connect.rs\<close>). The library itself is a
  parameter: the dictionary \<open>ts_stream\<close> of a stream's methods, and the request that \<open>into_client_request\<close> makes of a URL.
\<close>

section \<open>The adapter\<close>

datatype ts_message =
    TsText string
  | TsBinary bytes
  | TsPing bytes
  | TsPong bytes
  | TsClose "(u16 \<times> string) option"
  | TsFrame bytes

definition message_from_ts :: "ts_message \<Rightarrow> ('e, message) outcome" where
  "message_from_ts msg = (case msg of
       TsBinary data \<Rightarrow> Ok (Binary data)
     | TsText text \<Rightarrow> Ok (Binary (str_bytes text))
     | TsPing _ \<Rightarrow> Ok Ping
     | TsPong _ \<Rightarrow> Ok Pong
     | TsClose _ \<Rightarrow> Ok CloseMsg
     | TsFrame _ \<Rightarrow> Panic)"

definition message_to_ts :: "message \<Rightarrow> ts_message" where
  "message_to_ts msg = (case msg of
       Binary data \<Rightarrow> TsBinary data
     | Ping \<Rightarrow> TsPing []
     | Pong \<Rightarrow> TsPong []
     | CloseMsg \<Rightarrow> TsClose None)"

record 'w ts_stream =
  ts_poll_ready :: "'w \<Rightarrow> 'w \<times> (tungstenite_error, unit) outcome poll"
  ts_start_send :: "ts_message \<Rightarrow> 'w \<Rightarrow> 'w \<times> (tungstenite_error, unit) outcome"
  ts_poll_flush :: "'w \<Rightarrow> 'w \<times> (tungstenite_error, unit) outcome poll"
  ts_poll_close :: "'w \<Rightarrow> 'w \<times> (tungstenite_error, unit) outcome poll"
  ts_poll_next :: "'w \<Rightarrow> 'w \<times> (tungstenite_error, ts_message) outcome option poll"

text \<open>\<open>boxed\<close> names the boxed error, as \<open>downcast_ref\<close> sees it later.\<close>

definition poll_map_err :: "(tungstenite_error \<Rightarrow> string) \<Rightarrow> (tungstenite_error, unit) outcome poll \<Rightarrow> (mux_error, unit) outcome poll" where
  "poll_map_err boxed p = (case p of Pending \<Rightarrow> Pending | Ready r \<Rightarrow> Ready (map_err (\<lambda>e. WebSocketError (boxed e)) r))"

definition poll_next_unpin ::
  "(tungstenite_error \<Rightarrow> string) \<Rightarrow> 'w ts_stream \<Rightarrow> 'w \<Rightarrow> 'w \<times> (mux_error, message) outcome option poll" where
  "poll_next_unpin boxed ts w = (case ts_poll_next ts w of
       (w, Pending) \<Rightarrow> (w, Pending)
     | (w, Ready None) \<Rightarrow> (w, Ready None)
     | (w, Ready (Some r)) \<Rightarrow>
         (w, Ready (Some (obind (map_err (\<lambda>e. WebSocketError (boxed e)) r) message_from_ts))))"

definition web_socket_of :: "(tungstenite_error \<Rightarrow> string) \<Rightarrow> 'w ts_stream \<Rightarrow> 'w web_socket" where
  "web_socket_of boxed ts =
     \<lparr>ws_poll_ready = (\<lambda>w. apsnd (poll_map_err boxed) (ts_poll_ready ts w)),
      ws_start_send = (\<lambda>msg w. apsnd (map_err (\<lambda>e. WebSocketError (boxed e))) (ts_start_send ts (message_to_ts msg) w)),
      ws_poll_flush = (\<lambda>w. apsnd (poll_map_err boxed) (ts_poll_flush ts w)),
      ws_poll_close = (\<lambda>w. apsnd (poll_map_err boxed) (ts_poll_close ts w)),
      ws_poll_next = poll_next_unpin boxed ts\<rparr>"

text \<open>A message sent through the adapter and received through it is the same message.\<close>

lemma message_ts_roundtrip [simp]: "message_from_ts (message_to_ts msg) = Ok msg"
  by (cases msg) (simp_all add: message_from_ts_def message_to_ts_def)

section \<open>The client's handshake\<close>

text \<open>The request: the library's for the URL, with the protocol, the key, the host name and the user's headers put in, in this order.\<close>

definition handshake_request ::
  "('u \<Rightarrow> (tungstenite_error, 'u http_request) outcome) \<Rightarrow> 'u client_args \<Rightarrow> (client_error, 'u http_request) outcome" where
  "handshake_request into_client_request args =
     obind (map_err Tungstenite (into_client_request (ca_server args))) (\<lambda>req.
     let hs = headers_insert ''sec-websocket-protocol'' WANTED_PROTOCOL (rq_headers req);
         hs = (case ca_ws_psk args of None \<Rightarrow> hs | Some psk \<Rightarrow> headers_insert ''x-penguin-psk'' psk hs);
         hs = (case ca_hostname args of None \<Rightarrow> hs | Some h \<Rightarrow> headers_insert ''host'' h hs);
         hs = fold (\<lambda>h. headers_insert (hd_name h) (hd_value h)) (ca_header args) hs
     in Ok (req\<lparr>rq_headers := hs\<rparr>))"

text \<open>
  \<open>handshake\<close>: what it connects with, and which branch of its \<open>select!\<close> ends it.
\<close>

datatype connector = Plain | TlsConnector client_config

datatype 'ws handshake_end =
    HandshakeResult "(tungstenite_error, 'ws) outcome"
  | HandshakeTimerFired
  | HandshakeCtrlC

definition handshake_prepare ::
  "'u uri_lib \<Rightarrow> ('u \<Rightarrow> (tungstenite_error, 'u http_request) outcome)
   \<Rightarrow> tls_env \<Rightarrow> 'u client_args
   \<Rightarrow> (client_error, 'u http_request \<times> connector) outcome" where
  "handshake_prepare lib into_client_request tls args =
     obind (expect (uri_scheme lib (ca_server args))) (\<lambda>scheme.
     let is_tls = (scheme = ''wss'') in
     obind (handshake_request into_client_request args) (\<lambda>req.
     if is_tls then
       obind (map_err Tls (make_tls_connector tls (ca_tls_cert args) (ca_tls_key args) (ca_tls_ca args) (ca_tls_skip_verify args)))
         (\<lambda>c. Ok (req, TlsConnector c))
     else Ok (req, Plain)))"

definition handshake_finish :: "'ws handshake_end \<Rightarrow> (client_error, 'ws) outcome" where
  "handshake_finish e = (case e of
       HandshakeResult r \<Rightarrow> map_err Tungstenite r
     | HandshakeTimerFired \<Rightarrow> Err HandshakeTimeout
     | HandshakeCtrlC \<Rightarrow> Err HandshakeCancelled)"

text \<open>The timer of \<open>OptionalDuration::sleep\<close> fires only where a duration is set.\<close>

definition handshake_end_possible :: "'u client_args \<Rightarrow> 'ws handshake_end \<Rightarrow> bool" where
  "handshake_end_possible args e \<longleftrightarrow> (e = HandshakeTimerFired \<longrightarrow> optional_sleep (ca_handshake_timeout args) \<noteq> None)"

definition handshake ::
  "'u uri_lib \<Rightarrow> ('u \<Rightarrow> (tungstenite_error, 'u http_request) outcome)
   \<Rightarrow> tls_env \<Rightarrow> 'u client_args
   \<Rightarrow> ('u http_request \<Rightarrow> connector \<Rightarrow> 'ws handshake_end) \<Rightarrow> (client_error, 'ws) outcome" where
  "handshake lib into_client_request tls args connect =
     obind (handshake_prepare lib into_client_request tls args) (\<lambda>(req, c). handshake_finish (connect req c))"

end
