(* ===== verification/Service_Properties.thy ===== *)
theory Service_Properties
  imports Ws_Connect
begin

text \<open>
  What the HTTP service does: exactly which requests are upgraded, that every other request to a server in
  obfuscation mode is answered as if there were no tunnel, how requests are passed to the backend, and that the
  request of the client's own handshake is one that the server upgrades.
\<close>

section \<open>Which requests are upgraded\<close>

definition psk_ok :: "service_state \<Rightarrow> 'u http_request \<Rightarrow> bool" where
  "psk_ok st req \<longleftrightarrow> st_ws_psk st = None \<or> headers_get (rq_headers req) ''x-penguin-psk'' = st_ws_psk st"

definition upgrade_headers_ok :: "headers \<Rightarrow> bool" where
  "upgrade_headers_ok hs \<longleftrightarrow> headers_get hs ''sec-websocket-key'' \<noteq> None
     \<and> header_matches (headers_get hs ''connection'') UPGRADE
     \<and> header_matches (headers_get hs ''upgrade'') WEBSOCKET
     \<and> header_matches (headers_get hs ''sec-websocket-version'') WEBSOCKET_VERSION
     \<and> header_matches (headers_get hs ''sec-websocket-protocol'') WANTED_PROTOCOL"

definition valid_upgrade :: "service_state \<Rightarrow> 'u http_request \<Rightarrow> bool" where
  "valid_upgrade st req \<longleftrightarrow> rq_method req = GET \<and> psk_ok st req \<and> upgrade_headers_ok (rq_headers req) \<and> rq_on_upgrade req"

text \<open>Base64 text is a valid header value: what the \<open>expect\<close> in \<open>make_sec_websocket_accept\<close> relies on.\<close>

definition accept_valid :: "'u http_env \<Rightarrow> bool" where
  "accept_valid env \<longleftrightarrow> (\<forall>octets. he_header_value env (he_base64 env octets) = Some (str_bytes (he_base64 env octets)))"

definition accept_key :: "'u http_env \<Rightarrow> bytes \<Rightarrow> bytes" where
  "accept_key env key = str_bytes (he_base64 env (he_sha1 env (key @ str_bytes ''258EAFA5-E914-47DA-95CA-C5AB0DC85B11'')))"

lemma make_accept [simp]: "accept_valid env \<Longrightarrow> make_sec_websocket_accept env key = Ok (accept_key env key)"
  by (simp add: make_sec_websocket_accept_def accept_valid_def accept_key_def)

definition switching_protocols :: "bytes \<Rightarrow> http_response" where
  "switching_protocols accept = \<lparr>rs_status = 101,
     rs_headers = [(''connection'', UPGRADE), (''upgrade'', WEBSOCKET), (''sec-websocket-protocol'', WANTED_PROTOCOL),
       (''sec-websocket-accept'', accept)], rs_body = []\<rparr>"

lemma ws_handler_cases:
  assumes "accept_valid env"
  shows "ws_handler env st req reverse =
    (if valid_upgrade st req
     then (Ok (switching_protocols (accept_key env (the (headers_get (rq_headers req) ''sec-websocket-key'')))), Some (UpgradeTask reverse))
     else (backend_or_404_handler env st (req\<lparr>rq_on_upgrade := False\<rparr>), None))"
  using assms
  by (auto simp: ws_handler_def Let_def valid_upgrade_def psk_ok_def upgrade_headers_ok_def switching_protocols_def
    split: option.split)

text \<open>
  C13: A connection becomes a tunnel exactly when the request is a GET of /ws with the configured pre-shared key (if one is
  configured), a WebSocket key, the exact values of the four negotiation headers, on a connection that can be upgraded; the
  answer then is 101 with the accept key derived from the client's, and the tunnel allows reverse binding exactly if the
  server does. Every other request gets no tunnel.
\<close>

theorem upgrade_exactly_when_valid:
  assumes "accept_valid env"
  shows "(snd (service_call env st req) \<noteq> None \<longleftrightarrow> uri_path (he_uri env) (rq_uri req) = ''/ws'' \<and> valid_upgrade st req)
    \<and> (\<forall>t. snd (service_call env st req) = Some t \<longrightarrow> t = UpgradeTask (st_reverse st)
        \<and> fst (service_call env st req) =
            Ok (switching_protocols (accept_key env (the (headers_get (rq_headers req) ''sec-websocket-key'')))))
    \<and> (st_ws_psk st \<noteq> None \<and> headers_get (rq_headers req) ''x-penguin-psk'' \<noteq> st_ws_psk st \<longrightarrow> snd (service_call env st req) = None)"
  using assms by (auto simp: service_call_def Let_def ws_handler_cases valid_upgrade_def psk_ok_def)

section \<open>Requests that are refused\<close>

text \<open>Hyper's extensions of a request are not sent to the backend.\<close>

definition extensions_not_sent :: "'u http_env \<Rightarrow> bool" where
  "extensions_not_sent env \<longleftrightarrow> (\<forall>req b. he_request env (req\<lparr>rq_on_upgrade := b\<rparr>) = he_request env req)"

lemma backend_ignores_extension:
  "extensions_not_sent env \<Longrightarrow>
   backend_or_404_handler env st (req\<lparr>rq_on_upgrade := b\<rparr>) = backend_or_404_handler env st req"
proof -
  assume h: "extensions_not_sent env"
  have swap: "req\<lparr>rq_on_upgrade := b, rq_uri := uri\<rparr> = req\<lparr>rq_uri := uri, rq_on_upgrade := b\<rparr>" for uri by simp
  have "exec_request env (req\<lparr>rq_on_upgrade := b, rq_uri := uri\<rparr>) = exec_request env (req\<lparr>rq_uri := uri\<rparr>)" for uri
    using h [unfolded extensions_not_sent_def, rule_format, of b "req\<lparr>rq_uri := uri\<rparr>"]
    unfolding swap exec_request_def by (simp only:)
  then show ?thesis by (simp add: backend_or_404_handler_def Let_def cong: option.case_cong)
qed

text \<open>
  C22: Active probing: a server in obfuscation mode answers every request that does not become a tunnel exactly as its backend
  (or the 404 page) does, whatever the path, /health, /version and /ws included; so the answer is the same for every
  configured pre-shared key the prober does not know, for none, and whether reverse binding is allowed.
\<close>

theorem probe_indistinguishable:
  assumes "accept_valid env" and "extensions_not_sent env" and "st_obfs st"
    and "snd (service_call env st req) = None"
    and "snd (service_call env (st\<lparr>st_ws_psk := psk, st_reverse := rb\<rparr>) req) = None"
  shows "fst (service_call env st req) = backend_or_404_handler env st req
    \<and> fst (service_call env (st\<lparr>st_ws_psk := psk, st_reverse := rb\<rparr>) req) = fst (service_call env st req)"
proof -
  have *: "fst (service_call env s req) = backend_or_404_handler env s req"
    if "st_obfs s" "snd (service_call env s req) = None" for s
    using that assms(1) backend_ignores_extension [OF assms(2)]
    by (auto simp: service_call_def Let_def ws_handler_cases split: if_splits)
  have "backend_or_404_handler env (st\<lparr>st_ws_psk := psk, st_reverse := rb\<rparr>) req = backend_or_404_handler env st req"
    by (simp add: backend_or_404_handler_def not_found_handler_def Let_def cong: option.case_cong outcome.case_cong)
  with * [OF assms(3,4)] * [of "st\<lparr>st_ws_psk := psk, st_reverse := rb\<rparr>", OF _ assms(5)] assms(3) show ?thesis by simp
qed

section \<open>The client's handshake meets the server\<close>

text \<open>What is relied on of a header map: \<open>insert\<close> sets one name and leaves the others.\<close>

locale header_map =
  fixes get :: "'h \<Rightarrow> string \<Rightarrow> bytes option" and insert_h :: "string \<Rightarrow> bytes \<Rightarrow> 'h \<Rightarrow> 'h"
  assumes get_insert: "get (insert_h n v h) m = (if m = n then Some v else get h m)"
begin

lemma get_fold_other:
  "m \<notin> hd_name ` set xs \<Longrightarrow> get (fold (\<lambda>x. insert_h (hd_name x) (hd_value x)) xs h) m = get h m"
  by (induction xs arbitrary: h) (auto simp: get_insert)

lemma get_fold_last:
  "get (fold (\<lambda>x. insert_h (hd_name x) (hd_value x)) (xs @ [\<lparr>hd_name = n, hd_value = v\<rparr>]) h) n = Some v"
  by (simp add: get_insert)

end

lemma map_of_filter_other: "map_of (filter (\<lambda>(k, _). k \<noteq> n) hs) m = (if m = n then None else map_of hs m)"
  by (induction hs) auto

interpretation hdrs: header_map headers_get headers_insert
  by unfold_locales (simp add: headers_get_def headers_insert_def map_add_def map_of_filter_other split: option.split)

text \<open>The documented request of \<open>into_client_request\<close>: a GET of the URL with the headers RFC 6455 demands.\<close>

definition ts_request_ok :: "('u \<Rightarrow> (tungstenite_error, 'u http_request) outcome) \<Rightarrow> bool" where
  "ts_request_ok into_client_request \<longleftrightarrow> (\<forall>u req. into_client_request u = Ok req \<longrightarrow>
     rq_method req = GET \<and> rq_uri req = u \<and> headers_get (rq_headers req) ''sec-websocket-key'' \<noteq> None
     \<and> header_matches (headers_get (rq_headers req) ''connection'') UPGRADE
     \<and> header_matches (headers_get (rq_headers req) ''upgrade'') WEBSOCKET
     \<and> header_matches (headers_get (rq_headers req) ''sec-websocket-version'') WEBSOCKET_VERSION)"

definition negotiation_names :: "string list" where
  "negotiation_names = [''connection'', ''upgrade'', ''sec-websocket-key'', ''sec-websocket-version'',
     ''sec-websocket-protocol'', ''x-penguin-psk'']"

lemma handshake_request_headers:
  assumes "handshake_request into_client_request args = Ok req"
    and "\<forall>h \<in> set (ca_header args). hd_name h \<notin> set negotiation_names"
  obtains req0 where "into_client_request (ca_server args) = Ok req0" "rq_method req = rq_method req0" "rq_uri req = rq_uri req0"
    "headers_get (rq_headers req) ''sec-websocket-protocol'' = Some WANTED_PROTOCOL"
    "ca_ws_psk args \<noteq> None \<Longrightarrow> headers_get (rq_headers req) ''x-penguin-psk'' = ca_ws_psk args"
    "\<And>n. n \<in> set negotiation_names \<Longrightarrow> n \<noteq> ''sec-websocket-protocol'' \<Longrightarrow> n \<noteq> ''x-penguin-psk'' \<Longrightarrow>
       headers_get (rq_headers req) n = headers_get (rq_headers req0) n"
proof -
  obtain req0 where r0: "into_client_request (ca_server args) = Ok req0"
    using assms(1) by (cases "into_client_request (ca_server args)") (auto simp: handshake_request_def)
  let ?h1 = "headers_insert ''sec-websocket-protocol'' WANTED_PROTOCOL (rq_headers req0)"
  let ?h2 = "case ca_ws_psk args of None \<Rightarrow> ?h1 | Some psk \<Rightarrow> headers_insert ''x-penguin-psk'' psk ?h1"
  let ?h3 = "case ca_hostname args of None \<Rightarrow> ?h2 | Some h \<Rightarrow> headers_insert ''host'' h ?h2"
  have req: "req = req0\<lparr>rq_headers := fold (\<lambda>h. headers_insert (hd_name h) (hd_value h)) (ca_header args) ?h3\<rparr>"
    using assms(1) r0 by (simp add: handshake_request_def Let_def)
  have g: "headers_get (rq_headers req) n = headers_get ?h2 n" if "n \<in> set negotiation_names" for n
  proof -
    from that have "n \<noteq> ''host''" by (auto simp: negotiation_names_def)
    moreover from that assms(2) have "n \<notin> hd_name ` set (ca_header args)" by blast
    ultimately show ?thesis
      by (simp add: req hdrs.get_fold_other hdrs.get_insert split: option.split)
  qed
  have members: "''sec-websocket-protocol'' \<in> set negotiation_names" "''x-penguin-psk'' \<in> set negotiation_names"
    by (simp_all add: negotiation_names_def)
  show thesis
  proof (rule that [OF r0])
    show "headers_get (rq_headers req) ''sec-websocket-protocol'' = Some WANTED_PROTOCOL"
      by (simp add: g [OF members(1)] hdrs.get_insert split: option.split)
    show "headers_get (rq_headers req) ''x-penguin-psk'' = ca_ws_psk args" if "ca_ws_psk args \<noteq> None"
      using that by (auto simp: g [OF members(2)] hdrs.get_insert)
    show "headers_get (rq_headers req) n = headers_get (rq_headers req0) n"
      if "n \<in> set negotiation_names" "n \<noteq> ''sec-websocket-protocol''" "n \<noteq> ''x-penguin-psk''" for n
      using that by (simp add: g hdrs.get_insert split: option.split)
  qed (simp_all add: req)
qed

text \<open>
  C25: The request that the client's handshake sends to a server URL with path /ws is upgraded by the server, with the key the
  client expects, when the server demands no pre-shared key or the one the client was given, and the user's own headers
  do not replace those of the negotiation.
\<close>

theorem handshake_accepted:
  assumes "accept_valid env" and "ts_request_ok into_client_request"
    and "handshake_request into_client_request args = Ok req"
    and "uri_path (he_uri env) (ca_server args) = ''/ws''"
    and "st_ws_psk st = None \<or> st_ws_psk st = ca_ws_psk args"
    and "\<forall>h \<in> set (ca_header args). hd_name h \<notin> set negotiation_names"
  shows "service_call env st (req\<lparr>rq_on_upgrade := True\<rparr>) =
    (Ok (switching_protocols (accept_key env (the (headers_get (rq_headers req) ''sec-websocket-key'')))),
     Some (UpgradeTask (st_reverse st)))"
proof -
  from handshake_request_headers [OF assms(3,6)] obtain req0 where r: "into_client_request (ca_server args) = Ok req0"
    "rq_method req = rq_method req0" "rq_uri req = rq_uri req0"
    "headers_get (rq_headers req) ''sec-websocket-protocol'' = Some WANTED_PROTOCOL"
    "ca_ws_psk args \<noteq> None \<Longrightarrow> headers_get (rq_headers req) ''x-penguin-psk'' = ca_ws_psk args"
    and same: "\<And>n. n \<in> set negotiation_names \<Longrightarrow> n \<noteq> ''sec-websocket-protocol'' \<Longrightarrow> n \<noteq> ''x-penguin-psk'' \<Longrightarrow>
       headers_get (rq_headers req) n = headers_get (rq_headers req0) n" by blast
  have kept: "headers_get (rq_headers req) ''connection'' = headers_get (rq_headers req0) ''connection''"
    "headers_get (rq_headers req) ''upgrade'' = headers_get (rq_headers req0) ''upgrade''"
    "headers_get (rq_headers req) ''sec-websocket-key'' = headers_get (rq_headers req0) ''sec-websocket-key''"
    "headers_get (rq_headers req) ''sec-websocket-version'' = headers_get (rq_headers req0) ''sec-websocket-version''"
    by (rule same; simp add: negotiation_names_def)+
  from assms(2) r(1) have q: "rq_method req0 = GET" "rq_uri req0 = ca_server args"
    "headers_get (rq_headers req0) ''sec-websocket-key'' \<noteq> None"
    "header_matches (headers_get (rq_headers req0) ''connection'') UPGRADE"
    "header_matches (headers_get (rq_headers req0) ''upgrade'') WEBSOCKET"
    "header_matches (headers_get (rq_headers req0) ''sec-websocket-version'') WEBSOCKET_VERSION"
    unfolding ts_request_ok_def by blast+
  have "psk_ok st (req\<lparr>rq_on_upgrade := True\<rparr>)" using assms(5) r(5) by (cases "ca_ws_psk args") (auto simp: psk_ok_def)
  with q r kept have "valid_upgrade st (req\<lparr>rq_on_upgrade := True\<rparr>)"
    by (simp add: valid_upgrade_def upgrade_headers_ok_def header_matches_def [of "Some _"])
  with assms(1,4) q(2) r(3) show ?thesis by (simp add: service_call_def ws_handler_cases)
qed

section \<open>Witnesses\<close>

text \<open>A URI as scheme, authority and path; an environment whose backend answers every request with a page.\<close>

type_synonym simple_uri = "string \<times> string \<times> string"

definition simple_lib :: "simple_uri uri_lib" where
  "simple_lib = \<lparr>uri_from_str = (\<lambda>s. Some (''ws'', ''h'', s)), uri_scheme = (\<lambda>u. Some (fst u)),
     uri_authority = (\<lambda>u. Some (fst (snd u))), uri_path_and_query = (\<lambda>u. Some (snd (snd u))), uri_path = (\<lambda>u. snd (snd u)),
     pq_path = (\<lambda>p. p), uri_build = (\<lambda>s a p. Some (s, a, p))\<rparr>"

definition simple_env :: "simple_uri http_env" where
  "simple_env = \<lparr>he_uri = simple_lib, he_sha1 = take 20, he_base64 = (\<lambda>_. ''AAAA''), he_header_value = (\<lambda>s. Some (str_bytes s)),
     he_request = (\<lambda>req. Ok (\<lparr>rs_status = 200, rs_headers = [], rs_body = []\<rparr>, Ok (str_bytes (uri_path simple_lib (rq_uri req))))),
     he_version = ''0.0.0''\<rparr>"

definition simple_into_request :: "simple_uri \<Rightarrow> (tungstenite_error, simple_uri http_request) outcome" where
  "simple_into_request u = Ok \<lparr>rq_method = GET, rq_uri = u, rq_headers = [(''connection'', str_bytes ''Upgrade''),
     (''upgrade'', str_bytes ''websocket''), (''sec-websocket-version'', str_bytes ''13''), (''sec-websocket-key'', [65])],
     rq_body = [], rq_on_upgrade = False\<rparr>"

definition simple_args :: "simple_uri client_args" where
  "simple_args = (client_args_default (''ws'', ''h'', ''/ws'') [])\<lparr>ca_ws_psk := Some [7]\<rparr>"

definition simple_state :: service_state where
  "simple_state = \<lparr>st_backend = None, st_ws_psk = Some [7], st_not_found_resp = ''no'', st_obfs = True, st_reverse = False,
     st_tls_timeout = OPTIONAL_NONE, st_http_timeout = OPTIONAL_NONE\<rparr>"

definition simple_request :: "simple_uri http_request" where
  "simple_request = \<lparr>rq_method = GET, rq_uri = (''ws'', ''h'', ''/ws''), rq_headers = [(''connection'', str_bytes ''Upgrade''),
     (''upgrade'', str_bytes ''websocket''), (''sec-websocket-version'', str_bytes ''13''), (''sec-websocket-key'', [65]),
     (''sec-websocket-protocol'', WANTED_PROTOCOL)], rq_body = [], rq_on_upgrade = True\<rparr>"

lemma simple_valid: "accept_valid simple_env" "extensions_not_sent simple_env"
  by (simp_all add: accept_valid_def extensions_not_sent_def simple_env_def)

lemma simple_refused: "snd (service_call simple_env simple_state simple_request) = None"
  "snd (service_call simple_env (simple_state\<lparr>st_ws_psk := Some [8], st_reverse := True\<rparr>) simple_request) = None"
  "backend_or_404_handler simple_env simple_state simple_request = Ok \<lparr>rs_status = 404, rs_headers = [], rs_body = [110, 111]\<rparr>"
  by code_simp+

theorem upgrade_exactly_when_valid_witness:
  "snd (service_call simple_env (simple_state\<lparr>st_ws_psk := None\<rparr>) simple_request) = Some (UpgradeTask False)"
proof -
  have "uri_path (he_uri simple_env) (rq_uri simple_request) = ''/ws''" "valid_upgrade (simple_state\<lparr>st_ws_psk := None\<rparr>) simple_request"
    by code_simp+
  moreover have "st_reverse (simple_state\<lparr>st_ws_psk := None\<rparr>) = False" by (simp add: simple_state_def)
  ultimately show ?thesis
    using upgrade_exactly_when_valid [OF simple_valid(1), of "simple_state\<lparr>st_ws_psk := None\<rparr>" simple_request] by auto
qed

theorem probe_indistinguishable_witness:
  "fst (service_call simple_env simple_state simple_request) = Ok \<lparr>rs_status = 404, rs_headers = [], rs_body = [110, 111]\<rparr>"
  using probe_indistinguishable [OF simple_valid _ simple_refused(1,2)] simple_refused(3) by (simp add: simple_state_def)

theorem handshake_accepted_witness:
  "\<exists>req. handshake_request simple_into_request simple_args = Ok req
     \<and> snd (service_call simple_env simple_state (req\<lparr>rq_on_upgrade := True\<rparr>)) = Some (UpgradeTask False)"
proof -
  obtain req where req: "handshake_request simple_into_request simple_args = Ok req"
    by (simp add: handshake_request_def simple_into_request_def Let_def)
  have ts: "ts_request_ok simple_into_request"
    by (auto simp: ts_request_ok_def simple_into_request_def headers_get_def header_matches_def) (code_simp+)?
  have "uri_path (he_uri simple_env) (ca_server simple_args) = ''/ws''" "st_ws_psk simple_state = ca_ws_psk simple_args"
    "ca_header simple_args = []" "st_reverse simple_state = False"
    by (simp_all add: simple_env_def simple_lib_def simple_args_def simple_state_def client_args_default_def)
  then show ?thesis using req handshake_accepted [OF simple_valid(1) ts req] by simp
qed

end
