(* ===== verification/Tunnel.thy ===== *)
theory Tunnel
  imports Server_Properties Client_Properties Service_Properties Mux_Shutdown
begin

text \<open>
  Client and server together: a stream request that reaches the server is accepted and handed to a forwarder, a failed
  connection travels back, and a datagram goes to the network and its answer to the local program.
\<close>

section \<open>Streams\<close>

text \<open>A request that arrives at a tunnel with an idle accept queue is handed to a TCP forwarder.\<close>

definition accepts_streams :: "u32 \<Rightarrow> server_conn \<Rightarrow> bool" where
  "accepts_streams i s \<longleftrightarrow> mux_wf (sv_mux s) \<and> slot_of (sv_mux s) i = None \<and> ch_rx_open (tx_frame (sv_mux s))
     \<and> ch_rx_open (con_recv (sv_mux s)) \<and> ch_queue (con_recv (sv_mux s)) = [] \<and> \<not> ch_full (con_recv (sv_mux s))"

definition served :: "u32 \<Rightarrow> u32 \<Rightarrow> bytes \<Rightarrow> u16 \<Rightarrow> server_conn \<Rightarrow> server_conn" where
  "served i n h p s = s\<lparr>sv_mux := queue_frame (new_acknowledge i (mux_rwnd (sv_mux s))) (add_flow i n (sv_mux s)),
     sv_streams := sv_streams s @ [new_stream_of i n h p (sv_mux s)], sv_jobs := Suc (sv_jobs s)\<rparr>"

lemma stream_served:
  assumes "accepts_streams i s"
  obtains b1 where "deliver (new_connect h p i n) (sv_mux s) = (b1, Ready (Ok False))"
    "replies (sv_mux s) b1 [fin (new_acknowledge i (mux_rwnd (sv_mux s)))]"
    "server_loop_step StreamAccepted (s\<lparr>sv_mux := b1\<rparr>) = (served i n h p s, None)"
    "fresh_end (sv_mux (served i n h p s)) (new_stream_of i n h p (sv_mux s)) i n (mux_rwnd (sv_mux s))"
proof -
  let ?b = "sv_mux s"
  let ?q = "queue_frame (new_acknowledge i (mux_rwnd ?b)) (add_flow i n ?b)"
  let ?b1 = "?q\<lparr>con_recv := ch_push (new_stream_of i n h p ?b) (con_recv ?b)\<rparr>"
  have d: "deliver (new_connect h p i n) ?b = (?b1, Ready (Ok False))"
    using assms deliver_connect [of ?b i h p n] by (simp add: accepts_streams_def mux_wf_rwnd)
  have r: "replies ?b ?b1 [fin (new_acknowledge i (mux_rwnd ?b))]"
    using assms by (simp add: accepts_streams_def replies_def)
  have con: "con_recv ?q = con_recv ?b" by (simp add: add_flow_def)
  have "(con_recv ?b)\<lparr>ch_queue := []\<rparr> = con_recv ?b" using assms by (simp add: accepts_streams_def)
  then have "server_loop_step StreamAccepted (s\<lparr>sv_mux := ?b1\<rparr>) = (served i n h p s, None)"
    using assms con by (simp add: server_loop_step_def accept_stream_channel_def poll_recv_def ch_push_def ok_or_closed_def
      accepts_streams_def served_def)
  moreover have "fresh_end (sv_mux (served i n h p s)) (new_stream_of i n h p ?b) i n (mux_rwnd ?b)"
    using fresh_end_add_flow [of i n ?b h p] by (simp add: served_def)
  ultimately show thesis using that d r by blast
qed

text \<open>A \<open>Reset\<close> ends the stream of the end that receives it: writing fails, reading sees the end.\<close>

lemma reset_ends_stream:
  assumes "fresh_end a sa i credit window"
  obtains a' where "deliver (new_reset i) a = (a', Ready (Ok False))" "slot_of a' i = None"
    "\<And>w data. snd (poll_write w data sa a') = Ready (Err BrokenPipe)"
    "snd (snd (poll_fill_buf sa a')) = Ready (Ok [])"
proof -
  let ?k = "ms_cell sa" and ?a' = "close_port i True a"
  from assms have f: "slot_of a i = Some (Established \<lparr>es_sender = Some ?k, es_cell = ?k\<rparr>)" "has_cell a sa" "unread sa a = []"
    "ch_tx_alive (frames_at a ?k)" by (simp_all add: fresh_end_def)
  have eq: "?a' = upd_frames ?k drop_tx (fst (disallow_write \<lparr>es_sender = Some ?k, es_cell = ?k\<rparr> (flow_remove i a)))"
    by (simp add: close_port_def close_port_local_def f(1) disallow_read_def disallow_write_def Let_def drop_sender_def)
  have len: "?k < length (cells a)" using f(2) by (simp add: has_cell_def)
  have fin: "c_finish_sent (cell ?a' ?k)"
    using len by (simp add: eq disallow_write_def Let_def upd_frames_def cell_upd_cell)
  have fr: "frames_at ?a' ?k = drop_tx (frames_at a ?k)"
    using len by (simp add: eq disallow_write_def Let_def frames_at_upd_frames)
  have "deliver (new_reset i) a = (?a', Ready (Ok False))"
    by (rule deliver_eq) (simp_all add: process_frame_def)
  moreover have "snd (poll_write w data sa ?a') = Ready (Err BrokenPipe)" for w data
    using fin by (simp add: poll_write_def permission_cases)
  moreover have "snd (snd (poll_fill_buf sa ?a')) = Ready (Ok [])"
  proof -
    have "ms_buf sa = []" "\<forall>x \<in> set (ch_queue (frames_at a ?k)). x = []" using f(3) by (simp_all add: unread_def)
    with fr show ?thesis
      by (cases "ch_queue (frames_at a ?k)")
        (simp_all add: poll_fill_buf_def poll_recv_def drop_tx_def increment_psh_recvd_since_def Let_def)
  qed
  ultimately show thesis using that slot_of_close_port by blast
qed

text \<open>
  When the server cannot connect (the host is not UTF-8, or connecting fails), it drops the stream, its task removes the
  flow and sends exactly one Reset, and the Reset ends the client's stream: the local program's reader sees the end of
  the data and its writer a broken pipe. No flow is left at either end.
\<close>

theorem tcp_connect_failure_closes:
  assumes "accepts_streams i s" and "notified (sv_mux s)" and "i \<noteq> 0"
    and "obind (from_utf8 ForwardHost h) (\<lambda>rhost. map_err ForwardIo (connect rhost p)) = Err e"
    and "fresh_end a sa i credit window"
  shows "\<exists>b1 t sb m m' a'. deliver (new_connect h p i n) (sv_mux s) = (b1, Ready (Ok False))
    \<and> server_loop_step StreamAccepted (s\<lparr>sv_mux := b1\<rparr>) = (t, None) \<and> sv_streams t = sv_streams s @ [sb]
    \<and> tcp_forwarder_on_channel connect peer sb (sv_mux t) = (m, Err e)
    \<and> process_dropped_ports_task m = (m', Pending) \<and> slot_of m' i = None \<and> replies (sv_mux t) m' [fin (new_reset i)]
    \<and> deliver (new_reset i) a = (a', Ready (Ok False)) \<and> slot_of a' i = None
    \<and> (\<forall>w data. snd (poll_write w data sa a') = Ready (Err BrokenPipe)) \<and> snd (snd (poll_fill_buf sa a')) = Ready (Ok [])"
proof -
  from stream_served [OF assms(1), of h p n] obtain b1 where
    *: "deliver (new_connect h p i n) (sv_mux s) = (b1, Ready (Ok False))"
    "server_loop_step StreamAccepted (s\<lparr>sv_mux := b1\<rparr>) = (served i n h p s, None)"
    "fresh_end (sv_mux (served i n h p s)) (new_stream_of i n h p (sv_mux s)) i n (mux_rwnd (sv_mux s))" by blast
  let ?sb = "new_stream_of i n h p (sv_mux s)" and ?m = "sv_mux (served i n h p s)"
  have "ms_dest_host ?sb = h" "ms_dest_port ?sb = p" by (simp_all add: new_stream_of_def)
  with assms(4) have fwd: "tcp_forwarder_on_channel connect peer ?sb ?m = (drop_stream ?sb ?m, Err e)"
    by (cases "utf8_valid h") (auto simp: tcp_forwarder_on_channel_def from_utf8_def)
  have "ch_rx_open (tx_frame ?m)" "notified ?m"
    using assms(1,2) by (simp_all add: served_def accepts_streams_def notified_def)
  from dropped_stream_reset [OF *(3) this assms(3)] obtain m' where
    m': "process_dropped_ports_task (drop_stream ?sb ?m) = (m', Pending)" "slot_of m' i = None" "replies ?m m' [fin (new_reset i)]"
    by blast
  from reset_ends_stream [OF assms(5)] obtain a' where a': "deliver (new_reset i) a = (a', Ready (Ok False))" "slot_of a' i = None"
    "\<And>w data. snd (poll_write w data sa a') = Ready (Err BrokenPipe)" "snd (snd (poll_fill_buf sa a')) = Ready (Ok [])" by blast
  have "sv_streams (served i n h p s) = sv_streams s @ [?sb]" by (simp add: served_def)
  with * fwd m' a' show ?thesis by blast
qed

section \<open>Datagrams\<close>

text \<open>The first datagram of a flow: a forwarder is created for it and, once started, has sent it to an address of its target.\<close>

lemma datagram_to_network:
  assumes "srv_inv s" and "ch_queue (datagram_ch (sv_mux s)) = dg # q" and "map_of (sv_clients s) (dg_flow_id dg) = None"
    and "utf8_valid (dg_target_host dg)"
    and "bind_for_target env (bytes_str (dg_target_host dg)) (dg_target_port dg) = Ok (sock, target)"
    and "ne_send env sock (dg_data dg) (ToAddr target) = Ok ()"
  obtains t where "server_loop_step DatagramFromPeer s = (t, None)" "length (sv_fwds t) = Suc (length (sv_fwds s))"
    "sv_fwds (forwarder_start env (length (sv_fwds s)) t) ! length (sv_fwds s) =
       (udp_forward_on dg \<lparr>ch_queue = [], ch_cap = Some INCOMING_DATAGRAM_BUFFER_SIZE, ch_rx_open = True, ch_tx_alive = True\<rparr>)
         \<lparr>uf_point := ForwardLoop sock, uf_sent := [(dg_data dg, ToAddr target)]\<rparr>"
    "sv_datagrams (forwarder_start env (length (sv_fwds s)) t) = sv_datagrams s"
    "tx_frame (sv_mux (forwarder_start env (length (sv_fwds s)) t)) = tx_frame (sv_mux s)"
proof -
  let ?ch = "\<lparr>ch_queue = [], ch_cap = Some INCOMING_DATAGRAM_BUFFER_SIZE, ch_rx_open = True, ch_tx_alive = True\<rparr>"
  let ?m = "(sv_mux s)\<lparr>datagram_ch := (datagram_ch (sv_mux s))\<lparr>ch_queue := q\<rparr>\<rparr>"
  let ?t = "s\<lparr>sv_mux := ?m, sv_clients := AList.update (dg_flow_id dg) (length (sv_fwds s)) (sv_clients s),
    sv_fwds := sv_fwds s @ [udp_forward_on dg ?ch], sv_jobs := Suc (sv_jobs s)\<rparr>"
  have g: "get_datagram (sv_mux s) = (?m, Ready (Ok dg))"
    using assms(2) by (simp add: get_datagram_def poll_recv_def ok_or_closed_def)
  have "new_forwarder dg (s\<lparr>sv_mux := ?m\<rparr>) = Ok ?t"
    by (simp add: new_forwarder_def mpsc_channel_def INCOMING_DATAGRAM_BUFFER_SIZE_def)
  with g assms(3) have "server_loop_step DatagramFromPeer s = (?t, None)" by (simp add: server_loop_step_def)
  moreover have "udp_forward_start env (udp_forward_on dg ?ch) =
      (udp_forward_on dg ?ch)\<lparr>uf_point := ForwardLoop sock, uf_sent := [(dg_data dg, ToAddr target)]\<rparr>"
    using assms(4-6) by (simp add: udp_forward_start_def udp_forward_on_def from_utf8_def)
  ultimately show thesis by (intro that [of ?t]) (simp_all add: forwarder_start_def)
qed

text \<open>An answer: it is queued under the forwarder's flow and leaves as one Datagram frame.\<close>

lemma answer_to_peer:
  assumes "answers_ok (sv_datagrams s)" and "ch_queue (sv_datagrams s) = []" and "uf_point (sv_fwds s ! k) = ForwardLoop sock"
    and "length (uf_host (sv_fwds s ! k)) \<le> 255" and "length answer \<le> MAX_UDP_PACKET_SIZE" and "ch_rx_open (tx_frame (sv_mux s))"
  obtains t where "server_loop_step AnswerReady (forwarder_step env (SocketReceived answer) k s) = (t, None)"
    "replies (sv_mux s) (sv_mux t) [fin (new_datagram_owned (uf_flow_id (sv_fwds s ! k)) (uf_host (sv_fwds s ! k))
       (uf_port (sv_fwds s ! k)) answer)]"
proof -
  let ?f = "sv_fwds s ! k"
  let ?dg = "answer_frame ?f answer"
  let ?s = "s\<lparr>sv_fwds := (sv_fwds s)[k := ?f], sv_datagrams := ch_push ?dg (sv_datagrams s)\<rparr>"
  have "try_send ?dg (sv_datagrams s) = (ch_push ?dg (sv_datagrams s), Ok ())"
    using assms(1,2) by (simp add: try_send_def answers_ok_def ch_full_def INCOMING_DATAGRAM_BUFFER_SIZE_def)
  then have 1: "forwarder_step env (SocketReceived answer) k s = ?s"
    using assms(3) by (simp add: forwarder_step_def udp_forward_step_def)
  have "poll_recv (sv_datagrams ?s) = ((sv_datagrams ?s)\<lparr>ch_queue := []\<rparr>, Ready (Some ?dg))"
    by (rule mpsc.recv_item) (simp add: ch_push_def assms(2))
  moreover have "send_datagram ?dg (sv_mux s) =
      (queue_frame (new_datagram_owned (uf_flow_id ?f) (uf_host ?f) (uf_port ?f) answer) (sv_mux s), Ok ())"
    using assms(4-6) send_datagram_open [of ?dg "sv_mux s"] by (simp add: answer_frame_def)
  ultimately have "server_loop_step AnswerReady ?s = (?s\<lparr>sv_datagrams := (sv_datagrams ?s)\<lparr>ch_queue := []\<rparr>,
      sv_mux := queue_frame (new_datagram_owned (uf_flow_id ?f) (uf_host ?f) (uf_port ?f) answer) (sv_mux s)\<rparr>, None)"
    by (simp add: server_loop_step_def)
  with 1 show thesis using assms(6) by (intro that) (simp_all only: 1, simp add: replies_def)
qed

section \<open>Witnesses\<close>

definition client_mux7 :: mux where
  "client_mux7 = add_flow 7 512 (sv_mux srv0)"

lemma srv0_accepts: "accepts_streams 7 srv0" "notified (sv_mux srv0)"
  using srv_invD(1) [of srv0] srv_init_inv [OF srv0_srv_init]
  by (simp_all add: accepts_streams_def notified_def srv0_def slot_of_def mpsc_unbounded_def ch_full_def)

definition connect_h :: "string \<Rightarrow> u16 \<Rightarrow> (io_error, nat) outcome" where
  "connect_h h p = (if h = bytes_str [104] \<and> p = 80 then Ok 0 else Err ConnectionRefused)"

definition peer_h :: "nat \<Rightarrow> (io_error, socket_addr) outcome" where
  "peer_h r = Ok (SocketV4 9 80)"

theorem tcp_connect_failure_closes_witness:
  "\<exists>(t :: server_conn) sb m m'. tcp_forwarder_on_channel connect_h peer_h sb (sv_mux t) = (m, Err (ForwardIo ConnectionRefused))
     \<and> process_dropped_ports_task m = (m', Pending) \<and> slot_of m' 7 = None"
proof -
  have e: "obind (from_utf8 ForwardHost [104]) (\<lambda>rhost. map_err ForwardIo (connect_h rhost 81)) = Err (ForwardIo ConnectionRefused)"
    by (simp add: from_utf8_def connect_h_def)
  have fe: "fresh_end client_mux7 (new_stream_of 7 512 [] 0 (sv_mux srv0)) 7 512 (mux_rwnd (sv_mux srv0))"
    unfolding client_mux7_def by (rule fresh_end_add_flow)
  have "(7 :: u32) \<noteq> 0" by simp
  from tcp_connect_failure_closes [where connect = connect_h and peer = peer_h, OF srv0_accepts this e fe, of 512]
  show ?thesis by blast
qed

end
