(* ===== verification/Acme.thy ===== *)
theory Acme
  imports Command_Line Tls_Config
begin

text \<open>
  The ACME client of \<open>src/src/server/acme\<close>: the helper command that publishes challenges (\<open>challenge_helper.rs\<close>), obtaining a
  certificate, and renewing it (\<open>mod.rs\<close>). The ACME library, the helper processes and the certificate generator are the
  fields of \<open>acme_env\<close>, which act on a state of their own. Calls of the helper, polls of the order and sleeps are recorded in
  a log.
\<close>

section \<open>Data\<close>

datatype order_status = OrderPending | OrderReady | OrderProcessing | OrderValid | OrderInvalidStatus

datatype auth_status =
  AuthPending | AuthValid | AuthInvalidStatus | AuthRevoked | AuthExpired | AuthDeactivated

datatype challenge_type = Http01 | OtherChallenge string

record challenge =
  chl_type :: challenge_type
  chl_url :: string
  chl_token :: string

record authorization =
  au_status :: auth_status
  au_challenges :: "challenge list"

datatype acme_error =
    InstantAcme nat
  | ChallengeHelperExecution io_error
  | CertificateGeneration nat
  | AuthInvalid auth_status
  | OrderInvalid order_status
  | NoHttp01ChallengeSupport
  | AcmeTls tls_error

datatype helper_action = Create | Remove

definition action_as_str :: "helper_action \<Rightarrow> string" where
  "action_as_str a = (case a of Create \<Rightarrow> ''create'' | Remove \<Rightarrow> ''remove'')"

text \<open>
  The environment. \<open>ae_spawn\<close> starts the helper with the two arguments, \<open>ae_wait\<close> waits for it. \<open>ae_generate\<close> makes the
  private key and the signing request.
\<close>

record 's acme_env =
  ae_new_account :: "string list \<Rightarrow> bool \<Rightarrow> string \<Rightarrow> 's \<Rightarrow> 's \<times> (nat, unit) outcome"
  ae_new_order :: "string list \<Rightarrow> 's \<Rightarrow> 's \<times> (nat, unit) outcome"
  ae_authorizations :: "'s \<Rightarrow> 's \<times> (nat, authorization list) outcome"
  ae_key_authorization :: "challenge \<Rightarrow> 's \<Rightarrow> string"
  ae_spawn :: "string \<Rightarrow> string \<Rightarrow> 's \<Rightarrow> 's \<times> (io_error, unit) outcome"
  ae_wait :: "'s \<Rightarrow> 's \<times> (io_error, unit) outcome"
  ae_set_ready :: "string \<Rightarrow> 's \<Rightarrow> 's \<times> (nat, unit) outcome"
  ae_status :: "'s \<Rightarrow> order_status"
  ae_refresh :: "'s \<Rightarrow> 's \<times> (nat, unit) outcome"
  ae_generate :: "string list \<Rightarrow> 's \<Rightarrow> 's \<times> (nat, string \<times> bytes) outcome"
  ae_finalize :: "bytes \<Rightarrow> 's \<Rightarrow> 's \<times> (nat, unit) outcome"
  ae_certificate :: "'s \<Rightarrow> 's \<times> (nat, string option) outcome"

datatype acme_event =
    HelperCalled helper_action string bool
  | OrderRefreshed
  | Slept duration

record 's acme_run =
  ar_log :: "acme_event list"
  ar_remote :: 's

type_synonym ('s, 'a) aop = "'s acme_run \<Rightarrow> 's acme_run \<times> (acme_error, 'a) outcome"

definition abind :: "('s, 'a) aop \<Rightarrow> ('a \<Rightarrow> ('s, 'b) aop) \<Rightarrow> ('s, 'b) aop" where
  "abind m f r = (case m r of (r, Ok x) \<Rightarrow> f x r | (r, Err e) \<Rightarrow> (r, Err e) | (r, Panic) \<Rightarrow> (r, Panic))"

definition aok :: "'a \<Rightarrow> ('s, 'a) aop" where
  "aok x r = (r, Ok x)"

definition afail :: "acme_error \<Rightarrow> ('s, 'a) aop" where
  "afail e r = (r, Err e)"

definition acall :: "('x \<Rightarrow> acme_error) \<Rightarrow> ('s \<Rightarrow> 's \<times> ('x, 'a) outcome) \<Rightarrow> ('s, 'a) aop" where
  "acall wrap f r = (case f (ar_remote r) of (s, res) \<Rightarrow> (r\<lparr>ar_remote := s\<rparr>, map_err wrap res))"

definition alog :: "acme_event \<Rightarrow> 's acme_run \<Rightarrow> 's acme_run" where
  "alog ev r = r\<lparr>ar_log := ar_log r @ [ev]\<rparr>"

section \<open>The challenge helper\<close>

definition helper_call :: "'s acme_env \<Rightarrow> helper_action \<Rightarrow> string \<Rightarrow> ('s, unit) aop" where
  "helper_call env action key r =
     (case acall ChallengeHelperExecution (ae_spawn env (action_as_str action) key) r of
        (r, res) \<Rightarrow> (alog (HelperCalled action key (res = Ok ())) r, res))"

definition one_challenge :: "'s acme_env \<Rightarrow> authorization \<Rightarrow> ('s, (string \<times> string) option) aop" where
  "one_challenge env auth = (case au_status auth of
       AuthValid \<Rightarrow> aok None
     | AuthPending \<Rightarrow>
         (case find (\<lambda>c. chl_type c = Http01) (au_challenges auth) of
            None \<Rightarrow> afail NoHttp01ChallengeSupport
          | Some http_challenge \<Rightarrow> (\<lambda>r.
              let key_auth = ae_key_authorization env http_challenge (ar_remote r)
              in abind (helper_call env Create key_auth) (\<lambda>_.
                 abind (acall ChallengeHelperExecution (ae_wait env)) (\<lambda>_.
                 aok (Some (key_auth, chl_url http_challenge)))) r))
     | s \<Rightarrow> afail (AuthInvalid s))"

text \<open>\<open>let _ = call(Action::Remove, ..)\<close> for each key: failures are ignored.\<close>

primrec remove_all :: "'s acme_env \<Rightarrow> string list \<Rightarrow> 's acme_run \<Rightarrow> 's acme_run" where
  "remove_all env [] r = r"
| "remove_all env (k # ks) r = remove_all env ks (fst (helper_call env Remove k r))"

fun process_challenges :: "'s acme_env \<Rightarrow> authorization list \<Rightarrow> string list \<Rightarrow> ('s, string list) aop" where
  "process_challenges env [] executed r = (r, Ok executed)"
| "process_challenges env (auth # auths) executed r =
     (case one_challenge env auth r of
        (r, Ok (Some (key_auth, challenge_url))) \<Rightarrow>
          (case acall InstantAcme (ae_set_ready env challenge_url) r of
             (r, Ok _) \<Rightarrow> process_challenges env auths (executed @ [key_auth]) r
           | (r, Err e) \<Rightarrow> (r, Err e)
           | (r, Panic) \<Rightarrow> (r, Panic))
      | (r, Ok None) \<Rightarrow> process_challenges env auths executed r
      | (r, Err e) \<Rightarrow> (remove_all env executed r, Err e)
      | (r, Panic) \<Rightarrow> (r, Panic))"

section \<open>Issuing a certificate\<close>

definition MAX_ORDER_RETRIES :: u32 where "MAX_ORDER_RETRIES = 10"

definition order_backoff :: backoff where
  "order_backoff = backoff_new (from_secs 5) (from_secs 60) 2 MAX_ORDER_RETRIES"

text \<open>The loop that waits for the order; \<open>None\<close>: the fuel ran out while it was running.\<close>

fun wait_order ::
  "'s acme_env \<Rightarrow> nat \<Rightarrow> backoff \<Rightarrow> string list \<Rightarrow> 's acme_run \<Rightarrow> ('s acme_run \<times> (acme_error, unit) outcome) option" where
  "wait_order env 0 b keyauths r = None"
| "wait_order env (Suc fuel) b keyauths r =
     (if ae_status env (ar_remote r) = OrderReady then Some (r, Ok ())
      else case acall InstantAcme (ae_refresh env) r of
        (r, Err e) \<Rightarrow> Some (r, Err e)
      | (r, Panic) \<Rightarrow> Some (r, Panic)
      | (r, Ok _) \<Rightarrow>
          let r = alog OrderRefreshed r; status = ae_status env (ar_remote r)
          in if status = OrderInvalidStatus then Some (remove_all env keyauths r, Err (OrderInvalid OrderInvalidStatus))
             else (case advance b of
                 Ok (b, Some sleep) \<Rightarrow> wait_order env fuel b keyauths (alog (Slept sleep) r)
               | Ok (b, None) \<Rightarrow> Some (remove_all env keyauths r, Err (OrderInvalid status))
               | _ \<Rightarrow> Some (r, Panic)))"

text \<open>The loop that polls for the certificate, every second.\<close>

fun fetch_certificate ::
  "'s acme_env \<Rightarrow> nat \<Rightarrow> 's acme_run \<Rightarrow> ('s acme_run \<times> (acme_error, string) outcome) option" where
  "fetch_certificate env 0 r = None"
| "fetch_certificate env (Suc fuel) r = (case acall InstantAcme (ae_certificate env) r of
       (r, Ok (Some pem)) \<Rightarrow> Some (r, Ok pem)
     | (r, Ok None) \<Rightarrow> fetch_certificate env fuel (alog (Slept (from_secs 1)) r)
     | (r, Err e) \<Rightarrow> Some (r, Err e)
     | (r, Panic) \<Rightarrow> Some (r, Panic))"

definition finish_order ::
  "'s acme_env \<Rightarrow> nat \<Rightarrow> string list \<Rightarrow> string list \<Rightarrow> 's acme_run
   \<Rightarrow> ('s acme_run \<times> (acme_error, string \<times> string) outcome) option" where
  "finish_order env fuel domains keyauths r =
     (if ae_status env (ar_remote r) \<noteq> OrderReady then Some (r, Panic)
      else case abind (acall CertificateGeneration (ae_generate env domains)) (\<lambda>(key, csr).
             abind (acall InstantAcme (ae_finalize env csr)) (\<lambda>_. aok key)) r of
        (r, Ok private_key) \<Rightarrow>
          (case fetch_certificate env fuel r of
             None \<Rightarrow> None
           | Some (r, Ok pem) \<Rightarrow> Some (remove_all env keyauths r, Ok (private_key, pem))
           | Some (r, Err e) \<Rightarrow> Some (r, Err e)
           | Some (r, Panic) \<Rightarrow> Some (r, Panic))
      | (r, Err e) \<Rightarrow> Some (r, Err e)
      | (r, Panic) \<Rightarrow> Some (r, Panic))"

definition issue ::
  "'s acme_env \<Rightarrow> nat \<Rightarrow> string list \<Rightarrow> 's acme_run \<Rightarrow> ('s acme_run \<times> (acme_error, string \<times> string) outcome) option" where
  "issue env fuel domains r =
     (case abind (acall InstantAcme (ae_new_order env domains)) (\<lambda>_.
           abind (acall InstantAcme (ae_authorizations env)) (\<lambda>auths. process_challenges env auths [])) r of
        (r, Ok keyauths) \<Rightarrow>
          (case wait_order env fuel order_backoff keyauths r of
             None \<Rightarrow> None
           | Some (r, Ok _) \<Rightarrow> finish_order env fuel domains keyauths r
           | Some (r, Err e) \<Rightarrow> Some (r, Err e)
           | Some (r, Panic) \<Rightarrow> Some (r, Panic))
      | (r, Err e) \<Rightarrow> Some (r, Err e)
      | (r, Panic) \<Rightarrow> Some (r, Panic))"

section \<open>The client\<close>

text \<open>
  \<open>populate_or_get\<close>: the global client is made once. A tick
  of the renewal task replaces the identity exactly when issuing and loading both succeed.
\<close>

record acme_client =
  ac_domains :: "string list"
  ac_tls_ca :: "string option"
  ac_tls_config :: server_config

definition populate_or_get ::
  "'s acme_env \<Rightarrow> nat \<Rightarrow> tls_env \<Rightarrow> server_args \<Rightarrow> acme_client option \<Rightarrow> 's acme_run
   \<Rightarrow> ('s acme_run \<times> (acme_error, acme_client) outcome) option" where
  "populate_or_get env fuel tls args global r =
     (if sa_tls_acme_challenge_helper args = None then Some (r, Panic)
      else case global of
        Some client \<Rightarrow> Some (r, Ok client)
      | None \<Rightarrow>
          let contact = (case sa_tls_acme_email args of None \<Rightarrow> [] | Some email \<Rightarrow> [''mailto:'' @ email])
          in case acall InstantAcme (ae_new_account env contact (sa_tls_acme_accept_tos args) (sa_tls_acme_url args)) r of
               (r, Ok _) \<Rightarrow>
                 (case issue env fuel (sa_tls_domain args) r of
                    None \<Rightarrow> None
                  | Some (r, Ok (key, pem)) \<Rightarrow>
                      Some (r, obind (map_err AcmeTls (make_tls_identity_from_rcgen_pem tls pem key (sa_tls_ca args))) (\<lambda>t.
                        Ok \<lparr>ac_domains = sa_tls_domain args, ac_tls_ca = sa_tls_ca args, ac_tls_config = t\<rparr>))
                  | Some (r, Err e) \<Rightarrow> Some (r, Err e)
                  | Some (r, Panic) \<Rightarrow> Some (r, Panic))
             | (r, Err e) \<Rightarrow> Some (r, Err e)
             | (r, Panic) \<Rightarrow> Some (r, Panic))"

definition renewal_tick ::
  "'s acme_env \<Rightarrow> nat \<Rightarrow> tls_env \<Rightarrow> acme_client \<Rightarrow> 's acme_run
   \<Rightarrow> ('s acme_run \<times> (acme_error, acme_client) outcome) option" where
  "renewal_tick env fuel tls client r = (case issue env fuel (ac_domains client) r of
       None \<Rightarrow> None
     | Some (r, Ok (key, pem)) \<Rightarrow>
         Some (r, Ok (client\<lparr>ac_tls_config :=
           fst (reload_tls_identity_from_rcgen_pem tls pem key (ac_tls_ca client) (ac_tls_config client))\<rparr>))
     | Some (r, Err e) \<Rightarrow> Some (r, Ok client)
     | Some (r, Panic) \<Rightarrow> Some (r, Panic))"

text \<open>
  The renewal task: its timer, and after each poll of the timer that is ready a renewal, except for the first. Tokio's timer
  is the dictionary \<open>interval_ops\<close> of theory \<open>Timing\<close>.
\<close>

definition RENEWAL_INTERVAL :: duration where
  "RENEWAL_INTERVAL = from_secs (30 * 24 * 60 * 60)"

record 'iv renewal_task =
  rt_interval :: 'iv
  rt_skipped :: bool
  rt_client :: acme_client

definition get_tls_config_spawn_renewal ::
  "('iv, 'at) interval_ops \<Rightarrow> acme_client \<Rightarrow> (unit, 'iv renewal_task \<times> server_config) outcome" where
  "get_tls_config_spawn_renewal ops client = obind (iv_interval ops RENEWAL_INTERVAL) (\<lambda>iv.
     Ok (\<lparr>rt_interval = iv_set_missed ops Delay iv, rt_skipped = False, rt_client = client\<rparr>, ac_tls_config client))"

definition renewal_poll ::
  "('iv, 'at) interval_ops \<Rightarrow> 's acme_env \<Rightarrow> nat \<Rightarrow> tls_env \<Rightarrow> 'iv renewal_task \<Rightarrow> 's acme_run
   \<Rightarrow> ('s acme_run \<times> (acme_error, 'iv renewal_task) outcome) option" where
  "renewal_poll ops env fuel tls t r = (case iv_poll_tick ops (rt_interval t) of
       (iv, Pending) \<Rightarrow> Some (r, Ok (t\<lparr>rt_interval := iv\<rparr>))
     | (iv, Ready _) \<Rightarrow>
         if \<not> rt_skipped t then Some (r, Ok (t\<lparr>rt_interval := iv, rt_skipped := True\<rparr>))
         else map_option (apsnd (\<lambda>res. obind res (\<lambda>client. Ok (t\<lparr>rt_interval := iv, rt_client := client\<rparr>))))
                (renewal_tick env fuel tls (rt_client t) r))"

end
