(* ===== verification/Acme_Properties.thy ===== *)
theory Acme_Properties
  imports Acme
begin

text \<open>
  What the ACME client promises: the wait for an order is bounded, the only error it adds names the status of the order, and the
  challenges that were published are withdrawn on the paths that clean up.
\<close>

section \<open>The log of a run\<close>

text \<open>The challenges that are published after the events of a log: created by the helper and not removed since.\<close>

definition publish :: "string list \<Rightarrow> acme_event \<Rightarrow> string list" where
  "publish ks ev = (case ev of
       HelperCalled Create k True \<Rightarrow> ks @ [k]
     | HelperCalled Remove k _ \<Rightarrow> removeAll k ks
     | _ \<Rightarrow> ks)"

definition published :: "'s acme_run \<Rightarrow> string list" where
  "published r = foldl publish [] (ar_log r)"

fun sleeps :: "acme_event list \<Rightarrow> duration list" where
  "sleeps [] = []"
| "sleeps (Slept d # es) = d # sleeps es"
| "sleeps (_ # es) = sleeps es"

definition refreshes :: "acme_event list \<Rightarrow> nat" where
  "refreshes es = count_list es OrderRefreshed"

lemma sleeps_append [simp]: "sleeps (xs @ ys) = sleeps xs @ sleeps ys"
  by (induction xs rule: sleeps.induct) simp_all

lemma acall_log: "acall w f r = (r', res) \<Longrightarrow> ar_log r' = ar_log r"
  by (auto simp: acall_def split: prod.splits)

lemma acall_error: "acall w f r = (r', Err e) \<Longrightarrow> \<exists>x. e = w x"
  by (cases "snd (f (ar_remote r))") (auto simp: acall_def split: prod.splits)

lemma acall_published: "acall w f r = (r', res) \<Longrightarrow> published r' = published r"
  by (simp add: published_def acall_log)

lemma alog_log [simp]: "ar_log (alog ev r) = ar_log r @ [ev]"
  and alog_remote [simp]: "ar_remote (alog ev r) = ar_remote r"
  by (simp_all add: alog_def)

lemma published_alog [simp]: "published (alog ev r) = publish (published r) ev"
  by (simp add: published_def)

lemma publish_simps [simp]:
  "publish ks OrderRefreshed = ks" "publish ks (Slept d) = ks"
  "publish ks (HelperCalled Remove k b) = removeAll k ks"
  "publish ks (HelperCalled Create k b) = (if b then ks @ [k] else ks)"
  by (simp_all add: publish_def)

lemma helper_call_published:
  "helper_call env a k r = (r', res) \<Longrightarrow> published r' = publish (published r) (HelperCalled a k (res = Ok ()))"
  by (auto simp: helper_call_def acall_published split: prod.splits)

lemma published_remove_all:
  "published (remove_all env ks r) = filter (\<lambda>k. k \<notin> set ks) (published r)"
proof (induction ks arbitrary: r)
  case (Cons k ks)
  obtain r' res where "helper_call env Remove k r = (r', res)" by fastforce
  with helper_call_published [OF this] Cons show ?case
    by (auto simp: removeAll_filter_not_eq intro!: filter_cong)
qed simp

section \<open>Publishing\<close>

text \<open>The errors after which the challenges published so far have been withdrawn.\<close>

definition clean_error :: "acme_error \<Rightarrow> bool" where
  "clean_error e = (case e of
       AuthInvalid _ \<Rightarrow> True | OrderInvalid _ \<Rightarrow> True | NoHttp01ChallengeSupport \<Rightarrow> True | _ \<Rightarrow> False)"

lemma clean_error_simps [simp]:
  "\<not> clean_error (InstantAcme x)" "\<not> clean_error (ChallengeHelperExecution x')" "\<not> clean_error (CertificateGeneration x)"
  by (simp_all add: clean_error_def)

lemma one_challenge_published:
  assumes "one_challenge env auth r = (r', res)"
  shows "res = Ok None \<Longrightarrow> published r' = published r"
    and "res = Ok (Some (k, u)) \<Longrightarrow> published r' = published r @ [k]"
    and "res = Err e \<Longrightarrow> clean_error e \<Longrightarrow> published r' = published r"
  using assms
  by (auto simp: one_challenge_def abind_def aok_def afail_def Let_def
      dest!: helper_call_published acall_published acall_error
      split: auth_status.splits option.splits prod.splits outcome.splits)

lemma process_challenges_published:
  assumes "process_challenges env auths executed r = (r', res)" and "set (published r) \<subseteq> A \<union> set executed"
  shows "(\<forall>ks. res = Ok ks \<longrightarrow> set (published r') \<subseteq> A \<union> set ks)
    \<and> (\<forall>e. res = Err e \<longrightarrow> clean_error e \<longrightarrow> set (published r') \<subseteq> A)"
  using assms
proof (induction auths arbitrary: executed r)
  case (Cons auth auths)
  obtain r1 res1 where one: "one_challenge env auth r = (r1, res1)" by fastforce
  note pub = one_challenge_published [OF one]
  show ?case
  proof (cases res1)
    case (Ok x)
    show ?thesis
    proof (cases x)
      case None
      with Ok one pub Cons.IH [of executed r1] Cons.prems show ?thesis by simp
    next
      case (Some y)
      obtain k u where y: "y = (k, u)" by fastforce
      obtain r2 res2 where ready: "acall InstantAcme (ae_set_ready env u) r1 = (r2, res2)" by fastforce
      from acall_published [OF ready] pub(2) Ok Some y Cons.prems(2)
      have "set (published r2) \<subseteq> A \<union> set (executed @ [k])" by auto
      moreover have "\<not> clean_error e" if "res2 = Err e" for e
        using acall_error ready that by fastforce
      ultimately show ?thesis
        using Cons.IH [of "executed @ [k]" r2] Cons.prems(1) one Ok Some y ready by (cases res2) auto
    qed
  next
    case (Err e)
    with one Cons.prems pub(3) show ?thesis by (auto simp: published_remove_all)
  next
    case Panic
    with one Cons.prems show ?thesis by auto
  qed
qed auto

section \<open>Waiting\<close>

lemma remove_all_log:
  "\<exists>es. ar_log (remove_all env ks r) = ar_log r @ es \<and> sleeps es = [] \<and> refreshes es = 0"
proof (induction ks arbitrary: r)
  case (Cons k ks)
  obtain r' res where call: "acall ChallengeHelperExecution (ae_spawn env (action_as_str Remove) k) r = (r', res)" by fastforce
  from Cons [of "alog (HelperCalled Remove k (res = Ok ())) r'"]
  obtain es where "ar_log (remove_all env (k # ks) r) = ar_log r' @ HelperCalled Remove k (res = Ok ()) # es"
      "sleeps es = []" "refreshes es = 0"
    by (auto simp: helper_call_def call)
  with acall_log [OF call] show ?case
    by (intro exI [of _ "HelperCalled Remove k (res = Ok ()) # es"]) (simp add: refreshes_def)
qed (simp add: refreshes_def)

abbreviation order_delay :: "nat \<Rightarrow> duration" where
  "order_delay \<equiv> delay (from_secs 5) (from_secs 60) 2"

abbreviation order_backoff_at :: "nat \<Rightarrow> backoff \<Rightarrow> bool" where
  "order_backoff_at \<equiv> backoff_at (from_secs 5) (from_secs 60) 2 MAX_ORDER_RETRIES"

lemma order_advance:
  assumes "order_backoff_at k b" and "k \<le> 10"
  shows "k < 10 \<Longrightarrow> \<exists>b'. advance b = Ok (b', Some (order_delay k)) \<and> order_backoff_at (Suc k) b'"
    and "k = 10 \<Longrightarrow> advance b = Ok (b, None)"
  using advance_step [OF assms(1)]
  by (simp_all add: allowed_def MAX_ORDER_RETRIES_def from_secs_def DURATION_MAX_def)

text \<open>What a call of the loop does, for the back-off after \<open>k\<close> rounds.\<close>

definition wait_result :: "'s acme_env \<Rightarrow> string list \<Rightarrow> 's acme_run \<Rightarrow> 's acme_run \<Rightarrow> (acme_error, unit) outcome \<Rightarrow> bool" where
  "wait_result env ks r r' res = (case res of
       Ok _ \<Rightarrow> ae_status env (ar_remote r') = OrderReady \<and> published r' = published r
     | Err (OrderInvalid _) \<Rightarrow> published r' = filter (\<lambda>k. k \<notin> set ks) (published r)
     | Err (InstantAcme _) \<Rightarrow> published r' = published r
     | Err _ \<Rightarrow> False
     | Panic \<Rightarrow> True)"

lemma wait_result_cong:
  assumes "published r1 = published r"
  shows "wait_result env ks r1 = wait_result env ks r"
  unfolding wait_result_def fun_eq_iff assms by simp

definition waited :: "'s acme_env \<Rightarrow> string list \<Rightarrow> nat \<Rightarrow> 's acme_run \<Rightarrow> 's acme_run \<times> (acme_error, unit) outcome \<Rightarrow> bool" where
  "waited env ks k r out = (case out of (r', res) \<Rightarrow>
     (\<exists>es n. ar_log r' = ar_log r @ es \<and> sleeps es = map order_delay [k..<n] \<and> n \<le> 10 \<and> refreshes es \<le> 11 - k)
     \<and> wait_result env ks r r' res)"

lemma waited_withdraw:
  assumes "ar_log r1 = ar_log r @ [OrderRefreshed]" and "k \<le> 10"
  shows "waited env ks k r (remove_all env ks r1, Err (OrderInvalid s))"
proof -
  obtain es where es: "ar_log (remove_all env ks r1) = ar_log r1 @ es" "sleeps es = []" "refreshes es = 0"
    using remove_all_log by blast
  have "published r1 = published r" using assms(1) by (simp add: published_def)
  with es assms show ?thesis
    by (auto simp: waited_def wait_result_def published_remove_all refreshes_def intro!: exI [of _ "OrderRefreshed # es"] exI [of _ k])
qed

lemma waited_round:
  assumes w: "waited env ks (Suc k) (alog (Slept (order_delay k)) (alog OrderRefreshed r1)) out"
    and log: "ar_log r1 = ar_log r" and "k < 10"
  shows "waited env ks k r out"
proof -
  obtain r2 res2 where out: "out = (r2, res2)" by fastforce
  obtain es n where "ar_log r2 = ar_log r @ OrderRefreshed # Slept (order_delay k) # es"
      "sleeps es = map order_delay [Suc k..<n]" "n \<le> 10" "refreshes es \<le> 11 - Suc k"
    using w log by (auto simp: waited_def out)
  then have "ar_log r2 = ar_log r @ OrderRefreshed # Slept (order_delay k) # es
      \<and> sleeps (OrderRefreshed # Slept (order_delay k) # es) = map order_delay [k..<max n (Suc k)]
      \<and> max n (Suc k) \<le> 10 \<and> refreshes (OrderRefreshed # Slept (order_delay k) # es) \<le> 11 - k"
    using assms(3) by (cases "Suc k \<le> n") (auto simp: refreshes_def upt_conv_Cons max_def)
  moreover have "wait_result env ks r r2 res2"
    using w wait_result_cong [of "alog (Slept (order_delay k)) (alog OrderRefreshed r1)" r env ks] log
    by (simp add: waited_def out published_def)
  ultimately show ?thesis unfolding waited_def out prod.case by blast
qed

lemma wait_order_run:
  assumes "order_backoff_at k b" and "k \<le> 10" and "11 \<le> fuel + k"
  shows "\<exists>out. wait_order env fuel b ks r = Some out \<and> waited env ks k r out"
  using assms
proof (induction fuel arbitrary: k b r)
  case (Suc fuel)
  show ?case
  proof (cases "ae_status env (ar_remote r) = OrderReady")
    case True
    then show ?thesis by (auto simp: waited_def wait_result_def refreshes_def intro!: exI [of _ k] Suc.prems)
  next
    case unready: False
    obtain r1 res where call: "acall InstantAcme (ae_refresh env) r = (r1, res)" by fastforce
    let ?r = "alog OrderRefreshed r1"
    have log: "ar_log ?r = ar_log r @ [OrderRefreshed]" using acall_log [OF call] by simp
    show ?thesis
    proof (cases res)
      case (Ok u)
      consider "ae_status env (ar_remote r1) = OrderInvalidStatus" | "ae_status env (ar_remote r1) \<noteq> OrderInvalidStatus" "k = 10"
        | "ae_status env (ar_remote r1) \<noteq> OrderInvalidStatus" "k < 10" using Suc.prems(2) by linarith
      then show ?thesis
      proof cases
        case 3
        obtain b' where adv: "advance b = Ok (b', Some (order_delay k))" and at: "order_backoff_at (Suc k) b'"
          using order_advance(1) [OF Suc.prems(1,2) 3(2)] by blast
        obtain out where "wait_order env fuel b' ks (alog (Slept (order_delay k)) ?r) = Some out"
            and w: "waited env ks (Suc k) (alog (Slept (order_delay k)) ?r) out"
          using Suc.IH [OF at] 3(2) Suc.prems(3) by fastforce
        moreover have "waited env ks k r out"
          using waited_round [OF w _ 3(2)] acall_log [OF call] by simp
        ultimately show ?thesis using unready call Ok 3 adv by (auto simp: Let_def)
      qed (use unready call Ok order_advance(2) [OF Suc.prems(1,2)] waited_withdraw [OF log Suc.prems(2)] in
          \<open>auto simp: Let_def\<close>)
    next
      case (Err e)
      with call obtain x where "e = InstantAcme x" using acall_error by blast
      with Err unready call acall_log [OF call] acall_published [OF call] Suc.prems(2)
      show ?thesis by (auto simp: waited_def wait_result_def refreshes_def intro!: exI [of _ k])
    next
      case Panic
      with unready call acall_log [OF call] Suc.prems(2)
      show ?thesis by (auto simp: waited_def wait_result_def refreshes_def intro!: exI [of _ k])
    qed
  qed
qed simp

section \<open>Issuing\<close>

lemma order_backoff_at_new: "order_backoff_at 0 order_backoff"
  by (simp add: order_backoff_def backoff_at_new)

lemmas order_wait = wait_order_run [OF order_backoff_at_new le0]

lemma fetch_certificate_run:
  "fetch_certificate env fuel r = Some (r', res) \<Longrightarrow>
   published r' = published r \<and> (\<forall>e. res = Err e \<longrightarrow> (\<exists>x. e = InstantAcme x))"
  by (induction env fuel r rule: fetch_certificate.induct)
    (auto split: prod.splits outcome.splits option.splits dest: acall_published acall_error)

lemma fetch_certificate_returns:
  assumes "\<exists>k<fuel. snd (ae_certificate env (((\<lambda>s. fst (ae_certificate env s)) ^^ k) (ar_remote r))) \<noteq> Ok None"
  shows "\<exists>out. fetch_certificate env fuel r = Some out"
  using assms
proof (induction fuel arbitrary: r)
  case (Suc fuel)
  obtain s res where call: "ae_certificate env (ar_remote r) = (s, res)" by fastforce
  show ?case
  proof (cases "res = Ok None")
    case True
    from Suc.prems obtain k where k: "k < Suc fuel"
        "snd (ae_certificate env (((\<lambda>s. fst (ae_certificate env s)) ^^ k) (ar_remote r))) \<noteq> Ok None" by blast
    with call True obtain k' where "k = Suc k'" by (cases k) auto
    with k call Suc.IH [of "alog (Slept (from_secs 1)) (r\<lparr>ar_remote := s\<rparr>)"] True show ?thesis
      by (auto simp: acall_def funpow_Suc_right simp del: funpow.simps)
  next
    case False
    with call show ?thesis by (cases res) (auto simp: acall_def split: option.splits)
  qed
qed simp

lemma finish_order_run:
  assumes "finish_order env fuel domains ks r = Some (r', res)"
  shows "\<forall>e. res = Err e \<longrightarrow> \<not> clean_error e"
    and "\<forall>x. res = Ok x \<longrightarrow> published r' = filter (\<lambda>k. k \<notin> set ks) (published r)"
  using assms
  by (fastforce simp: finish_order_def abind_def aok_def published_remove_all
      split: if_splits prod.splits outcome.splits option.splits
      dest: fetch_certificate_run acall_published acall_error)+

lemma start_published:
  assumes "abind (acall InstantAcme (ae_new_order env domains)) (\<lambda>_.
      abind (acall InstantAcme (ae_authorizations env)) (\<lambda>auths. process_challenges env auths [])) r = (r', res)"
  shows "(\<forall>ks. res = Ok ks \<longrightarrow> set (published r') \<subseteq> set (published r) \<union> set ks)
    \<and> (\<forall>e. res = Err e \<longrightarrow> clean_error e \<longrightarrow> set (published r') \<subseteq> set (published r))"
  using assms process_challenges_published [where executed = "[]" and A = "set (published r)" and res = res]
  by (fastforce simp: abind_def split: prod.splits outcome.splits dest: acall_published acall_error)

lemma finish_order_returns:
  assumes "\<And>s. \<exists>k<fuel. snd (ae_certificate env (((\<lambda>s. fst (ae_certificate env s)) ^^ k) s)) \<noteq> Ok None"
  shows "finish_order env fuel domains ks r \<noteq> None"
proof -
  have "fetch_certificate env fuel r \<noteq> None" for r
    using fetch_certificate_returns [OF assms] by (metis option.distinct(1))
  then show ?thesis
    by (auto simp: finish_order_def simp del: not_None_eq split: prod.splits outcome.splits option.splits)
qed

lemma wait_order_ready:
  assumes refresh: "\<And>s. ae_refresh env s = (step s, Ok ())"
    and "\<forall>i<m. ae_status env ((step ^^ i) (ar_remote r)) \<notin> {OrderReady, OrderInvalidStatus}"
    and "ae_status env ((step ^^ m) (ar_remote r)) = OrderReady"
    and "order_backoff_at k b" and "k \<le> 10" and "11 \<le> fuel + k" and "m + k \<le> 11"
  shows "\<exists>r'. wait_order env fuel b ks r = Some (r', if m + k \<le> 10 then Ok () else Err (OrderInvalid OrderReady))"
  using assms(2-)
proof (induction m arbitrary: fuel k b r)
  case 0
  then show ?case by (cases fuel) auto
next
  case (Suc m)
  obtain fuel' where fuel: "fuel = Suc fuel'" using Suc.prems(4,5) by (cases fuel) auto
  let ?r = "alog OrderRefreshed (r\<lparr>ar_remote := step (ar_remote r)\<rparr>)"
  have pending: "ae_status env (ar_remote r) \<noteq> OrderReady" using Suc.prems(1) by (metis funpow_0 insertI1 zero_less_Suc)
  have shift: "(step ^^ i) (step x) = (step ^^ Suc i) x" for i x by (simp add: funpow_swap1)
  have later: "\<forall>i<m. ae_status env ((step ^^ i) (step (ar_remote r))) \<notin> {OrderReady, OrderInvalidStatus}"
      "ae_status env ((step ^^ m) (step (ar_remote r))) = OrderReady"
    unfolding shift using Suc.prems(1,2) by blast+
  then have valid: "ae_status env (step (ar_remote r)) \<noteq> OrderInvalidStatus" by (cases m) auto
  show ?case
  proof (cases "k = 10")
    case True
    with Suc.prems(6) have "m = 0" by simp
    with True later pending valid order_advance(2) [OF Suc.prems(3,4)] show ?thesis
      by (simp add: fuel acall_def refresh Let_def)
  next
    case False
    with Suc.prems(4) order_advance(1) [OF Suc.prems(3,4)] obtain b' where
        adv: "advance b = Ok (b', Some (order_delay k))" "order_backoff_at (Suc k) b'" by auto
    with Suc.IH [of "alog (Slept (order_delay k)) ?r" "Suc k" b' fuel'] later pending valid False Suc.prems(4-6)
    show ?thesis by (simp add: fuel acall_def refresh Let_def)
  qed
qed

section \<open>Properties\<close>

text \<open>
  C24: Waiting for an order ends, whatever the server answers: the loop refreshes the order at most 11 times and sleeps at most
  10 times, by the schedule of 5, 10, 20, 40 and then 60 seconds, so at most 435 seconds in all. It returns successfully only when
  the order is ready, so the assertion after it never panics.
\<close>

theorem order_wait_bounded:
  obtains r' res es n where "wait_order env 11 order_backoff ks r = Some (r', res)"
    and "ar_log r' = ar_log r @ es" and "refreshes es \<le> 11" and "sleeps es = map order_delay [0..<n]" and "n \<le> 10"
    and "sum_list (map as_nanos (sleeps es)) \<le> as_nanos (from_secs 435)"
    and "res = Ok () \<Longrightarrow> ae_status env (ar_remote r') = OrderReady"
proof -
  obtain r' res es n where res: "wait_result env ks r r' res" and "wait_order env 11 order_backoff ks r = Some (r', res)"
    and "ar_log r' = ar_log r @ es" "refreshes es \<le> 11" and es: "sleeps es = map order_delay [0..<n]" and n: "n \<le> 10"
    using order_wait [of 11 env ks r] by (auto simp: waited_def)
  moreover have "sum_list (map as_nanos (sleeps es)) \<le> (\<Sum>k\<leftarrow>[0..<10]. as_nanos (order_delay k))"
    using n unfolding es map_map comp_def by (simp add: interv_sum_list_conv_sum_set_nat sum_mono2)
  then have "sum_list (map as_nanos (sleeps es)) \<le> as_nanos (from_secs 435)"
    by (simp add: upt_rec delay_def from_secs_def min_def)
  moreover have "res = Ok () \<Longrightarrow> ae_status env (ar_remote r') = OrderReady"
    using res by (simp add: wait_result_def)
  ultimately show ?thesis using that by blast
qed

text \<open>
  Challenges are withdrawn: when \<open>issue\<close> returns a certificate, or fails because the order became invalid or never ready, because
  an authorization is invalid or because it offers no HTTP-01 challenge, no challenge published by the call is still published.
\<close>

theorem challenges_withdrawn:
  assumes "issue env fuel domains r = Some (r', res)" and "11 \<le> fuel"
    and "case res of Ok _ \<Rightarrow> True | Err e \<Rightarrow> clean_error e | Panic \<Rightarrow> False"
  shows "set (published r') \<subseteq> set (published r)"
proof -
  obtain r1 res1 where start: "abind (acall InstantAcme (ae_new_order env domains)) (\<lambda>_.
      abind (acall InstantAcme (ae_authorizations env)) (\<lambda>auths. process_challenges env auths [])) r = (r1, res1)"
    by fastforce
  note pub = start_published [OF this]
  show ?thesis
  proof (cases res1)
    case (Ok ks)
    obtain r2 res2 where wait: "wait_order env fuel order_backoff ks r1 = Some (r2, res2)"
        and w: "wait_result env ks r1 r2 res2"
      using order_wait [of fuel env ks r1] assms(2) by (auto simp: waited_def)
    show ?thesis
    proof (cases res2)
      case Ok2: (Ok u)
      with assms(1) start Ok wait have "finish_order env fuel domains ks r2 = Some (r', res)" by (simp add: issue_def)
      note fin = finish_order_run [OF this]
      with assms(3) obtain x where "res = Ok x" by (cases res) auto
      with fin(2) w Ok2 pub Ok show ?thesis by (auto simp: wait_result_def)
    next
      case (Err e)
      with assms start Ok wait w pub show ?thesis
        by (auto simp: issue_def wait_result_def split: acme_error.splits)
    next
      case Panic
      with assms start Ok wait show ?thesis by (simp add: issue_def)
    qed
  qed (use assms start pub in \<open>auto simp: issue_def\<close>)
qed

text \<open>An authority whose order is ready after \<open>n\<close> refreshes, and a helper that works.\<close>

definition authority :: "nat \<Rightarrow> nat acme_env" where
  "authority n = \<lparr>ae_new_account = \<lambda>_ _ _ s. (s, Ok ()), ae_new_order = \<lambda>_ s. (s, Ok ()),
     ae_authorizations = \<lambda>s. (s, Ok [\<lparr>au_status = AuthPending,
       au_challenges = [\<lparr>chl_type = Http01, chl_url = ''u'', chl_token = ''t''\<rparr>]\<rparr>]),
     ae_key_authorization = \<lambda>c s. chl_token c @ ''.k'', ae_spawn = \<lambda>_ _ s. (s, Ok ()), ae_wait = \<lambda>s. (s, Ok ()),
     ae_set_ready = \<lambda>_ s. (s, Ok ()), ae_status = \<lambda>s. if n \<le> s then OrderReady else OrderPending,
     ae_refresh = \<lambda>s. (Suc s, Ok ()), ae_generate = \<lambda>_ s. (s, Ok (''key'', [1])), ae_finalize = \<lambda>_ s. (s, Ok ()),
     ae_certificate = \<lambda>s. (s, Ok (Some ''pem''))\<rparr>"

definition run0 :: "nat acme_run" where
  "run0 = \<lparr>ar_log = [], ar_remote = 0\<rparr>"

theorem challenges_withdrawn_witness:
  "\<exists>r'. issue (authority 0) 11 [''a.b''] run0 = Some (r', Ok (''key'', ''pem'')) \<and> set (published r') \<subseteq> set (published run0)"
proof -
  have "\<exists>r'. issue (authority 0) (Suc 10) [''a.b''] run0 = Some (r', Ok (''key'', ''pem''))"
    by (simp add: issue_def authority_def run0_def abind_def acall_def one_challenge_def helper_call_def aok_def
        finish_order_def numeral_eq_Suc Let_def)
  then show ?thesis using challenges_withdrawn [of "authority 0" 11 "[''a.b'']" run0] by fastforce
qed

text \<open>
  An order that becomes ready is noticed, except by the last refresh: when the refreshes succeed, the order is ready after
  \<open>m\<close> of them and neither ready nor invalid before, the loop returns successfully for every \<open>m\<close> up to 10. For \<open>m = 11\<close>
  the last refresh does find the order ready, and the loop nevertheless fails, with the error that the status \<open>Ready\<close> is
  invalid.
\<close>

theorem order_ready_noticed:
  assumes "\<And>s. ae_refresh env s = (step s, Ok ())"
    and "\<forall>i<m. ae_status env ((step ^^ i) (ar_remote r)) \<notin> {OrderReady, OrderInvalidStatus}"
    and "ae_status env ((step ^^ m) (ar_remote r)) = OrderReady" and "m \<le> 11"
  shows "\<exists>r'. wait_order env 11 order_backoff ks r = Some (r', if m \<le> 10 then Ok () else Err (OrderInvalid OrderReady))"
  using wait_order_ready [where k = 0, OF assms(1-3) order_backoff_at_new] assms(4) by simp

theorem order_ready_noticed_witness:
  "(\<exists>r'. wait_order (authority 10) 11 order_backoff [] run0 = Some (r', Ok ()))
   \<and> (\<exists>r'. wait_order (authority 11) 11 order_backoff [] run0 = Some (r', Err (OrderInvalid OrderReady)))"
proof -
  have iter: "(Suc ^^ i) n = i + n" for i n by (induction i) simp_all
  show ?thesis
    using order_ready_noticed [of "authority 10" Suc 10 run0 "[]"] order_ready_noticed [of "authority 11" Suc 11 run0 "[]"]
    by (simp add: authority_def run0_def iter)
qed

text \<open>
  Issuing ends: if from every state of the authority some poll among the next \<open>fuel\<close> ones answers with the certificate or an
  error, then \<open>issue\<close> returns.
\<close>

theorem issue_returns:
  assumes "\<And>s. \<exists>k<fuel. snd (ae_certificate env (((\<lambda>s. fst (ae_certificate env s)) ^^ k) s)) \<noteq> Ok None" and "11 \<le> fuel"
  shows "\<exists>out. issue env fuel domains r = Some out"
proof -
  have "wait_order env fuel order_backoff ks r \<noteq> None" for ks r
    using order_wait [of fuel env ks r] assms(2) by auto
  with finish_order_returns [OF assms(1)] have "issue env fuel domains r \<noteq> None"
    by (auto simp: issue_def simp del: not_None_eq split: prod.splits outcome.splits option.splits)
  then show ?thesis by blast
qed

theorem issue_returns_witness: "\<exists>out. issue (authority 3) 11 [''a.b''] run0 = Some out"
proof (rule issue_returns)
  show "\<exists>k<11. snd (ae_certificate (authority 3) (((\<lambda>s. fst (ae_certificate (authority 3) s)) ^^ k) s)) \<noteq> Ok None" for s
    by (rule exI [of _ 0]) (simp add: authority_def)
qed simp

text \<open>
  A challenge stays published when the authority fails after it: if the only authorization is pending, the helper publishes its
  challenge and the authority then rejects the announcement, \<open>issue\<close> fails and the challenge is not withdrawn.
\<close>

theorem challenge_left_published:
  assumes "ae_new_order env domains (ar_remote r) = (s1, Ok ())"
    and "ae_authorizations env s1 = (s2, Ok [\<lparr>au_status = AuthPending, au_challenges = c # cs\<rparr>])" and "chl_type c = Http01"
    and "ae_spawn env ''create'' (ae_key_authorization env c s2) s2 = (s3, Ok ())" and "ae_wait env s3 = (s4, Ok ())"
    and "ae_set_ready env (chl_url c) s4 = (s5, Err e)"
  shows "\<exists>r'. issue env fuel domains r = Some (r', Err (InstantAcme e))
    \<and> published r' = published r @ [ae_key_authorization env c s2]"
  using assms
  by (simp add: issue_def abind_def acall_def one_challenge_def helper_call_def action_as_str_def aok_def published_def alog_def
      Let_def)

theorem challenge_left_published_witness:
  "\<exists>r'. issue ((authority 0)\<lparr>ae_set_ready := \<lambda>_ s. (s, Err 7)\<rparr>) 11 [''a.b''] run0 = Some (r', Err (InstantAcme 7))
    \<and> published r' = [''t.k'']"
  using challenge_left_published [of "(authority 0)\<lparr>ae_set_ready := \<lambda>_ s. (s, Err 7)\<rparr>" "[''a.b'']" run0 0 0
      "\<lparr>chl_type = Http01, chl_url = ''u'', chl_token = ''t''\<rparr>" "[]" 0 0 0 7 11]
  by (simp add: authority_def run0_def published_def)

theorem order_wait_bounded_witness:
  "\<exists>(r' :: nat acme_run) es. ar_log r' = ar_log run0 @ es \<and> refreshes es \<le> 11 \<and> ae_status (authority 0) (ar_remote r') = OrderReady"
proof -
  have out: "wait_order (authority 0) 11 order_backoff [] run0 = Some (run0, Ok ())"
    by (simp add: numeral_eq_Suc authority_def run0_def)
  show ?thesis
    by (rule order_wait_bounded [of "authority 0" "[]" run0]) (use out in auto)
qed

section \<open>Renewal\<close>

text \<open>
  The timer of the renewal task has a period that Tokio accepts, so the task starts; its first tick renews nothing; and later ones
  replace the identity only by one that was built from a newly issued certificate, whatever the authority answers.
\<close>

lemma renewal_starts:
  assumes "interval_contract ops"
  shows "\<exists>t. get_tls_config_spawn_renewal ops client = Ok (t, ac_tls_config client) \<and> rt_client t = client \<and> \<not> rt_skipped t"
proof -
  have "\<not> is_zero RENEWAL_INTERVAL" by (simp add: RENEWAL_INTERVAL_def from_secs_zero)
  with assms obtain iv where "iv_interval ops RENEWAL_INTERVAL = Ok iv" unfolding interval_contract_def by meson
  then show ?thesis by (simp add: get_tls_config_spawn_renewal_def)
qed

lemma first_tick_skipped:
  assumes "renewal_poll ops env fuel tls t r = Some (r', Ok t')" and "\<not> rt_skipped t"
  shows "r' = r \<and> rt_client t' = rt_client t"
  using assms by (auto simp: renewal_poll_def split: prod.splits poll.splits)

lemma renewal_replaces:
  assumes "renewal_poll ops env fuel tls t r = Some (r', Ok t')" and "rt_client t' \<noteq> rt_client t"
  shows "\<exists>key pem. issue env fuel (ac_domains (rt_client t)) r = Some (r', Ok (key, pem))
    \<and> make_server_config_from_rcgen_pem tls pem key (ac_tls_ca (rt_client t)) = Ok (ac_tls_config (rt_client t'))"
proof -
  have "fst (identity_store c old) = (case c of Ok new \<Rightarrow> new | _ \<Rightarrow> old)" for c old
    by (simp add: identity_store_def split: outcome.split)
  with assms show ?thesis
    by (auto simp: renewal_poll_def renewal_tick_def reload_tls_identity_from_rcgen_pem_def obind_Ok_iff
        split: prod.splits poll.splits if_splits option.splits outcome.splits)
qed

end
