(* ===== verification/Server_Main.thy ===== *)
theory Server_Main
  imports Acme Ws_Connect
begin

text \<open>
  The server's main function (\<open>src/src/server/mod.rs\<close>): the addresses it listens on, the TLS identity, the listeners, and what
  is done with each connection. The listeners, the signal task and the renewal task share the TLS identity; the server that runs is a
  \<open>server_proc\<close>, which the events of \<open>proc_event\<close> move, one at a time.
\<close>

section \<open>Listening addresses\<close>

datatype server_error =
    InvalidHost
  | ServerTls tls_error
  | SignalError io_error
  | ServerIo io_error
  | ServerAcme acme_error

text \<open>\<open>collect\<close> of results: the first error, or all values.\<close>

primrec collect_ok :: "('e, 'a) outcome list \<Rightarrow> ('e, 'a list) outcome" where
  "collect_ok [] = Ok []"
| "collect_ok (x # xs) = obind x (\<lambda>x. obind (collect_ok xs) (\<lambda>xs. Ok (x # xs)))"

text \<open>The iterator of ports repeats the last one for ever; \<open>zip\<close> ends with the hosts.\<close>

definition arg_to_sockaddrs :: "server_args \<Rightarrow> (server_error, socket_addr list) outcome" where
  "arg_to_sockaddrs arg =
     obind (expect (if sa_ports arg = [] then None else Some (last (sa_ports arg)))) (\<lambda>last_port.
     if sa_host arg = [] then Panic
     else let ports = sa_ports arg @ replicate (length (sa_host arg)) last_port
          in collect_ok (map (\<lambda>(host, port).
               obind (ok_or InvalidHost (parse_ip (remove_brackets host))) (\<lambda>ip. Ok (sa_from ip port)))
             (zip (sa_host arg) ports)))"

section \<open>Start-up\<close>

text \<open>
  The system around the server: making the connector of the HTTP client, registering the signal handler, and binding a listener,
  which includes asking for its address.
\<close>

record sys_env =
  sy_hyper_connector :: "(io_error, unit) outcome"
  sy_signal :: "(io_error, unit) outcome"
  sy_bind :: "socket_addr \<Rightarrow> (io_error, unit) outcome"
  sy_local_addr :: "socket_addr \<Rightarrow> (io_error, socket_addr) outcome"

text \<open>Where a TLS identity comes from, which decides what replaces it later.\<close>

datatype tls_source =
    NoTls
  | TlsFiles string string "string option"
  | TlsAcme acme_client

definition register_signal_handler :: "sys_env \<Rightarrow> (server_error, unit) outcome" where
  "register_signal_handler sys = map_err SignalError (sy_signal sys)"

definition check_start_tls ::
  "sys_env \<Rightarrow> tls_env \<Rightarrow> 's acme_env \<Rightarrow> nat \<Rightarrow> server_args \<Rightarrow> 's acme_run
   \<Rightarrow> ('s acme_run \<times> (server_error, tls_source \<times> server_config option) outcome) option" where
  "check_start_tls sys tls acme fuel args r = (case sa_tls_key args of
       Some tls_key \<Rightarrow>
         Some (r, obind (expect (sa_tls_cert args)) (\<lambda>tls_cert.
           obind (map_err ServerTls (make_tls_identity tls tls_cert tls_key (sa_tls_ca args))) (\<lambda>tls_config.
           obind (register_signal_handler sys) (\<lambda>_.
           Ok (TlsFiles tls_cert tls_key (sa_tls_ca args), Some tls_config)))))
     | None \<Rightarrow>
         if sa_tls_domain args \<noteq> [] then
           (case populate_or_get acme fuel tls args None r of
              None \<Rightarrow> None
            | Some (r, res) \<Rightarrow>
                Some (r, obind (map_err ServerAcme res) (\<lambda>client. Ok (TlsAcme client, Some (ac_tls_config client)))))
         else Some (r, Ok (NoTls, None)))"

record server_proc =
  sp_state :: service_state
  sp_source :: tls_source
  sp_identity :: "server_config option"
  sp_listeners :: "socket_addr list"

text \<open>An error while the listeners are bound drops the ones bound before.\<close>

definition bind_listeners :: "sys_env \<Rightarrow> socket_addr list \<Rightarrow> (server_error, socket_addr list) outcome" where
  "bind_listeners sys sockaddrs = collect_ok (map (\<lambda>sockaddr.
     obind (map_err ServerIo (sy_bind sys sockaddr)) (\<lambda>_. map_err ServerIo (sy_local_addr sys sockaddr))) sockaddrs)"

text \<open>
  \<open>server_main\<close> up to the loop that joins the listeners. They never return, so neither does the loop: \<open>Ok\<close> is the server running.
\<close>

definition server_main ::
  "sys_env \<Rightarrow> tls_env \<Rightarrow> 's acme_env \<Rightarrow> nat \<Rightarrow> server_args \<Rightarrow> 's acme_run
   \<Rightarrow> ('s acme_run \<times> (server_error, server_proc) outcome) option" where
  "server_main sys tls acme fuel args r =
     (case obind (map_err ServerIo (service_state_new (sa_backend args) (sa_ws_psk args) (sa_not_found_resp args) (sa_obfs args)
             (sa_reverse args) (sa_timeout args) (sa_timeout args) (sy_hyper_connector sys)))
           (\<lambda>state. obind (arg_to_sockaddrs args) (\<lambda>sockaddrs. Ok (state, sockaddrs))) of
        Err e \<Rightarrow> Some (r, Err e)
      | Panic \<Rightarrow> Some (r, Panic)
      | Ok (state, sockaddrs) \<Rightarrow>
          (case check_start_tls sys tls acme fuel args r of
             None \<Rightarrow> None
           | Some (r, res) \<Rightarrow>
               Some (r, obind res (\<lambda>(source, tls_config).
                 obind (bind_listeners sys sockaddrs) (\<lambda>listeners.
                 Ok \<lparr>sp_state = state, sp_source = source, sp_identity = tls_config, sp_listeners = listeners\<rparr>)))))"

section \<open>Running\<close>

text \<open>A connection as it is spawned: with the identity loaded at that moment, or without TLS.\<close>

datatype spawned = ServeTls server_config service_state | ServePlain service_state

text \<open>One round of \<open>run_listener\<close>: an accept error is logged and the loop goes on.\<close>

definition run_listener_iter :: "server_proc \<Rightarrow> (io_error, socket_addr) outcome \<Rightarrow> spawned option" where
  "run_listener_iter p accepted = (case accepted of
       Ok peer \<Rightarrow>
         (case sp_identity p of
            Some tls_config \<Rightarrow> Some (ServeTls tls_config (sp_state p))
          | None \<Rightarrow> Some (ServePlain (sp_state p)))
     | _ \<Rightarrow> None)"

text \<open>
  The events: a listener's accept returns; SIGUSR1 arrives, with the file system as it is then; a renewal of the ACME certificate
  ends, with the result of \<open>issue\<close>.
\<close>

datatype proc_event =
    Accept socket_addr "(io_error, socket_addr) outcome"
  | Sigusr1 tls_env
  | Renewed tls_env "(acme_error, string \<times> string) outcome"

definition proc_step :: "proc_event \<Rightarrow> server_proc \<Rightarrow> server_proc \<times> spawned option" where
  "proc_step ev p = (case ev of
       Accept l accepted \<Rightarrow> (p, if l \<in> set (sp_listeners p) then run_listener_iter p accepted else None)
     | Sigusr1 tls \<Rightarrow>
         (case (sp_source p, sp_identity p) of
            (TlsFiles cert key ca, Some c) \<Rightarrow> (p\<lparr>sp_identity := Some (fst (reload_tls_identity tls cert key ca c))\<rparr>, None)
          | _ \<Rightarrow> (p, None))
     | Renewed tls issued \<Rightarrow>
         (case (sp_source p, sp_identity p, issued) of
            (TlsAcme client, Some c, Ok (key, pem)) \<Rightarrow>
              (p\<lparr>sp_identity := Some (fst (reload_tls_identity_from_rcgen_pem tls pem key (ac_tls_ca client) c))\<rparr>, None)
          | _ \<Rightarrow> (p, None)))"

primrec proc_run :: "proc_event list \<Rightarrow> server_proc \<Rightarrow> server_proc \<times> spawned list" where
  "proc_run [] p = (p, [])"
| "proc_run (ev # evs) p =
     (case proc_step ev p of (p, s) \<Rightarrow>
      case proc_run evs p of (p, ss) \<Rightarrow> (p, (case s of None \<Rightarrow> [] | Some s \<Rightarrow> [s]) @ ss))"

section \<open>Connections\<close>

text \<open>How a connection ends: whether its requests were served, and what was logged.\<close>

datatype served =
    Served
  | HttpFailed nat
  | HttpTimedOut
  | TlsFailed nat
  | TlsTimedOut
  | ConnPanicked

text \<open>
  \<open>conn\<close> is the HTTP connection driven by hyper with the service of the state, when it ends and how; \<open>accept\<close> the TLS handshake.
  \<open>None\<close>: without a timeout, waiting for ever.
\<close>

definition serve_connection ::
  "service_state \<Rightarrow> (duration \<times> (nat, unit) outcome) option \<Rightarrow> served option" where
  "serve_connection st conn = (case optional_timeout (st_http_timeout st) conn of
       None \<Rightarrow> None
     | Some (Ok (Ok _)) \<Rightarrow> Some Served
     | Some (Ok (Err e)) \<Rightarrow> Some (HttpFailed e)
     | Some (Err _) \<Rightarrow> Some HttpTimedOut
     | Some _ \<Rightarrow> Some ConnPanicked)"

definition serve_connection_tls ::
  "service_state \<Rightarrow> (duration \<times> (nat, 'i) outcome) option \<Rightarrow> ('i \<Rightarrow> (duration \<times> (nat, unit) outcome) option)
   \<Rightarrow> served option" where
  "serve_connection_tls st accept conn = (case optional_timeout (st_tls_timeout st) accept of
       None \<Rightarrow> None
     | Some (Ok (Ok stream)) \<Rightarrow> serve_connection st (conn stream)
     | Some (Ok (Err e)) \<Rightarrow> Some (TlsFailed e)
     | Some (Err _) \<Rightarrow> Some TlsTimedOut
     | Some _ \<Rightarrow> Some ConnPanicked)"

end
