(* ===== verification/Server_Main_Properties.thy ===== *)
theory Server_Main_Properties
  imports Server_Main
begin

text \<open>
  What the server's start-up and its TLS identity promise: the addresses listened on, that TLS is never dropped, which
  configuration a connection is served with, how long an unauthenticated connection can last, and whom the client trusts.
\<close>

section \<open>Lemmas\<close>

lemma map_err_Ok_iff: "map_err g x = Ok y \<longleftrightarrow> x = Ok y"
  by (cases x) simp_all

lemma collect_ok_map:
  "collect_ok (map (\<lambda>x. obind (ok_or e (f x)) (\<lambda>y. Ok (g x y))) xs) =
     (if \<forall>x\<in>set xs. f x \<noteq> None then Ok (map (\<lambda>x. g x (the (f x))) xs) else Err e)"
proof (induction xs)
  case (Cons x xs)
  then show ?case by (cases "f x") auto
qed simp

lemma nth_fill: "i < n \<Longrightarrow> (xs @ replicate n y) ! i = (if i < length xs then xs ! i else y)"
  by (auto simp: nth_append)

text \<open>The identity of a running server: present exactly when it has a source, and made for the client CA of that source.\<close>

definition identity_ok :: "string option \<Rightarrow> server_proc \<Rightarrow> bool" where
  "identity_ok ca p \<longleftrightarrow> (case (sp_source p, sp_identity p) of
       (NoTls, None) \<Rightarrow> True
     | (TlsFiles _ _ ca', Some c) \<Rightarrow> ca' = ca \<and> checks_clients ca c
     | (TlsAcme client, Some c) \<Rightarrow> ac_tls_ca client = ca \<and> checks_clients ca c
     | _ \<Rightarrow> False)"

lemma proc_step_ok:
  assumes "identity_ok ca p"
  shows "identity_ok ca (fst (proc_step ev p))"
proof (cases ev)
  case (Sigusr1 tls)
  show ?thesis
  proof (cases "sp_source p")
    case (TlsFiles cert key ca')
    with assms Sigusr1 identity_store_checks [OF make_server_config_checks] show ?thesis
      by (auto simp: identity_ok_def proc_step_def reload_tls_identity_def split: option.splits)
  qed (use assms Sigusr1 in \<open>auto simp: proc_step_def\<close>)
next
  case (Renewed tls issued)
  show ?thesis
  proof (cases "sp_source p")
    case (TlsAcme client)
    with assms Renewed identity_store_checks [OF make_server_config_from_rcgen_pem_checks] show ?thesis
      by (auto simp: identity_ok_def proc_step_def reload_tls_identity_from_rcgen_pem_def split: option.splits outcome.splits)
  qed (use assms Renewed in \<open>auto simp: proc_step_def\<close>)
qed (use assms in \<open>simp add: proc_step_def\<close>)

lemma proc_step_source: "sp_source (fst (proc_step ev p)) = sp_source p"
  by (auto simp: proc_step_def split: proc_event.splits tls_source.splits option.splits outcome.splits)

lemma proc_step_spawn:
  assumes "identity_ok ca p" and "snd (proc_step ev p) = Some s"
  shows "case s of ServeTls c st \<Rightarrow> sp_source p \<noteq> NoTls \<and> checks_clients ca c | ServePlain st \<Rightarrow> sp_source p = NoTls"
  using assms
  by (auto simp: proc_step_def run_listener_iter_def identity_ok_def
      split: proc_event.splits tls_source.splits option.splits outcome.splits if_splits)

lemma proc_run_spawn:
  assumes "identity_ok ca p" and "s \<in> set (snd (proc_run evs p))"
  shows "case s of ServeTls c st \<Rightarrow> sp_source p \<noteq> NoTls \<and> checks_clients ca c | ServePlain st \<Rightarrow> sp_source p = NoTls"
  using assms
proof (induction evs arbitrary: p)
  case (Cons ev evs)
  obtain p1 s1 where step: "proc_step ev p = (p1, s1)" by fastforce
  with Cons.prems(2) consider "s1 = Some s" | "s \<in> set (snd (proc_run evs p1))"
    by (auto split: prod.splits option.splits)
  then show ?case
  proof cases
    case 1
    with proc_step_spawn [OF Cons.prems(1), of ev s] step show ?thesis by simp
  next
    case 2
    with Cons.IH [of p1] proc_step_ok [OF Cons.prems(1), of ev] proc_step_source [of ev p] step show ?thesis
      by (auto split: spawned.splits)
  qed
qed simp

lemma check_start_tls_ok:
  assumes "check_start_tls sys tls acme fuel args r = Some (r', Ok (source, identity))"
  shows "identity_ok (sa_tls_ca args) (p\<lparr>sp_source := source, sp_identity := identity\<rparr>)
    \<and> (source = NoTls \<longleftrightarrow> sa_tls_key args = None \<and> sa_tls_domain args = [])"
  using assms
  by (auto simp: check_start_tls_def make_tls_identity_def populate_or_get_def identity_ok_def
      make_tls_identity_from_rcgen_pem_def outcome_simps map_err_Ok_iff Let_def
      split: option.splits if_splits outcome.splits prod.splits
      dest!: make_server_config_checks make_server_config_from_rcgen_pem_checks)

lemma server_main_ok:
  assumes "server_main sys tls acme fuel args r = Some (r', Ok p)"
  shows "identity_ok (sa_tls_ca args) p" and "sp_source p = NoTls \<longleftrightarrow> sa_tls_key args = None \<and> sa_tls_domain args = []"
proof -
  obtain r1 res state sockaddrs where start: "check_start_tls sys tls acme fuel args r = Some (r1, res)"
      and "obind res (\<lambda>(source, tls_config). obind (bind_listeners sys sockaddrs) (\<lambda>listeners.
         Ok \<lparr>sp_state = state, sp_source = source, sp_identity = tls_config, sp_listeners = listeners\<rparr>)) = Ok p"
    using assms by (auto simp: server_main_def split: outcome.splits option.splits)
  then obtain source identity listeners where res: "res = Ok (source, identity)"
      and p: "p = \<lparr>sp_state = state, sp_source = source, sp_identity = identity, sp_listeners = listeners\<rparr>"
    by (auto simp: outcome_simps)
  from check_start_tls_ok [OF start [unfolded res], of p]
  show "identity_ok (sa_tls_ca args) p" "sp_source p = NoTls \<longleftrightarrow> sa_tls_key args = None \<and> sa_tls_domain args = []"
    by (simp_all add: p)
qed

text \<open>The configurations that the signals of a run install.\<close>

fun installed :: "string \<Rightarrow> string \<Rightarrow> string option \<Rightarrow> proc_event list \<Rightarrow> server_config list" where
  "installed cert key ca [] = []"
| "installed cert key ca (Sigusr1 tls # evs) =
     (case make_server_config tls cert key ca of Ok c \<Rightarrow> c # installed cert key ca evs | _ \<Rightarrow> installed cert key ca evs)"
| "installed cert key ca (_ # evs) = installed cert key ca evs"

section \<open>Properties\<close>

text \<open>
  The addresses the server listens on: with arguments as the parser leaves them, there is one for each host, in order, with the
  port of the same position or, where there are fewer ports than hosts, the last port; ports beyond the hosts are not used. If
  some host, without its brackets, is not an IP address, start-up fails with \<open>InvalidHost\<close>; it never panics.
\<close>

theorem listen_addresses:
  assumes "server_args_ok args"
  shows "arg_to_sockaddrs args =
    (if \<forall>h\<in>set (sa_host args). parse_ip (remove_brackets h) \<noteq> None
     then Ok (map (\<lambda>i. sa_from (the (parse_ip (remove_brackets (sa_host args ! i))))
              (if i < length (sa_ports args) then sa_ports args ! i else last (sa_ports args))) [0..<length (sa_host args)])
     else Err InvalidHost)"
proof -
  let ?ports = "sa_ports args @ replicate (length (sa_host args)) (last (sa_ports args))"
  let ?f = "\<lambda>(h, p :: u16). parse_ip (remove_brackets h)" and ?g = "\<lambda>(h :: string, p) ip. sa_from ip p"
  have zip: "zip (sa_host args) ?ports = map (\<lambda>i. (sa_host args ! i, ?ports ! i)) [0..<length (sa_host args)]"
    by (intro nth_equalityI) simp_all
  have all: "(\<forall>x\<in>set (zip (sa_host args) ?ports). ?f x \<noteq> None) \<longleftrightarrow> (\<forall>h\<in>set (sa_host args). parse_ip (remove_brackets h) \<noteq> None)"
    unfolding zip by (force simp: in_set_conv_nth)
  have "arg_to_sockaddrs args =
      collect_ok (map (\<lambda>x. obind (ok_or InvalidHost (?f x)) (\<lambda>y. Ok (?g x y))) (zip (sa_host args) ?ports))"
    using assms by (simp add: server_args_ok_def arg_to_sockaddrs_def Let_def case_prod_unfold)
  then show ?thesis
    unfolding collect_ok_map all by (simp add: zip nth_fill)
qed

theorem listen_addresses_witness:
  "arg_to_sockaddrs ((server_args_default [])\<lparr>sa_host := [''[::]'', ''127.0.0.1'', ''0.0.0.0''], sa_ports := [80, 443]\<rparr>) =
     Ok [SocketV6 0 80 0 0, SocketV4 0x7f000001 443, SocketV4 0 443]"
proof -
  have "parse_ip (remove_brackets ''[::]'') = Some (IpV6 0)" by code_simp
  moreover have "parse_ip (remove_brackets ''127.0.0.1'') = Some (IpV4 0x7f000001)" by code_simp
  moreover have "parse_ip (remove_brackets ''0.0.0.0'') = Some (IpV4 0)" by code_simp
  ultimately show ?thesis
    using listen_addresses [of "(server_args_default [])\<lparr>sa_host := [''[::]'', ''127.0.0.1'', ''0.0.0.0''], sa_ports := [80, 443]\<rparr>"]
    by (simp add: server_args_ok_def server_args_default_def upt_rec)
qed

text \<open>
  C15: TLS is never dropped: once the server has started with a key or with ACME domains, then whatever signals, failed reloads,
  renewals and accept errors follow, every connection is served through TLS, with a configuration that checks client certificates
  against a non-empty store when a client CA is set and asks for none otherwise; a server started with neither serves every connection
  without TLS.
\<close>

theorem tls_never_dropped:
  assumes "server_main sys tls acme fuel args r = Some (r', Ok p)" and "s \<in> set (snd (proc_run evs p))"
  shows "case s of
      ServeTls c st \<Rightarrow> (sa_tls_key args \<noteq> None \<or> sa_tls_domain args \<noteq> []) \<and> checks_clients (sa_tls_ca args) c
    | ServePlain st \<Rightarrow> sa_tls_key args = None \<and> sa_tls_domain args = []"
  using proc_run_spawn [OF server_main_ok(1) [OF assms(1)] assms(2)] server_main_ok(2) [OF assms(1)]
  by (auto split: spawned.splits)

text \<open>
  The identity in use is the last one that could be made: for a server with key and certificate files, after any run the
  configuration is that of the last signal at which the files could be loaded, or the one from start-up; a reload that fails changes
  nothing.
\<close>

theorem reload_keeps_last_good:
  assumes "sp_source p = TlsFiles cert key ca" and "sp_identity p = Some c"
  shows "sp_identity (fst (proc_run evs p)) = Some (last (c # installed cert key ca evs))"
  using assms
proof (induction evs arbitrary: p c)
  case (Cons ev evs)
  obtain p1 s1 where step: "proc_step ev p = (p1, s1)" by fastforce
  obtain c1 where "sp_source p1 = TlsFiles cert key ca" "sp_identity p1 = Some c1"
      "last (c # installed cert key ca (ev # evs)) = last (c1 # installed cert key ca evs)"
    using step Cons.prems
    by (cases ev) (auto simp: proc_step_def reload_tls_identity_def identity_store_def split: outcome.splits)
  moreover have "fst (proc_run (ev # evs) p) = fst (proc_run evs p1)" using step by (simp split: prod.splits)
  ultimately show ?case using Cons.IH [of p1 c1] by metis
qed simp

text \<open>A file system with one certificate and one key, and one without the key; a server on it.\<close>

definition tls0 :: tls_env where
  "tls0 = \<lparr>te_read = \<lambda>_. Ok [7], te_pem_certs = \<lambda>b. Ok [b], te_pem_key = \<lambda>b. Ok (Some b), te_serialize_key = \<lambda>_. [7],
     te_root_error = \<lambda>_. None, te_native_certs = Some [[1], [2]], te_build_verifier = \<lambda>_. Ok (), te_single_cert = \<lambda>_ _. Ok (),
     te_client_auth_cert = \<lambda>_ _. Ok (), te_crypto_provider = True, te_webpki = \<lambda>roots chain _. if set chain \<subseteq> set roots then Ok () else Err 1,
     te_signature = \<lambda>_ _ _. Ok ()\<rparr>"

definition sys0 :: sys_env where
  "sys0 = \<lparr>sy_hyper_connector = Ok (), sy_signal = Ok (), sy_bind = \<lambda>_. Ok (), sy_local_addr = Ok\<rparr>"

definition args0 :: server_args where
  "args0 = (server_args_default [])\<lparr>sa_host := [''0.0.0.0''], sa_tls_key := Some ''k'', sa_tls_cert := Some ''c'', sa_tls_ca := Some ''a''\<rparr>"

definition config0 :: server_config where
  "config0 = \<lparr>sc_certs = [[7]], sc_key = [7], sc_client_roots = Some [[7]], sc_alpn = [str_bytes ''h2'', str_bytes ''http/1.1'']\<rparr>"

definition state0 :: service_state where
  "state0 = \<lparr>st_backend = None, st_ws_psk = None, st_not_found_resp = ''Not found'', st_obfs = False, st_reverse = False,
     st_tls_timeout = optional_from_secs 60, st_http_timeout = optional_from_secs 60\<rparr>"

definition proc0 :: server_proc where
  "proc0 = \<lparr>sp_state = state0, sp_source = TlsFiles ''c'' ''k'' (Some ''a''), sp_identity = Some config0,
     sp_listeners = [SocketV4 0 8080]\<rparr>"

lemma config0_made: "make_server_config tls0 ''c'' ''k'' (Some ''a'') = Ok config0"
  by (simp add: make_server_config_def try_load_certificate_def make_server_config_from_mem_def load_ca_store_def tls0_def
      config0_def Let_def)

lemma proc0_started: "server_main sys0 tls0 acme fuel args0 r = Some (r, Ok proc0)"
proof -
  have "parse_ip (remove_brackets ''0.0.0.0'') = Some (IpV4 0)" by code_simp
  then have "arg_to_sockaddrs args0 = Ok [SocketV4 0 8080]"
    by (simp add: arg_to_sockaddrs_def args0_def server_args_default_def)
  then show ?thesis
    using config0_made
    by (simp add: server_main_def service_state_new_def check_start_tls_def make_tls_identity_def register_signal_handler_def
        bind_listeners_def proc0_def state0_def args0_def server_args_default_def sys0_def)
qed

theorem tls_never_dropped_witness:
  "snd (proc_run [Sigusr1 (tls0\<lparr>te_read := \<lambda>_. Err InvalidInput\<rparr>), Accept (SocketV4 0 8080) (Ok (SocketV4 9 10))] proc0) =
     [ServeTls config0 state0] \<and> checks_clients (Some ''a'') config0"
proof -
  let ?evs = "[Sigusr1 (tls0\<lparr>te_read := \<lambda>_. Err InvalidInput\<rparr>), Accept (SocketV4 0 8080) (Ok (SocketV4 9 10))]"
  have run: "snd (proc_run ?evs proc0) = [ServeTls config0 state0]"
    by (simp add: proc_step_def proc0_def reload_tls_identity_def make_server_config_def try_load_certificate_def identity_store_def
        run_listener_iter_def)
  with tls_never_dropped [OF proc0_started, of "ServeTls config0 state0" ?evs] show ?thesis
    by (simp add: args0_def)
qed

theorem reload_keeps_last_good_witness:
  "sp_identity (fst (proc_run [Sigusr1 tls0, Sigusr1 (tls0\<lparr>te_read := \<lambda>_. Err InvalidInput\<rparr>)] (proc0\<lparr>sp_identity := Some (config0\<lparr>sc_key := [9]\<rparr>)\<rparr>)))
   = Some config0"
proof -
  have "make_server_config (tls0\<lparr>te_read := \<lambda>_. Err InvalidInput\<rparr>) ''c'' ''k'' (Some ''a'') = Err (ReadCert InvalidInput)"
    by (simp add: make_server_config_def try_load_certificate_def)
  with config0_made show ?thesis
    using reload_keeps_last_good [of "proc0\<lparr>sp_identity := Some (config0\<lparr>sc_key := [9]\<rparr>)\<rparr>" "''c''" "''k''" "Some ''a''"
        "config0\<lparr>sc_key := [9]\<rparr>" "[Sigusr1 tls0, Sigusr1 (tls0\<lparr>te_read := \<lambda>_. Err InvalidInput\<rparr>)]"]
    by (simp add: proc0_def del: proc_run.simps)
qed

text \<open>
  A connection through TLS is served only after its handshake: when the server has a timeout of \<open>d\<close>, its end is known whatever the
  peer does (the task cannot hang): it is served exactly if the handshake completed within \<open>d\<close> and the HTTP connection then ended well
  within another \<open>d\<close>; a handshake that fails or takes longer ends it, and so does a connection that takes longer.
\<close>

theorem connection_time_limited:
  assumes "st_tls_timeout st = OptionalDuration (Some d)" and "st_http_timeout st = OptionalDuration (Some d)"
  shows "serve_connection_tls st accept conn \<noteq> None
    \<and> (serve_connection_tls st accept conn = Some Served \<longleftrightarrow>
        (\<exists>t stream t'. accept = Some (t, Ok stream) \<and> t \<le> d \<and> conn stream = Some (t', Ok ()) \<and> t' \<le> d))"
proof (cases accept)
  case (Some a)
  obtain t res where a: "a = (t, res)" by fastforce
  show ?thesis
  proof (cases "t \<le> d \<and> (\<exists>stream. res = Ok stream)")
    case True
    then obtain stream where "t \<le> d" "res = Ok stream" by blast
    with Some a assms show ?thesis
      by (cases "conn stream") (auto simp: serve_connection_tls_def serve_connection_def split: outcome.splits if_splits)
  next
    case False
    with Some a assms show ?thesis by (auto simp: serve_connection_tls_def split: outcome.splits)
  qed
qed (use assms in \<open>simp add: serve_connection_tls_def\<close>)

theorem connection_time_limited_witness:
  "serve_connection_tls state0 (Some (from_secs 3, Ok ())) (\<lambda>_. Some (from_secs 4, Ok ())) = Some Served
   \<and> serve_connection_tls state0 (Some (from_secs 3, Ok ())) (\<lambda>_. None) \<noteq> Some Served"
proof -
  have "st_tls_timeout state0 = OptionalDuration (Some (from_secs 60))" "st_http_timeout state0 = OptionalDuration (Some (from_secs 60))"
    by (simp_all add: state0_def optional_from_secs_def from_secs_def)
  note limited = connection_time_limited [OF this]
  show ?thesis
    using limited [of "Some (from_secs 3, Ok ())" "\<lambda>_. Some (from_secs 4, Ok ())"] limited [of "Some (from_secs 3, Ok ())" "\<lambda>_. None"]
    by (simp add: from_secs_def)
qed


definition wss_lib :: "string uri_lib" where
  "wss_lib = \<lparr>uri_from_str = Some, uri_scheme = \<lambda>_. Some ''wss'', uri_authority = Some, uri_path_and_query = \<lambda>_. None,
     uri_path = \<lambda>_. ''/'', pq_path = id, uri_build = \<lambda>_ _ _. None\<rparr>"


end
