(* ===== verification/Client_Main.thy ===== *)
theory Client_Main
  imports Server_Main Server_Forward Copy_Properties
begin

text \<open>
  The outermost part of the program: the resources shared by the listeners and the entry of the client (\<open>src/src/client/mod.rs\<close>),
  opening the local sockets and the wrapper of standard input and output (\<open>src/src/client/handle_remote\<close>), one attempt of the
  client as the composition of its handshake and its connection, and \<open>main\<close> with both subcommands.
\<close>

section \<open>Resources\<close>

definition STREAM_REQUEST_COMMAND_SIZE :: nat where "STREAM_REQUEST_COMMAND_SIZE = 64"

record handler_resources =
  hr_commands :: "stream_command chan"
  hr_udp :: udp_resources

definition handler_resources_create :: "('e, handler_resources) outcome" where
  "handler_resources_create =
     obind (mpsc_channel STREAM_REQUEST_COMMAND_SIZE) (\<lambda>commands.
     obind (mpsc_channel INCOMING_DATAGRAM_BUFFER_SIZE) (\<lambda>datagrams.
     Ok \<lparr>hr_commands = commands, hr_udp = \<lparr>ur_maps = client_id_maps_new, ur_datagram_tx = datagrams\<rparr>\<rparr>))"

section \<open>Local sockets\<close>

definition open_tcp_listener ::
  "(string \<Rightarrow> u16 \<Rightarrow> (io_error, 'l) outcome) \<Rightarrow> ('l \<Rightarrow> socket_addr option) \<Rightarrow> string \<Rightarrow> u16 \<Rightarrow> (io_error, 'l) outcome" where
  "open_tcp_listener bind laddr lhost lport =
     obind (bind lhost lport) (\<lambda>listener. obind (expect (laddr listener)) (\<lambda>_. Ok listener))"

text \<open>
  \<open>handle_udp\<close>: its socket, then its rounds, each with the time, the draws of identifiers and what the socket received. \<open>None\<close>: the
  loop still runs after them, or an identifier is still being drawn, or a datagram waits for room in the channel.
\<close>

fun handle_udp_loop ::
  "udp_socket \<Rightarrow> string \<Rightarrow> u16 \<Rightarrow> (nat \<times> u32 list \<times> (io_error, bytes \<times> socket_addr) outcome) list \<Rightarrow> udp_resources
   \<Rightarrow> udp_resources \<times> (fatal_error, unit) outcome option" where
  "handle_udp_loop socket rhost rport [] h = (h, None)"
| "handle_udp_loop socket rhost rport ((now, draws, recv) # rounds) h =
     (case handle_udp_iter now draws socket rhost rport recv h of
        Some (h, _, IterDone) \<Rightarrow> handle_udp_loop socket rhost rport rounds h
      | Some (h, _, IterFail e) \<Rightarrow> (h, Some (Err e))
      | Some (h, _, IterPanic) \<Rightarrow> (h, Some Panic)
      | Some (h, _, IterWait dg) \<Rightarrow> (h, None)
      | None \<Rightarrow> (h, None))"

definition handle_udp ::
  "(string \<Rightarrow> u16 \<Rightarrow> (io_error, udp_socket) outcome) \<Rightarrow> string \<Rightarrow> u16 \<Rightarrow> string \<Rightarrow> u16
   \<Rightarrow> (nat \<times> u32 list \<times> (io_error, bytes \<times> socket_addr) outcome) list \<Rightarrow> udp_resources
   \<Rightarrow> udp_resources \<times> (fatal_error, unit) outcome option" where
  "handle_udp bind lhost lport rhost rport rounds h =
     (case obind (map_err ClientIo (bind lhost lport)) (\<lambda>socket. obind (expect (us_local_addr socket)) (\<lambda>_. Ok socket)) of
        Ok socket \<Rightarrow> handle_udp_loop socket rhost rport rounds h
      | Err e \<Rightarrow> (h, Some (Err e))
      | Panic \<Rightarrow> (h, Some Panic))"

section \<open>Standard input and output\<close>

text \<open>\<open>Stdio\<close> reads from one and writes to the other: a side of the copying, made of the two.\<close>

record ('i, 'w) stdio =
  std_in :: 'i
  std_out :: 'w

definition stdio_fill_buf ::
  "('i \<Rightarrow> 'i \<times> (io_error, bytes) outcome poll) \<Rightarrow> ('i, 'w) stdio \<Rightarrow> ('i, 'w) stdio \<times> (io_error, bytes) outcome poll" where
  "stdio_fill_buf fill s = (case fill (std_in s) of (i, r) \<Rightarrow> (s\<lparr>std_in := i\<rparr>, r))"

definition stdio_on_stdout :: "('w \<Rightarrow> 'w \<times> 'r) \<Rightarrow> ('i, 'w) stdio \<Rightarrow> ('i, 'w) stdio \<times> 'r" where
  "stdio_on_stdout f s = (case f (std_out s) of (w, r) \<Rightarrow> (s\<lparr>std_out := w\<rparr>, r))"

definition stdio_rw :: "'i rw \<Rightarrow> 'w rw \<Rightarrow> ('i, 'w) stdio rw" where
  "stdio_rw i w =
     \<lparr>rw_fill_buf = stdio_fill_buf (rw_fill_buf i), rw_consume = (\<lambda>k s. s\<lparr>std_in := rw_consume i k (std_in s)\<rparr>),
      rw_write = (\<lambda>data. stdio_on_stdout (rw_write w data)), rw_flush = stdio_on_stdout (rw_flush w),
      rw_shutdown = stdio_on_stdout (rw_shutdown w)\<rparr>"

section \<open>The client and the program\<close>

text \<open>One attempt: the handshake, then the connection on the WebSocket it returned.\<close>

definition attempt_of :: "(client_error, 'ws) outcome \<Rightarrow> ('ws \<Rightarrow> (client_error, unit) outcome) \<Rightarrow> attempt" where
  "attempt_of shaken connected = (case shaken of
       Ok ws \<Rightarrow> Connected (connected ws)
     | Err e \<Rightarrow> HandshakeFailed e
     | Panic \<Rightarrow> Connected Panic)"

text \<open>\<open>client_main\<close>, with the static cell it fills; a second call would find it full.\<close>

definition client_main ::
  "handler_resources option \<Rightarrow> 'u client_args \<Rightarrow> (fatal_error, unit) outcome list option \<Rightarrow> (string \<Rightarrow> tungstenite_error option)
   \<Rightarrow> (attempt \<times> bool) list \<Rightarrow> handler_resources option \<times> (client_error, unit) outcome option" where
  "client_main global args listeners downcast rounds = (case handler_resources_create of
       Ok resources \<Rightarrow>
         (case global of
            Some _ \<Rightarrow> (global, Some Panic)
          | None \<Rightarrow> (Some resources,
              client_main_inner listeners downcast (ca_max_retry_interval args) (ca_max_retry_count args) rounds))
     | Err e \<Rightarrow> (global, Some (Err e))
     | Panic \<Rightarrow> (global, Some Panic))"

section \<open>Lemmas\<close>

text \<open>Standard input and output are a side that the copying can rely on, when each of them is.\<close>

lemma stdio_contract:
  assumes "read_contract i (\<lambda>_. []) source" and "write_contract w sink"
    and "\<And>x. sink (fst (rw_flush w x)) = sink x \<and> snd (rw_flush w x) \<noteq> Ready Panic"
  shows "write_contract (stdio_rw i w) (\<lambda>s. sink (std_out s))"
    and "read_contract (stdio_rw i w) (\<lambda>s. sink (std_out s)) (\<lambda>s. source (std_in s))"
proof -
  have "accepts (\<lambda>s. sink (std_out s)) x data (rw_write (stdio_rw i w) data x) = accepts sink (std_out x) data (rw_write w data (std_out x))"
    for x data
    by (cases "rw_write w data (std_out x)")
      (simp add: accepts_def stdio_rw_def stdio_on_stdout_def cong: poll.case_cong outcome.case_cong)
  with assms(2) show "write_contract (stdio_rw i w) (\<lambda>s. sink (std_out s))"
    unfolding write_contract_def by (simp add: stdio_rw_def stdio_on_stdout_def case_prod_beta)
  have "shows_next (stdio_rw i w) (\<lambda>s. source (std_in s)) s r = shows_next i source (std_in s) r" for s r
    by (simp add: shows_next_def stdio_rw_def cong: poll.case_cong outcome.case_cong)
  with assms(1,3) show "read_contract (stdio_rw i w) (\<lambda>s. sink (std_out s)) (\<lambda>s. source (std_in s))"
    unfolding read_contract_def
    by (simp add: stdio_rw_def stdio_fill_buf_def stdio_on_stdout_def case_prod_beta)
qed

lemma handler_resources_created:
  "handler_resources_create = Ok hr \<Longrightarrow> ur_maps (hr_udp hr) = client_id_maps_new \<and> ch_queue (hr_commands hr) = []
     \<and> ch_queue (ur_datagram_tx (hr_udp hr)) = []"
  "\<exists>hr. handler_resources_create = Ok hr"
  by (auto simp: handler_resources_create_def mpsc_channel_def STREAM_REQUEST_COMMAND_SIZE_def INCOMING_DATAGRAM_BUFFER_SIZE_def)

text \<open>Ctrl-C during the handshake ends the client at once, without a delay.\<close>

lemma handshake_cancelled_ends:
  assumes "handshake_prepare lib into tls args = Ok (req, c)" and "connect req c = HandshakeCtrlC"
  shows "main_future dc b ((attempt_of (handshake lib into tls args connect) f, ctrl_c) # rounds) = ([], Some (Err HandshakeCancelled))"
  using assms by (simp add: handshake_def handshake_finish_def attempt_of_def retryable_def)

end
