(* ===== verification/Tls_Native.thy ===== *)
theory Tls_Native
  imports Tls_Config
begin

text \<open>
  The alternative TLS back end of \<open>src/src/tls/native.rs\<close>. The library is a parameter: parsing an identity and a certificate, and
  building the acceptor and the connector from what was configured.
\<close>

record native_env =
  nv_read :: "string \<Rightarrow> (io_error, bytes) outcome"
  nv_from_pkcs8 :: "bytes \<Rightarrow> bytes \<Rightarrow> (nat, bytes \<times> bytes) outcome"
  nv_from_pem :: "bytes \<Rightarrow> (nat, bytes) outcome"
  nv_serialize_key :: "string \<Rightarrow> bytes"

datatype native_error = NativeRead io_error | CertParse nat

record native_acceptor =
  na_identity :: "bytes \<times> bytes"

record native_connector =
  nc_accept_invalid :: bool
  nc_alpn :: "string list"
  nc_added_roots :: "bytes list"
  nc_identity :: "(bytes \<times> bytes) option"

definition read_key_cert :: "native_env \<Rightarrow> string \<Rightarrow> string \<Rightarrow> (native_error, bytes \<times> bytes) outcome" where
  "read_key_cert env key_path cert_path =
     obind (map_err NativeRead (nv_read env key_path)) (\<lambda>key.
     obind (map_err NativeRead (nv_read env cert_path)) (\<lambda>cert.
     map_err CertParse (nv_from_pkcs8 env cert key)))"

text \<open>\<open>build\<close> is the library's \<open>TlsAcceptor::builder(identity).build()\<close>; the client CA is not used.\<close>

definition native_server_config_from_mem ::
  "(native_acceptor \<Rightarrow> (nat, native_acceptor) outcome) \<Rightarrow> bytes \<times> bytes \<Rightarrow> string option \<Rightarrow> (native_error, native_acceptor) outcome" where
  "native_server_config_from_mem build identity client_ca_path = map_err CertParse (build \<lparr>na_identity = identity\<rparr>)"

definition native_server_config ::
  "native_env \<Rightarrow> (native_acceptor \<Rightarrow> (nat, native_acceptor) outcome) \<Rightarrow> string \<Rightarrow> string \<Rightarrow> string option
   \<Rightarrow> (native_error, native_acceptor) outcome" where
  "native_server_config env build cert_path key_path client_ca_path =
     obind (read_key_cert env key_path cert_path) (\<lambda>identity. native_server_config_from_mem build identity client_ca_path)"

definition native_server_config_from_rcgen_pem ::
  "native_env \<Rightarrow> (native_acceptor \<Rightarrow> (nat, native_acceptor) outcome) \<Rightarrow> string \<Rightarrow> string \<Rightarrow> string option
   \<Rightarrow> (native_error, native_acceptor) outcome" where
  "native_server_config_from_rcgen_pem env build certs keypair client_ca_path =
     obind (map_err CertParse (nv_from_pkcs8 env (str_bytes certs) (nv_serialize_key env keypair))) (\<lambda>identity.
     native_server_config_from_mem build identity client_ca_path)"

definition native_client_config ::
  "native_env \<Rightarrow> (native_connector \<Rightarrow> (nat, native_connector) outcome) \<Rightarrow> string option \<Rightarrow> string option \<Rightarrow> string option \<Rightarrow> bool
   \<Rightarrow> string list option \<Rightarrow> (native_error, native_connector) outcome" where
  "native_client_config env build cert_path key_path ca_path tls_skip_verify tls_alpn =
     obind (case ca_path of
              None \<Rightarrow> Ok []
            | Some p \<Rightarrow>
                obind (map_err NativeRead (nv_read env p)) (\<lambda>ca.
                obind (map_err CertParse (nv_from_pem env ca)) (\<lambda>cert. Ok [cert]))) (\<lambda>roots.
     obind (case cert_path of
              None \<Rightarrow> Ok None
            | Some cert \<Rightarrow>
                obind (read_key_cert env (case key_path of None \<Rightarrow> cert | Some key \<Rightarrow> key) cert) (\<lambda>identity. Ok (Some identity)))
       (\<lambda>identity.
     map_err CertParse (build \<lparr>nc_accept_invalid = tls_skip_verify, nc_alpn = (case tls_alpn of None \<Rightarrow> [] | Some ps \<Rightarrow> ps),
       nc_added_roots = roots, nc_identity = identity\<rparr>)))"

text \<open>With this back end the client CA of the server makes no difference: mutual TLS is not enforced, and a wrong path is not noticed.\<close>

theorem native_ignores_client_ca:
  "native_server_config env build cert_path key_path ca = native_server_config env build cert_path key_path None"
  by (simp add: native_server_config_def native_server_config_from_mem_def)

text \<open>The same arguments with the default back end fail when the file of the client CA cannot be read.\<close>

theorem rustls_needs_client_ca:
  assumes "try_load_certificate env (Some key_path) (Some cert_path) = Ok (Some (certs, key))" and "te_read env ca = Err e"
  shows "make_server_config env cert_path key_path (Some ca) = Err (ReadCert e)"
  using assms by (simp add: make_server_config_def make_server_config_from_mem_def load_ca_store_def)

end
