(* ===== verification/Spec2Isabelle.thy ===== *)
theory Spec2Isabelle
  imports Relay_Liveness Relay_Open Relay_Faults Relay_Refinement Write_Permission Mux_Panic_Freedom Socks_Targets Tunnel
    Acme_Properties Server_Main_Properties
    Client_Main Tls_Native
begin

text \<open>
  \<^bold>\<open>Penguin: a verification of the multiplexor, the client and the server.\<close>

  Penguin tunnels TCP streams and UDP datagrams through one WebSocket. A multiplexor (\<open>src/src/mux\<close>) runs at both
  ends: it splits the WebSocket into streams with credit-based flow control, and carries datagrams and bind
  requests. The client (\<open>src/src/client\<close>) opens listeners for the remotes given on the command line
  (\<open>src/src/parse_remote.rs\<close>), speaks SOCKS to local programs, asks its main loop for a stream or hands it a datagram, and
  reconnects when the connection is lost. The server (\<open>src/src/server\<close>) listens, with or without TLS (\<open>src/src/tls\<close>, with a certificate
  from files or from ACME), answers HTTP requests, upgrades those of a client to a WebSocket, and for each such tunnel connects the streams
  and sends the datagrams to their targets.

  \<^bold>\<open>How the code is modelled.\<close>
  A Rust result is an \<open>outcome\<close>: \<open>Ok\<close>, \<open>Err\<close> or \<open>Panic\<close>; a poll is \<open>Pending\<close> or \<open>Ready\<close>. Machine integers are words of
  their width, \<open>usize\<close> lengths are natural numbers. State that Rust shares through \<open>Arc\<close> lives in a store of cells with
  explicit addresses, so that a stream and the flow map alias as in the code. A method is a function from its inputs and the
  state to the new state and the result. An asynchronous method is modelled by what one poll does, or, where it only
  calls other tasks or the operating system, as a function of their results. The release build is modelled: a
  \<open>debug_assert!\<close> does nothing and unchecked counters wrap. Log output is left out. What comes from outside the
  repository is a parameter or an argument: the WebSocket (the record \<open>web_socket\<close> and the inbox of messages), the draws of the random
  generator (documented range: \<open>draws_ok\<close>), the other side of a copy (\<open>rw\<close>, with the contract \<open>write_contract\<close> of
  \<open>AsyncWrite\<close>), the peer of a SOCKS connection, the resolver and sockets (\<open>net_env\<close>,
  \<open>sys_env\<close>), the URI and HTTP libraries (\<open>uri_lib\<close>, \<open>http_env\<close>), rustls with the file system (\<open>tls_env\<close>) and the ACME library with the helper
  process (\<open>acme_env\<close>). Channels of tokio are the records of theory \<open>Channels\<close> with the
  behaviour their documentation states, and the locales \<open>sending\<close> and \<open>fifo\<close> collect what is used of them.

  \<^bold>\<open>Theories, in the order of the imports.\<close>
  \<^item> \<open>Penguin_Prelude\<close>: outcomes, polls, I/O errors, big-endian integers (locale \<open>wire_int\<close>, interpreted at every width), and the
    locales \<open>step_system\<close>, by which invariants of steps become invariants of reachable states, and \<open>refinement\<close>, by which simulated steps become runs of a specification.
  \<^item> \<open>Rust_Strings\<close>, \<open>Rust_Net\<close>: the string, integer-parsing and address functions of the standard library that are used.
  \<^item> \<open>Frame\<close> (\<open>mux/frame.rs\<close>): every frame type, constructor, the encoder and the decoder. The codec is an interpretation of the locale
    \<open>codec\<close>. Round trip, canonical form, absence of panics, exact errors and sizes.
  \<^item> \<open>Timing\<close> (\<open>mux/timing.rs\<close>) and \<open>Mux_Config\<close> (\<open>mux/config.rs\<close>): the closed form of the back-off delays, and which optional durations the
    interval timer accepts; the options a builder can make.
  \<^item> \<open>Channels\<close>, \<open>Mux_State\<close>, \<open>Mux_Task\<close>, \<open>Mux_Stream\<close>, \<open>Multiplexor\<close> (\<open>mux/lib.rs\<close>, \<open>mux/task.rs\<close>, \<open>mux/stream.rs\<close>, \<open>mux/ws.rs\<close>): flows and
    cells; processing of each kind of frame; the three loops of the task and winding down; reading, writing, shutting down
    and dropping a stream; the user's interface with opening streams, datagrams and bind requests.
  \<^item> \<open>Mux_Invariant\<close>: the well-formedness \<open>mux_wf\<close> is kept by every operation. \<open>Mux_Properties\<close>: the step relation of a multiplexor, its
    reachable states, replies to frames and isolation of flows. \<open>Mux_Lifecycle\<close>: reading, shutdown, the opening handshake between two ends,
    datagrams. \<open>Mux_Shutdown\<close>: what winding down does to every flow, and what dropping a stream does. \<open>Mux_Panic_Freedom\<close>: no operation panics in a reachable state.
  \<^item> \<open>Flow_Control\<close>: two ends joined by their frame queues, in every interleaving of reads, writes and deliveries: no overrun, order and
    completeness, freedom from deadlock when the threshold fits the window, and deadlock when it does not.
  \<^item> \<open>Write_Permission\<close>: obtaining credit one atomic access at a time, interleaved with the task.
  \<^item> \<open>Copy_Bidirectional\<close>, \<open>Copy_Properties\<close>: the copying future of \<open>mux/stream.rs\<close> and what one poll moves in each direction.
    \<open>Copy_Steps\<close>: a poll as a sequence of steps, each of which is one operation on the stream or on the other side.
  \<^item> \<open>Relay\<close>: a whole relayed connection: at each end a party, a copying future, a stream and a multiplexor with any other flows, joined by
    the frames of the one flow; a step is a poll, the delivery of a frame or anything else the other flows do (\<open>others\<close>, which \<open>Relay_Others\<close>
    shows to hold for the processing of their frames). \<open>Relay_Invariant\<close> has the invariant of one direction and one lemma per event,
    \<open>Relay_Properties\<close> exactness and completeness from party to party, \<open>Relay_Liveness\<close> that a relay is never stuck, and \<open>Relay_Open\<close> that
    the opening of a stream leads to the initial state of a relay.
  \<^item> \<open>Relay_Refinement\<close>: the abstract specification of a relay, a pair of pipes with half-close and totals (\<open>pipe_step\<close>), and that every run of a
    relay is a run of it. \<open>Relay_Faults\<close>: a relay in which futures fail or are aborted, flows are closed and tasks wind down and exit at any
    moment; what arrives is then still a beginning of what is sent.
  \<^item> \<open>Parse_Remote\<close> (\<open>parse_remote.rs\<close>): tokenizer, parser and printer of remotes.
  \<^item> \<open>Socks_Wire\<close>, \<open>Socks\<close>, \<open>Socks_Properties\<close> (\<open>client/handle_remote/socks\<close>): messages, handlers and their traces.
  \<^item> \<open>Client_Udp\<close>, \<open>Client_Udp_Properties\<close>: the UDP client maps of \<open>client/mod.rs\<close> and the UDP forwarders; the locale \<open>registry\<close> states what
    the forwarders rely on.
  \<^item> \<open>Client\<close>, \<open>Client_Properties\<close> (\<open>client/mod.rs\<close>, \<open>client/maybe_retryable.rs\<close>, \<open>client/handle_remote\<close>): retry loop, one connection,
    listeners.
  \<^item> \<open>Rust_Parse\<close>: UTF-8, trimming and the parser of IP addresses of the standard library. \<open>Ip_Text\<close>: a printed address parses back to itself.
    \<open>Socks_Targets\<close>: the address that a SOCKS client names is the one the server's forwarder contacts.
  \<^item> \<open>Tls_Config\<close> (\<open>tls/mod.rs\<close>, \<open>tls/rustls.rs\<close>): certificates, root stores, the configurations of both sides and the exchangeable identity.
  \<^item> \<open>Command_Line\<close> (\<open>arg.rs\<close>, \<open>main.rs\<close>): arguments, their defaults and constraints, parsers of URLs and headers, start-up.
  \<^item> \<open>Http_Service\<close> (\<open>server/service.rs\<close>), \<open>Ws_Connect\<close> (\<open>client/ws_connect.rs\<close>, the adapter in \<open>mux/ws.rs\<close>) and \<open>Service_Properties\<close>: routing,
    upgrade and proxying; the client's request; which requests become tunnels, what a prober sees, and that both sides of the
    handshake agree. The locale \<open>header_map\<close> states what is used of header maps.
  \<^item> \<open>Server_Forward\<close> (\<open>server/forwarder.rs\<close>), \<open>Server_Websocket\<close> (\<open>server/websocket.rs\<close>) and \<open>Server_Properties\<close>: forwarders and the loop of one
    tunnel; \<open>nat_step\<close> specifies a table of UDP sessions, and the locale \<open>refinement\<close> of the prelude carries runs of the server to runs of it.
  \<^item> \<open>Tunnel\<close>: streams and datagrams from the client's frames to the network. This theory puts the parts together: a TCP connection from
    the client's listener to the server's target and the start of its relay, and a UDP datagram to the network and its answer back.
  \<^item> \<open>Acme\<close>, \<open>Acme_Properties\<close> (\<open>server/acme\<close>): challenges, waiting for an order, issuing and the renewal task; bounds of the wait,
    clean-up.
  \<^item> \<open>Server_Main\<close>, \<open>Server_Main_Properties\<close> (\<open>server/mod.rs\<close>): listening addresses, the TLS identity over the life of the server, timeouts of
    connections; and whom the client's TLS configuration trusts.
  \<^item> \<open>Client_Main\<close>: shared resources and entry of the client, local sockets, standard input and output as a side of the copying.
  \<^item> \<open>Tls_Native\<close> (\<open>tls/native.rs\<close>): the alternative TLS back end.

  \<^bold>\<open>Bounds and fuel.\<close>
  Loops over queues and over given results are structural recursions. \<open>next_available_key\<close> recurses over the list of draws
  and answers \<open>None\<close> when they are used up. The loops of \<open>Copy_Bidirectional\<close> take fuel; one more than the number of unread octets and
  than the credit is enough (\<open>copy_poll_exact\<close>). Runs of a client connection and of the retry loop are over the list of events that happen, and
  \<open>None\<close> says that the loop still runs after them. The wait for an ACME order takes fuel, for which 11 is enough whatever the
  authority answers (\<open>order_wait_bounded\<close>); polling for the certificate has no bound in the code, and \<open>issue_returns\<close> says how much fuel is
  enough given when the authority answers.

  \<^bold>\<open>What is not modelled.\<close>
  Clap's parsing of the argument vector (what it guarantees is \<open>server_args_ok\<close>), log output and the texts of errors, the deadlock detector
  of \<open>main.rs\<close>, the HTTPS connector of the proxy, which only calls its library, the cheap-clone trait of \<open>mux/dupe.rs\<close>, the re-exports
  for loom, and the output of \<open>Debug\<close>. Tests, benchmarks and fuzz targets are not part of the model; what the fuzz targets look for is excluded by
  \<open>frame_decode_errors\<close> and \<open>mux_never_panics\<close>.
\<close>

section \<open>A connection from a local program to its target\<close>

text \<open>The forwarder that the server starts for an accepted stream: it connects to where the stream's \<open>Connect\<close> said.\<close>

lemma forwarder_connects:
  assumes "accepts_streams i v" and "utf8_valid h" and "connect (bytes_str h) port = Ok remote" and "peer remote = Ok addr"
    and "ch_queue (tx_frame (sv_mux v)) = []" and "i \<notin> set (ch_queue (dropped_ports (sv_mux v)))"
  obtains b1 t sb where "deliver (new_connect h port i n) (sv_mux v) = (b1, Ready (Ok False))"
    "server_loop_step StreamAccepted (v\<lparr>sv_mux := b1\<rparr>) = (t, None)" "sv_streams t = sv_streams v @ [sb]"
    "ch_queue (tx_frame (sv_mux t)) = [fin (new_acknowledge i (mux_rwnd (sv_mux v)))]"
    "tcp_forwarder_on_channel connect peer sb (tx_rest [] (sv_mux t))
      = (tx_rest [] (sv_mux t), Ok (into_copy_bidirectional_with_buf sb remote (tx_rest [] (sv_mux t))))"
    "new_side i n (sv_mux v) sb (tx_rest [] (sv_mux t))"
proof -
  from stream_served [OF assms(1), of h port n] obtain b1 where b1: "deliver (new_connect h port i n) (sv_mux v) = (b1, Ready (Ok False))"
    "server_loop_step StreamAccepted (v\<lparr>sv_mux := b1\<rparr>) = (Tunnel.served i n h port v, None)" by blast
  let ?t = "Tunnel.served i n h port v" and ?sb = "new_stream_of i n h port (sv_mux v)"
  have tx: "ch_rx_open (tx_frame (sv_mux v))" using assms(1) by (simp add: accepts_streams_def)
  have "ms_dest_host ?sb = h" "ms_dest_port ?sb = port" by (simp_all add: new_stream_of_def)
  then have "tcp_forwarder_on_channel connect peer ?sb (tx_rest [] (sv_mux ?t))
      = (tx_rest [] (sv_mux ?t), Ok (into_copy_bidirectional_with_buf ?sb remote (tx_rest [] (sv_mux ?t))))"
    using assms(2-4) by (simp add: tcp_forwarder_on_channel_def from_utf8_def)
  moreover have "new_side i n (sv_mux v) ?sb (tx_rest [] (sv_mux ?t))"
    using tx assms(6) by (auto simp: new_side_def Tunnel.served_def tx_rest_def flow_queue_def)
  moreover have "ch_queue (tx_frame (sv_mux ?t)) = [fin (new_acknowledge i (mux_rwnd (sv_mux v)))]"
    using tx assms(5) by (simp add: Tunnel.served_def)
  ultimately show thesis using that [OF b1(1,2)] by (simp add: Tunnel.served_def)
qed

text \<open>
  C7: A TCP connection through the tunnel, from its acceptance by the client's listener to the first octet: the listener asks the main loop
  for a stream to the remote's host and port; the main loop's request is one Connect frame; the server's loop accepts the stream and its forwarder
  connects to exactly that host and port; its Acknowledge frame completes the request, and the main loop hands the stream
  to the listener. The two copying futures that are then started, one on the local connection and one on the target's, are an initial state of
  a relay: both ways open, nothing in flight, each end with the other's window as its credit. All that holds of the states a relay reaches,
  with and without faults, holds of this connection from then on. The identifier is unused at the server and no drop of an older stream
  with it waits to be noticed.
\<close>

theorem tcp_tunnel_opens:
  assumes "fst (handle_tcp_iter rhost rport True (Ok ()) True) = Some (sc_host sc, sc_port sc)" and "utf8_valid (str_bytes rhost)"
    and "ch_queue (cs_commands s) = sc # rest" and "mux_wf (cs_mux s)" and "next_available_key ds (flows (cs_mux s)) = Some (i, ds')"
    and "ch_rx_open (tx_frame (cs_mux s))" and "ch_queue (tx_frame (cs_mux s)) = []" and "i \<notin> set (ch_queue (dropped_ports (cs_mux s)))"
    and "accepts_streams i v" and "ch_queue (tx_frame (sv_mux v)) = []" and "i \<notin> set (ch_queue (dropped_ports (sv_mux v)))"
    and "connect rhost rport = Ok remote" and "peer remote = Ok addr"
    and "party_ok p" and "py_window p = mux_rwnd (cs_mux s)" and "py_sink p local = []" and "py_source p local = py_sends p"
    and "party_ok q" and "py_window q = mux_rwnd (sv_mux v)" and "py_sink q remote = []" and "py_source q remote = py_sends q"
  shows "\<exists>a1 k cn b1 t sb c an a2 a3 sa s'.
      new_stream_attempt (sc_host sc) (sc_port sc) ds (cs_mux s) = Some (a1, ds', Ok k) \<and> ch_queue (tx_frame a1) = [fin cn]
    \<and> deliver cn (sv_mux v) = (b1, Ready (Ok False))
    \<and> server_loop_step StreamAccepted (v\<lparr>sv_mux := b1\<rparr>) = (t, None) \<and> sv_streams t = sv_streams v @ [sb]
    \<and> ch_queue (tx_frame (sv_mux t)) = [fin an]
    \<and> tcp_forwarder_on_channel connect peer sb (tx_rest [] (sv_mux t)) = (tx_rest [] (sv_mux t), Ok c) \<and> cb_other c = remote
    \<and> deliver an (tx_rest [] a1) = (a2, Ready (Ok False)) \<and> poll_wait retries k a2 = (a3, NsDone, Ready (Ok sa))
    \<and> on_connected_step (CommandReceived (Ok (Ok sa)) a3) s = (s', None) \<and> cs_answered s' = cs_answered s @ [(sc, sa)]
    \<and> relay_init i p q (\<lparr>ep_copy = into_copy_bidirectional_with_buf sa local (cs_mux s'), ep_result = None\<rparr>, \<lparr>ep_copy = c, ep_result = None\<rparr>)"
proof -
  let ?h = "str_bytes rhost" and ?n = "mux_rwnd (cs_mux s)" and ?k = "mux_rwnd (sv_mux v)"
  have sc: "sc_host sc = ?h" "sc_port sc = rport" using assms(1) by (simp_all add: handle_tcp_iter_def)
  have "connect (bytes_str ?h) rport = Ok remote" using assms(12) by simp
  from forwarder_connects [where connect = connect and peer = peer, OF assms(9,2) this assms(13,10,11), of ?n] obtain b1 t sb where
    b: "deliver (new_connect ?h rport i ?n) (sv_mux v) = (b1, Ready (Ok False))" "server_loop_step StreamAccepted (v\<lparr>sv_mux := b1\<rparr>) = (t, None)"
    "sv_streams t = sv_streams v @ [sb]" "ch_queue (tx_frame (sv_mux t)) = [fin (new_acknowledge i ?k)]"
    "tcp_forwarder_on_channel connect peer sb (tx_rest [] (sv_mux t))
      = (tx_rest [] (sv_mux t), Ok (into_copy_bidirectional_with_buf sb remote (tx_rest [] (sv_mux t))))"
    "new_side i ?n (sv_mux v) sb (tx_rest [] (sv_mux t))" by blast
  have "?n \<noteq> 0" using assms(4) by (simp add: mux_wf_rwnd)
  from requested_side [OF this assms(5-8), of ?h rport ?k retries] obtain a1 k a2 a3 sa where
    a: "new_stream_attempt ?h rport ds (cs_mux s) = Some (a1, ds', Ok k)" "ch_queue (tx_frame a1) = [fin (new_connect ?h rport i ?n)]"
    "deliver (new_acknowledge i ?k) (tx_rest [] a1) = (a2, Ready (Ok False))" "poll_wait retries k a2 = (a3, NsDone, Ready (Ok sa))"
    "new_side i ?k (tx_rest [] a1) sa a3" "mux_rwnd (tx_rest [] a1) = ?n" by blast
  obtain s' where s': "on_connected_step (CommandReceived (Ok (Ok sa)) a3) s = (s', None)" "cs_answered s' = cs_answered s @ [(sc, sa)]" "cs_mux s' = a3"
    using assms(3) by (simp add: on_connected_step_def poll_recv_def get_send_stream_chan_def)
  have "relay_init i p q (\<lparr>ep_copy = into_copy_bidirectional_with_buf sa local a3, ep_result = None\<rparr>,
      \<lparr>ep_copy = into_copy_bidirectional_with_buf sb remote (tx_rest [] (sv_mux t)), ep_result = None\<rparr>)"
    by (rule new_sides_relay [OF a(5) b(6)]) (use a(6) assms(14-21) in simp_all)
  moreover have "cb_other (into_copy_bidirectional_with_buf sb remote (tx_rest [] (sv_mux t))) = remote"
    by (simp add: into_copy_bidirectional_with_buf_def)
  ultimately show ?thesis using a(1-4) b(1-5) s' sc by metis
qed

definition connect_pipe :: "string \<Rightarrow> u16 \<Rightarrow> (io_error, bytes \<times> bytes) outcome" where
  "connect_pipe host port = (if host = ''h'' \<and> port = 80 then Ok ([9], []) else Err ConnectionRefused)"

theorem tcp_tunnel_opens_witness:
  "\<exists>c sa (s' :: client_state). cs_answered s' = [(\<lparr>sc_tx = 0, sc_host = [104], sc_port = 80\<rparr>, sa)] \<and> cb_other c = ([9], [])
    \<and> relay_init 7 left_party (right_party\<lparr>py_window := 512\<rparr>)
        (\<lparr>ep_copy = into_copy_bidirectional_with_buf sa ([1, 2, 3], []) (cs_mux s'), ep_result = None\<rparr>, \<lparr>ep_copy = c, ep_result = None\<rparr>)"
proof -
  let ?sc = "\<lparr>sc_tx = 0, sc_host = [104], sc_port = 80\<rparr>"
  let ?p = left_party and ?s = "client0\<lparr>cs_mux := mux0\<rparr>" and ?q = "right_party\<lparr>py_window := 512\<rparr>"
  have h: "str_bytes ''h'' = [104]" by (simp add: str_bytes_def)
  have l: "fst (handle_tcp_iter ''h'' 80 True (Ok ()) True) = Some (sc_host ?sc, sc_port ?sc)" "utf8_valid (str_bytes ''h'')"
    by (simp_all add: handle_tcp_iter_def h)
  have m: "ch_queue (cs_commands ?s) = ?sc # []" "mux_wf (cs_mux ?s)" "next_available_key [7] (flows (cs_mux ?s)) = Some (7, [])"
    "ch_rx_open (tx_frame (cs_mux ?s))" "ch_queue (tx_frame (cs_mux ?s)) = []" "(7 :: u32) \<notin> set (ch_queue (dropped_ports (cs_mux ?s)))"
    using mux0_wf by (simp_all add: client0_def chan0_def mux0_def mpsc_unbounded_def)
  have v: "ch_queue (tx_frame (sv_mux srv0)) = []" "(7 :: u32) \<notin> set (ch_queue (dropped_ports (sv_mux srv0)))"
    by (simp_all add: srv0_def mpsc_unbounded_def)
  have c: "connect_pipe ''h'' 80 = Ok ([9], [])" "(\<lambda>_. Ok (SocketV4 9 80)) ([9 :: u8], [] :: bytes) = Ok (SocketV4 9 80)" by (simp_all add: connect_pipe_def)
  have p: "party_ok ?p" "party_ok ?q" by (simp_all add: party_ok_def left_party_def right_party_def pipe_contract)
  have w: "py_window ?p = mux_rwnd (cs_mux ?s)" "py_window ?q = mux_rwnd (sv_mux srv0)" by (simp_all add: mux0_def srv0_def left_party_def)
  have b: "py_sink ?p ([1, 2, 3], []) = []" "py_source ?p ([1, 2, 3], []) = py_sends ?p" "py_sink ?q ([9], []) = []" "py_source ?q ([9], []) = py_sends ?q"
    by (simp_all add: left_party_def right_party_def)
  have ans: "cs_answered ?s = []" by (simp add: client0_def)
  from tcp_tunnel_opens [where connect = connect_pipe and peer = "\<lambda>_. Ok (SocketV4 9 80)" and retries = 2, OF l m srv0_accepts(1) v c p(1) w(1) b(1,2) p(2) w(2) b(3,4)]
  show ?thesis unfolding ans append_Nil by blast
qed

section \<open>A datagram from a local program to the network and its answer\<close>

text \<open>
  What the client does with a registered datagram at the head of its queue, and with an answer that arrives under a registered
  identifier.
\<close>

lemma client_sends_datagram:
  assumes "ch_queue (cs_datagrams s) = dg # q" and "length (dg_target_host dg) \<le> 255" and "ch_rx_open (tx_frame (cs_mux s))"
  shows "on_connected_step DatagramReceived s = (s\<lparr>cs_datagrams := (cs_datagrams s)\<lparr>ch_queue := q\<rparr>,
    cs_mux := queue_frame (new_datagram_owned (dg_flow_id dg) (dg_target_host dg) (dg_target_port dg) (dg_data dg)) (cs_mux s)\<rparr>, None)"
  using assms send_datagram_open [of dg "cs_mux s"] by (simp add: on_connected_step_def poll_recv_def)

lemma client_routes_answer:
  assumes "maps_ok m" and "us_local_addr sock = Some our" and "draws_ok draws"
    and "add_udp_client now draws addr sock s5 m = Some (Ok (cs_maps s, rest, dg_flow_id dg))"
    and "ch_queue (datagram_ch (cs_mux s)) = []"
  shows "\<exists>s2 sock' octets. on_connected_step DatagramArrived
        (s\<lparr>cs_mux := (cs_mux s)\<lparr>datagram_ch := ch_push dg (datagram_ch (cs_mux s))\<rparr>\<rparr>) = (s2, None)
      \<and> cs_replies s2 = cs_replies s @ [ToSocket sock' addr octets] \<and> us_local_addr sock' = Some our
      \<and> octets \<in> {dg_data dg, udp_relay_response addr (dg_data dg)}"
proof -
  from add_spec [OF assms(1-4)] obtain e where ok: "maps_ok (cs_maps s)" and e: "map_of (client_id_map (cs_maps s)) (dg_flow_id dg) = Some e"
    "peer_addr e = addr" "our_addr e = our" "dg_flow_id dg \<noteq> 0" by (metis outcome.inject(1) prod.inject)
  have sock: "us_local_addr (ce_socket e) = Some our"
    using inverse_maps_id(2) [OF maps_ok_inverse [OF ok] e(1)] e(3) by simp
  have "send_datagram_reply (cs_maps s) (dg_flow_id dg) (dg_data dg) =
      Some (ToSocket (ce_socket e) addr (if ce_socks5 e then udp_relay_response addr (dg_data dg) else dg_data dg))"
    using e by (simp add: send_datagram_reply_def del: map_of_eq_Some_iff)
  with assms(5) sock show ?thesis
    by (auto simp: on_connected_step_def get_datagram_def poll_recv_def ch_push_def ok_or_closed_def)
qed


definition client_dgram :: client_state where
  "client_dgram = client0\<lparr>cs_maps := maps1,
     cs_datagrams := chan0 [\<lparr>dg_flow_id = 7, dg_target_host = [104], dg_target_port = 53, dg_data = [1, 2, 3, 4]\<rparr>]\<rparr>"


end
